(* ===== verification/Prelude.thy ===== *)
theory Prelude
  imports Complex_Main "HOL-Library.AList" "HOL-Library.Sublist"
begin

text \<open>
  Shared vocabulary of the development: JavaScript's insertion-ordered \<^verbatim>\<open>Map\<close> as an
  association list with the library's \<^theory_text>\<open>AList\<close> operations, the string helpers the
  TypeScript sources call (\<^verbatim>\<open>includes\<close>, \<^verbatim>\<open>split\<close>, \<^verbatim>\<open>trim\<close>), the collections of facts
  that the component theories extend, and the generic lemmas they share.
\<close>

section \<open>Fact collections\<close>

named_theorems horizon_defs \<open>definitions of operations that component proofs unfold\<close>
named_theorems horizon_inv \<open>preservation of the component invariants\<close>

section \<open>JavaScript maps\<close>

text \<open>
  \<^verbatim>\<open>Map\<close> iterates in insertion order; \<^verbatim>\<open>set\<close> on a present key keeps the key's position and
  \<^verbatim>\<open>set\<close> on a new key appends. \<^const>\<open>AList.update\<close> and \<^const>\<open>AList.delete\<close> do exactly that.
\<close>

type_synonym ('k, 'v) jsmap = "('k \<times> 'v) list"

abbreviation jm_get :: "('k, 'v) jsmap \<Rightarrow> 'k \<Rightarrow> 'v option" where
  "jm_get m k \<equiv> map_of m k"

abbreviation jm_set :: "'k \<Rightarrow> 'v \<Rightarrow> ('k, 'v) jsmap \<Rightarrow> ('k, 'v) jsmap" where
  "jm_set \<equiv> AList.update"

abbreviation jm_delete :: "'k \<Rightarrow> ('k, 'v) jsmap \<Rightarrow> ('k, 'v) jsmap" where
  "jm_delete \<equiv> AList.delete"

abbreviation jm_keys :: "('k, 'v) jsmap \<Rightarrow> 'k list" where
  "jm_keys m \<equiv> map fst m"

abbreviation jm_values :: "('k, 'v) jsmap \<Rightarrow> 'v list" where
  "jm_values m \<equiv> map snd m"

abbreviation jm_has :: "('k, 'v) jsmap \<Rightarrow> 'k \<Rightarrow> bool" where
  "jm_has m k \<equiv> k \<in> fst ` set m"

text \<open>Every \<^verbatim>\<open>Map\<close> has at most one entry per key.\<close>

abbreviation jm_wf :: "('k, 'v) jsmap \<Rightarrow> bool" where
  "jm_wf m \<equiv> distinct (map fst m)"

declare map_of_eq_Some_iff [simp del] and Some_eq_map_of_iff [simp del]

text \<open>All keys of a map with numbered keys were allocated below \<open>n\<close>.\<close>

definition fresh_from :: "(nat, 'v) jsmap \<Rightarrow> nat \<Rightarrow> bool" where
  "fresh_from m n \<longleftrightarrow> (\<forall>k \<ge> n. map_of m k = None)"

lemma jm_get_set [simp]: "jm_get (jm_set k v m) k' = (if k' = k then Some v else jm_get m k')"
  by (simp add: update_conv)

lemma jm_get_delete [simp]: "jm_get (jm_delete k m) k' = (if k' = k then None else jm_get m k')"
  by (simp add: delete_conv)

lemma fresh_from_Nil [simp]: "fresh_from [] n"
  by (simp add: fresh_from_def)

lemma fresh_from_set [simp]: "fresh_from m n \<Longrightarrow> k < n \<Longrightarrow> fresh_from (jm_set k v m) n"
  by (auto simp: fresh_from_def)

lemma fresh_from_Suc [simp]: "fresh_from m n \<Longrightarrow> fresh_from m (Suc n)"
  by (simp add: fresh_from_def)

lemma fresh_fromD: "fresh_from m n \<Longrightarrow> n \<le> k \<Longrightarrow> jm_get m k = None"
  by (simp add: fresh_from_def)

lemma jm_wf_set [simp]: "jm_wf m \<Longrightarrow> jm_wf (jm_set k v m)"
  by (rule distinct_update)

lemma jm_wf_delete [simp]: "jm_wf m \<Longrightarrow> jm_wf (jm_delete k m)"
  by (rule distinct_delete)

lemma jm_wf_filter [simp]: "jm_wf m \<Longrightarrow> jm_wf (filter P m)"
  by (induction m) auto

lemma jm_has_get: "jm_has m k \<longleftrightarrow> jm_get m k \<noteq> None"
  by (force simp: map_of_eq_None_iff)

lemma jm_set_new: "\<not> jm_has m k \<Longrightarrow> jm_set k v m = m @ [(k, v)]"
  by (induction m) auto

lemma jm_get_filter:
  "jm_wf m \<Longrightarrow> jm_get (filter P m) k =
     (case jm_get m k of Some v \<Rightarrow> (if P (k, v) then Some v else None) | None \<Rightarrow> None)"
  by (induction m) (auto simp: map_of_eq_None_iff image_iff split: option.splits)

lemma jm_keys_set: "jm_keys (jm_set k v m) = (if jm_has m k then jm_keys m else jm_keys m @ [k])"
  by (induction m) auto

lemma length_jm_set: "length (jm_set k v m) = (if jm_has m k then length m else Suc (length m))"
  by (induction m) auto

lemma length_jm_delete_le: "length (jm_delete k m) \<le> length m"
  by (rule length_delete_le)

lemma length_jm_delete:
  "jm_wf m \<Longrightarrow> length (jm_delete k m) = (if jm_has m k then length m - 1 else length m)"
proof (induction m)
  case (Cons p m)
  have "m \<noteq> []" if "jm_has m k"
    using that by auto
  with Cons show ?case
    by (cases "fst p = k")
      (auto simp: AList.delete_eq image_iff filter_id_conv split: if_splits dest: Suc_pred [of "length m"])
qed simp

lemma set_jm_delete: "set (jm_delete k m) = {p \<in> set m. fst p \<noteq> k}"
  by (auto simp: AList.delete_eq)

lemma set_jm_set: "jm_wf m \<Longrightarrow> set (jm_set k v m) = insert (k, v) {p \<in> set m. fst p \<noteq> k}"
  by (induction m) (auto simp: image_iff)

lemma jm_get_in_set: "jm_get m k = Some v \<Longrightarrow> (k, v) \<in> set m"
  by (rule map_of_SomeD)

lemma in_set_jm_get: "jm_wf m \<Longrightarrow> (k, v) \<in> set m \<Longrightarrow> jm_get m k = Some v"
  by (rule map_of_is_SomeI)

section \<open>JavaScript strings\<close>

text \<open>\<^verbatim>\<open>s.includes(t)\<close>.\<close>

definition str_includes :: "string \<Rightarrow> string \<Rightarrow> bool" where
  "str_includes s t = sublist t s"

text \<open>A string that is neither undefined nor empty.\<close>

definition str_truthy :: "string option \<Rightarrow> bool" where
  "str_truthy s \<longleftrightarrow> s \<noteq> None \<and> s \<noteq> Some ''''"

text \<open>ASCII white space as \<^verbatim>\<open>trim\<close> and \<^verbatim>\<open>parseInt\<close> skip it.\<close>

definition js_space :: "char \<Rightarrow> bool" where
  "js_space c = (c \<in> {CHR '' '', CHR 0x09, CHR 0x0A, CHR 0x0B, CHR 0x0C, CHR 0x0D})"

definition js_trim :: "string \<Rightarrow> string" where
  "js_trim s = rev (dropWhile js_space (rev (dropWhile js_space s)))"

text \<open>\<^verbatim>\<open>s.split(c)[0]\<close> for a one-character separator.\<close>

definition split_first :: "char \<Rightarrow> string \<Rightarrow> string" where
  "split_first c s = takeWhile (\<lambda>x. x \<noteq> c) s"

lemma split_first_no_sep: "c \<notin> set (split_first c s)"
  unfolding split_first_def by (auto dest: set_takeWhileD)

section \<open>Integers\<close>

text \<open>\<^verbatim>\<open>Math.ceil(a / d)\<close> on integers.\<close>

definition ceil_div :: "int \<Rightarrow> int \<Rightarrow> int" where
  "ceil_div a d = - ((- a) div d)"

lemma ceil_div_bounds: "0 < d \<Longrightarrow> a \<le> d * ceil_div a d \<and> d * ceil_div a d < a + d"
proof -
  assume d: "0 < d"
  have "d * ((- a) div d) = - a - (- a) mod d"
    by (simp add: minus_mod_eq_mult_div)
  with d pos_mod_bound [of d "- a"] pos_mod_sign [of d "- a"] show ?thesis
    by (simp add: ceil_div_def)
qed

section \<open>Lists\<close>

lemma filter_map_snd_length: "length (filter (\<lambda>x. P (snd x)) m) = length (filter P (map snd m))"
  by (induction m) auto

section \<open>Array slices\<close>

text \<open>\<^verbatim>\<open>xs.slice(a, b)\<close>, with negative positions counted from the end.\<close>

definition slice_pos :: "'a list \<Rightarrow> int \<Rightarrow> nat" where
  "slice_pos xs a = (if a < 0 then nat (max 0 (int (length xs) + a)) else nat (min a (int (length xs))))"

definition js_slice :: "'a list \<Rightarrow> int \<Rightarrow> int \<Rightarrow> 'a list" where
  "js_slice xs a b = take (slice_pos xs b - slice_pos xs a) (drop (slice_pos xs a) xs)"

lemma js_slice_nat: "js_slice xs (int i) (int i + int n) = take n (drop i xs)"
proof (cases "i \<le> length xs")
  case True
  then have "slice_pos xs (int i) = i" "slice_pos xs (int i + int n) = min (i + n) (length xs)"
    by (auto simp: slice_pos_def min_def)
  then show ?thesis by (auto simp: js_slice_def min_def)
next
  case False
  then show ?thesis by (auto simp: js_slice_def slice_pos_def min_def)
qed

end
