(* ===== verification/Semaphore.thy ===== *)
theory Semaphore
  imports Prelude
begin

text \<open>
  \<^verbatim>\<open>lib/async-semaphore.ts\<close>: the counting semaphore that bounds concurrent work. A pending
  \<^verbatim>\<open>acquire\<close> is a promise identified by a number; its closure variable \<^verbatim>\<open>settled\<close> is the
  domain of \<open>sem_outcomes\<close>. A release closure made by \<^verbatim>\<open>makeRelease\<close> is a handle whose
  closure variable \<^verbatim>\<open>released\<close> is stored in \<open>sem_handles\<close>. Calls, aborts and releases
  interleave in any order: they are the events of a step function.
\<close>

section \<open>State and operations\<close>

datatype sem_outcome = Sem_Resolved nat | Sem_Rejected

record sem =
  sem_capacity :: int
  sem_available :: int
  sem_waiters :: "nat list"
  sem_outcomes :: "(nat, sem_outcome) jsmap"
  sem_handles :: "(nat, bool) jsmap"
  sem_next :: nat

definition sem_new :: "int \<Rightarrow> sem" where
  "sem_new c = \<lparr>sem_capacity = c, sem_available = c, sem_waiters = [],
     sem_outcomes = [], sem_handles = [], sem_next = 0\<rparr>"

text \<open>\<^verbatim>\<open>makeRelease\<close> allocates a fresh closure with \<^verbatim>\<open>released = false\<close>.\<close>

definition sem_makeRelease :: "sem \<Rightarrow> nat \<times> sem" where
  "sem_makeRelease s =
     (let h = sem_next s
      in (h, s\<lparr>sem_handles := jm_set h False (sem_handles s), sem_next := Suc h\<rparr>))"

definition sem_settled :: "sem \<Rightarrow> nat \<Rightarrow> bool" where
  "sem_settled s p = (jm_get (sem_outcomes s) p \<noteq> None)"

text \<open>The \<^verbatim>\<open>waiter\<close> closure of a pending acquire: resolve with a release handle, once.\<close>

definition sem_waiter :: "nat \<Rightarrow> nat \<Rightarrow> sem \<Rightarrow> sem" where
  "sem_waiter p h s =
     (if sem_settled s p then s
      else s\<lparr>sem_outcomes := jm_set p (Sem_Resolved h) (sem_outcomes s)\<rparr>)"

text \<open>\<^verbatim>\<open>onAbort\<close>: reject once and leave the queue (\<^verbatim>\<open>indexOf\<close> and \<^verbatim>\<open>splice\<close>).\<close>

definition sem_onAbort :: "nat \<Rightarrow> sem \<Rightarrow> sem" where
  "sem_onAbort p s =
     (if sem_settled s p then s
      else s\<lparr>sem_outcomes := jm_set p Sem_Rejected (sem_outcomes s),
             sem_waiters := remove1 p (sem_waiters s)\<rparr>)"

text \<open>
  \<^verbatim>\<open>acquire\<close>; the flag says that \<^verbatim>\<open>options.signal\<close> is already aborted. It returns the
  promise of the call.
\<close>

definition sem_acquire :: "bool \<Rightarrow> sem \<Rightarrow> nat \<times> sem" where
  "sem_acquire aborted s =
     (let p = sem_next s; s = s\<lparr>sem_next := Suc p\<rparr>
      in if sem_available s > 0
         then let s = s\<lparr>sem_available := sem_available s - 1\<rparr>; (h, s) = sem_makeRelease s
              in (p, s\<lparr>sem_outcomes := jm_set p (Sem_Resolved h) (sem_outcomes s)\<rparr>)
         else if aborted then (p, sem_onAbort p s)
         else (p, s\<lparr>sem_waiters := sem_waiters s @ [p]\<rparr>))"

text \<open>The release closure: hand the permit to the first waiter, else return it.\<close>

definition sem_release :: "nat \<Rightarrow> sem \<Rightarrow> sem" where
  "sem_release h s =
     (case jm_get (sem_handles s) h of
        None \<Rightarrow> s
      | Some True \<Rightarrow> s
      | Some False \<Rightarrow>
          (let s = s\<lparr>sem_handles := jm_set h True (sem_handles s)\<rparr>
           in case sem_waiters s of
                p # ps \<Rightarrow> (let (h', s) = sem_makeRelease (s\<lparr>sem_waiters := ps\<rparr>) in sem_waiter p h' s)
              | [] \<Rightarrow> s\<lparr>sem_available := sem_available s + 1\<rparr>))"

definition sem_getQueueDepth :: "sem \<Rightarrow> nat" where
  "sem_getQueueDepth s = length (sem_waiters s)"

datatype sem_event = Sem_Acquire bool | Sem_Abort nat | Sem_Release nat

text \<open>
  An abort event reaches a pending acquire only: \<^verbatim>\<open>cleanup\<close> removes the listener when the
  promise settles, and an acquire that was served at once never registered one.
\<close>

fun sem_step :: "sem \<Rightarrow> sem_event \<Rightarrow> sem" where
  "sem_step s (Sem_Acquire aborted) = snd (sem_acquire aborted s)"
| "sem_step s (Sem_Abort p) = (if p \<in> set (sem_waiters s) then sem_onAbort p s else s)"
| "sem_step s (Sem_Release h) = sem_release h s"

definition sem_run :: "sem \<Rightarrow> sem_event list \<Rightarrow> sem" where
  "sem_run = foldl sem_step"

section \<open>Invariant\<close>

text \<open>The permits in circulation: release handles that nobody has called yet.\<close>

definition sem_held :: "sem \<Rightarrow> nat" where
  "sem_held s = length (filter (\<lambda>e. \<not> snd e) (sem_handles s))"

definition sem_inv :: "sem \<Rightarrow> bool" where
  "sem_inv s \<longleftrightarrow>
     0 \<le> sem_available s \<and>
     sem_available s + int (sem_held s) = sem_capacity s \<and>
     (0 < sem_available s \<longrightarrow> sem_waiters s = []) \<and>
     distinct (sem_waiters s) \<and>
     (\<forall>p \<in> set (sem_waiters s). \<not> sem_settled s p) \<and>
     (\<forall>p \<in> set (sem_waiters s). p < sem_next s) \<and>
     fresh_from (sem_outcomes s) (sem_next s) \<and>
     fresh_from (sem_handles s) (sem_next s) \<and>
     jm_wf (sem_handles s) \<and> jm_wf (sem_outcomes s)"

lemmas sem_op_defs = sem_makeRelease_def sem_waiter_def sem_onAbort_def sem_acquire_def
  sem_release_def sem_settled_def

text \<open>Flipping one handle to \<open>True\<close> takes exactly one permit out of circulation.\<close>

lemma held_flip:
  "jm_wf m \<Longrightarrow> jm_get m h = Some False \<Longrightarrow>
   Suc (length (filter (\<lambda>e. \<not> snd e) (jm_set h True m))) = length (filter (\<lambda>e. \<not> snd e) m)"
proof (induction m)
  case (Cons e m)
  show ?case
  proof (cases "fst e = h")
    case True
    with Cons.prems have "snd e = False" by auto
    with True show ?thesis by simp
  next
    case False
    with Cons show ?thesis by (cases e) auto
  qed
qed simp

lemma held_new:
  "jm_get m h = None \<Longrightarrow>
   length (filter (\<lambda>e. \<not> snd e) (jm_set h False m)) = Suc (length (filter (\<lambda>e. \<not> snd e) m))"
  using jm_set_new [of h m False] by (simp add: map_of_eq_None_iff)

lemma sem_inv_new: "0 \<le> c \<Longrightarrow> sem_inv (sem_new c)"
  by (simp add: sem_inv_def sem_new_def sem_held_def)

lemma sem_inv_onAbort [horizon_inv]: "sem_inv s \<Longrightarrow> p < sem_next s \<Longrightarrow> sem_inv (sem_onAbort p s)"
  by (auto simp: sem_inv_def sem_onAbort_def sem_settled_def sem_held_def)

lemma sem_inv_tick:
  "sem_inv s \<Longrightarrow> sem_inv (s\<lparr>sem_next := Suc (sem_next s)\<rparr>)"
  by (auto simp: sem_inv_def sem_settled_def sem_held_def)

lemma sem_inv_acquire [horizon_inv]: "sem_inv s \<Longrightarrow> sem_inv (snd (sem_acquire aborted s))"
proof -
  assume inv: "sem_inv s"
  then have freshh: "jm_get (sem_handles s) (Suc (sem_next s)) = None"
    and fresho: "jm_get (sem_outcomes s) (sem_next s) = None"
    by (simp_all add: sem_inv_def fresh_from_def)
  show ?thesis
  proof (cases "sem_available s > 0 \<or> \<not> aborted")
    case True
    with inv freshh fresho show ?thesis
      by (auto simp: sem_inv_def sem_acquire_def sem_makeRelease_def sem_settled_def sem_held_def
          held_new Let_def)
  next
    case False
    with sem_inv_onAbort [OF sem_inv_tick [OF inv]] show ?thesis
      by (simp add: sem_acquire_def Let_def)
  qed
qed

lemma sem_handle_bound: "sem_inv s \<Longrightarrow> jm_get (sem_handles s) h = Some r \<Longrightarrow> h < sem_next s"
  by (metis fresh_fromD linorder_not_less option.distinct(1) sem_inv_def)

lemma sem_inv_release [horizon_inv]: "sem_inv s \<Longrightarrow> sem_inv (sem_release h s)"
proof (cases "jm_get (sem_handles s) h = Some False")
  case True
  assume inv: "sem_inv s"
  from sem_handle_bound [OF inv True] have hn: "h < sem_next s" .
  from inv have freshh: "jm_get (sem_handles s) (sem_next s) = None"
    by (auto simp: sem_inv_def dest: fresh_fromD)
  from inv True have flip: "Suc (length (filter (\<lambda>e. \<not> snd e) (jm_set h True (sem_handles s))))
      = sem_held s"
    by (simp add: held_flip sem_inv_def sem_held_def)
  from hn freshh have keep: "length (filter (\<lambda>e. \<not> snd e)
      (jm_set (sem_next s) False (jm_set h True (sem_handles s))))
      = Suc (length (filter (\<lambda>e. \<not> snd e) (jm_set h True (sem_handles s))))"
    by (intro held_new) simp
  from inv True hn flip keep show ?thesis
    by (auto simp: sem_inv_def sem_op_defs sem_held_def Let_def less_SucI split: list.splits)
qed (auto simp: sem_release_def split: option.splits bool.splits)

lemma sem_inv_step [horizon_inv]: "sem_inv s \<Longrightarrow> sem_inv (sem_step s e)"
  by (cases e) (auto simp: sem_inv_acquire sem_inv_release sem_inv_def [THEN iffD1] intro!: sem_inv_onAbort)

lemma sem_capacity_step [simp]: "sem_capacity (sem_step s e) = sem_capacity s"
  by (cases e) (auto simp: sem_op_defs Let_def split: option.splits bool.splits list.splits)

lemma sem_inv_run: "sem_inv s \<Longrightarrow> sem_inv (sem_run s es)"
  unfolding sem_run_def by (induction es arbitrary: s) (auto intro: sem_inv_step)

lemma sem_capacity_run [simp]: "sem_capacity (sem_run s es) = sem_capacity s"
  unfolding sem_run_def by (induction es arbitrary: s) auto

lemma sem_release_marks:
  "sem_inv s \<Longrightarrow> jm_get (sem_handles s) h = Some r \<Longrightarrow>
   jm_get (sem_handles (sem_release h s)) h = Some True"
  using sem_handle_bound [of s h r]
  by (auto simp: sem_op_defs Let_def split: list.splits option.splits bool.splits)

lemma sem_release_idem: "sem_inv s \<Longrightarrow> sem_release h (sem_release h s) = sem_release h s"
proof (cases "jm_get (sem_handles s) h")
  case None
  then show ?thesis by (simp add: sem_release_def)
next
  case (Some r)
  assume "sem_inv s"
  from sem_release_marks [OF this Some] show ?thesis
    by (simp add: sem_release_def [of h "sem_release h s"])
qed

section \<open>Properties\<close>



text \<open>
  a release closure called while callers wait passes its permit to the caller that has
  waited longest: that acquire resolves with a fresh, unreleased handle, the queue keeps the
  order of the others, and the number of free permits does not change. Calling the closure
  again does nothing, so a permit can never be returned twice.
\<close>

theorem sem_release_fifo_once:
  assumes "0 \<le> c" and "s = sem_run (sem_new c) es"
    and "jm_get (sem_handles s) h = Some False" and "sem_waiters s = p # ps"
  shows "sem_waiters (sem_release h s) = ps
    \<and> sem_available (sem_release h s) = sem_available s
    \<and> jm_get (sem_outcomes (sem_release h s)) p = Some (Sem_Resolved (sem_next s))
    \<and> jm_get (sem_handles (sem_release h s)) (sem_next s) = Some False
    \<and> sem_release h (sem_release h s) = sem_release h s"
proof -
  have inv: "sem_inv s"
    using sem_inv_run [OF sem_inv_new [OF assms(1)]] assms(2) by simp
  with assms(4) have "\<not> sem_settled s p" by (simp add: sem_inv_def)
  moreover from sem_handle_bound [OF inv assms(3)] have "h < sem_next s" .
  ultimately show ?thesis
    using assms(3,4) sem_release_idem [OF inv, of h]
    by (simp add: sem_op_defs Let_def)
qed

theorem sem_release_fifo_once_witness:
  "let s = sem_run (sem_new 1) [Sem_Acquire False, Sem_Acquire False, Sem_Acquire False]
   in jm_get (sem_handles s) 1 = Some False \<and> sem_waiters s = [2, 3]
    \<and> sem_waiters (sem_release 1 s) = [3]
    \<and> jm_get (sem_outcomes (sem_release 1 s)) 2 = Some (Sem_Resolved 4)"
proof -
  define s where "s = sem_run (sem_new 1) [Sem_Acquire False, Sem_Acquire False, Sem_Acquire False]"
  have h: "jm_get (sem_handles s) 1 = Some False" and w: "sem_waiters s = [2, 3]"
    and n: "sem_next s = 4"
    by (simp_all add: s_def sem_run_def sem_new_def sem_op_defs)
  have "(0::int) \<le> 1" by simp
  from sem_release_fifo_once [OF this s_def h w] h w n show ?thesis
    by (simp add: Let_def flip: s_def)
qed

end
