(* ===== verification/Ws_Rate_Limiter.thy ===== *)
theory Ws_Rate_Limiter
  imports Prelude
begin

text \<open>
  \<^verbatim>\<open>lib/ws-rate-limiter.ts\<close>: the token-bucket limiter of the WebSocket gateways. Token
  counts and rates are exact rationals (the source computes them as doubles), times are the
  millisecond values of \<^verbatim>\<open>Date.now()\<close>, read once per call and passed as \<open>now\<close>. A rate of
  \<open>0\<close> makes \<^verbatim>\<open>1000 / rate\<close> infinite, which is \<open>None\<close> here.
\<close>

section \<open>Data\<close>

record ws_config =
  rc_maxMessagesPerSecond :: rat
  rc_burstLimit :: rat
  rc_disconnectOnExceed :: bool
  rc_cleanupIntervalMs :: "int option"
  rc_staleConnectionMs :: "int option"

record ws_result =
  rr_allowed :: bool
  rr_remaining :: rat
  rr_shouldDisconnect :: bool
  rr_retryAfterMs :: "int option"

record token_bucket =
  tb_tokens :: rat
  tb_lastRefill :: int
  tb_violations :: int
  tb_lastActivity :: int

record ws_limiter =
  wl_buckets :: "(string, token_bucket) jsmap"
  wl_config :: ws_config
  wl_totalViolations :: int
  wl_cleanupActive :: bool

record ws_stats =
  ws_activeConnections :: nat
  ws_totalLimitViolations :: int
  ws_stats_config :: ws_config

definition DEFAULT_RATE_LIMIT_CONFIG :: ws_config where
  "DEFAULT_RATE_LIMIT_CONFIG = \<lparr>rc_maxMessagesPerSecond = 100, rc_burstLimit = 150,
     rc_disconnectOnExceed = True, rc_cleanupIntervalMs = Some 60000,
     rc_staleConnectionMs = Some 300000\<rparr>"

definition ws_new :: "ws_config \<Rightarrow> ws_limiter" where
  "ws_new cfg = \<lparr>wl_buckets = [], wl_config = cfg, wl_totalViolations = 0, wl_cleanupActive = True\<rparr>"

section \<open>Operations\<close>

definition ws_tokensToAdd :: "ws_config \<Rightarrow> int \<Rightarrow> rat" where
  "ws_tokensToAdd cfg elapsedMs = (of_int elapsedMs / 1000) * rc_maxMessagesPerSecond cfg"

definition refillTokens :: "ws_config \<Rightarrow> token_bucket \<Rightarrow> int \<Rightarrow> token_bucket" where
  "refillTokens cfg b now =
     (let tokensToAdd = ws_tokensToAdd cfg (now - tb_lastRefill b)
      in if tokensToAdd > 0
         then b\<lparr>tb_tokens := min (rc_burstLimit cfg) (tb_tokens b + tokensToAdd), tb_lastRefill := now\<rparr>
         else b)"

definition ws_newBucket :: "ws_config \<Rightarrow> int \<Rightarrow> token_bucket" where
  "ws_newBucket cfg now = \<lparr>tb_tokens = rc_burstLimit cfg, tb_lastRefill = now,
     tb_violations = 0, tb_lastActivity = now\<rparr>"

definition ws_msPerToken :: "ws_config \<Rightarrow> rat option" where
  "ws_msPerToken cfg =
     (if rc_maxMessagesPerSecond cfg = 0 then None else Some (1000 / rc_maxMessagesPerSecond cfg))"

definition checkLimit :: "int \<Rightarrow> string \<Rightarrow> ws_limiter \<Rightarrow> ws_result \<times> ws_limiter" where
  "checkLimit now connectionId s =
     (let cfg = wl_config s;
          b = (case jm_get (wl_buckets s) connectionId of
                 Some b \<Rightarrow> b | None \<Rightarrow> ws_newBucket cfg now);
          b = (refillTokens cfg b now)\<lparr>tb_lastActivity := now\<rparr>
      in if tb_tokens b \<ge> 1
         then let b = b\<lparr>tb_tokens := tb_tokens b - 1\<rparr>
              in (\<lparr>rr_allowed = True, rr_remaining = of_int \<lfloor>tb_tokens b\<rfloor>,
                   rr_shouldDisconnect = False, rr_retryAfterMs = Some 0\<rparr>,
                  s\<lparr>wl_buckets := jm_set connectionId b (wl_buckets s)\<rparr>)
         else let b = b\<lparr>tb_violations := tb_violations b + 1\<rparr>
              in (\<lparr>rr_allowed = False, rr_remaining = 0,
                   rr_shouldDisconnect = rc_disconnectOnExceed cfg,
                   rr_retryAfterMs = map_option ceiling (ws_msPerToken cfg)\<rparr>,
                  s\<lparr>wl_buckets := jm_set connectionId b (wl_buckets s),
                    wl_totalViolations := wl_totalViolations s + 1\<rparr>))"

definition peekLimit :: "int \<Rightarrow> string \<Rightarrow> ws_limiter \<Rightarrow> ws_result" where
  "peekLimit now connectionId s =
     (let cfg = wl_config s
      in case jm_get (wl_buckets s) connectionId of
           None \<Rightarrow> \<lparr>rr_allowed = True, rr_remaining = rc_burstLimit cfg,
                     rr_shouldDisconnect = False, rr_retryAfterMs = Some 0\<rparr>
         | Some b \<Rightarrow>
             (let currentTokens = min (rc_burstLimit cfg)
                    (tb_tokens b + ws_tokensToAdd cfg (now - tb_lastRefill b))
              in if currentTokens \<ge> 1
                 then \<lparr>rr_allowed = True, rr_remaining = of_int \<lfloor>currentTokens\<rfloor>,
                       rr_shouldDisconnect = False, rr_retryAfterMs = Some 0\<rparr>
                 else \<lparr>rr_allowed = False, rr_remaining = 0,
                       rr_shouldDisconnect = rc_disconnectOnExceed cfg,
                       rr_retryAfterMs =
                         map_option (\<lambda>m. \<lceil>(1 - currentTokens) * m\<rceil>) (ws_msPerToken cfg)\<rparr>))"

definition removeConnection :: "string \<Rightarrow> ws_limiter \<Rightarrow> ws_limiter" where
  "removeConnection connectionId s = s\<lparr>wl_buckets := jm_delete connectionId (wl_buckets s)\<rparr>"

definition resetConnection :: "int \<Rightarrow> string \<Rightarrow> ws_limiter \<Rightarrow> ws_limiter" where
  "resetConnection now connectionId s =
     (case jm_get (wl_buckets s) connectionId of
        None \<Rightarrow> s
      | Some b \<Rightarrow> s\<lparr>wl_buckets := jm_set connectionId
          (b\<lparr>tb_tokens := rc_burstLimit (wl_config s), tb_lastRefill := now, tb_violations := 0\<rparr>)
          (wl_buckets s)\<rparr>)"

definition ws_getStats :: "ws_limiter \<Rightarrow> ws_stats" where
  "ws_getStats s = \<lparr>ws_activeConnections = length (wl_buckets s),
     ws_totalLimitViolations = wl_totalViolations s, ws_stats_config = wl_config s\<rparr>"

definition getConnectionViolations :: "string \<Rightarrow> ws_limiter \<Rightarrow> int" where
  "getConnectionViolations connectionId s =
     (case jm_get (wl_buckets s) connectionId of Some b \<Rightarrow> tb_violations b | None \<Rightarrow> 0)"

definition ws_destroy :: "ws_limiter \<Rightarrow> ws_limiter" where
  "ws_destroy s = s\<lparr>wl_cleanupActive := False, wl_buckets := []\<rparr>"

definition ws_staleMs :: "ws_config \<Rightarrow> int" where
  "ws_staleMs cfg = (case rc_staleConnectionMs cfg of Some m \<Rightarrow> m | None \<Rightarrow> 300000)"

text \<open>One firing of the interval that \<^verbatim>\<open>startCleanup\<close> installs.\<close>

definition ws_cleanup :: "int \<Rightarrow> ws_limiter \<Rightarrow> ws_limiter" where
  "ws_cleanup now s =
     (if wl_cleanupActive s
      then s\<lparr>wl_buckets := filter (\<lambda>e. \<not> (now - tb_lastActivity (snd e) > ws_staleMs (wl_config s)))
               (wl_buckets s)\<rparr>
      else s)"

text \<open>
  The traffic of a gateway: messages of connections, and the cleanup timer, each at the time
  of its clock reading. The result counts the messages of one connection that were allowed.
\<close>

datatype ws_event = Ws_Message string | Ws_CleanupTick

fun ws_step :: "string \<Rightarrow> nat \<times> ws_limiter \<Rightarrow> int \<times> ws_event \<Rightarrow> nat \<times> ws_limiter" where
  "ws_step cid (n, s) (now, Ws_Message c) =
     (let (r, s') = checkLimit now c s in (if c = cid \<and> rr_allowed r then Suc n else n, s'))"
| "ws_step cid (n, s) (now, Ws_CleanupTick) = (n, ws_cleanup now s)"

definition ws_run :: "string \<Rightarrow> ws_limiter \<Rightarrow> (int \<times> ws_event) list \<Rightarrow> nat \<times> ws_limiter" where
  "ws_run cid s es = foldl (ws_step cid) (0, s) es"

section \<open>Invariant and credit\<close>

definition ws_bucket_ok :: "ws_config \<Rightarrow> int \<Rightarrow> token_bucket \<Rightarrow> bool" where
  "ws_bucket_ok cfg now b \<longleftrightarrow> 0 \<le> tb_tokens b \<and> tb_tokens b \<le> rc_burstLimit cfg
     \<and> tb_lastRefill b \<le> now \<and> tb_lastActivity b \<le> now
     \<and> (tb_lastRefill b \<le> tb_lastActivity b \<or> tb_tokens b = rc_burstLimit cfg)"

definition ws_inv :: "int \<Rightarrow> ws_limiter \<Rightarrow> bool" where
  "ws_inv now s \<longleftrightarrow> jm_wf (wl_buckets s)
     \<and> (\<forall>c b. jm_get (wl_buckets s) c = Some b \<longrightarrow> ws_bucket_ok (wl_config s) now b)"

definition ws_config_ok :: "ws_config \<Rightarrow> bool" where
  "ws_config_ok cfg \<longleftrightarrow> 0 \<le> rc_maxMessagesPerSecond cfg \<and> 0 \<le> rc_burstLimit cfg"

text \<open>What a bucket is worth at a given time.\<close>

definition ws_bucket_credit :: "ws_config \<Rightarrow> int \<Rightarrow> token_bucket \<Rightarrow> rat" where
  "ws_bucket_credit cfg now b =
     min (rc_burstLimit cfg) (tb_tokens b + ws_tokensToAdd cfg (now - tb_lastRefill b))"

definition ws_credit :: "int \<Rightarrow> ws_limiter \<Rightarrow> string \<Rightarrow> rat" where
  "ws_credit now s cid = (case jm_get (wl_buckets s) cid of
     None \<Rightarrow> rc_burstLimit (wl_config s) | Some b \<Rightarrow> ws_bucket_credit (wl_config s) now b)"

lemma tokensToAdd_nonneg: "ws_config_ok cfg \<Longrightarrow> 0 \<le> d \<Longrightarrow> 0 \<le> ws_tokensToAdd cfg d"
  by (simp add: ws_tokensToAdd_def ws_config_ok_def)

lemma tokensToAdd_add: "ws_tokensToAdd cfg (a + b) = ws_tokensToAdd cfg a + ws_tokensToAdd cfg b"
  by (simp add: ws_tokensToAdd_def algebra_simps add_divide_distrib)

lemma tokensToAdd_mono: "ws_config_ok cfg \<Longrightarrow> a \<le> b \<Longrightarrow> ws_tokensToAdd cfg a \<le> ws_tokensToAdd cfg b"
  using tokensToAdd_add [of cfg a "b - a"] tokensToAdd_nonneg [of cfg "b - a"] by simp

lemma refill_credit:
  assumes "ws_config_ok cfg" and "ws_bucket_ok cfg now b"
  shows "tb_tokens (refillTokens cfg b now) = ws_bucket_credit cfg now b"
  using assms tokensToAdd_nonneg [of cfg "now - tb_lastRefill b"]
  by (auto simp: refillTokens_def ws_bucket_credit_def ws_bucket_ok_def Let_def not_less)

lemma refill_ok:
  assumes "ws_config_ok cfg" and "ws_bucket_ok cfg now b"
  shows "ws_bucket_ok cfg now ((refillTokens cfg b now)\<lparr>tb_lastActivity := now\<rparr>)"
  using assms by (auto simp: refillTokens_def ws_bucket_ok_def Let_def ws_config_ok_def)

lemma newBucket_ok: "ws_config_ok cfg \<Longrightarrow> ws_bucket_ok cfg now (ws_newBucket cfg now)"
  by (simp add: ws_bucket_ok_def ws_newBucket_def ws_config_ok_def)

lemma newBucket_credit: "ws_bucket_credit cfg now (ws_newBucket cfg now) = rc_burstLimit cfg"
  by (simp add: ws_bucket_credit_def ws_newBucket_def ws_tokensToAdd_def)

lemma credit_after_refill:
  assumes "ws_config_ok cfg" and "ws_bucket_ok cfg now b"
  shows "ws_tokensToAdd cfg (now - tb_lastRefill (refillTokens cfg b now)) = 0"
  using assms tokensToAdd_nonneg [of cfg "now - tb_lastRefill b"]
  by (auto simp: refillTokens_def Let_def ws_bucket_ok_def) (auto simp: ws_tokensToAdd_def)

text \<open>The bucket a call works on, after the refill.\<close>

definition ws_refilled :: "int \<Rightarrow> string \<Rightarrow> ws_limiter \<Rightarrow> token_bucket" where
  "ws_refilled now c s = (refillTokens (wl_config s)
     (case jm_get (wl_buckets s) c of Some b \<Rightarrow> b | None \<Rightarrow> ws_newBucket (wl_config s) now) now)
       \<lparr>tb_lastActivity := now\<rparr>"

lemma checkLimit_eq:
  "checkLimit now c s = (let b = ws_refilled now c s in if tb_tokens b \<ge> 1
     then (\<lparr>rr_allowed = True, rr_remaining = of_int \<lfloor>tb_tokens b - 1\<rfloor>,
              rr_shouldDisconnect = False, rr_retryAfterMs = Some 0\<rparr>,
           s\<lparr>wl_buckets := jm_set c (b\<lparr>tb_tokens := tb_tokens b - 1\<rparr>) (wl_buckets s)\<rparr>)
     else (\<lparr>rr_allowed = False, rr_remaining = 0,
              rr_shouldDisconnect = rc_disconnectOnExceed (wl_config s),
              rr_retryAfterMs = map_option ceiling (ws_msPerToken (wl_config s))\<rparr>,
           s\<lparr>wl_buckets := jm_set c (b\<lparr>tb_violations := tb_violations b + 1\<rparr>) (wl_buckets s),
             wl_totalViolations := wl_totalViolations s + 1\<rparr>))"
  by (simp add: checkLimit_def Let_def ws_refilled_def)

lemma refilled_facts:
  assumes cfg: "ws_config_ok (wl_config s)" and inv: "ws_inv now s"
  shows "tb_tokens (ws_refilled now c s) = ws_credit now s c"
    and "ws_bucket_ok (wl_config s) now (ws_refilled now c s)"
    and "ws_tokensToAdd (wl_config s) (now - tb_lastRefill (ws_refilled now c s)) = 0"
proof -
  define b where "b = (case jm_get (wl_buckets s) c of Some b \<Rightarrow> b | None \<Rightarrow> ws_newBucket (wl_config s) now)"
  have r: "ws_refilled now c s = (refillTokens (wl_config s) b now)\<lparr>tb_lastActivity := now\<rparr>"
    by (simp add: ws_refilled_def b_def)
  have ok: "ws_bucket_ok (wl_config s) now b"
    using inv cfg newBucket_ok by (auto simp: b_def ws_inv_def split: option.splits)
  have cr: "ws_bucket_credit (wl_config s) now b = ws_credit now s c"
    by (auto simp: b_def ws_credit_def newBucket_credit split: option.splits)
  show "tb_tokens (ws_refilled now c s) = ws_credit now s c"
    using refill_credit [OF cfg ok] cr by (simp add: r)
  show "ws_bucket_ok (wl_config s) now (ws_refilled now c s)"
    using refill_ok [OF cfg ok] by (simp add: r)
  show "ws_tokensToAdd (wl_config s) (now - tb_lastRefill (ws_refilled now c s)) = 0"
    using credit_after_refill [OF cfg ok] by (simp add: r)
qed

lemma refilled_activity [simp]: "tb_lastActivity (ws_refilled now c s) = now"
  by (simp add: ws_refilled_def)

lemma credit_le_burst: "ws_credit now s c \<le> rc_burstLimit (wl_config s)"
  by (simp add: ws_credit_def ws_bucket_credit_def split: option.splits)

lemma credit_nonneg:
  "ws_config_ok (wl_config s) \<Longrightarrow> ws_inv now s \<Longrightarrow> 0 \<le> ws_credit now s c"
  using tokensToAdd_nonneg
  by (fastforce simp: ws_credit_def ws_bucket_credit_def ws_inv_def ws_bucket_ok_def ws_config_ok_def
      split: option.splits)

text \<open>One call, in terms of the credit of the connection.\<close>

lemma checkLimit_allowed:
  "ws_config_ok (wl_config s) \<Longrightarrow> ws_inv now s \<Longrightarrow>
   rr_allowed (fst (checkLimit now c s)) \<longleftrightarrow> ws_credit now s c \<ge> 1"
  by (simp add: checkLimit_eq Let_def refilled_facts)

lemma checkLimit_credit:
  assumes "ws_config_ok (wl_config s)" and "ws_inv now s"
  shows "ws_credit now (snd (checkLimit now c s)) c =
    ws_credit now s c - (if rr_allowed (fst (checkLimit now c s)) then 1 else 0)"
proof -
  note r = refilled_facts [OF assms, of c]
  have "ws_credit now (s\<lparr>wl_buckets := jm_set c b (wl_buckets s)\<rparr>) c =
      ws_bucket_credit (wl_config s) now b" for b
    by (simp add: ws_credit_def)
  moreover have "ws_credit now (s\<lparr>wl_buckets := jm_set c b (wl_buckets s), wl_totalViolations := v\<rparr>) c =
      ws_bucket_credit (wl_config s) now b" for b v
    by (simp add: ws_credit_def)
  ultimately show ?thesis
    using r credit_le_burst [of now s c] by (auto simp: checkLimit_eq Let_def ws_bucket_credit_def)
qed

lemma checkLimit_credit_other:
  "c' \<noteq> c \<Longrightarrow> ws_credit t (snd (checkLimit now c s)) c' = ws_credit t s c'"
  by (auto simp: checkLimit_eq Let_def ws_credit_def split: option.splits)

lemma checkLimit_config [simp]: "wl_config (snd (checkLimit now c s)) = wl_config s"
  by (simp add: checkLimit_eq Let_def)

lemma checkLimit_inv [horizon_inv]:
  assumes "ws_config_ok (wl_config s)" and "ws_inv now s"
  shows "ws_inv now (snd (checkLimit now c s))"
  using assms(2) refilled_facts(2) [OF assms, of c]
  by (auto simp: checkLimit_eq Let_def ws_inv_def ws_bucket_ok_def)

lemma ws_inv_later: "ws_inv now s \<Longrightarrow> now \<le> t \<Longrightarrow> ws_inv t s"
  by (fastforce simp: ws_inv_def ws_bucket_ok_def)

lemma bucket_credit_later:
  assumes "ws_config_ok cfg" and "now \<le> t"
  shows "ws_bucket_credit cfg t b \<le> ws_bucket_credit cfg now b + ws_tokensToAdd cfg (t - now)"
proof -
  have "ws_tokensToAdd cfg (t - tb_lastRefill b)
      = ws_tokensToAdd cfg (now - tb_lastRefill b) + ws_tokensToAdd cfg (t - now)"
    by (simp flip: tokensToAdd_add)
  moreover have "0 \<le> ws_tokensToAdd cfg (t - now)"
    using assms by (simp add: tokensToAdd_nonneg)
  ultimately show ?thesis
    by (simp add: ws_bucket_credit_def min_def)
qed

lemma credit_later:
  "ws_config_ok (wl_config s) \<Longrightarrow> now \<le> t \<Longrightarrow>
   ws_credit t s c \<le> ws_credit now s c + ws_tokensToAdd (wl_config s) (t - now)"
  by (simp add: ws_credit_def bucket_credit_later tokensToAdd_nonneg split: option.splits)

section \<open>Cleanup does not change what a connection may send\<close>

lemma ws_cleanup_inv [horizon_inv]: "ws_inv now s \<Longrightarrow> ws_inv now (ws_cleanup now s)"
  by (auto simp: ws_inv_def ws_cleanup_def jm_get_filter split: option.splits if_splits)

lemma ws_cleanup_config [simp]: "wl_config (ws_cleanup now s) = wl_config s"
  by (simp add: ws_cleanup_def)

lemma stale_bucket_full:
  assumes cfg: "ws_config_ok cfg" and ok: "ws_bucket_ok cfg now b"
    and full: "rc_burstLimit cfg \<le> ws_tokensToAdd cfg (ws_staleMs cfg)"
    and stale: "now - tb_lastActivity b > ws_staleMs cfg"
  shows "ws_bucket_credit cfg now b = rc_burstLimit cfg"
proof (cases "tb_lastRefill b \<le> tb_lastActivity b")
  case True
  with stale have "ws_tokensToAdd cfg (ws_staleMs cfg) \<le> ws_tokensToAdd cfg (now - tb_lastRefill b)"
    by (intro tokensToAdd_mono [OF cfg]) simp
  with full ok show ?thesis
    by (simp add: ws_bucket_credit_def ws_bucket_ok_def)
next
  case False
  with ok tokensToAdd_nonneg [OF cfg, of "now - tb_lastRefill b"] show ?thesis
    by (simp add: ws_bucket_credit_def ws_bucket_ok_def)
qed

lemma ws_cleanup_credit:
  assumes "ws_config_ok (wl_config s)" and "ws_inv now s"
    and "rc_burstLimit (wl_config s) \<le> ws_tokensToAdd (wl_config s) (ws_staleMs (wl_config s))"
  shows "ws_credit now (ws_cleanup now s) c = ws_credit now s c"
  using assms stale_bucket_full [OF assms(1) _ assms(3), of now]
  by (auto simp: ws_credit_def ws_cleanup_def ws_inv_def jm_get_filter split: option.splits)

section \<open>Runs\<close>

definition ws_times_ok :: "int \<Rightarrow> (int \<times> ws_event) list \<Rightarrow> int \<Rightarrow> bool" where
  "ws_times_ok t0 es t1 \<longleftrightarrow> sorted (t0 # map fst es @ [t1])"

lemma ws_step_bound:
  assumes cfg: "ws_config_ok (wl_config s)" and inv: "ws_inv t s"
    and full: "rc_burstLimit (wl_config s) \<le> ws_tokensToAdd (wl_config s) (ws_staleMs (wl_config s))"
    and step: "ws_step cid (n, s) (t, e) = (n', s')"
  shows "of_nat n' + ws_credit t s' cid = of_nat n + ws_credit t s cid"
    and "ws_inv t s'" and "wl_config s' = wl_config s"
proof -
  show "ws_inv t s'" "wl_config s' = wl_config s"
    using step checkLimit_inv [OF cfg inv] ws_cleanup_inv [OF inv]
    by (cases e; auto simp: Let_def split_beta)+
  show "of_nat n' + ws_credit t s' cid = of_nat n + ws_credit t s cid"
  proof (cases e)
    case (Ws_Message c)
    with step checkLimit_credit [OF cfg inv, of c] checkLimit_credit_other [of cid c t t s]
    show ?thesis by (cases "c = cid") (auto simp: Let_def split_beta split: if_splits)
  next
    case Ws_CleanupTick
    with step ws_cleanup_credit [OF cfg inv full, of cid] show ?thesis by simp
  qed
qed

lemma ws_run_bound:
  assumes "ws_config_ok (wl_config s)" and "ws_inv t0 s" and "ws_times_ok t0 es t1"
    and "rc_burstLimit (wl_config s) \<le> ws_tokensToAdd (wl_config s) (ws_staleMs (wl_config s))"
  shows "of_nat (fst (foldl (ws_step cid) (n, s) es))
    \<le> of_nat n + ws_credit t0 s cid + ws_tokensToAdd (wl_config s) (t1 - t0)"
  using assms
proof (induction es arbitrary: n s t0)
  case Nil
  then show ?case by (simp add: ws_times_ok_def tokensToAdd_nonneg credit_nonneg)
next
  case (Cons ev es)
  obtain t e where ev: "ev = (t, e)" by (cases ev)
  obtain n' s' where step: "ws_step cid (n, s) (t, e) = (n', s')"
    by (cases "ws_step cid (n, s) (t, e)")
  from Cons.prems(3) ev have t: "t0 \<le> t" "t \<le> t1" and times: "ws_times_ok t es t1"
    by (auto simp: ws_times_ok_def)
  note inv = ws_inv_later [OF Cons.prems(2) t(1)]
  note st = ws_step_bound [OF Cons.prems(1) inv Cons.prems(4) step]
  have "of_nat (fst (foldl (ws_step cid) (n', s') es))
      \<le> of_nat n' + ws_credit t s' cid + ws_tokensToAdd (wl_config s') (t1 - t)"
    using Cons.prems st times by (intro Cons.IH) auto
  with st(1,3) credit_later [OF Cons.prems(1) t(1), of cid] step ev show ?case
    using tokensToAdd_add [of "wl_config s" "t - t0" "t1 - t"] by simp
qed

section \<open>Properties\<close>

text \<open>
  C21: the guarantee of the token bucket. Between \<open>t0\<close> and \<open>t1\<close>, with messages of any number
  of connections and cleanup ticks interleaved in clock order, one connection gets at most
  \<open>burstLimit + maxMessagesPerSecond * (t1 - t0) / 1000\<close> messages through, provided a bucket
  refills completely within the staleness limit (so that forgetting an idle bucket grants
  nothing), as the default configuration does.
\<close>

theorem ws_allowed_bound:
  assumes "ws_config_ok (wl_config s)" and "ws_inv t0 s" and "ws_times_ok t0 es t1"
    and "rc_burstLimit (wl_config s) \<le> ws_tokensToAdd (wl_config s) (ws_staleMs (wl_config s))"
  shows "of_nat (fst (ws_run cid s es))
    \<le> rc_burstLimit (wl_config s) + of_int (t1 - t0) / 1000 * rc_maxMessagesPerSecond (wl_config s)"
  using ws_run_bound [OF assms, of cid 0] credit_le_burst [of t0 s cid]
  by (simp add: ws_run_def ws_tokensToAdd_def)

theorem ws_allowed_bound_witness:
  "let s = ws_new (DEFAULT_RATE_LIMIT_CONFIG\<lparr>rc_burstLimit := 1\<rparr>);
       es = [(0, Ws_Message ''a''), (1, Ws_Message ''a''), (5, Ws_CleanupTick), (20, Ws_Message ''a'')]
   in fst (ws_run ''a'' s es) = 2 \<and> of_nat (fst (ws_run ''a'' s es)) \<le> (1 + 20 / 1000 * 100 :: rat)"
proof -
  define s where "s = ws_new (DEFAULT_RATE_LIMIT_CONFIG\<lparr>rc_burstLimit := 1\<rparr>)"
  define es :: "(int \<times> ws_event) list" where "es = [(0, Ws_Message ''a''), (1, Ws_Message ''a''), (5, Ws_CleanupTick), (20, Ws_Message ''a'')]"
  note defs = s_def es_def ws_new_def DEFAULT_RATE_LIMIT_CONFIG_def
  have cfg: "ws_config_ok (wl_config s)" by (simp add: defs ws_config_ok_def)
  have inv: "ws_inv 0 s" by (simp add: defs ws_inv_def)
  have times: "ws_times_ok 0 es 20" by (simp add: defs ws_times_ok_def)
  have full: "rc_burstLimit (wl_config s) \<le> ws_tokensToAdd (wl_config s) (ws_staleMs (wl_config s))"
    by (simp add: defs ws_tokensToAdd_def ws_staleMs_def)
  have "fst (ws_run ''a'' s es) = 2"
    by (simp add: defs ws_run_def checkLimit_def refillTokens_def ws_newBucket_def ws_tokensToAdd_def
        ws_cleanup_def ws_staleMs_def Let_def)
  with ws_allowed_bound [OF cfg inv times full, of "''a''"] show ?thesis
    by (simp add: defs Let_def)
qed

text \<open>
  \<^verbatim>\<open>peekLimit\<close> predicts \<^verbatim>\<open>checkLimit\<close>: for a tracked connection it reports \<open>allowed\<close>
  exactly when the next check at the same time is allowed, and then its \<open>remaining\<close> is one more
  than what the check leaves; for an untracked one both allow when the burst limit is at least 1.
\<close>

theorem ws_peek_predicts_check:
  assumes "ws_config_ok (wl_config s)" and "ws_inv now s" and "1 \<le> rc_burstLimit (wl_config s)"
  shows "rr_allowed (peekLimit now c s) = rr_allowed (fst (checkLimit now c s))
    \<and> (rr_allowed (peekLimit now c s) \<and> jm_has (wl_buckets s) c \<longrightarrow>
        rr_remaining (peekLimit now c s) = rr_remaining (fst (checkLimit now c s)) + 1)"
proof -
  note tok = refilled_facts(1) [OF assms(1,2), of c]
  show ?thesis
  proof (cases "jm_get (wl_buckets s) c")
    case None
    with tok assms(3) show ?thesis
      by (auto simp: peekLimit_def checkLimit_eq Let_def ws_credit_def jm_has_get)
  next
    case (Some b)
    with tok show ?thesis
      by (simp add: peekLimit_def checkLimit_eq Let_def ws_credit_def flip: ws_bucket_credit_def)
  qed
qed

theorem ws_peek_predicts_check_witness:
  "let s = snd (checkLimit 0 ''a'' (ws_new DEFAULT_RATE_LIMIT_CONFIG))
   in rr_allowed (peekLimit 0 ''a'' s) = rr_allowed (fst (checkLimit 0 ''a'' s))
    \<and> rr_remaining (peekLimit 0 ''a'' s) = 149"
proof -
  define s where "s = snd (checkLimit 0 ''a'' (ws_new DEFAULT_RATE_LIMIT_CONFIG))"
  have s: "wl_config s = DEFAULT_RATE_LIMIT_CONFIG" by (simp add: s_def ws_new_def)
  have cfg: "ws_config_ok (wl_config s)" by (simp add: s DEFAULT_RATE_LIMIT_CONFIG_def ws_config_ok_def)
  have "ws_inv 0 s"
    unfolding s_def
    by (rule checkLimit_inv) (simp_all add: ws_new_def ws_inv_def ws_config_ok_def DEFAULT_RATE_LIMIT_CONFIG_def)
  moreover have "1 \<le> rc_burstLimit (wl_config s)" by (simp add: s DEFAULT_RATE_LIMIT_CONFIG_def)
  moreover have "rr_remaining (peekLimit 0 ''a'' s) = 149"
    by (simp add: s_def ws_new_def DEFAULT_RATE_LIMIT_CONFIG_def checkLimit_def peekLimit_def
        ws_newBucket_def refillTokens_def ws_tokensToAdd_def)
  ultimately show ?thesis
    using ws_peek_predicts_check [OF cfg, of 0 "''a''"] by (simp add: Let_def flip: s_def)
qed

text \<open>
  the \<open>retryAfterMs\<close> of a denied message is enough: if the connection stays silent for that
  long, its next message is allowed. (It is the period of one whole token, so it may
  overestimate the wait.)
\<close>

theorem ws_retry_after_sufficient:
  assumes "ws_config_ok (wl_config s)" and "ws_inv now s" and "1 \<le> rc_burstLimit (wl_config s)"
    and "checkLimit now c s = (r, s')" and "\<not> rr_allowed r" and "rr_retryAfterMs r = Some d"
  shows "rr_allowed (fst (checkLimit (now + d) c s'))"
proof -
  note tok = refilled_facts [OF assms(1,2), of c]
  let ?b = "ws_refilled now c s" and ?cfg = "wl_config s"
  from assms(4,5) tok have s': "jm_get (wl_buckets s') c = Some (?b\<lparr>tb_violations := tb_violations ?b + 1\<rparr>)"
    and cfg': "wl_config s' = ?cfg" and r: "rr_retryAfterMs r = map_option ceiling (ws_msPerToken ?cfg)"
    by (auto simp: checkLimit_eq Let_def split: if_splits)
  from r assms(6) have pos: "rc_maxMessagesPerSecond ?cfg \<noteq> 0"
    and d: "1000 / rc_maxMessagesPerSecond ?cfg \<le> of_int d"
    by (auto simp: ws_msPerToken_def le_of_int_ceiling split: if_splits)
  from pos assms(1) have rate: "0 < rc_maxMessagesPerSecond ?cfg" by (simp add: ws_config_ok_def)
  with d have one: "1 \<le> ws_tokensToAdd ?cfg d" by (simp add: ws_tokensToAdd_def field_simps)
  from rate d have "(0::rat) \<le> of_int d" by (meson divide_nonneg_pos order_trans zero_le_numeral)
  then have d0: "0 \<le> d" by simp
  have "ws_inv (now + d) s'"
    using checkLimit_inv [OF assms(1,2), of c] assms(4) d0 by (auto intro: ws_inv_later)
  moreover have "ws_credit (now + d) s' c \<ge> 1"
    using s' cfg' one assms(3) tok(2) tok(3) tokensToAdd_add [of ?cfg d "now - tb_lastRefill ?b"]
    by (simp add: ws_credit_def ws_bucket_credit_def ws_bucket_ok_def algebra_simps)
  ultimately show ?thesis
    using assms(1) cfg' by (simp add: checkLimit_allowed)
qed

theorem ws_retry_after_sufficient_witness:
  "let s = snd (checkLimit 0 ''a'' (ws_new (DEFAULT_RATE_LIMIT_CONFIG\<lparr>rc_burstLimit := 1\<rparr>)))
   in \<not> rr_allowed (fst (checkLimit 3 ''a'' s))
    \<and> rr_allowed (fst (checkLimit (3 + 10) ''a'' (snd (checkLimit 3 ''a'' s))))"
proof -
  define s0 where "s0 = ws_new (DEFAULT_RATE_LIMIT_CONFIG\<lparr>rc_burstLimit := 1\<rparr>)"
  define s where "s = snd (checkLimit 0 ''a'' s0)"
  have c0: "ws_config_ok (wl_config s0)" "wl_config s = wl_config s0"
    by (simp_all add: s_def s0_def ws_new_def ws_config_ok_def DEFAULT_RATE_LIMIT_CONFIG_def)
  have "ws_inv 0 s" unfolding s_def
    by (rule checkLimit_inv [OF c0(1)]) (simp add: s0_def ws_new_def ws_inv_def)
  then have inv: "ws_inv 3 s" by (rule ws_inv_later) simp
  have burst: "1 \<le> rc_burstLimit (wl_config s)"
    by (simp add: c0 s0_def ws_new_def)
  have deny: "\<not> rr_allowed (fst (checkLimit 3 ''a'' s))"
    and d: "rr_retryAfterMs (fst (checkLimit 3 ''a'' s)) = Some 10"
    by (simp_all add: s_def s0_def ws_new_def DEFAULT_RATE_LIMIT_CONFIG_def checkLimit_def
        ws_newBucket_def refillTokens_def ws_tokensToAdd_def ws_msPerToken_def)
  have cfg: "ws_config_ok (wl_config s)" using c0 by simp
  have "rr_allowed (fst (checkLimit (3 + 10) ''a'' (snd (checkLimit 3 ''a'' s))))"
    by (rule ws_retry_after_sufficient [OF cfg inv burst _ deny d]) simp
  with deny show ?thesis by (simp add: Let_def s_def s0_def)
qed

text \<open>
  every operation keeps every bucket between empty and the burst limit, with clock
  readings no later than the present: checks, resets, removals, the cleanup tick and the
  shutdown.
\<close>

theorem ws_bucket_invariant:
  assumes "ws_config_ok (wl_config s)" and "ws_inv now s"
  shows "ws_inv now (snd (checkLimit now c s)) \<and> ws_inv now (resetConnection now c s)
    \<and> ws_inv now (removeConnection c s) \<and> ws_inv now (ws_cleanup now s) \<and> ws_inv now (ws_destroy s)"
proof -
  have "ws_inv now (resetConnection now c s)"
    using assms by (fastforce simp: resetConnection_def ws_inv_def ws_bucket_ok_def ws_config_ok_def
        split: option.splits)
  moreover have "ws_inv now (removeConnection c s)" "ws_inv now (ws_destroy s)"
    using assms(2) by (auto simp: removeConnection_def ws_destroy_def ws_inv_def split: if_splits)
  ultimately show ?thesis
    using assms by (simp add: checkLimit_inv ws_cleanup_inv)
qed

theorem ws_bucket_invariant_witness:
  "ws_inv 7 (snd (checkLimit 7 ''a'' (ws_new DEFAULT_RATE_LIMIT_CONFIG)))"
proof -
  have "ws_config_ok (wl_config (ws_new DEFAULT_RATE_LIMIT_CONFIG))" "ws_inv 7 (ws_new DEFAULT_RATE_LIMIT_CONFIG)"
    by (simp_all add: ws_new_def DEFAULT_RATE_LIMIT_CONFIG_def ws_config_ok_def ws_inv_def)
  from ws_bucket_invariant [OF this] show ?thesis by blast
qed

end
