(* ===== verification/Fixed_Window.thy ===== *)
theory Fixed_Window
  imports Prelude
begin

text \<open>
  The counters per key and time window: the failed-authentication lockout and the general
  limiter of \<^verbatim>\<open>middleware/rate-limiter.ts\<close>, and the in-memory store of
  \<^verbatim>\<open>services/warroom/trigger-rate-limit-store.ts\<close>. They share one contract, the locale
  \<open>window_counter\<close>: a hit opens a window or counts in the open one. Each of the three is an
  interpretation of it, and what they guarantee rests on the lemmas proved in the locale.
\<close>

section \<open>The contract\<close>

locale window_counter =
  fixes hit :: "int \<Rightarrow> 'k \<Rightarrow> ('k, 'e) jsmap \<Rightarrow> ('k, 'e) jsmap"
    and cnt :: "'e \<Rightarrow> int"
    and live :: "int \<Rightarrow> 'e \<Rightarrow> bool"
    and span :: int
  assumes live_before: "live t e \<Longrightarrow> t' \<le> t \<Longrightarrow> live t' e"
    and hit_other: "k' \<noteq> k \<Longrightarrow> jm_get (hit now k m) k' = jm_get m k'"
    and hit_fresh: "(\<forall>e. jm_get m k = Some e \<longrightarrow> \<not> live now e) \<Longrightarrow>
      \<exists>e. jm_get (hit now k m) k = Some e \<and> cnt e = 1 \<and> (\<forall>t. live t e \<longleftrightarrow> t \<le> now + span)"
    and hit_live: "jm_get m k = Some e \<Longrightarrow> live now e \<Longrightarrow>
      \<exists>e'. jm_get (hit now k m) k = Some e' \<and> cnt e' = cnt e + 1 \<and> (\<forall>t. live t e' = live t e)"
begin

lemma hits_missed:
  "k \<notin> snd ` set es \<Longrightarrow> jm_get (foldl (\<lambda>m (t, k). hit t k m) m es) k = jm_get m k"
  by (induction es rule: rev_induct) (auto simp: hit_other)

text \<open>
  All hits of one window count, whatever other keys do in between: after the events \<open>es\<close>, all
  within \<open>span\<close> of \<open>start\<close>, a key with no live entry at \<open>start\<close> has an entry that is live for the
  rest of the window and whose count is the number of its hits.
\<close>

lemma hits_counted:
  assumes "\<forall>e. jm_get m k = Some e \<longrightarrow> \<not> live start e"
    and "\<forall>(t, _) \<in> set es. start \<le> t \<and> t \<le> start + span"
    and "k \<in> snd ` set es"
  shows "\<exists>e. jm_get (foldl (\<lambda>m (t, k). hit t k m) m es) k = Some e
     \<and> cnt e = int (length (filter (\<lambda>x. snd x = k) es)) \<and> (\<forall>t \<le> start + span. live t e)"
  using assms(2,3)
proof (induction es rule: rev_induct)
  case (snoc ev es)
  obtain t k' where ev: "ev = (t, k')" by (cases ev)
  let ?m = "foldl (\<lambda>m (t, k). hit t k m) m es"
  from snoc.prems ev have t: "start \<le> t" "t \<le> start + span" by auto
  show ?case
  proof (cases "k \<in> snd ` set es")
    case True
    with snoc obtain e where e: "jm_get ?m k = Some e"
      "cnt e = int (length (filter (\<lambda>x. snd x = k) es))" "\<forall>t \<le> start + span. live t e"
      by auto
    with t hit_live [OF e(1), of t] hit_other [of k k' t ?m] ev show ?thesis
      by (cases "k' = k") auto
  next
    case False
    then have none: "filter (\<lambda>x. snd x = k) es = []" by (auto simp: filter_empty_conv)
    from hits_missed [OF False] assms(1) t have "\<forall>e. jm_get ?m k = Some e \<longrightarrow> \<not> live t e"
      using live_before by metis
    moreover from False snoc.prems(2) ev have "k' = k" by auto
    ultimately show ?thesis
      using hit_fresh [of ?m k t] ev none t by fastforce
  qed
qed simp

end

section \<open>Failed-authentication lockout (ADMIN-01)\<close>

record failed_auth_entry =
  fa_count :: int
  fa_resetAt :: int

record auth_env =
  env_NODE_ENV :: "string option"
  env_DISABLE_AUTH_LOCKOUT :: "string option"

type_synonym failed_auth_store = "(string, failed_auth_entry) jsmap"

definition MAX_FAILED_AUTH_ATTEMPTS :: int where
  "MAX_FAILED_AUTH_ATTEMPTS = 5"

definition FAILED_AUTH_WINDOW_MS :: int where
  "FAILED_AUTH_WINDOW_MS = 15 * 60 * 1000"

definition failedAuthCleanup :: "int \<Rightarrow> failed_auth_store \<Rightarrow> failed_auth_store" where
  "failedAuthCleanup now store = filter (\<lambda>(_, entry). \<not> fa_resetAt entry < now) store"

definition isAuthLockoutDisabled :: "auth_env \<Rightarrow> bool" where
  "isAuthLockoutDisabled env \<longleftrightarrow>
     env_NODE_ENV env = Some ''development'' \<or> env_DISABLE_AUTH_LOCKOUT env = Some ''true''"

datatype auth_lockout = Locked int | NotLocked

definition checkAuthLockout :: "auth_env \<Rightarrow> int \<Rightarrow> string \<Rightarrow> failed_auth_store \<Rightarrow> auth_lockout" where
  "checkAuthLockout env now clientIp store =
     (if isAuthLockoutDisabled env then NotLocked
      else case jm_get store clientIp of
        None \<Rightarrow> NotLocked
      | Some entry \<Rightarrow>
          if fa_resetAt entry < now then NotLocked
          else if fa_count entry \<ge> MAX_FAILED_AUTH_ATTEMPTS
               then Locked (ceil_div (fa_resetAt entry - now) 1000)
          else NotLocked)"

definition bumpFailedAuth :: "int \<Rightarrow> string \<Rightarrow> failed_auth_store \<Rightarrow> failed_auth_store" where
  "bumpFailedAuth now clientIp store =
     (let fresh = \<lparr>fa_count = 0, fa_resetAt = now + FAILED_AUTH_WINDOW_MS\<rparr>;
          entry = (case jm_get store clientIp of
                     None \<Rightarrow> fresh
                   | Some e \<Rightarrow> if fa_resetAt e < now then fresh else e)
      in jm_set clientIp (entry\<lparr>fa_count := fa_count entry + 1\<rparr>) store)"

definition recordFailedAuth :: "auth_env \<Rightarrow> int \<Rightarrow> string \<Rightarrow> failed_auth_store \<Rightarrow> failed_auth_store" where
  "recordFailedAuth env now clientIp store =
     (if isAuthLockoutDisabled env then store else bumpFailedAuth now clientIp store)"

definition clearFailedAuth :: "string \<Rightarrow> failed_auth_store \<Rightarrow> failed_auth_store" where
  "clearFailedAuth clientIp store = jm_delete clientIp store"

section \<open>General rate limiter\<close>

record rate_limit_entry =
  rl_count :: int
  rl_resetAt :: int

record rate_limiter_options =
  rl_maxRequests :: int
  rl_windowMs :: int
  rl_message :: "string option"

type_synonym rate_limit_store = "(string, rate_limit_entry) jsmap"

record rate_limit_headers =
  hd_limit :: int
  hd_remaining :: int
  hd_reset :: int

datatype rate_limit_outcome =
    RL_Next rate_limit_headers
  | RL_TooMany rate_limit_headers int string \<comment> \<open>status 429: headers, \<open>Retry-After\<close>, message\<close>

definition rl_passed :: "rate_limit_outcome \<Rightarrow> bool" where
  "rl_passed out = (case out of RL_Next _ \<Rightarrow> True | RL_TooMany _ _ _ \<Rightarrow> False)"

definition rl_cleanup :: "int \<Rightarrow> rate_limit_store \<Rightarrow> rate_limit_store" where
  "rl_cleanup now store = filter (\<lambda>(_, entry). \<not> rl_resetAt entry < now) store"

definition rl_touch :: "rate_limiter_options \<Rightarrow> int \<Rightarrow> string \<Rightarrow> rate_limit_store
    \<Rightarrow> rate_limit_entry \<times> rate_limit_store" where
  "rl_touch opts now key store =
     (let fresh = \<lparr>rl_count = 0, rl_resetAt = now + rl_windowMs opts\<rparr>;
          entry = (case jm_get store key of
                     None \<Rightarrow> fresh
                   | Some e \<Rightarrow> if rl_resetAt e < now then fresh else e);
          entry = entry\<lparr>rl_count := rl_count entry + 1\<rparr>
      in (entry, jm_set key entry store))"

text \<open>The request handler that \<^verbatim>\<open>createRateLimiter\<close> returns, for the key of the request.\<close>

definition rateLimiterHandler :: "rate_limiter_options \<Rightarrow> int \<Rightarrow> string \<Rightarrow> rate_limit_store
    \<Rightarrow> rate_limit_outcome \<times> rate_limit_store" where
  "rateLimiterHandler opts now key store =
     (let (entry, store) = rl_touch opts now key store;
          remaining = max 0 (rl_maxRequests opts - rl_count entry);
          resetSeconds = ceil_div (rl_resetAt entry - now) 1000;
          headers = \<lparr>hd_limit = rl_maxRequests opts, hd_remaining = remaining, hd_reset = resetSeconds\<rparr>
      in (if rl_count entry > rl_maxRequests opts
          then RL_TooMany headers resetSeconds
                 (case rl_message opts of Some msg \<Rightarrow> msg
                  | None \<Rightarrow> ''Too many requests, please try again later'')
          else RL_Next headers, store))"

section \<open>Auto-trigger rate limit store (in memory)\<close>

record trigger_count_record =
  tc_count :: int
  tc_windowStart :: int

type_synonym trigger_store = "(string, trigger_count_record) jsmap"

definition trigger_get :: "string \<Rightarrow> trigger_store \<Rightarrow> trigger_count_record option" where
  "trigger_get tenantId counts = jm_get counts tenantId"

definition trigger_set :: "string \<Rightarrow> trigger_count_record \<Rightarrow> trigger_store \<Rightarrow> trigger_store" where
  "trigger_set tenantId r counts = jm_set tenantId r counts"

definition trigger_delete :: "string \<Rightarrow> trigger_store \<Rightarrow> trigger_store" where
  "trigger_delete tenantId counts = jm_delete tenantId counts"

definition incrementAndGet :: "int \<Rightarrow> string \<Rightarrow> int \<Rightarrow> trigger_store \<Rightarrow> int \<times> trigger_store" where
  "incrementAndGet now tenantId windowMs counts =
     (let start = (1, jm_set tenantId \<lparr>tc_count = 1, tc_windowStart = now\<rparr> counts)
      in case jm_get counts tenantId of
           None \<Rightarrow> start
         | Some existing \<Rightarrow>
             if now - tc_windowStart existing > windowMs then start
             else (tc_count existing + 1,
                   jm_set tenantId (existing\<lparr>tc_count := tc_count existing + 1\<rparr>) counts))"

section \<open>The three counters keep the contract\<close>

interpretation auth: window_counter bumpFailedAuth fa_count
  "\<lambda>t e. \<not> fa_resetAt e < t" FAILED_AUTH_WINDOW_MS
proof
  fix m :: failed_auth_store and k now
  assume "\<forall>e. jm_get m k = Some e \<longrightarrow> \<not> \<not> fa_resetAt e < now"
  then show "\<exists>e. jm_get (bumpFailedAuth now k m) k = Some e \<and> fa_count e = 1
      \<and> (\<forall>t. (\<not> fa_resetAt e < t) = (t \<le> now + FAILED_AUTH_WINDOW_MS))"
    by (auto simp: bumpFailedAuth_def Let_def split: option.splits)
qed (auto simp: bumpFailedAuth_def Let_def)

interpretation rl: window_counter "\<lambda>now key store. snd (rl_touch opts now key store)" rl_count
  "\<lambda>t e. \<not> rl_resetAt e < t" "rl_windowMs opts" for opts
proof
  fix m :: rate_limit_store and k now
  assume "\<forall>e. jm_get m k = Some e \<longrightarrow> \<not> \<not> rl_resetAt e < now"
  then show "\<exists>e. jm_get (snd (rl_touch opts now k m)) k = Some e \<and> rl_count e = 1
      \<and> (\<forall>t. (\<not> rl_resetAt e < t) = (t \<le> now + rl_windowMs opts))"
    by (auto simp: rl_touch_def Let_def split: option.splits)
qed (auto simp: rl_touch_def Let_def)

interpretation trig: window_counter "\<lambda>now key store. snd (incrementAndGet now key windowMs store)"
  tc_count "\<lambda>t e. \<not> t - tc_windowStart e > windowMs" windowMs for windowMs
proof
  fix m :: trigger_store and k now
  assume "\<forall>e. jm_get m k = Some e \<longrightarrow> \<not> \<not> now - tc_windowStart e > windowMs"
  then show "\<exists>e. jm_get (snd (incrementAndGet now k windowMs m)) k = Some e \<and> tc_count e = 1
      \<and> (\<forall>t. (\<not> t - tc_windowStart e > windowMs) = (t \<le> now + windowMs))"
    by (auto simp: incrementAndGet_def Let_def split: option.splits)
qed (auto simp: incrementAndGet_def Let_def split: option.splits)

section \<open>Traffic\<close>

text \<open>
  Requests at their clock readings, each with the key the limiter derives for it; the result
  pairs the number of requests of one key that passed with the store.
\<close>

fun rl_step :: "rate_limiter_options \<Rightarrow> string \<Rightarrow> nat \<times> rate_limit_store \<Rightarrow> int \<times> string
    \<Rightarrow> nat \<times> rate_limit_store" where
  "rl_step opts key (n, store) (now, k) =
     (let (out, store') = rateLimiterHandler opts now k store
      in (if k = key \<and> rl_passed out then Suc n else n, store'))"

definition rl_run :: "rate_limiter_options \<Rightarrow> string \<Rightarrow> rate_limit_store \<Rightarrow> (int \<times> string) list
    \<Rightarrow> nat \<times> rate_limit_store" where
  "rl_run opts key store es = foldl (rl_step opts key) (0, store) es"

definition fa_run :: "auth_env \<Rightarrow> failed_auth_store \<Rightarrow> (int \<times> string) list \<Rightarrow> failed_auth_store" where
  "fa_run env store es = foldl (\<lambda>store (now, ip). recordFailedAuth env now ip store) store es"

abbreviation hits_of :: "string \<Rightarrow> (int \<times> string) list \<Rightarrow> nat" where
  "hits_of key es \<equiv> length (filter (\<lambda>x. snd x = key) es)"

lemma rl_handler_store: "snd (rateLimiterHandler opts now k store) = snd (rl_touch opts now k store)"
  by (simp add: rateLimiterHandler_def Let_def split_beta)

lemma rl_handler_passed:
  "rl_passed (fst (rateLimiterHandler opts now k store)) \<longleftrightarrow>
   rl_count (fst (rl_touch opts now k store)) \<le> rl_maxRequests opts"
  by (simp add: rateLimiterHandler_def rl_passed_def Let_def split_beta)

lemma rl_touch_stored: "jm_get (snd (rl_touch opts now k store)) k = Some (fst (rl_touch opts now k store))"
  by (simp add: rl_touch_def Let_def)

lemma rl_run_store:
  "snd (foldl (rl_step opts key) (n, store) es)
     = foldl (\<lambda>m (t, k). snd (rl_touch opts t k m)) store es"
  by (induction es arbitrary: n store) (auto simp: Let_def split_beta rl_handler_store)

lemma rl_run_shift:
  "fst (foldl (rl_step opts key) (n, m) es) = n + fst (foldl (rl_step opts key) (0, m) es)"
proof (induction es arbitrary: n m)
  case (Cons ev es)
  obtain t k where ev: "ev = (t, k)" by (cases ev)
  obtain d m' where step: "rl_step opts key (x, m) (t, k) = (x + d, m')" for x
    by (cases "k = key \<and> rl_passed (fst (rateLimiterHandler opts t k m))")
      (auto simp: Let_def split_beta intro: that [of 1] that [of 0])
  show ?case
    using Cons.IH [of "n + d" m'] Cons.IH [of d m'] step [of n] step [of 0] ev by simp
qed simp

lemma rl_run_append:
  "fst (rl_run opts key store (xs @ ys))
     = fst (rl_run opts key store xs) + fst (rl_run opts key (snd (rl_run opts key store xs)) ys)"
  unfolding rl_run_def foldl_append by (metis prod.collapse rl_run_shift)

lemma rl_window_end_kept:
  "jm_get m key = Some e \<Longrightarrow> t \<le> rl_resetAt e \<Longrightarrow>
   \<exists>e'. jm_get (snd (foldl (rl_step opts key) (n, m) (replicate j (t, key)))) key = Some e'
     \<and> rl_resetAt e' = rl_resetAt e"
proof (induction j arbitrary: n m e)
  case (Suc j)
  let ?m = "snd (rl_touch opts t key m)"
  from Suc.prems have "jm_get ?m key = Some (e\<lparr>rl_count := rl_count e + 1\<rparr>)"
    by (simp add: rl_touch_def Let_def)
  from Suc.IH [OF this] Suc.prems(2) show ?case
    by (simp add: Let_def split_beta rl_handler_store)
qed simp

lemma rl_run_quota:
  assumes "\<forall>e. jm_get store key = Some e \<longrightarrow> rl_resetAt e < tstart"
    and "\<forall>(t, _) \<in> set es. tstart \<le> t \<and> t \<le> tstart + rl_windowMs opts"
    and "0 \<le> rl_maxRequests opts"
  shows "int (fst (rl_run opts key store es)) = min (rl_maxRequests opts) (int (hits_of key es))"
  using assms(2)
proof (induction es rule: rev_induct)
  case Nil
  with assms(3) show ?case by (simp add: rl_run_def)
next
  case (snoc ev es)
  obtain t k where ev: "ev = (t, k)" by (cases ev)
  define m where "m = foldl (\<lambda>m (t, k). snd (rl_touch opts t k m)) store es"
  have IH: "int (fst (rl_run opts key store es)) = min (rl_maxRequests opts) (int (hits_of key es))"
    using snoc by simp
  have m: "snd (rl_run opts key store es) = m" by (simp add: rl_run_def rl_run_store m_def)
  have run: "rl_run opts key store (es @ [ev]) = rl_step opts key (rl_run opts key store es) ev"
    by (simp add: rl_run_def)
  show ?case
  proof (cases "k = key")
    case True
    from rl.hits_counted [where es = "es @ [ev]" and k = key and start = tstart and m = store and opts = opts]
      assms(1) snoc.prems ev True rl_touch_stored [of opts t key m]
    have "rl_count (fst (rl_touch opts t key m)) = int (Suc (hits_of key es))"
      by (fastforce simp: m_def)
    with True ev run m IH show ?thesis
      by (cases "rl_run opts key store es") (auto simp: Let_def split_beta rl_handler_passed)
  next
    case False
    with ev run IH show ?thesis
      by (cases "rl_run opts key store es") (auto simp: Let_def split_beta)
  qed
qed

section \<open>Properties\<close>

text \<open>
  the quota of one window. Requests of any clients, all within \<open>windowMs\<close> of \<open>t0\<close> and in
  any order; if the client has no open window at \<open>t0\<close>, exactly the first \<open>maxRequests\<close> of its
  requests pass and the others are answered with 429, whatever the other clients do.
\<close>

theorem rate_limiter_window_quota:
  assumes "\<forall>e. jm_get store key = Some e \<longrightarrow> rl_resetAt e < t0"
    and "\<forall>(t, _) \<in> set es. t0 \<le> t \<and> t \<le> t0 + rl_windowMs opts"
    and "0 \<le> rl_maxRequests opts"
  shows "int (fst (rl_run opts key store es)) = min (rl_maxRequests opts) (int (hits_of key es))"
  using assms by (rule rl_run_quota)

theorem rate_limiter_window_quota_witness:
  "fst (rl_run \<lparr>rl_maxRequests = 2, rl_windowMs = 60000, rl_message = None\<rparr> ''a'' []
      [(0, ''a''), (5, ''b''), (6, ''a''), (7, ''a'')]) = 2"
proof -
  let ?o = "\<lparr>rl_maxRequests = 2, rl_windowMs = 60000, rl_message = None\<rparr>"
  have "int (fst (rl_run ?o ''a'' [] [(0, ''a''), (5, ''b''), (6, ''a''), (7, ''a'')])) = min 2 3"
    using rate_limiter_window_quota [of "[]" "''a''" 0 "[(0, ''a''), (5, ''b''), (6, ''a''), (7, ''a'')]" ?o]
    by simp
  then show ?thesis by simp
qed

text \<open>
  the window is fixed, not sliding. For every limit there is a schedule in which a client
  passes twice its limit although all but the first of those requests fall within one
  millisecond: one at the start of a window, the others in its last millisecond, and a full
  quota when the next window opens a millisecond later.
\<close>

theorem rate_limiter_not_sliding:
  assumes "1 \<le> maxR" and "1 \<le> w"
  shows "fst (rl_run \<lparr>rl_maxRequests = int maxR, rl_windowMs = w, rl_message = None\<rparr> key []
     ((0, key) # replicate (maxR - 1) (w, key) @ replicate maxR (w + 1, key))) = 2 * maxR"
proof -
  let ?o = "\<lparr>rl_maxRequests = int maxR, rl_windowMs = w, rl_message = None\<rparr>"
  let ?first = "(0, key) # replicate (maxR - 1) (w, key)"
  let ?second = "replicate maxR (w + 1, key)"
  let ?m = "snd (rl_run ?o key [] ?first)"
  have first: "int (fst (rl_run ?o key [] ?first)) = int maxR"
    using rl_run_quota [where es = ?first and key = key and store = "[]" and opts = ?o and tstart = 0] assms
    by (auto simp: filter_replicate)
  define m1 where "m1 = snd (rl_touch ?o 0 key [])"
  have m1: "jm_get m1 key = Some \<lparr>rl_count = 1, rl_resetAt = w\<rparr>"
    by (simp add: m1_def rl_touch_def Let_def)
  have "\<exists>e. jm_get ?m key = Some e \<and> rl_resetAt e = w"
    using rl_window_end_kept [OF m1, of w ?o _ "maxR - 1"]
    by (simp add: rl_run_def Let_def split_beta rl_handler_store flip: m1_def)
  then have "int (fst (rl_run ?o key ?m ?second)) = int maxR"
    using rl_run_quota [where es = ?second and key = key and store = ?m and opts = ?o and tstart = "w + 1"]
      assms(2) by (auto simp: filter_replicate)
  with first rl_run_append [of ?o key "[]" ?first ?second] show ?thesis by simp
qed

theorem rate_limiter_not_sliding_witness:
  "fst (rl_run \<lparr>rl_maxRequests = 5, rl_windowMs = 60000, rl_message = None\<rparr> ''a'' []
     ((0, ''a'') # replicate 4 (60000, ''a'') @ replicate 5 (60001, ''a''))) = 10"
  using rate_limiter_not_sliding [of 5 60000 "''a''"] by simp

text \<open>
  brute-force lockout. With lockout enabled, after failed attempts of any addresses within
  the fifteen minutes from \<open>t0\<close>, an address with no open window at \<open>t0\<close> is locked at any later
  time of that period exactly when it failed at least five times, whatever other addresses did.
\<close>

theorem auth_lockout_iff_five_failures:
  assumes "\<not> isAuthLockoutDisabled env"
    and "\<forall>e. jm_get store ip = Some e \<longrightarrow> fa_resetAt e < t0"
    and "\<forall>(t, _) \<in> set es. t0 \<le> t \<and> t \<le> t0 + FAILED_AUTH_WINDOW_MS"
    and "t0 \<le> now" and "now \<le> t0 + FAILED_AUTH_WINDOW_MS"
  shows "checkAuthLockout env now ip (fa_run env store es) \<noteq> NotLocked \<longleftrightarrow> 5 \<le> hits_of ip es"
proof -
  have run: "fa_run env store es = foldl (\<lambda>m (t, k). bumpFailedAuth t k m) store es"
    using assms(1) by (simp add: fa_run_def recordFailedAuth_def)
  show ?thesis
  proof (cases "ip \<in> snd ` set es")
    case True
    with auth.hits_counted [where es = es and k = ip and m = store and start = t0] assms(2-5) run
    show ?thesis
      using assms(1) by (auto simp: checkAuthLockout_def MAX_FAILED_AUTH_ATTEMPTS_def split: if_splits)
  next
    case False
    then have none: "filter (\<lambda>x. snd x = ip) es = []" by (auto simp: filter_empty_conv)
    from auth.hits_missed [OF False] run have "jm_get (fa_run env store es) ip = jm_get store ip" by simp
    with assms(2,4) none show ?thesis
      by (cases "jm_get store ip") (auto simp: checkAuthLockout_def)
  qed
qed

theorem auth_lockout_iff_five_failures_witness:
  "let env = \<lparr>env_NODE_ENV = Some ''production'', env_DISABLE_AUTH_LOCKOUT = None\<rparr>;
       es = replicate 3 (0, ''10.0.0.1'') @ [(9, ''10.0.0.2'')] @ replicate 2 (10, ''10.0.0.1'')
   in checkAuthLockout env 20 ''10.0.0.1'' (fa_run env [] es) \<noteq> NotLocked
    \<and> checkAuthLockout env 20 ''10.0.0.2'' (fa_run env [] es) = NotLocked"
proof -
  let ?env = "\<lparr>env_NODE_ENV = Some ''production'', env_DISABLE_AUTH_LOCKOUT = None\<rparr>"
  let ?es = "replicate 3 (0, ''10.0.0.1'') @ [(9, ''10.0.0.2'')] @ replicate 2 (10, ''10.0.0.1'')"
  have "\<not> isAuthLockoutDisabled ?env" by (simp add: isAuthLockoutDisabled_def)
  then show ?thesis
    using auth_lockout_iff_five_failures [of ?env "[]" "''10.0.0.1''" 0 ?es 20]
      auth_lockout_iff_five_failures [of ?env "[]" "''10.0.0.2''" 0 ?es 20]
    by (simp add: FAILED_AUTH_WINDOW_MS_def Let_def numeral_eq_Suc)
qed

text \<open>
  the auto-trigger counter is exact: within \<open>windowMs\<close> of \<open>t0\<close>, after the increments \<open>es\<close> of
  all tenants, the next increment of a tenant returns one more than the number of its earlier
  ones.
\<close>

theorem trigger_count_exact:
  assumes "\<forall>r. trigger_get tenant store = Some r \<longrightarrow> t0 - tc_windowStart r > windowMs"
    and "\<forall>(t, _) \<in> set (es @ [(now, tenant)]). t0 \<le> t \<and> t \<le> t0 + windowMs"
  shows "fst (incrementAndGet now tenant windowMs
      (foldl (\<lambda>m (t, k). snd (incrementAndGet t k windowMs m)) store es)) = int (hits_of tenant es) + 1"
proof -
  let ?m = "foldl (\<lambda>m (t, k). snd (incrementAndGet t k windowMs m)) store es"
  have "jm_get (snd (incrementAndGet now tenant windowMs ?m)) tenant = Some r \<Longrightarrow>
      tc_count r = fst (incrementAndGet now tenant windowMs ?m)" for r
    by (auto simp: incrementAndGet_def Let_def split: option.splits if_splits)
  with trig.hits_counted [where es = "es @ [(now, tenant)]" and k = tenant and m = store
      and start = t0 and windowMs = windowMs] assms
  show ?thesis by (fastforce simp: trigger_get_def)
qed

theorem trigger_count_exact_witness:
  "fst (incrementAndGet 30 ''t'' 60000
      (foldl (\<lambda>m (t, k). snd (incrementAndGet t k 60000 m)) [] [(0, ''t''), (10, ''u''), (20, ''t'')])) = 3"
  using trigger_count_exact [of "''t''" "[]" 60000 0 "[(0, ''t''), (10, ''u''), (20, ''t'')]" 30]
  by (simp add: trigger_get_def)

end
