(* ===== verification/Replay_Protection.thy ===== *)
theory Replay_Protection
  imports Js_Text
begin

text \<open>
  Replay protection (\<^verbatim>\<open>api/src/middleware/replay-protection.ts\<close>): the in-memory, Redis and
  Prisma nonce stores, the header checks, the Express middleware and the direct validator.
  The locale \<open>nonce_store\<close> states what the middleware needs of the interface \<^verbatim>\<open>INonceStore\<close>;
  the in-memory store interprets it, and the Redis and Prisma stores satisfy it under the
  documented behaviour of their backends.

  \<^verbatim>\<open>Date.now()\<close> is the argument \<open>now\<close> of an operation. The products \<^verbatim>\<open>maxNonces * 0.1\<close> and
  \<^verbatim>\<open>maxNonces * 0.8\<close> are exact fractions instead of doubles.
\<close>

section \<open>Data\<close>

datatype replay_route = RouteString string | RouteRegExp "string \<Rightarrow> bool"

record replay_config =
  rc_windowMs :: int
  rc_nonceHeader :: string
  rc_timestampHeader :: string
  rc_maxTimeDrift :: int
  rc_skipRoutes :: "replay_route list option"
  rc_skipMethods :: "string list option"
  rc_allowMissingHeadersUntilMs :: "int option"

datatype replay_error =
  Missing_nonce | Missing_timestamp | Invalid_nonce_format | Invalid_timestamp_format
| Timestamp_expired | Timestamp_future | Nonce_reused

record nonce_metadata =
  nm_timestamp :: int
  nm_expiresAt :: int
  nm_clientIp :: "string option"
  nm_path :: "string option"

text \<open>The optional \<^verbatim>\<open>metadata\<close> argument of \<^verbatim>\<open>checkAndAdd\<close>.\<close>

record nonce_call =
  nc_clientIp :: "string option"
  nc_path :: "string option"
  nc_tenantId :: "string option"

definition DEFAULT_REPLAY_CONFIG :: replay_config where
  "DEFAULT_REPLAY_CONFIG =
     \<lparr> rc_windowMs = 300000, rc_nonceHeader = ''X-Request-Nonce'',
       rc_timestampHeader = ''X-Request-Timestamp'', rc_maxTimeDrift = 60000,
       rc_skipRoutes = None, rc_skipMethods = Some [''GET'', ''HEAD'', ''OPTIONS''],
       rc_allowMissingHeadersUntilMs = None \<rparr>"

section \<open>The in-memory store\<close>

datatype capacity_event =
  Pressure nat nat
| Eviction nat nat nat
| At_capacity nat nat nat

record nonce_store_state =
  ns_nonces :: "(string, nonce_metadata) jsmap"
  ns_cleanupInterval :: bool
  ns_windowMs :: int
  ns_maxNonces :: nat
  ns_events :: "capacity_event list"

definition DEFAULT_MAX_NONCES :: nat where
  "DEFAULT_MAX_NONCES = 100000"

definition nonce_store_new :: "int \<Rightarrow> nat option \<Rightarrow> nonce_store_state" where
  "nonce_store_new w mx =
     \<lparr> ns_nonces = [], ns_cleanupInterval = True, ns_windowMs = w,
       ns_maxNonces = (case mx of None \<Rightarrow> DEFAULT_MAX_NONCES | Some n \<Rightarrow> n), ns_events = [] \<rparr>"

text \<open>A falsy tenant (absent or empty) contributes no prefix.\<close>

definition tenantPart :: "string option \<Rightarrow> string" where
  "tenantPart t = (case t of None \<Rightarrow> '''' | Some s \<Rightarrow> if s = '''' then '''' else s @ '':'')"

definition nonce_key :: "string option \<Rightarrow> string \<Rightarrow> int \<Rightarrow> string" where
  "nonce_key t nonce ts = tenantPart t @ nonce @ '':'' @ show_int (ts div 1000)"

definition nonce_cleanup :: "int \<Rightarrow> nonce_store_state \<Rightarrow> nonce_store_state \<times> nat" where
  "nonce_cleanup now s =
     (let kept = filter (\<lambda>(k, m). \<not> nm_expiresAt m < now) (ns_nonces s)
      in (s\<lparr>ns_nonces := kept\<rparr>, length (ns_nonces s) - length kept))"

definition emit :: "capacity_event \<Rightarrow> nonce_store_state \<Rightarrow> nonce_store_state" where
  "emit e s = s\<lparr>ns_events := ns_events s @ [e]\<rparr>"

text \<open>\<^verbatim>\<open>Math.max(1, Math.ceil(maxNonces * 0.1))\<close>.\<close>

definition evictCount :: "nat \<Rightarrow> nat" where
  "evictCount mx = max 1 ((mx + 9) div 10)"

definition enforceCapacity :: "int \<Rightarrow> nonce_store_state \<Rightarrow> nonce_store_state" where
  "enforceCapacity now s0 =
     (let (s, expired) = nonce_cleanup now s0 in
      if length (ns_nonces s) < ns_maxNonces s
      then (if 0 < expired then emit (Eviction (length (ns_nonces s)) (ns_maxNonces s) expired) s else s)
      else
        (let evicted = min (evictCount (ns_maxNonces s)) (length (ns_nonces s));
             s' = s\<lparr>ns_nonces := drop evicted (ns_nonces s)\<rparr>
         in emit (At_capacity (length (ns_nonces s')) (ns_maxNonces s') (expired + evicted)) s'))"

definition call_tenant :: "nonce_call option \<Rightarrow> string option" where
  "call_tenant m = Option.bind m nc_tenantId"

definition nonce_checkAndAdd ::
  "int \<Rightarrow> string \<Rightarrow> int \<Rightarrow> nonce_call option \<Rightarrow> nonce_store_state \<Rightarrow> nonce_store_state \<times> bool" where
  "nonce_checkAndAdd now nonce ts m s =
     (let key = nonce_key (call_tenant m) nonce ts in
      if jm_has (ns_nonces s) key then (s, False)
      else
        (let s1 = (if ns_maxNonces s \<le> length (ns_nonces s) then enforceCapacity now s else s);
             s2 = s1\<lparr>ns_nonces := jm_set key
                      \<lparr> nm_timestamp = ts, nm_expiresAt = now + ns_windowMs s1,
                        nm_clientIp = Option.bind m nc_clientIp, nm_path = Option.bind m nc_path \<rparr>
                      (ns_nonces s1)\<rparr>;
             s3 = (if ns_maxNonces s2 * 4 \<le> length (ns_nonces s2) * 5
                   then emit (Pressure (length (ns_nonces s2)) (ns_maxNonces s2)) s2 else s2)
         in (s3, True)))"

definition nonce_exists :: "string \<Rightarrow> int \<Rightarrow> string option \<Rightarrow> nonce_store_state \<Rightarrow> bool" where
  "nonce_exists nonce ts t s = jm_has (ns_nonces s) (nonce_key t nonce ts)"

definition nonce_destroy :: "nonce_store_state \<Rightarrow> nonce_store_state" where
  "nonce_destroy s = s\<lparr>ns_cleanupInterval := False, ns_nonces := []\<rparr>"

section \<open>The Redis store\<close>

text \<open>
  The Redis client is a parameter: \<open>set now r key value ttl\<close> is \<^verbatim>\<open>SET key value EX ttl NX\<close>
  issued at time \<open>now\<close>, with the reply \<^verbatim>\<open>'OK'\<close> (\<open>Some True\<close>), \<^verbatim>\<open>null\<close> (\<open>Some False\<close>) or a
  rejected promise (\<open>None\<close>). The value is the object that \<^verbatim>\<open>JSON.stringify\<close> serialises.
\<close>

record redis_nonce_value =
  rv_timestamp :: int
  rv_clientIp :: "string option"
  rv_path :: "string option"
  rv_createdAt :: int

type_synonym 'r redis_set = "int \<Rightarrow> 'r \<Rightarrow> string \<Rightarrow> redis_nonce_value \<Rightarrow> int \<Rightarrow> 'r \<times> bool option"

record 'r redis_nonce_store =
  rs_redis :: 'r
  rs_windowMs :: int
  rs_keyPrefix :: string
  rs_size :: nat

definition redis_nonce_new :: "'r \<Rightarrow> int option \<Rightarrow> string option \<Rightarrow> 'r redis_nonce_store" where
  "redis_nonce_new r w p =
     \<lparr> rs_redis = r, rs_windowMs = (case w of None \<Rightarrow> 300000 | Some x \<Rightarrow> x),
       rs_keyPrefix = (case p of None \<Rightarrow> ''replay:nonce:'' | Some x \<Rightarrow> x), rs_size = 0 \<rparr>"

definition redis_nonce_key :: "string \<Rightarrow> string \<Rightarrow> int \<Rightarrow> string" where
  "redis_nonce_key keyPrefix nonce ts = keyPrefix @ nonce @ '':'' @ show_int (ts div 1000)"

definition redis_checkAndAdd ::
  "'r redis_set \<Rightarrow> int \<Rightarrow> string \<Rightarrow> int \<Rightarrow> nonce_call option \<Rightarrow> 'r redis_nonce_store
     \<Rightarrow> 'r redis_nonce_store \<times> bool option" where
  "redis_checkAndAdd rset now nonce ts m s =
     (let key = redis_nonce_key (rs_keyPrefix s) nonce ts;
          ttlSeconds = ceil_div (rs_windowMs s) 1000;
          value = \<lparr> rv_timestamp = ts, rv_clientIp = Option.bind m nc_clientIp,
                    rv_path = Option.bind m nc_path, rv_createdAt = now \<rparr>;
          (r', result) = rset now (rs_redis s) key value ttlSeconds
      in case result of
           None \<Rightarrow> (s\<lparr>rs_redis := r'\<rparr>, None)
         | Some True \<Rightarrow> (s\<lparr>rs_redis := r', rs_size := rs_size s + 1\<rparr>, Some True)
         | Some False \<Rightarrow> (s\<lparr>rs_redis := r'\<rparr>, Some False))"

definition redis_nonce_cleanup :: "'r redis_nonce_store \<Rightarrow> nat" where
  "redis_nonce_cleanup s = 0"

section \<open>The Prisma store\<close>

text \<open>
  \<open>create r key tenantId response expiresAt\<close> inserts a row of \<^verbatim>\<open>idempotency_requests\<close>; its result is
  the created row (\<open>Created\<close>), the unique-constraint error \<^verbatim>\<open>P2002\<close>, or another error.
\<close>

datatype prisma_result = Created | P2002 | PrismaError

record prisma_response =
  pr_status :: string
  pr_timestamp :: int
  pr_clientIp :: "string option"
  pr_path :: "string option"

type_synonym 'r prisma_create = "'r \<Rightarrow> string \<Rightarrow> string \<Rightarrow> prisma_response \<Rightarrow> int \<Rightarrow> 'r \<times> prisma_result"

record 'r prisma_nonce_store =
  ps_prisma :: 'r
  ps_windowMs :: int
  ps_size :: nat

text \<open>\<open>None\<close> is a thrown error: a missing tenant or any failure other than \<^verbatim>\<open>P2002\<close>.\<close>

definition prisma_checkAndAdd ::
  "'r prisma_create \<Rightarrow> int \<Rightarrow> string \<Rightarrow> int \<Rightarrow> nonce_call option \<Rightarrow> 'r prisma_nonce_store
     \<Rightarrow> 'r prisma_nonce_store \<times> bool option" where
  "prisma_checkAndAdd create now nonce ts m s =
     (case call_tenant m of
        None \<Rightarrow> (s, None)
      | Some tenantId \<Rightarrow>
          if tenantId = '''' then (s, None)
          else
            (let value = \<lparr> pr_status = ''accepted'', pr_timestamp = ts,
                           pr_clientIp = Option.bind m nc_clientIp, pr_path = Option.bind m nc_path \<rparr>;
                 (r', result) = create (ps_prisma s) nonce tenantId value (now + ps_windowMs s)
             in case result of
                  Created \<Rightarrow> (s\<lparr>ps_prisma := r', ps_size := ps_size s + 1\<rparr>, Some True)
                | P2002 \<Rightarrow> (s\<lparr>ps_prisma := r'\<rparr>, Some False)
                | PrismaError \<Rightarrow> (s\<lparr>ps_prisma := r'\<rparr>, None)))"

section \<open>Validation\<close>

definition validateTimestamp :: "int \<Rightarrow> int \<Rightarrow> int \<Rightarrow> int \<Rightarrow> replay_error option" where
  "validateTimestamp now ts maxDrift windowMs =
     (if now + maxDrift < ts then Some Timestamp_future
      else if ts < now - windowMs then Some Timestamp_expired
      else None)"

definition nonce_char :: "char \<Rightarrow> bool" where
  "nonce_char c \<longleftrightarrow>
     (let n = (of_char c :: nat) in 97 \<le> n \<and> n \<le> 122 \<or> 65 \<le> n \<and> n \<le> 90 \<or> 48 \<le> n \<and> n \<le> 57 \<or> c = CHR ''-'')"

definition validateNonceFormat :: "string \<Rightarrow> bool" where
  "validateNonceFormat nonce \<longleftrightarrow>
     nonce \<noteq> '''' \<and> \<not> (length nonce < 16 \<or> 64 < length nonce) \<and> list_all nonce_char nonce"

section \<open>The middleware\<close>

record replay_request =
  rq_method :: string
  rq_path :: string
  rq_headers :: "(string, string) jsmap"
  rq_remoteAddress :: "string option"
  rq_tenantId :: "string option"

datatype replay_outcome = ReplayNext | ReplayReply int string string string

record replay_violation =
  rvi_code :: string
  rvi_method :: string
  rvi_path :: string
  rvi_clientIp :: string
  rvi_tenantId :: "string option"

definition getClientIp :: "replay_request \<Rightarrow> string" where
  "getClientIp r =
     (case jm_get (rq_headers r) ''x-forwarded-for'' of
        Some forwarded \<Rightarrow> js_trim (split_first CHR '','' forwarded)
      | None \<Rightarrow> (case rq_remoteAddress r of Some a \<Rightarrow> a | None \<Rightarrow> ''unknown''))"

fun replay_code :: "replay_error \<Rightarrow> string" where
  "replay_code Missing_nonce = ''missing_nonce''"
| "replay_code Missing_timestamp = ''missing_timestamp''"
| "replay_code Invalid_nonce_format = ''invalid_nonce_format''"
| "replay_code Invalid_timestamp_format = ''invalid_timestamp_format''"
| "replay_code Timestamp_expired = ''timestamp_expired''"
| "replay_code Timestamp_future = ''timestamp_future''"
| "replay_code Nonce_reused = ''nonce_reused''"

definition replay_violation_of :: "string \<Rightarrow> replay_request \<Rightarrow> replay_violation" where
  "replay_violation_of code r =
     \<lparr> rvi_code = code, rvi_method = rq_method r, rvi_path = rq_path r,
       rvi_clientIp = getClientIp r, rvi_tenantId = rq_tenantId r \<rparr>"

fun route_matches :: "string \<Rightarrow> replay_route \<Rightarrow> bool" where
  "route_matches p (RouteString s) = (p = s)"
| "route_matches p (RouteRegExp re) = re p"

definition replay_skipped :: "replay_config \<Rightarrow> replay_request \<Rightarrow> bool" where
  "replay_skipped c r \<longleftrightarrow>
     (case rc_skipMethods c of None \<Rightarrow> False | Some ms \<Rightarrow> rq_method r \<in> set ms) \<or>
     (case rc_skipRoutes c of None \<Rightarrow> False | Some rs \<Rightarrow> list_ex (route_matches (rq_path r)) rs)"

definition missing_allowed :: "replay_config \<Rightarrow> int \<Rightarrow> bool" where
  "missing_allowed c now =
     (case rc_allowMissingHeadersUntilMs c of None \<Rightarrow> False | Some u \<Rightarrow> u \<noteq> 0 \<and> now < u)"

definition header_value :: "string \<Rightarrow> replay_request \<Rightarrow> string" where
  "header_value h r = (case jm_get (rq_headers r) (toLowerCase h) of None \<Rightarrow> '''' | Some v \<Rightarrow> v)"

definition bad_request :: "replay_error \<Rightarrow> string \<Rightarrow> replay_outcome" where
  "bad_request e msg = ReplayReply 400 ''Bad Request'' (replay_code e) msg"

definition timestamp_message :: "replay_error \<Rightarrow> string" where
  "timestamp_message e =
     (if e = Timestamp_future then ''Timestamp is too far in the future'' else ''Timestamp has expired'')"

text \<open>
  The checks before the store: either the request is settled (with the reported violation), or
  the nonce and the timestamp go to the store.
\<close>

definition replay_precheck ::
  "replay_config \<Rightarrow> int \<Rightarrow> replay_request \<Rightarrow> (replay_outcome \<times> replay_violation list) + (string \<times> int)" where
  "replay_precheck c now r =
     (let missing = (\<lambda>e h.
            Inl (if missing_allowed c now then ReplayNext
                 else bad_request e (''Missing required header: '' @ h),
                 [replay_violation_of (replay_code e) r]));
          bad = (\<lambda>e msg. Inl (bad_request e msg, [replay_violation_of (replay_code e) r]));
          nonce = header_value (rc_nonceHeader c) r;
          timestampStr = header_value (rc_timestampHeader c) r
      in
      if replay_skipped c r then Inl (ReplayNext, [])
      else if nonce = '''' then missing Missing_nonce (rc_nonceHeader c)
      else if \<not> validateNonceFormat nonce
      then bad Invalid_nonce_format ''Nonce must be 16-64 alphanumeric characters''
      else if timestampStr = '''' then missing Missing_timestamp (rc_timestampHeader c)
      else (case parseInt timestampStr of
              None \<Rightarrow> bad Invalid_timestamp_format ''Timestamp must be a Unix timestamp in milliseconds''
            | Some ts \<Rightarrow>
                (case validateTimestamp now ts (rc_maxTimeDrift c) (rc_windowMs c) of
                   Some e \<Rightarrow> bad e (timestamp_message e)
                 | None \<Rightarrow> Inr (nonce, ts))))"

type_synonym 's check_and_add = "int \<Rightarrow> string \<Rightarrow> int \<Rightarrow> nonce_call option \<Rightarrow> 's \<Rightarrow> 's \<times> bool option"

definition request_call :: "replay_request \<Rightarrow> nonce_call" where
  "request_call r =
     \<lparr> nc_clientIp = Some (getClientIp r), nc_path = Some (rq_path r), nc_tenantId = rq_tenantId r \<rparr>"

definition replay_middleware ::
  "'s check_and_add \<Rightarrow> replay_config \<Rightarrow> int \<Rightarrow> replay_request \<Rightarrow> 's
     \<Rightarrow> 's \<times> replay_outcome \<times> replay_violation list" where
  "replay_middleware chk c now r s =
     (case replay_precheck c now r of
        Inl (out, viol) \<Rightarrow> (s, out, viol)
      | Inr (nonce, ts) \<Rightarrow>
          (case chk now nonce ts (Some (request_call r)) s of
             (s', None) \<Rightarrow>
               (s', ReplayReply 503 ''Service Unavailable'' ''REPLAY_STORE_UNAVAILABLE''
                      ''Replay protection service is temporarily unavailable'',
                [replay_violation_of ''store_error'' r])
           | (s', Some False) \<Rightarrow>
               (s', ReplayReply 409 ''Conflict'' ''nonce_reused'' ''Request nonce has already been used'',
                [replay_violation_of ''nonce_reused'' r])
           | (s', Some True) \<Rightarrow> (s', ReplayNext, [])))"

text \<open>The in-memory store as the middleware calls it: it never throws.\<close>

definition memory_chk :: "nonce_store_state check_and_add" where
  "memory_chk now nonce ts m s = (let (s', b) = nonce_checkAndAdd now nonce ts m s in (s', Some b))"

section \<open>Direct validation\<close>

datatype timestamp_arg = TsAbsent | TsNotANumber | TsNumber int

datatype validation_result = Valid | Invalid replay_error string | StoreRejected

definition validateReplayProtection ::
  "'s check_and_add \<Rightarrow> int \<Rightarrow> int \<Rightarrow> int \<Rightarrow> string option \<Rightarrow> timestamp_arg \<Rightarrow> 's \<Rightarrow> 's \<times> validation_result" where
  "validateReplayProtection chk windowMs maxTimeDrift now nonce timestamp s =
     (case nonce of
        None \<Rightarrow> (s, Invalid Missing_nonce ''Request nonce is required'')
      | Some n \<Rightarrow>
          if n = '''' then (s, Invalid Missing_nonce ''Request nonce is required'')
          else if \<not> validateNonceFormat n
          then (s, Invalid Invalid_nonce_format ''Nonce must be 16-64 alphanumeric characters'')
          else (case timestamp of
                  TsAbsent \<Rightarrow> (s, Invalid Missing_timestamp ''Request timestamp is required'')
                | TsNotANumber \<Rightarrow> (s, Invalid Invalid_timestamp_format ''Timestamp must be a valid number'')
                | TsNumber ts \<Rightarrow>
                    (case validateTimestamp now ts maxTimeDrift windowMs of
                       Some e \<Rightarrow> (s, Invalid e (timestamp_message e))
                     | None \<Rightarrow>
                         (case chk now n ts None s of
                            (s', None) \<Rightarrow> (s', StoreRejected)
                          | (s', Some False) \<Rightarrow> (s', Invalid Nonce_reused ''Request nonce has already been used'')
                          | (s', Some True) \<Rightarrow> (s', Valid)))))"

section \<open>Traffic\<close>

text \<open>Requests and periodic cleanups, each at its time.\<close>

datatype replay_event = Request int replay_request | CleanupTick int

fun event_time :: "replay_event \<Rightarrow> int" where
  "event_time (Request t r) = t"
| "event_time (CleanupTick t) = t"

fun replay_step ::
  "'s check_and_add \<Rightarrow> (int \<Rightarrow> 's \<Rightarrow> 's) \<Rightarrow> replay_config \<Rightarrow> replay_event \<Rightarrow> 's \<Rightarrow> 's" where
  "replay_step chk clean c (Request t r) s = fst (replay_middleware chk c t r s)"
| "replay_step chk clean c (CleanupTick t) s = clean t s"

definition replay_run ::
  "'s check_and_add \<Rightarrow> (int \<Rightarrow> 's \<Rightarrow> 's) \<Rightarrow> replay_config \<Rightarrow> replay_event list \<Rightarrow> 's \<Rightarrow> 's" where
  "replay_run chk clean c evs s = fold (replay_step chk clean c) evs s"

section \<open>Nonce keys\<close>

lemma nonce_char_not_colon: "nonce_char c \<Longrightarrow> c \<noteq> CHR '':''"
  by (auto simp: nonce_char_def)

lemma validateNonceFormat_no_colon: "validateNonceFormat n \<Longrightarrow> CHR '':'' \<notin> set n"
  using nonce_char_not_colon by (auto simp: validateNonceFormat_def list_all_iff)

text \<open>A tenant that is absent and a tenant that is the empty string share one name space.\<close>

definition tenant_norm :: "string option \<Rightarrow> string option" where
  "tenant_norm t = (if t = Some '''' then None else t)"

lemma tenantPart_norm: "tenantPart u = (case tenant_norm u of None \<Rightarrow> '''' | Some s \<Rightarrow> s @ '':'')"
  by (simp add: tenantPart_def tenant_norm_def split: option.splits)

lemma tenantPart_inj:
  assumes "tenantPart t @ n = tenantPart t' @ n'" and "CHR '':'' \<notin> set n" and "CHR '':'' \<notin> set n'"
  shows "tenant_norm t = tenant_norm t' \<and> n = n'"
proof (cases "tenant_norm t"; cases "tenant_norm t'")
  fix u u' assume "tenant_norm t = Some u" and "tenant_norm t' = Some u'"
  with assms append_sep_inj_right [of u "CHR '':''" n u' n'] show ?thesis
    by (simp add: tenantPart_norm)
qed (use assms in \<open>auto simp: tenantPart_norm\<close>)

lemma nonce_key_eq_iff:
  assumes "CHR '':'' \<notin> set n" and "CHR '':'' \<notin> set n'"
  shows "nonce_key t n ts = nonce_key t' n' ts' \<longleftrightarrow>
    tenant_norm t = tenant_norm t' \<and> n = n' \<and> ts div 1000 = ts' div 1000" (is "?l \<longleftrightarrow> ?r")
proof
  assume ?l
  then have "(tenantPart t @ n) @ CHR '':'' # show_int (ts div 1000) =
             (tenantPart t' @ n') @ CHR '':'' # show_int (ts' div 1000)"
    by (simp add: nonce_key_def)
  from append_sep_inj_right [OF this show_int_no_colon show_int_no_colon]
  show ?r using tenantPart_inj assms show_int_inj by blast
next
  assume ?r
  then show ?l by (simp add: nonce_key_def tenantPart_norm)
qed

section \<open>What the middleware needs of a nonce store\<close>

text \<open>
  \<open>seen s t k\<close>: the store refuses the key \<open>k\<close> up to time \<open>t\<close>. \<open>room s n\<close>: \<open>n\<close> further calls
  evict nothing. A store marks what it admits for \<open>window\<close> milliseconds.
\<close>

locale nonce_store =
  fixes chk :: "'s check_and_add"
    and clean :: "int \<Rightarrow> 's \<Rightarrow> 's"
    and key :: "string option \<Rightarrow> string \<Rightarrow> int \<Rightarrow> 'k"
    and seen :: "'s \<Rightarrow> int \<Rightarrow> 'k \<Rightarrow> bool"
    and room :: "'s \<Rightarrow> nat \<Rightarrow> bool"
    and window :: "'s \<Rightarrow> int"
  assumes admit_new: "chk now n ts m s = (s', Some True) \<Longrightarrow> \<not> seen s now (key (call_tenant m) n ts)"
    and admit_marks: "chk now n ts m s = (s', Some True) \<Longrightarrow> t \<le> now + window s
                        \<Longrightarrow> seen s' t (key (call_tenant m) n ts)"
    and chk_keeps: "room s (Suc j) \<Longrightarrow> chk now n ts m s = (s', b) \<Longrightarrow> now \<le> t \<Longrightarrow> seen s t k \<Longrightarrow> seen s' t k"
    and chk_room: "room s (Suc j) \<Longrightarrow> chk now n ts m s = (s', b) \<Longrightarrow> room s' j"
    and clean_keeps: "room s j \<Longrightarrow> now \<le> t \<Longrightarrow> seen s t k \<Longrightarrow> seen (clean now s) t k"
    and clean_room: "room s j \<Longrightarrow> room (clean now s) j"
    and room_less: "room s (Suc j) \<Longrightarrow> room s j"
begin

lemma middleware_keeps:
  assumes "room s (Suc j)" and "now \<le> t" and "seen s t k"
  shows "seen (fst (replay_middleware chk c now r s)) t k \<and> room (fst (replay_middleware chk c now r s)) j"
proof (cases "replay_precheck c now r")
  case (Inl a)
  then show ?thesis using assms room_less
    by (simp add: replay_middleware_def split: prod.split)
next
  case (Inr b)
  obtain s' res where "chk now (fst b) (snd b) (Some (request_call r)) s = (s', res)"
    by (cases "chk now (fst b) (snd b) (Some (request_call r)) s")
  with Inr chk_keeps [OF assms(1) this assms(2,3)] chk_room [OF assms(1) this] show ?thesis
    by (auto simp: replay_middleware_def split: prod.split option.split bool.split)
qed

lemma step_keeps:
  "room s (Suc j) \<Longrightarrow> event_time e \<le> t \<Longrightarrow> seen s t k \<Longrightarrow>
     seen (replay_step chk clean c e s) t k \<and> room (replay_step chk clean c e s) j"
  by (cases e) (use middleware_keeps clean_keeps clean_room room_less in auto)

lemma run_keeps:
  "room s (length evs) \<Longrightarrow> \<forall>e \<in> set evs. event_time e \<le> t \<Longrightarrow> seen s t k \<Longrightarrow>
     seen (replay_run chk clean c evs s) t k"
proof (induction evs arbitrary: s)
  case (Cons e evs)
  with step_keeps [of s "length evs" e t k c] show ?case
    by (simp add: replay_run_def)
qed (simp add: replay_run_def)

text \<open>A request that reaches the store with a key the store has seen does not pass.\<close>

lemma seen_blocked:
  assumes "replay_precheck c now r = Inr (n, ts)" and "seen s now (key (rq_tenantId r) n ts)"
  shows "fst (snd (replay_middleware chk c now r s)) \<noteq> ReplayNext"
proof -
  obtain s' res where chk: "chk now n ts (Some (request_call r)) s = (s', res)"
    by (cases "chk now n ts (Some (request_call r)) s")
  have "call_tenant (Some (request_call r)) = rq_tenantId r"
    by (simp add: call_tenant_def request_call_def)
  with admit_new chk assms have "res \<noteq> Some True" by metis
  with chk assms(1) show ?thesis
    by (auto simp: replay_middleware_def split: option.split bool.split)
qed

lemma passed_marked:
  assumes "replay_precheck c now r = Inr (n, ts)"
    and "replay_middleware chk c now r s = (s', ReplayNext, viol)" and "t \<le> now + window s"
  shows "seen s' t (key (rq_tenantId r) n ts)"
proof -
  obtain s1 res where chk: "chk now n ts (Some (request_call r)) s = (s1, res)"
    by (cases "chk now n ts (Some (request_call r)) s")
  with assms(1,2) have "res = Some True" "s1 = s'"
    by (auto simp: replay_middleware_def split: option.splits bool.splits)
  with admit_marks chk assms(3) show ?thesis
    by (fastforce simp: call_tenant_def request_call_def)
qed

text \<open>
  A request accepted at \<open>now\<close> blocks every request with the same key that is checked at a
  time up to \<open>now + window\<close>, whatever happens in between.
\<close>

lemma reuse_blocked:
  assumes "replay_precheck c now r = Inr (n, ts)"
    and "replay_middleware chk c now r s = (s', ReplayNext, viol)"
    and "room s' (length evs)" and "\<forall>e \<in> set evs. event_time e \<le> later"
    and "later \<le> now + window s"
    and "replay_precheck c later r' = Inr (n', ts')"
    and "key (rq_tenantId r') n' ts' = key (rq_tenantId r) n ts"
  shows "fst (snd (replay_middleware chk c later r' (replay_run chk clean c evs s'))) \<noteq> ReplayNext"
  using run_keeps [OF assms(3,4) passed_marked [OF assms(1,2,5)], of c] seen_blocked assms(6,7) by metis

end

section \<open>The in-memory store keeps the contract\<close>

definition memory_seen :: "nonce_store_state \<Rightarrow> int \<Rightarrow> string \<Rightarrow> bool" where
  "memory_seen s t k = (case jm_get (ns_nonces s) k of None \<Rightarrow> False | Some md \<Rightarrow> t \<le> nm_expiresAt md)"

definition memory_room :: "nonce_store_state \<Rightarrow> nat \<Rightarrow> bool" where
  "memory_room s n \<longleftrightarrow> jm_wf (ns_nonces s) \<and> length (ns_nonces s) + n \<le> ns_maxNonces s"

definition memory_clean :: "int \<Rightarrow> nonce_store_state \<Rightarrow> nonce_store_state" where
  "memory_clean now s = fst (nonce_cleanup now s)"

lemma emit_simps [simp]:
  "ns_nonces (emit e s) = ns_nonces s" "ns_windowMs (emit e s) = ns_windowMs s"
  "ns_maxNonces (emit e s) = ns_maxNonces s"
  by (simp_all add: emit_def)

lemma nonce_cleanup_simps [simp]:
  "ns_nonces (fst (nonce_cleanup now s)) = filter (\<lambda>(k, m). \<not> nm_expiresAt m < now) (ns_nonces s)"
  "ns_windowMs (fst (nonce_cleanup now s)) = ns_windowMs s"
  "ns_maxNonces (fst (nonce_cleanup now s)) = ns_maxNonces s"
  by (simp_all add: nonce_cleanup_def Let_def)

lemma enforceCapacity_simps [simp]:
  "ns_windowMs (enforceCapacity now s) = ns_windowMs s"
  "ns_maxNonces (enforceCapacity now s) = ns_maxNonces s"
  by (simp_all add: enforceCapacity_def Let_def split_beta)

text \<open>What is left after enforcement is a suffix of the unexpired entries, and there is room.\<close>

lemma enforceCapacity_entries:
  "\<exists>n. ns_nonces (enforceCapacity now s) = drop n (filter (\<lambda>(k, m). \<not> nm_expiresAt m < now) (ns_nonces s))"
  by (auto simp: enforceCapacity_def Let_def split_beta intro: exI [of _ 0])

lemma enforceCapacity_room:
  assumes "length (ns_nonces s) \<le> ns_maxNonces s" and "0 < ns_maxNonces s"
  shows "length (ns_nonces (enforceCapacity now s)) < ns_maxNonces s"
proof -
  have "length (filter (\<lambda>(k, m). \<not> nm_expiresAt m < now) (ns_nonces s)) \<le> ns_maxNonces s"
    using assms(1) length_filter_le order_trans by blast
  moreover have "1 \<le> evictCount (ns_maxNonces s)" by (simp add: evictCount_def)
  ultimately show ?thesis
    using assms(2) by (auto simp: enforceCapacity_def Let_def split_beta min_def)
qed

lemma enforceCapacity_wf: "jm_wf (ns_nonces s) \<Longrightarrow> jm_wf (ns_nonces (enforceCapacity now s))"
  using enforceCapacity_entries [of now s] by (auto simp flip: drop_map)

lemma checkAndAdd_entries:
  "ns_nonces (fst (nonce_checkAndAdd now n ts m s)) =
     (if jm_has (ns_nonces s) (nonce_key (call_tenant m) n ts) then ns_nonces s
      else jm_set (nonce_key (call_tenant m) n ts)
             \<lparr> nm_timestamp = ts, nm_expiresAt = now + ns_windowMs s,
               nm_clientIp = Option.bind m nc_clientIp, nm_path = Option.bind m nc_path \<rparr>
             (if ns_maxNonces s \<le> length (ns_nonces s) then ns_nonces (enforceCapacity now s) else ns_nonces s))"
  by (simp add: nonce_checkAndAdd_def Let_def)

lemma checkAndAdd_result:
  "snd (nonce_checkAndAdd now n ts m s) \<longleftrightarrow> \<not> jm_has (ns_nonces s) (nonce_key (call_tenant m) n ts)"
  by (simp add: nonce_checkAndAdd_def Let_def)

lemma checkAndAdd_simps [simp]:
  "ns_windowMs (fst (nonce_checkAndAdd now n ts m s)) = ns_windowMs s"
  "ns_maxNonces (fst (nonce_checkAndAdd now n ts m s)) = ns_maxNonces s"
  by (simp_all add: nonce_checkAndAdd_def Let_def)

lemma memory_chk_eq:
  "memory_chk now n ts m s = (s', b) \<longleftrightarrow>
     s' = fst (nonce_checkAndAdd now n ts m s) \<and> b = Some (snd (nonce_checkAndAdd now n ts m s))"
  by (auto simp: memory_chk_def split_beta)

lemma memory_clean_seen: "memory_seen s t k \<Longrightarrow> now \<le> t \<Longrightarrow> jm_wf (ns_nonces s) \<Longrightarrow> memory_seen (memory_clean now s) t k"
  by (auto simp: memory_seen_def memory_clean_def jm_get_filter split: option.splits)

lemma memory_chk_room:
  "memory_room s (Suc j) \<Longrightarrow> memory_room (fst (nonce_checkAndAdd now n ts m s)) j"
  by (auto simp: memory_room_def checkAndAdd_entries length_jm_set)

lemma memory_chk_seen:
  "memory_room s (Suc j) \<Longrightarrow> memory_seen s t k \<Longrightarrow> memory_seen (fst (nonce_checkAndAdd now n ts m s)) t k"
  by (auto simp: memory_room_def memory_seen_def checkAndAdd_entries jm_has_get split: option.splits)

lemma memory_chk_marks:
  "snd (nonce_checkAndAdd now n ts m s) \<Longrightarrow> t \<le> now + ns_windowMs s \<Longrightarrow>
     memory_seen (fst (nonce_checkAndAdd now n ts m s)) t (nonce_key (call_tenant m) n ts)"
  by (simp add: memory_seen_def checkAndAdd_entries checkAndAdd_result)

lemma memory_room_wf: "memory_room s j \<Longrightarrow> jm_wf (ns_nonces s)"
  by (simp add: memory_room_def)

lemma memory_room_less: "memory_room s (Suc j) \<Longrightarrow> memory_room s j"
  by (simp add: memory_room_def)

lemma memory_clean_room: "memory_room s j \<Longrightarrow> memory_room (memory_clean now s) j"
  by (auto simp: memory_room_def memory_clean_def intro: order_trans [OF add_right_mono [OF length_filter_le]])

interpretation mem: nonce_store memory_chk memory_clean nonce_key memory_seen memory_room ns_windowMs
proof unfold_locales
  fix now n ts m s s' assume "memory_chk now n ts m s = (s', Some True)"
  then show "\<not> memory_seen s now (nonce_key (call_tenant m) n ts)"
    by (auto simp: memory_chk_eq checkAndAdd_result memory_seen_def jm_has_get)
qed (auto simp: memory_chk_eq memory_chk_marks memory_chk_seen memory_chk_room memory_clean_room
       memory_room_less intro: memory_clean_seen memory_room_wf)

section \<open>The Redis and Prisma stores keep the contract\<close>

text \<open>
  Documented behaviour of \<^verbatim>\<open>SET key value EX ttl NX\<close>: \<^verbatim>\<open>OK\<close> only for a key that is not live,
  which then lives for \<open>ttl\<close> seconds; no other key dies early. \<open>live r t k\<close>: the key \<open>k\<close> of the
  database \<open>r\<close> is live at time \<open>t\<close>.
\<close>

definition redis_set_nx :: "'r redis_set \<Rightarrow> ('r \<Rightarrow> int \<Rightarrow> string \<Rightarrow> bool) \<Rightarrow> bool" where
  "redis_set_nx rset live \<longleftrightarrow>
     (\<forall>now r k v ttl r' b. rset now r k v ttl = (r', b) \<longrightarrow>
        (b = Some True \<longrightarrow> \<not> live r now k \<and> (\<forall>t < now + ttl * 1000. live r' t k)) \<and>
        (\<forall>t k'. now \<le> t \<longrightarrow> live r t k' \<longrightarrow> live r' t k'))"

lemma redis_chk_cases:
  assumes "redis_checkAndAdd rset now n ts m s = (s', b)"
  obtains v where "rset now (rs_redis s) (redis_nonce_key (rs_keyPrefix s) n ts) v (ceil_div (rs_windowMs s) 1000)
                     = (rs_redis s', b)"
    and "rs_keyPrefix s' = rs_keyPrefix s" and "rs_windowMs s' = rs_windowMs s"
  using assms by (auto simp: redis_checkAndAdd_def Let_def split: prod.splits option.splits bool.splits)

lemma redis_nonce_key_sec [simp]: "redis_nonce_key p n (ts div 1000 * 1000) = redis_nonce_key p n ts"
  by (simp add: redis_nonce_key_def)

lemma redis_law:
  assumes "redis_set_nx rset live" and "rset now r k v ttl = (r', b)"
  shows "b = Some True \<Longrightarrow> \<not> live r now k" and "b = Some True \<Longrightarrow> t < now + ttl * 1000 \<Longrightarrow> live r' t k"
    and "now \<le> t \<Longrightarrow> live r t k' \<Longrightarrow> live r' t k'"
  using assms unfolding redis_set_nx_def by blast+

text \<open>Only the nonce and the second of the timestamp enter the Redis key, not the tenant.\<close>

lemma redis_nonce_store:
  assumes law: "redis_set_nx rset live"
  shows "nonce_store (redis_checkAndAdd rset) (\<lambda>now s. s) (\<lambda>t n ts. (n, ts div 1000))
    (\<lambda>s t (n, sec). live (rs_redis s) t (redis_nonce_key (rs_keyPrefix s) n (sec * 1000)))
    (\<lambda>s j. True) (\<lambda>s. rs_windowMs s - 1)"
proof unfold_locales
  fix now n ts m s s' assume "redis_checkAndAdd rset now n ts m s = (s', Some True)"
  then show "\<not> (case (n, ts div 1000) of (n, sec) \<Rightarrow>
      live (rs_redis s) now (redis_nonce_key (rs_keyPrefix s) n (sec * 1000)))"
    by (elim redis_chk_cases) (use redis_law(1) [OF law] in auto)
next
  fix now n ts m s s' t assume "redis_checkAndAdd rset now n ts m s = (s', Some True)"
    and "t \<le> now + (rs_windowMs s - 1)"
  moreover have "rs_windowMs s \<le> ceil_div (rs_windowMs s) 1000 * 1000"
    using ceil_div_bounds [of 1000 "rs_windowMs s"] by simp
  ultimately show "case (n, ts div 1000) of (n, sec) \<Rightarrow>
      live (rs_redis s') t (redis_nonce_key (rs_keyPrefix s') n (sec * 1000))"
    by (elim redis_chk_cases) (use redis_law(2) [OF law] in auto)
next
  fix s now n ts m s' b t and k :: "string \<times> int"
  assume "redis_checkAndAdd rset now n ts m s = (s', b)" and "now \<le> t"
    and "case k of (n, sec) \<Rightarrow> live (rs_redis s) t (redis_nonce_key (rs_keyPrefix s) n (sec * 1000))"
  then show "case k of (n, sec) \<Rightarrow> live (rs_redis s') t (redis_nonce_key (rs_keyPrefix s') n (sec * 1000))"
    by (elim redis_chk_cases) (use redis_law(3) [OF law] in \<open>auto split: prod.splits\<close>)
qed auto

text \<open>
  Documented behaviour of the table: \<^verbatim>\<open>create\<close> succeeds only when the row \<open>(key, tenantId)\<close> is
  absent and then stores its expiry, no other row changes; \<^verbatim>\<open>deleteMany\<close> removes only rows whose
  expiry is before \<open>now\<close>. \<open>row r key tenant\<close> is the expiry stored in the database \<open>r\<close>.
\<close>

definition prisma_table ::
  "'r prisma_create \<Rightarrow> (int \<Rightarrow> 'r \<Rightarrow> 'r) \<Rightarrow> ('r \<Rightarrow> string \<Rightarrow> string \<Rightarrow> int option) \<Rightarrow> bool" where
  "prisma_table create del row \<longleftrightarrow>
     (\<forall>r k t v e r' b. create r k t v e = (r', b) \<longrightarrow>
        (b = Created \<longrightarrow> row r k t = None \<and> row r' k t = Some e) \<and>
        (\<forall>k' t' e'. row r k' t' = Some e' \<longrightarrow> row r' k' t' = Some e')) \<and>
     (\<forall>now r k t e. row r k t = Some e \<longrightarrow> now \<le> e \<longrightarrow> row (del now r) k t = Some e)"

definition prisma_cleanup :: "(int \<Rightarrow> 'r \<Rightarrow> 'r) \<Rightarrow> int \<Rightarrow> 'r prisma_nonce_store \<Rightarrow> 'r prisma_nonce_store" where
  "prisma_cleanup del now s = s\<lparr>ps_prisma := del now (ps_prisma s)\<rparr>"

definition prisma_seen ::
  "('r \<Rightarrow> string \<Rightarrow> string \<Rightarrow> int option) \<Rightarrow> 'r prisma_nonce_store \<Rightarrow> int \<Rightarrow> string option \<times> string \<Rightarrow> bool" where
  "prisma_seen row s t = (\<lambda>(tenant, n). case tenant of None \<Rightarrow> False
     | Some u \<Rightarrow> (case row (ps_prisma s) n u of None \<Rightarrow> False | Some e \<Rightarrow> t \<le> e))"

lemma prisma_chk_cases:
  assumes "prisma_checkAndAdd create now n ts m s = (s', b)"
  shows "s' = s \<and> b = None \<or>
    (\<exists>u v res. call_tenant m = Some u \<and>
       create (ps_prisma s) n u v (now + ps_windowMs s) = (ps_prisma s', res) \<and> (b = Some True \<longleftrightarrow> res = Created))"
  using assms
  by (auto simp: prisma_checkAndAdd_def Let_def split: prod.splits option.splits if_splits prisma_result.splits)
    blast+

lemma prisma_seen_iff:
  "prisma_seen row s t (tenant, n) \<longleftrightarrow> (\<exists>u e. tenant = Some u \<and> row (ps_prisma s) n u = Some e \<and> t \<le> e)"
  by (auto simp: prisma_seen_def split: option.splits)

lemma prisma_create_law:
  assumes "prisma_table create del row" and "create r k u v e = (r', b)"
  shows "b = Created \<Longrightarrow> row r k u = None" and "b = Created \<Longrightarrow> row r' k u = Some e"
    and "row r k' u' = Some e' \<Longrightarrow> row r' k' u' = Some e'"
  using assms unfolding prisma_table_def by blast+

lemma prisma_nonce_store:
  assumes law: "prisma_table create del row"
  shows "nonce_store (prisma_checkAndAdd create) (prisma_cleanup del) (\<lambda>t n ts. (t, n))
    (prisma_seen row) (\<lambda>s j. True) ps_windowMs"
proof unfold_locales
  fix now n ts m s s' assume "prisma_checkAndAdd create now n ts m s = (s', Some True)"
  from prisma_chk_cases [OF this] show "\<not> prisma_seen row s now (call_tenant m, n)"
    using prisma_create_law(1) [OF law] by (fastforce simp: prisma_seen_iff)
next
  fix now n ts m s s' t assume "prisma_checkAndAdd create now n ts m s = (s', Some True)"
    and "t \<le> now + ps_windowMs s"
  then show "prisma_seen row s' t (call_tenant m, n)"
    using prisma_chk_cases prisma_create_law(2) [OF law] by (fastforce simp: prisma_seen_iff)
next
  fix s now n ts m s' b t and k :: "string option \<times> string"
  assume "prisma_checkAndAdd create now n ts m s = (s', b)" and "prisma_seen row s t k"
  then show "prisma_seen row s' t k"
    using prisma_chk_cases [of create now n ts m s s' b] prisma_create_law(3) [OF law]
    by (cases k) (fastforce simp: prisma_seen_iff)
next
  fix s now t and k :: "string option \<times> string" assume "now \<le> t" and "prisma_seen row s t k"
  then show "prisma_seen row (prisma_cleanup del now s) t k"
    using law by (cases k) (fastforce simp: prisma_seen_iff prisma_cleanup_def prisma_table_def)
qed auto

section \<open>Properties\<close>

text \<open>What the headers of a request that reaches the store look like.\<close>

lemma precheck_Inr:
  "replay_precheck c now r = Inr (n, ts) \<longleftrightarrow>
     \<not> replay_skipped c r \<and> n = header_value (rc_nonceHeader c) r \<and> validateNonceFormat n \<and>
     header_value (rc_timestampHeader c) r \<noteq> '''' \<and>
     parseInt (header_value (rc_timestampHeader c) r) = Some ts \<and>
     now - rc_windowMs c \<le> ts \<and> ts \<le> now + rc_maxTimeDrift c"
  by (auto simp: replay_precheck_def Let_def validateTimestamp_def validateNonceFormat_def split: option.splits if_splits)

text \<open>A request that reached the store once passes later only by reaching the store again.\<close>

lemma precheck_again:
  assumes "replay_precheck c now r = Inr (n, ts)"
  shows "(\<exists>e viol. replay_precheck c later r = Inl (bad_request e (timestamp_message e), viol)) \<or>
         replay_precheck c later r = Inr (n, ts) \<and> later \<le> ts + rc_windowMs c"
proof (cases "validateTimestamp later ts (rc_maxTimeDrift c) (rc_windowMs c)")
  case None
  with assms show ?thesis by (auto simp: precheck_Inr validateTimestamp_def split: if_splits)
next
  case (Some e)
  with assms have "replay_precheck c later r =
      Inl (bad_request e (timestamp_message e), [replay_violation_of (replay_code e) r])"
    by (auto simp: precheck_Inr) (auto simp: replay_precheck_def Let_def validateNonceFormat_def)
  then show ?thesis by blast
qed

text \<open>
  C3: With the in-memory store, a request whose timestamp is not in the future of the server
  clock and that the middleware lets through is never let through a second time, whatever
  requests and periodic cleanups happen in between and however much later the replay arrives,
  as long as the capacity limit does not force an eviction.
\<close>

theorem replay_request_passes_once:
  assumes "replay_precheck c now r = Inr (n, ts)" and "ts \<le> now"
    and "replay_middleware memory_chk c now r s = (s', ReplayNext, viol)"
    and "ns_windowMs s = rc_windowMs c"
    and "memory_room s' (length evs)" and "\<forall>e \<in> set evs. event_time e \<le> later"
  shows "fst (snd (replay_middleware memory_chk c later r (replay_run memory_chk memory_clean c evs s')))
           \<noteq> ReplayNext"
proof -
  consider (expired) e w where "replay_precheck c later r = Inl (bad_request e (timestamp_message e), w)"
    | (again) "replay_precheck c later r = Inr (n, ts)" "later \<le> ts + rc_windowMs c"
    using precheck_again [OF assms(1)] by blast
  then show ?thesis
  proof cases
    case expired
    then show ?thesis by (simp add: replay_middleware_def bad_request_def)
  next
    case again
    with assms(2,4) have "later \<le> now + ns_windowMs s" by simp
    from mem.reuse_blocked [OF assms(1,3,5,6) this again(1) refl] show ?thesis .
  qed
qed

definition sample_request :: "string \<Rightarrow> replay_request" where
  "sample_request ts =
     \<lparr> rq_method = ''POST'', rq_path = ''/api/v1/fleet'',
       rq_headers = [(''x-request-nonce'', ''0123456789abcdef''), (''x-request-timestamp'', ts)],
       rq_remoteAddress = Some ''10.0.0.1'', rq_tenantId = Some ''t1'' \<rparr>"

definition sample_store :: nonce_store_state where
  "sample_store = nonce_store_new 300000 (Some 10)"

lemma sample_headers:
  "toLowerCase ''X-Request-Nonce'' = ''x-request-nonce''"
  "toLowerCase ''X-Request-Timestamp'' = ''x-request-timestamp''"
  by code_simp+

lemmas replay_eval =
  replay_middleware_def replay_precheck_def sample_request_def sample_store_def nonce_store_new_def
  DEFAULT_REPLAY_CONFIG_def replay_skipped_def header_value_def sample_headers
  validateNonceFormat_def nonce_char_def parseInt_def js_space_def char_digit_def validateTimestamp_def
  memory_chk_def nonce_checkAndAdd_def request_call_def call_tenant_def emit_def memory_room_def
  memory_clean_def nonce_cleanup_def replay_run_def

lemma sample_passes:
  "replay_precheck DEFAULT_REPLAY_CONFIG 1000 (sample_request ''1000'') = Inr (''0123456789abcdef'', 1000)"
  by (simp add: replay_eval Let_def)

lemma sample_passes_store:
  "\<exists>s' viol. replay_middleware memory_chk DEFAULT_REPLAY_CONFIG 1000 (sample_request ''1000'') sample_store
       = (s', ReplayNext, viol) \<and> memory_room s' 1"
  by (simp add: replay_middleware_def sample_passes)
     (simp add: replay_eval Let_def)

theorem replay_request_passes_once_witness:
  "\<exists>s' viol. replay_middleware memory_chk DEFAULT_REPLAY_CONFIG 1000 (sample_request ''1000'') sample_store
       = (s', ReplayNext, viol) \<and>
    fst (snd (replay_middleware memory_chk DEFAULT_REPLAY_CONFIG 301000 (sample_request ''1000'')
      (replay_run memory_chk memory_clean DEFAULT_REPLAY_CONFIG [CleanupTick 301000] s'))) \<noteq> ReplayNext"
proof -
  obtain s' viol where s: "replay_middleware memory_chk DEFAULT_REPLAY_CONFIG 1000 (sample_request ''1000'')
      sample_store = (s', ReplayNext, viol)" "memory_room s' 1"
    using sample_passes_store by blast
  have "ns_windowMs sample_store = rc_windowMs DEFAULT_REPLAY_CONFIG"
    by (simp add: sample_store_def nonce_store_new_def DEFAULT_REPLAY_CONFIG_def)
  from replay_request_passes_once [OF sample_passes _ s(1) this, of "[CleanupTick 301000]" 301000] s
  show ?thesis by auto
qed

text \<open>
  A request dated in the future (within the permitted clock drift) can pass twice: its nonce
  is forgotten \<^verbatim>\<open>windowMs\<close> after the first acceptance, while its timestamp stays valid until
  \<^verbatim>\<open>windowMs\<close> after the timestamp itself. Here the timestamp is one minute ahead; the store is
  cleaned just after five minutes, and the identical request is accepted again.
\<close>

theorem replay_future_dated_passes_twice:
  "let r = sample_request ''61000'';
       (s1, out1, viol1) = replay_middleware memory_chk DEFAULT_REPLAY_CONFIG 1000 r sample_store;
       s2 = memory_clean 301001 s1;
       (s3, out2, viol2) = replay_middleware memory_chk DEFAULT_REPLAY_CONFIG 301001 r s2
   in out1 = ReplayNext \<and> out2 = ReplayNext"
  by (auto simp: replay_eval Let_def)

text \<open>
  The in-memory store never holds more than \<^verbatim>\<open>maxNonces\<close> nonces, each under a single key,
  after any sequence of requests and cleanups.
\<close>

theorem nonce_store_bounded:
  assumes "0 < mx" and "s = replay_run memory_chk memory_clean c evs (nonce_store_new w (Some mx))"
  shows "jm_wf (ns_nonces s) \<and> length (ns_nonces s) \<le> mx"
proof -
  define I where "I s \<longleftrightarrow> jm_wf (ns_nonces s) \<and> length (ns_nonces s) \<le> mx \<and> ns_maxNonces s = mx"
    for s :: nonce_store_state
  have chk: "I (fst (nonce_checkAndAdd now n ts m s))" if "I s" for now n ts m s
    using that assms(1) enforceCapacity_room [of s now] enforceCapacity_wf [of s now]
    by (auto simp: I_def checkAndAdd_entries length_jm_set)
  have step: "I (replay_step memory_chk memory_clean c e s)" if "I s" for e s
  proof (cases e)
    case (Request now r)
    with that chk show ?thesis
      by (auto simp: replay_middleware_def memory_chk_def split_beta split: sum.split option.split bool.split)
  next
    case (CleanupTick now)
    with that show ?thesis
      by (auto simp: I_def memory_clean_def intro: order_trans [OF length_filter_le])
  qed
  have "I (fold (replay_step memory_chk memory_clean c) evs s0)" if "I s0" for s0
    using that step by (induction evs arbitrary: s0) auto
  moreover have "I (nonce_store_new w (Some mx))"
    by (simp add: I_def nonce_store_new_def)
  ultimately show ?thesis
    using assms(2) by (simp add: replay_run_def I_def)
qed

theorem nonce_store_bounded_witness:
  "length (ns_nonces (replay_run memory_chk memory_clean DEFAULT_REPLAY_CONFIG
      [Request 1000 (sample_request ''1000''), Request 2000 (sample_request ''2000'')]
      (nonce_store_new 300000 (Some 1)))) \<le> 1"
  using nonce_store_bounded [of 1, OF _ refl] by simp

text \<open>
  With the Redis store, under the documented behaviour of \<^verbatim>\<open>SET .. EX .. NX\<close>, a request
  accepted with a timestamp in the past blocks every later request that carries the same nonce
  and a timestamp in the same second, for as long as the first timestamp itself stays valid,
  whatever requests are served in between and on whichever instance they arrive.
\<close>

theorem redis_nonce_blocks_reuse:
  assumes "redis_set_nx rset live"
    and "replay_precheck c now r = Inr (n, ts)" and "ts < now"
    and "replay_middleware (redis_checkAndAdd rset) c now r s = (s', ReplayNext, viol)"
    and "rs_windowMs s = rc_windowMs c"
    and "\<forall>e \<in> set evs. event_time e \<le> later" and "later \<le> ts + rc_windowMs c"
    and "replay_precheck c later r' = Inr (n, ts')" and "ts' div 1000 = ts div 1000"
  shows "fst (snd (replay_middleware (redis_checkAndAdd rset) c later r'
           (replay_run (redis_checkAndAdd rset) (\<lambda>now s. s) c evs s'))) \<noteq> ReplayNext"
proof -
  have later: "later \<le> now + (rs_windowMs s - 1)" using assms(3,5,7) by simp
  from nonce_store.reuse_blocked [OF redis_nonce_store [OF assms(1)] assms(2,4) _ assms(6) later assms(8)] assms(9)
  show ?thesis by simp
qed

text \<open>A key-value store with expiry that behaves as documented.\<close>

definition sample_rset :: "(string \<rightharpoonup> int) redis_set" where
  "sample_rset now r k v ttl =
     (if (case r k of None \<Rightarrow> False | Some e \<Rightarrow> now < e) then (r, Some False)
      else (r(k \<mapsto> now + ttl * 1000), Some True))"

definition sample_live :: "(string \<rightharpoonup> int) \<Rightarrow> int \<Rightarrow> string \<Rightarrow> bool" where
  "sample_live r t k = (case r k of None \<Rightarrow> False | Some e \<Rightarrow> t < e)"

lemma sample_redis_law: "redis_set_nx sample_rset sample_live"
  by (auto simp: redis_set_nx_def sample_rset_def sample_live_def split: option.splits if_splits)

lemma sample_precheck:
  "replay_precheck DEFAULT_REPLAY_CONFIG 2000 (sample_request ''1000'') = Inr (''0123456789abcdef'', 1000)"
  "replay_precheck DEFAULT_REPLAY_CONFIG 300000 (sample_request ''1000'') = Inr (''0123456789abcdef'', 1000)"
  by (simp_all add: replay_eval Let_def)

lemma sample_redis_first:
  "\<exists>s' viol. replay_middleware (redis_checkAndAdd sample_rset) DEFAULT_REPLAY_CONFIG 2000
      (sample_request ''1000'') (redis_nonce_new Map.empty None None) = (s', ReplayNext, viol)"
  by (simp add: replay_middleware_def sample_precheck)
     (simp add: redis_checkAndAdd_def redis_nonce_new_def sample_rset_def Let_def)

theorem redis_nonce_blocks_reuse_witness:
  "\<exists>s' viol. replay_middleware (redis_checkAndAdd sample_rset) DEFAULT_REPLAY_CONFIG 2000
      (sample_request ''1000'') (redis_nonce_new Map.empty None None) = (s', ReplayNext, viol) \<and>
    fst (snd (replay_middleware (redis_checkAndAdd sample_rset) DEFAULT_REPLAY_CONFIG 300000
      (sample_request ''1000'') s')) \<noteq> ReplayNext"
proof -
  obtain s' viol where first: "replay_middleware (redis_checkAndAdd sample_rset) DEFAULT_REPLAY_CONFIG 2000
      (sample_request ''1000'') (redis_nonce_new Map.empty None None) = (s', ReplayNext, viol)"
    using sample_redis_first by blast
  have cfg: "rs_windowMs (redis_nonce_new Map.empty None None) = rc_windowMs DEFAULT_REPLAY_CONFIG"
    "(300000::int) \<le> 1000 + rc_windowMs DEFAULT_REPLAY_CONFIG"
    by (simp_all add: redis_nonce_new_def DEFAULT_REPLAY_CONFIG_def)
  from redis_nonce_blocks_reuse [OF sample_redis_law sample_precheck(1) _ first cfg(1) _ cfg(2)
      sample_precheck(2), of "[]"] first
  show ?thesis by (auto simp: replay_run_def)
qed

end
