(* ===== verification/Retry_Buffer.thy ===== *)
theory Retry_Buffer
  imports Prelude
begin

text \<open>
  The ClickHouse retry buffer (\<^verbatim>\<open>api/src/storage/clickhouse/retry-buffer.ts\<close>). Items are
  objects whose \<^verbatim>\<open>attempts\<close> and \<^verbatim>\<open>nextRetryAt\<close> are mutated while a batch is in flight and while
  the buffer itself changes, so the model has an explicit store of items; the buffer holds
  their references. Every \<^verbatim>\<open>await\<close> is a point where other operations can run: a background pass
  is split into the tick, the acquisition of the mutex and one step per completed retry, and a
  flush into its exclusive part and its completion. ClickHouse is a parameter: each event
  carries the outcome of the write it performed.

  \<open>rb_dlq\<close>, \<open>rb_written\<close> and \<open>rb_silent\<close> are history variables: the dead-letter log entries, the
  items whose retry was confirmed, and the items that left the buffer without either.
\<close>

section \<open>Data\<close>

record rb_config =
  rb_maxBufferSize :: nat
  rb_maxRetries :: nat
  rb_initialDelayMs :: int
  rb_maxDelayMs :: int
  rb_retryIntervalMs :: int
  rb_retryBatchSize :: nat

definition DEFAULT_RETRY_CONFIG :: rb_config where
  "DEFAULT_RETRY_CONFIG =
     \<lparr> rb_maxBufferSize = 10000, rb_maxRetries = 5, rb_initialDelayMs = 1000,
       rb_maxDelayMs = 60000, rb_retryIntervalMs = 5000, rb_retryBatchSize = 100 \<rparr>"

text \<open>The discriminated union of payloads; the last one stands for a corrupt persisted item.\<close>

datatype 'r item_data =
  Item_signal "'r list" | Item_campaign 'r | Item_blocklist "'r list"
| Item_transaction "'r list" | Item_log "'r list" | Item_unknown string

record 'r buffered_item =
  bi_data :: "'r item_data"
  bi_attempts :: nat
  bi_nextRetryAt :: int
  bi_addedAt :: int

datatype dlq_reason = Flush_in_progress | Buffer_overflow | Max_retries_exceeded | Flush_timeout

record 'r retry_buffer =
  rb_buffer :: "nat list"
  rb_heap :: "nat \<Rightarrow> 'r buffered_item option"
  rb_next :: nat
  rb_retryTimer :: bool
  rb_isProcessing :: bool
  rb_isFlushing :: bool
  rb_totalAttempts :: nat
  rb_successfulRetries :: nat
  rb_failedRetries :: nat
  rb_droppedItems :: nat
  rb_tick :: "int option"
  rb_batch :: "(int \<times> nat list) option"
  rb_flushing :: "nat list option"
  rb_dlq :: "(nat \<times> dlq_reason) list"
  rb_written :: "nat list"
  rb_silent :: "nat list"

definition rb_new :: "'r retry_buffer" where
  "rb_new =
     \<lparr> rb_buffer = [], rb_heap = Map.empty, rb_next = 0, rb_retryTimer = False,
       rb_isProcessing = False, rb_isFlushing = False, rb_totalAttempts = 0,
       rb_successfulRetries = 0, rb_failedRetries = 0, rb_droppedItems = 0,
       rb_tick = None, rb_batch = None, rb_flushing = None,
       rb_dlq = [], rb_written = [], rb_silent = [] \<rparr>"

section \<open>Operations\<close>

text \<open>Allocation of an item object.\<close>

definition rb_alloc :: "'r buffered_item \<Rightarrow> 'r retry_buffer \<Rightarrow> 'r retry_buffer" where
  "rb_alloc it s = s\<lparr>rb_heap := (rb_heap s)(rb_next s \<mapsto> it), rb_next := Suc (rb_next s)\<rparr>"

definition logToDeadLetterQueue :: "nat \<Rightarrow> dlq_reason \<Rightarrow> 'r retry_buffer \<Rightarrow> 'r retry_buffer" where
  "logToDeadLetterQueue i reason s = s\<lparr>rb_dlq := rb_dlq s @ [(i, reason)]\<rparr>"

definition rb_drop :: "nat \<Rightarrow> dlq_reason \<Rightarrow> 'r retry_buffer \<Rightarrow> 'r retry_buffer" where
  "rb_drop i reason s = logToDeadLetterQueue i reason (s\<lparr>rb_droppedItems := Suc (rb_droppedItems s)\<rparr>)"

definition bufferForRetry :: "rb_config \<Rightarrow> int \<Rightarrow> 'r item_data \<Rightarrow> 'r retry_buffer \<Rightarrow> 'r retry_buffer" where
  "bufferForRetry c now d s =
     (let i = rb_next s in
      if rb_isFlushing s
      then rb_drop i Flush_in_progress
             (rb_alloc \<lparr> bi_data = d, bi_attempts = 1, bi_nextRetryAt = now, bi_addedAt = now \<rparr> s)
      else
        (let s1 = (if rb_maxBufferSize c \<le> length (rb_buffer s)
                   then (case rb_buffer s of
                           [] \<Rightarrow> s
                         | evicted # rest \<Rightarrow> rb_drop evicted Buffer_overflow (s\<lparr>rb_buffer := rest\<rparr>))
                   else s);
             s2 = rb_alloc \<lparr> bi_data = d, bi_attempts = 1,
                             bi_nextRetryAt = now + rb_initialDelayMs c, bi_addedAt = now \<rparr> s1
         in s2\<lparr>rb_buffer := rb_buffer s2 @ [i]\<rparr>))"

text \<open>
  The five insert operations: nothing to do for an empty array, otherwise one write whose
  outcome is \<open>ok\<close>. The result is the boolean the caller receives.
\<close>

definition rb_insert ::
  "bool \<Rightarrow> rb_config \<Rightarrow> int \<Rightarrow> bool \<Rightarrow> 'r item_data \<Rightarrow> 'r retry_buffer \<Rightarrow> bool \<times> 'r retry_buffer" where
  "rb_insert noRows c now ok d s =
     (if noRows then (True, s)
      else if ok then (True, s)
      else (False, bufferForRetry c now d s))"

definition rb_insertSignalEvents :: "rb_config \<Rightarrow> int \<Rightarrow> bool \<Rightarrow> 'r list \<Rightarrow> 'r retry_buffer \<Rightarrow> bool \<times> 'r retry_buffer" where
  "rb_insertSignalEvents c now ok xs s = rb_insert (xs = []) c now ok (Item_signal xs) s"

definition rb_insertCampaignEvent :: "rb_config \<Rightarrow> int \<Rightarrow> bool \<Rightarrow> 'r \<Rightarrow> 'r retry_buffer \<Rightarrow> bool \<times> 'r retry_buffer" where
  "rb_insertCampaignEvent c now ok x s = rb_insert False c now ok (Item_campaign x) s"

definition rb_insertBlocklistEvents :: "rb_config \<Rightarrow> int \<Rightarrow> bool \<Rightarrow> 'r list \<Rightarrow> 'r retry_buffer \<Rightarrow> bool \<times> 'r retry_buffer" where
  "rb_insertBlocklistEvents c now ok xs s = rb_insert (xs = []) c now ok (Item_blocklist xs) s"

definition rb_insertHttpTransactions :: "rb_config \<Rightarrow> int \<Rightarrow> bool \<Rightarrow> 'r list \<Rightarrow> 'r retry_buffer \<Rightarrow> bool \<times> 'r retry_buffer" where
  "rb_insertHttpTransactions c now ok xs s = rb_insert (xs = []) c now ok (Item_transaction xs) s"

definition rb_insertLogEntries :: "rb_config \<Rightarrow> int \<Rightarrow> bool \<Rightarrow> 'r list \<Rightarrow> 'r retry_buffer \<Rightarrow> bool \<times> 'r retry_buffer" where
  "rb_insertLogEntries c now ok xs s = rb_insert (xs = []) c now ok (Item_log xs) s"

text \<open>The mutex \<^verbatim>\<open>runExclusive\<close> is free unless a retry batch is in flight.\<close>

definition rb_lock_free :: "'r retry_buffer \<Rightarrow> bool" where
  "rb_lock_free s \<longleftrightarrow> rb_batch s = None"

text \<open>
  \<^verbatim>\<open>start\<close>: the persisted items go in front, and what exceeds the capacity is cut off.
  \<open>loaded\<close> is \<open>None\<close> without a persistent store or when loading fails.
\<close>

definition rb_alloc_all :: "'r buffered_item list \<Rightarrow> 'r retry_buffer \<Rightarrow> 'r retry_buffer" where
  "rb_alloc_all its s = fold rb_alloc its s"

definition rb_start :: "rb_config \<Rightarrow> 'r buffered_item list option \<Rightarrow> 'r retry_buffer \<Rightarrow> 'r retry_buffer" where
  "rb_start c loaded s =
     (if rb_retryTimer s then s
      else
        (let s1 = (case loaded of
                     None \<Rightarrow> s
                   | Some its \<Rightarrow>
                       if its = [] then s
                       else (let all = [rb_next s ..< rb_next s + length its] @ rb_buffer s
                             in (rb_alloc_all its s)
                                  \<lparr>rb_buffer := take (rb_maxBufferSize c) all,
                                   rb_silent := rb_silent s @ drop (rb_maxBufferSize c) all\<rparr>))
         in s1\<lparr>rb_retryTimer := True\<rparr>))"

text \<open>\<^verbatim>\<open>stopUnlocked\<close>; the second result is what is saved to the persistent store.\<close>

definition stopUnlocked ::
  "bool \<Rightarrow> bool \<Rightarrow> 'r retry_buffer \<Rightarrow> 'r retry_buffer \<times> 'r buffered_item list option" where
  "stopUnlocked persist hasStore s =
     (s\<lparr>rb_retryTimer := False\<rparr>,
      if persist \<and> hasStore \<and> rb_buffer s \<noteq> [] then Some (List.map_filter (rb_heap s) (rb_buffer s)) else None)"

text \<open>A timer tick enters \<^verbatim>\<open>processRetries\<close>.\<close>

definition processRetries_tick :: "int \<Rightarrow> 'r retry_buffer \<Rightarrow> 'r retry_buffer" where
  "processRetries_tick now s =
     (if rb_isProcessing s \<or> rb_buffer s = [] then s
      else s\<lparr>rb_isProcessing := True, rb_tick := Some now\<rparr>)"

definition rb_ready :: "'r retry_buffer \<Rightarrow> int \<Rightarrow> nat \<Rightarrow> bool" where
  "rb_ready s now i = (case rb_heap s i of None \<Rightarrow> False | Some it \<Rightarrow> bi_nextRetryAt it \<le> now)"

text \<open>The end of a background pass, when no item of the batch is left.\<close>

definition rb_batch_next :: "int \<Rightarrow> nat list \<Rightarrow> 'r retry_buffer \<Rightarrow> 'r retry_buffer" where
  "rb_batch_next now rest s =
     (if rest = [] then s\<lparr>rb_batch := None, rb_isProcessing := False\<rparr> else s\<lparr>rb_batch := Some (now, rest)\<rparr>)"

text \<open>The tick obtains the mutex and selects the batch.\<close>

definition processRetries_acquire :: "rb_config \<Rightarrow> 'r retry_buffer \<Rightarrow> 'r retry_buffer" where
  "processRetries_acquire c s =
     (case rb_tick s of
        None \<Rightarrow> s
      | Some now \<Rightarrow>
          rb_batch_next now (take (rb_retryBatchSize c) (filter (rb_ready s now) (rb_buffer s)))
            (s\<lparr>rb_tick := None\<rparr>))"

text \<open>The write that a retry performs, by item type; an unknown type throws.\<close>

datatype 'r ch_insert =
  InsertSignalEvents "'r list" | InsertCampaignEvent 'r | InsertBlocklistEvents "'r list"
| InsertHttpTransactions "'r list" | InsertLogEntries "'r list"

fun retryItem :: "'r item_data \<Rightarrow> 'r ch_insert option" where
  "retryItem (Item_signal xs) = Some (InsertSignalEvents xs)"
| "retryItem (Item_campaign x) = Some (InsertCampaignEvent x)"
| "retryItem (Item_blocklist xs) = Some (InsertBlocklistEvents xs)"
| "retryItem (Item_transaction xs) = Some (InsertHttpTransactions xs)"
| "retryItem (Item_log xs) = Some (InsertLogEntries xs)"
| "retryItem (Item_unknown t) = None"

text \<open>\<^verbatim>\<open>retryItem\<close> completes only when its write exists and succeeds within the time limit.\<close>

definition retry_succeeds :: "bool \<Rightarrow> 'r buffered_item \<Rightarrow> bool" where
  "retry_succeeds ok it \<longleftrightarrow> ok \<and> retryItem (bi_data it) \<noteq> None"

definition rb_backoff :: "rb_config \<Rightarrow> nat \<Rightarrow> int" where
  "rb_backoff c attempts = min (rb_initialDelayMs c * 2 ^ (attempts - 1)) (rb_maxDelayMs c)"

definition rb_retry_ok :: "nat \<Rightarrow> 'r retry_buffer \<Rightarrow> 'r retry_buffer" where
  "rb_retry_ok i s =
     s\<lparr>rb_buffer := remove1 i (rb_buffer s), rb_successfulRetries := Suc (rb_successfulRetries s),
       rb_written := rb_written s @ [i]\<rparr>"

definition rb_retry_failed :: "rb_config \<Rightarrow> int \<Rightarrow> nat \<Rightarrow> 'r buffered_item \<Rightarrow> 'r retry_buffer \<Rightarrow> 'r retry_buffer" where
  "rb_retry_failed c now i it s0 =
     (let attempts = Suc (bi_attempts it);
          it' = it\<lparr>bi_attempts := attempts\<rparr>;
          s = s0\<lparr>rb_failedRetries := Suc (rb_failedRetries s0)\<rparr>
      in if rb_maxRetries c \<le> attempts
         then rb_drop i Max_retries_exceeded
                (s\<lparr>rb_heap := (rb_heap s)(i \<mapsto> it'), rb_buffer := remove1 i (rb_buffer s)\<rparr>)
         else s\<lparr>rb_heap := (rb_heap s)(i \<mapsto> it'\<lparr>bi_nextRetryAt := now + rb_backoff c attempts\<rparr>)\<rparr>)"

text \<open>One iteration of the batch loop: the write of the current item has settled.\<close>

definition processRetries_settle :: "rb_config \<Rightarrow> bool \<Rightarrow> 'r retry_buffer \<Rightarrow> 'r retry_buffer" where
  "processRetries_settle c ok s =
     (case rb_batch s of
        Some (now, i # rest) \<Rightarrow>
          (case rb_heap s i of
             None \<Rightarrow> s
           | Some it \<Rightarrow>
               (let s1 = s\<lparr>rb_totalAttempts := Suc (rb_totalAttempts s)\<rparr>;
                    s2 = (if retry_succeeds ok it then rb_retry_ok i s1 else rb_retry_failed c now i it s1)
                in rb_batch_next now rest s2))
      | _ \<Rightarrow> s)"

text \<open>The exclusive part of \<^verbatim>\<open>flush\<close>.\<close>

definition flush_begin :: "'r retry_buffer \<Rightarrow> 'r retry_buffer" where
  "flush_begin s =
     (let s1 = fst (stopUnlocked False False (s\<lparr>rb_isFlushing := True\<rparr>))
      in s1\<lparr>rb_flushing := Some (rb_buffer s1), rb_buffer := []\<rparr>)"

record flush_result =
  fr_succeeded :: nat
  fr_failed :: nat

definition flush_outcomes :: "'r retry_buffer \<Rightarrow> nat list \<Rightarrow> bool list \<Rightarrow> (nat \<times> bool) list" where
  "flush_outcomes s items oks =
     map (\<lambda>(i, ok). (i, case rb_heap s i of None \<Rightarrow> False | Some it \<Rightarrow> retry_succeeds ok it)) (zip items oks)"

text \<open>
  The rest of \<^verbatim>\<open>flush\<close>: \<open>oks\<close> are the outcomes of the writes that settled before the timeout
  fired, in order; with fewer outcomes than items the timeout won the race.
\<close>

definition flush_end :: "bool list \<Rightarrow> 'r retry_buffer \<Rightarrow> flush_result \<times> 'r retry_buffer" where
  "flush_end oks s =
     (case rb_flushing s of
        None \<Rightarrow> (\<lparr> fr_succeeded = 0, fr_failed = 0 \<rparr>, s)
      | Some items \<Rightarrow>
          (let res = flush_outcomes s items oks;
               completed = length res;
               succeeded = length (filter snd res);
               failed0 = length (filter (\<lambda>r. \<not> snd r) res);
               unprocessed = drop completed items;
               s1 = s\<lparr>rb_written := rb_written s @ map fst (filter snd res),
                      rb_silent := rb_silent s @ map fst (filter (\<lambda>r. \<not> snd r) res)\<rparr>;
               s2 = (if completed < length items then fold (\<lambda>i. rb_drop i Flush_timeout) unprocessed s1 else s1);
               failed = (if completed < length items
                         then failed0 + (length items - succeeded - failed0) else failed0)
           in (\<lparr> fr_succeeded = succeeded, fr_failed = failed \<rparr>,
               s2\<lparr>rb_flushing := None, rb_isFlushing := False\<rparr>)))"

definition resetStats :: "'r retry_buffer \<Rightarrow> 'r retry_buffer" where
  "resetStats s = s\<lparr>rb_totalAttempts := 0, rb_successfulRetries := 0, rb_failedRetries := 0, rb_droppedItems := 0\<rparr>"

definition rb_clear :: "'r retry_buffer \<Rightarrow> 'r retry_buffer" where
  "rb_clear s = s\<lparr>rb_silent := rb_silent s @ rb_buffer s, rb_buffer := []\<rparr>"

record rb_stats =
  st_bufferedCount :: nat
  st_totalAttempts :: nat
  st_successfulRetries :: nat
  st_failedRetries :: nat
  st_droppedItems :: nat
  st_oldestItemAge :: "int option"
  st_isProcessing :: bool
  st_bufferUtilization :: rat

fun oldest_added :: "int list \<Rightarrow> int option" where
  "oldest_added [] = None"
| "oldest_added (a # as) = Some (fold (\<lambda>x m. if x < m then x else m) as a)"

definition rb_getStats :: "rb_config \<Rightarrow> int \<Rightarrow> 'r retry_buffer \<Rightarrow> rb_stats" where
  "rb_getStats c now s =
     \<lparr> st_bufferedCount = length (rb_buffer s), st_totalAttempts = rb_totalAttempts s,
       st_successfulRetries = rb_successfulRetries s, st_failedRetries = rb_failedRetries s,
       st_droppedItems = rb_droppedItems s,
       st_oldestItemAge =
         map_option (\<lambda>a. now - a) (oldest_added (map bi_addedAt (List.map_filter (rb_heap s) (rb_buffer s)))),
       st_isProcessing = rb_isProcessing s,
       st_bufferUtilization = of_nat (length (rb_buffer s)) / of_nat (rb_maxBufferSize c) \<rparr>"

section \<open>Interleavings\<close>

datatype 'r rb_event =
  Rb_Insert int bool "'r item_data"
| Rb_Tick int
| Rb_Acquire
| Rb_Settle bool
| Rb_Start "'r buffered_item list option"
| Rb_Stop bool
| Rb_FlushBegin
| Rb_FlushEnd "bool list"
| Rb_ResetStats
| Rb_Clear

fun item_empty :: "'r item_data \<Rightarrow> bool" where
  "item_empty (Item_signal xs) = (xs = [])"
| "item_empty (Item_campaign x) = False"
| "item_empty (Item_blocklist xs) = (xs = [])"
| "item_empty (Item_transaction xs) = (xs = [])"
| "item_empty (Item_log xs) = (xs = [])"
| "item_empty (Item_unknown t) = True"

text \<open>
  One atomic stretch of the program; \<open>None\<close> when it cannot run in this state: a tick needs the
  timer, the exclusive sections need the mutex, and flush is not re-entered.
\<close>

fun rb_exec :: "rb_config \<Rightarrow> 'r rb_event \<Rightarrow> 'r retry_buffer \<Rightarrow> 'r retry_buffer option" where
  "rb_exec c (Rb_Insert now ok d) s = Some (snd (rb_insert (item_empty d) c now ok d s))"
| "rb_exec c (Rb_Tick now) s = (if rb_retryTimer s then Some (processRetries_tick now s) else None)"
| "rb_exec c Rb_Acquire s = (if rb_tick s \<noteq> None \<and> rb_lock_free s then Some (processRetries_acquire c s) else None)"
| "rb_exec c (Rb_Settle ok) s = (if rb_batch s \<noteq> None then Some (processRetries_settle c ok s) else None)"
| "rb_exec c (Rb_Start loaded) s = (if rb_lock_free s then Some (rb_start c loaded s) else None)"
| "rb_exec c (Rb_Stop hasStore) s = (if rb_lock_free s then Some (fst (stopUnlocked True hasStore s)) else None)"
| "rb_exec c Rb_FlushBegin s = (if rb_lock_free s \<and> rb_flushing s = None then Some (flush_begin s) else None)"
| "rb_exec c (Rb_FlushEnd oks) s = (if rb_flushing s \<noteq> None then Some (snd (flush_end oks s)) else None)"
| "rb_exec c Rb_ResetStats s = Some (resetStats s)"
| "rb_exec c Rb_Clear s = Some (rb_clear s)"

inductive rb_reach :: "rb_config \<Rightarrow> 'r rb_event list \<Rightarrow> 'r retry_buffer \<Rightarrow> bool" for c where
  rb_reach_new: "rb_reach c [] rb_new"
| rb_reach_step: "rb_reach c es s \<Longrightarrow> rb_exec c e s = Some s' \<Longrightarrow> rb_reach c (es @ [e]) s'"

section \<open>Invariant\<close>

definition rb_known :: "'r retry_buffer \<Rightarrow> nat set" where
  "rb_known s = set (rb_buffer s) \<union> set (rb_written s) \<union> fst ` set (rb_dlq s) \<union> set (rb_silent s)
     \<union> (case rb_flushing s of None \<Rightarrow> {} | Some is \<Rightarrow> set is)"

text \<open>Where items can be and what the control flags say.\<close>

definition rb_inv :: "rb_config \<Rightarrow> 'r retry_buffer \<Rightarrow> bool" where
  "rb_inv c s \<longleftrightarrow>
     length (rb_buffer s) \<le> max 1 (rb_maxBufferSize c) \<and> distinct (rb_buffer s) \<and>
     rb_known s = {..<rb_next s} \<and> dom (rb_heap s) = {..<rb_next s} \<and>
     (\<forall>now is. rb_batch s = Some (now, is) \<longrightarrow> is \<noteq> [] \<and> set is \<subseteq> {..<rb_next s}) \<and>
     (rb_isProcessing s \<longleftrightarrow> rb_tick s \<noteq> None \<or> rb_batch s \<noteq> None) \<and>
     (rb_tick s = None \<or> rb_batch s = None) \<and>
     (rb_isFlushing s \<longleftrightarrow> rb_flushing s \<noteq> None)"

lemmas rb_op_defs = rb_alloc_def logToDeadLetterQueue_def rb_drop_def

lemma rb_invD:
  assumes "rb_inv c s"
  shows "length (rb_buffer s) \<le> max 1 (rb_maxBufferSize c)" "distinct (rb_buffer s)"
    "rb_known s = {..<rb_next s}" "dom (rb_heap s) = {..<rb_next s}"
    "rb_batch s = Some (now, is) \<Longrightarrow> is \<noteq> [] \<and> set is \<subseteq> {..<rb_next s}"
  using assms unfolding rb_inv_def by blast+

lemma rb_inv_new: "rb_inv c rb_new"
  by (simp add: rb_inv_def rb_new_def rb_known_def)

lemma rb_inv_push:
  assumes "rb_inv c s" and "length (rb_buffer s) < max 1 (rb_maxBufferSize c)"
  shows "rb_inv c ((rb_alloc it s)\<lparr>rb_buffer := rb_buffer s @ [rb_next s]\<rparr>)"
proof -
  have "rb_next s \<notin> set (rb_buffer s)"
    using rb_invD(3) [OF assms(1)] by (auto simp: rb_known_def)
  moreover have "rb_known ((rb_alloc it s)\<lparr>rb_buffer := rb_buffer s @ [rb_next s]\<rparr>) = insert (rb_next s) (rb_known s)"
    by (auto simp: rb_known_def rb_alloc_def)
  ultimately show ?thesis
    using assms unfolding rb_inv_def
    by (simp add: rb_alloc_def lessThan_Suc) (metis insertI2 subset_iff)
qed

lemma rb_inv_drop_new:
  assumes "rb_inv c s"
  shows "rb_inv c (rb_drop (rb_next s) r (rb_alloc it s))"
proof -
  have "rb_known (rb_drop (rb_next s) r (rb_alloc it s)) = insert (rb_next s) (rb_known s)"
    by (auto simp: rb_known_def rb_op_defs)
  then show ?thesis
    using assms unfolding rb_inv_def
    by (simp add: rb_op_defs lessThan_Suc) (metis insertI2 subset_iff)
qed

text \<open>An item that leaves the buffer for the dead-letter log.\<close>

lemma rb_inv_drop:
  assumes "rb_inv c s" and "i < rb_next s"
    and "length b \<le> length (rb_buffer s)" and "distinct b" and "insert i (set b) = insert i (set (rb_buffer s))"
  shows "rb_inv c (rb_drop i r (s\<lparr>rb_buffer := b\<rparr>))"
proof -
  have "rb_known (rb_drop i r (s\<lparr>rb_buffer := b\<rparr>)) = insert i (rb_known s)"
    using assms(5) by (simp add: rb_known_def rb_op_defs insert_commute) (metis Un_insert_left)
  also have "\<dots> = rb_known s"
    using rb_invD(3) [OF assms(1)] assms(2) by auto
  finally show ?thesis
    using assms unfolding rb_inv_def by (simp add: rb_op_defs)
qed

lemma rb_inv_insert: "rb_inv c s \<Longrightarrow> rb_inv c (snd (rb_insert e c now ok d s))"
proof -
  assume inv: "rb_inv c s"
  have "rb_inv c (bufferForRetry c now d s)"
  proof (cases "rb_isFlushing s")
    case True
    then show ?thesis using inv by (simp add: bufferForRetry_def Let_def rb_inv_drop_new)
  next
    case False
    show ?thesis
    proof (cases "rb_buffer s")
      case Nil
      with inv False rb_inv_push [of c s] show ?thesis
        by (simp add: bufferForRetry_def Let_def rb_alloc_def)
    next
      case (Cons e rest)
      let ?s1 = "rb_drop e Buffer_overflow (s\<lparr>rb_buffer := rest\<rparr>)"
      have "e < rb_next s" using rb_invD(3) [OF inv] Cons by (auto simp: rb_known_def)
      with inv Cons rb_invD(2) [OF inv] have "rb_inv c ?s1" by (intro rb_inv_drop) auto
      moreover have "rb_buffer ?s1 = rest" "rb_next ?s1 = rb_next s" by (simp_all add: rb_op_defs)
      ultimately show ?thesis
        using False inv Cons rb_inv_push [of c ?s1] rb_inv_push [of c s] rb_invD(1) [OF inv]
        by (auto simp: bufferForRetry_def Let_def rb_alloc_def)
    qed
  qed
  with inv show ?thesis by (simp add: rb_insert_def)
qed

lemma rb_inv_batch_next:
  assumes "rb_inv c s" and "set rest \<subseteq> {..<rb_next s}" and "rb_isProcessing s" and "rb_tick s = None"
  shows "rb_inv c (rb_batch_next now rest s)"
  using assms unfolding rb_inv_def by (auto simp: rb_batch_next_def rb_known_def)

lemma rb_inv_acquire:
  assumes "rb_inv c s" and "rb_tick s \<noteq> None" and "rb_batch s = None"
  shows "rb_inv c (processRetries_acquire c s)"
proof -
  obtain now where t: "rb_tick s = Some now" using assms(2) by auto
  let ?rest = "take (rb_retryBatchSize c) (filter (rb_ready s now) (rb_buffer s))"
  have "set ?rest \<subseteq> set (rb_buffer s)"
    by (meson filter_is_subset order_trans set_take_subset)
  then have "set ?rest \<subseteq> {..<rb_next s}"
    using rb_invD(3) [OF assms(1)] by (auto simp: rb_known_def)
  then show ?thesis
    using assms t unfolding rb_inv_def
    by (auto simp: processRetries_acquire_def rb_batch_next_def rb_known_def)
qed

lemma rb_inv_retry_ok: "rb_inv c s \<Longrightarrow> i < rb_next s \<Longrightarrow> rb_inv c (rb_retry_ok i s)"
proof -
  assume inv: "rb_inv c s" and i: "i < rb_next s"
  have "rb_known (rb_retry_ok i s) = insert i (rb_known s)"
    using rb_invD(2) [OF inv] by (auto simp: rb_known_def rb_retry_ok_def)
  with i rb_invD(3) [OF inv] have "rb_known (rb_retry_ok i s) = {..<rb_next s}" by auto
  then show ?thesis
    using inv unfolding rb_inv_def
    by (auto simp: rb_retry_ok_def length_remove1 distinct_remove1)
qed

lemma rb_inv_heap: "rb_inv c s \<Longrightarrow> i < rb_next s \<Longrightarrow> rb_inv c (s\<lparr>rb_heap := (rb_heap s)(i \<mapsto> it)\<rparr>)"
  unfolding rb_inv_def by (auto simp: rb_known_def)

lemma rb_inv_stats:
  "rb_inv c s \<Longrightarrow> rb_inv c (s\<lparr>rb_totalAttempts := a\<rparr>)"
  "rb_inv c s \<Longrightarrow> rb_inv c (s\<lparr>rb_failedRetries := a\<rparr>)"
  unfolding rb_inv_def by (auto simp: rb_known_def)

lemma rb_inv_retry_failed:
  assumes "rb_inv c s" and "i < rb_next s"
  shows "rb_inv c (rb_retry_failed c now i it s)"
proof -
  define s1 where "s1 = s\<lparr>rb_failedRetries := Suc (rb_failedRetries s)\<rparr>"
  have inv: "rb_inv c s1" and next1: "i < rb_next s1"
    using assms rb_inv_stats(2) by (auto simp: s1_def)
  have heap: "rb_inv c (s1\<lparr>rb_heap := (rb_heap s1)(i \<mapsto> it')\<rparr>)" for it'
    using inv next1 by (rule rb_inv_heap)
  have b: "length (remove1 i (rb_buffer s)) \<le> length (rb_buffer s)" "distinct (remove1 i (rb_buffer s))"
    "insert i (set (remove1 i (rb_buffer s))) = insert i (set (rb_buffer s))"
    using rb_invD(2) [OF assms(1)] by (auto simp: length_remove1)
  from rb_inv_drop [OF heap, where b = "remove1 i (rb_buffer s)"] next1 b
  have "rb_inv c (rb_drop i r (s1\<lparr>rb_heap := (rb_heap s1)(i \<mapsto> it'), rb_buffer := remove1 i (rb_buffer s)\<rparr>))" for it' r
    by (simp add: s1_def)
  with heap show ?thesis
    by (simp add: rb_retry_failed_def Let_def s1_def)
qed

lemma rb_retry_frame:
  "rb_next (rb_retry_ok i s) = rb_next s" "rb_isProcessing (rb_retry_ok i s) = rb_isProcessing s"
  "rb_tick (rb_retry_ok i s) = rb_tick s" "rb_next (rb_retry_failed c now i it s) = rb_next s"
  "rb_isProcessing (rb_retry_failed c now i it s) = rb_isProcessing s"
  "rb_tick (rb_retry_failed c now i it s) = rb_tick s"
  by (simp_all add: rb_retry_ok_def rb_retry_failed_def Let_def rb_op_defs)

lemma rb_inv_settle:
  assumes inv: "rb_inv c s"
  shows "rb_inv c (processRetries_settle c ok s)"
proof (cases "rb_batch s")
  case None
  with inv show ?thesis by (simp add: processRetries_settle_def)
next
  case (Some b)
  obtain now ids where b: "b = (now, ids)" by (cases b)
  from rb_invD(5) [OF inv] Some b obtain i rest where ids: "ids = i # rest" "i < rb_next s" "set rest \<subseteq> {..<rb_next s}"
    by (cases ids) auto
  from ids(2) rb_invD(4) [OF inv] obtain it where it: "rb_heap s i = Some it" by blast
  have flags: "rb_isProcessing s" "rb_tick s = None" using inv Some by (auto simp: rb_inv_def)
  define s1 where "s1 = s\<lparr>rb_totalAttempts := Suc (rb_totalAttempts s)\<rparr>"
  have "rb_inv c s1" "rb_next s1 = rb_next s" "rb_isProcessing s1" "rb_tick s1 = None"
    using inv flags by (auto simp: s1_def rb_inv_stats)
  with ids have "rb_inv c (rb_batch_next now rest (if retry_succeeds ok it then rb_retry_ok i s1 else rb_retry_failed c now i it s1))"
    by (intro rb_inv_batch_next) (auto simp: rb_inv_retry_ok rb_inv_retry_failed rb_retry_frame)
  then show ?thesis
    using Some b ids it unfolding s1_def by (simp add: processRetries_settle_def Let_def)
qed

lemma rb_alloc_all_simps:
  "rb_next (rb_alloc_all its s) = rb_next s + length its"
  "rb_buffer (rb_alloc_all its s) = rb_buffer s" "rb_batch (rb_alloc_all its s) = rb_batch s"
  "rb_written (rb_alloc_all its s) = rb_written s" "rb_dlq (rb_alloc_all its s) = rb_dlq s"
  "rb_flushing (rb_alloc_all its s) = rb_flushing s" "rb_silent (rb_alloc_all its s) = rb_silent s"
  "rb_tick (rb_alloc_all its s) = rb_tick s" "rb_isProcessing (rb_alloc_all its s) = rb_isProcessing s"
  "rb_isFlushing (rb_alloc_all its s) = rb_isFlushing s"
  "dom (rb_heap s) = {..<rb_next s} \<Longrightarrow> dom (rb_heap (rb_alloc_all its s)) = {..<rb_next s + length its}"
  unfolding rb_alloc_all_def
  by (induction its arbitrary: s) (auto simp: rb_alloc_def lessThan_Suc)

lemma Un_swap_parts: "A \<union> B = C \<union> D \<Longrightarrow> A \<union> W \<union> Q \<union> (S \<union> B) \<union> F = C \<union> (D \<union> W \<union> Q \<union> S \<union> F)"
  by blast

lemma rb_inv_load:
  assumes inv: "rb_inv c s" and b: "rb_batch s = None"
    and all: "all = [rb_next s ..< rb_next s + length its] @ rb_buffer s"
    and m: "m \<le> max 1 (rb_maxBufferSize c)"
  shows "rb_inv c ((rb_alloc_all its s)\<lparr>rb_buffer := take m all, rb_silent := rb_silent s @ drop m all\<rparr>)"
proof -
  have buf: "set (rb_buffer s) \<subseteq> {..<rb_next s}"
    using rb_invD(3) [OF inv] by (auto simp: rb_known_def)
  have parts: "set (take m all) \<union> set (drop m all) = {rb_next s ..< rb_next s + length its} \<union> set (rb_buffer s)"
    by (subst set_append [symmetric]) (simp add: all del: take_append drop_append)
  have "rb_known ((rb_alloc_all its s)\<lparr>rb_buffer := take m all, rb_silent := rb_silent s @ drop m all\<rparr>)
      = set (take m all) \<union> set (rb_written s) \<union> fst ` set (rb_dlq s) \<union> (set (rb_silent s) \<union> set (drop m all))
          \<union> (case rb_flushing s of None \<Rightarrow> {} | Some is \<Rightarrow> set is)"
    unfolding rb_known_def by (simp add: rb_alloc_all_simps)
  also have "\<dots> = {rb_next s ..< rb_next s + length its} \<union> rb_known s"
    unfolding rb_known_def by (rule Un_swap_parts [OF parts])
  also have "\<dots> = {..<rb_next s + length its}"
    unfolding rb_invD(3) [OF inv] by (auto simp: set_eq_iff)
  finally have known: "rb_known ((rb_alloc_all its s)\<lparr>rb_buffer := take m all, rb_silent := rb_silent s @ drop m all\<rparr>)
      = {..<rb_next s + length its}" .
  have "distinct all"
    using buf rb_invD(2) [OF inv] unfolding all by auto
  then have "distinct (take m all)" by simp
  moreover have "length (take m all) \<le> max 1 (rb_maxBufferSize c)" using m by simp
  ultimately show ?thesis
    using inv known b rb_alloc_all_simps(11) [OF rb_invD(4) [OF inv], of its]
    unfolding rb_inv_def by (simp add: rb_alloc_all_simps)
qed

lemma rb_inv_start: "rb_inv c s \<Longrightarrow> rb_batch s = None \<Longrightarrow> rb_inv c (rb_start c loaded s)"
proof -
  assume inv: "rb_inv c s" and b: "rb_batch s = None"
  have timer: "rb_inv c s' \<Longrightarrow> rb_inv c (s'\<lparr>rb_retryTimer := True\<rparr>)" for s' :: "'a retry_buffer"
    by (simp add: rb_inv_def rb_known_def)
  show ?thesis
    using inv rb_inv_load [OF inv b refl, of "rb_maxBufferSize c"]
    by (auto simp: rb_start_def Let_def intro!: timer split: option.splits)
qed

lemma fold_rb_drop:
  "fold (\<lambda>i. rb_drop i r) xs s =
     s\<lparr>rb_dlq := rb_dlq s @ map (\<lambda>i. (i, r)) xs, rb_droppedItems := rb_droppedItems s + length xs\<rparr>"
  by (induction xs arbitrary: s) (simp_all add: rb_op_defs)

lemma flush_outcomes_fst: "map fst (flush_outcomes s items oks) = take (length oks) items"
proof -
  have "map fst (flush_outcomes s items oks) = map fst (zip items oks)"
    by (simp add: flush_outcomes_def o_def split_beta)
  then show ?thesis by (simp add: map_fst_zip_take min_def)
qed

lemma length_flush_outcomes: "length (flush_outcomes s items oks) = min (length items) (length oks)"
  by (simp add: flush_outcomes_def)

lemma set_filter_split: "set (map f (filter P xs)) \<union> set (map f (filter (\<lambda>x. \<not> P x) xs)) = set (map f xs)"
  by auto

lemma set_take_drop: "set (take n xs) \<union> set (drop n xs) = set xs"
  by (metis append_take_drop_id set_append)

text \<open>Every item taken over by a flush is written, failed, or left to the timeout.\<close>

lemma flush_items_split:
  "set (map fst (filter snd (flush_outcomes s items oks)))
     \<union> set (map fst (filter (\<lambda>r. \<not> snd r) (flush_outcomes s items oks)))
     \<union> set (drop (length (flush_outcomes s items oks)) items) = set items"
proof -
  have "set (take (length oks) items) \<union> set (drop (min (length items) (length oks)) items) = set items"
    by (cases "length oks \<le> length items") (simp_all add: set_take_drop min_def)
  then show ?thesis
    by (simp only: set_filter_split flush_outcomes_fst length_flush_outcomes)
qed

lemma flush_end_state:
  assumes "rb_flushing s = Some items" and res: "res = flush_outcomes s items oks"
  shows "snd (flush_end oks s) =
    s\<lparr>rb_written := rb_written s @ map fst (filter snd res),
      rb_silent := rb_silent s @ map fst (filter (\<lambda>r. \<not> snd r) res),
      rb_dlq := rb_dlq s @ map (\<lambda>i. (i, Flush_timeout)) (drop (length res) items),
      rb_droppedItems := rb_droppedItems s + length (drop (length res) items),
      rb_flushing := None, rb_isFlushing := False\<rparr>"
  using assms(1) unfolding res
  by (simp add: flush_end_def Let_def fold_rb_drop)

lemma Un_flush_parts: "P \<union> Q \<union> R = I \<Longrightarrow> B \<union> (W \<union> P) \<union> (D \<union> R) \<union> (S \<union> Q) \<union> {} = B \<union> W \<union> D \<union> S \<union> I"
  by blast

lemma rb_inv_flush_end:
  assumes inv: "rb_inv c s" and f: "rb_flushing s = Some items"
  shows "rb_inv c (snd (flush_end oks s))"
proof -
  let ?res = "flush_outcomes s items oks"
  have "rb_known (snd (flush_end oks s)) =
      set (rb_buffer s) \<union> (set (rb_written s) \<union> set (map fst (filter snd ?res)))
      \<union> (fst ` set (rb_dlq s) \<union> set (drop (length ?res) items))
      \<union> (set (rb_silent s) \<union> set (map fst (filter (\<lambda>r. \<not> snd r) ?res))) \<union> {}"
    unfolding flush_end_state [OF f refl] rb_known_def
    by (simp add: image_Un image_image)
  also have "\<dots> = set (rb_buffer s) \<union> set (rb_written s) \<union> fst ` set (rb_dlq s) \<union> set (rb_silent s) \<union> set items"
    by (rule Un_flush_parts [OF flush_items_split])
  also have "\<dots> = rb_known s" using f by (simp add: rb_known_def)
  finally show ?thesis
    using inv unfolding rb_inv_def flush_end_state [OF f refl] by simp
qed

lemma rb_inv_flush_begin:
  "rb_inv c s \<Longrightarrow> rb_batch s = None \<Longrightarrow> rb_flushing s = None \<Longrightarrow> rb_inv c (flush_begin s)"
proof -
  assume inv: "rb_inv c s" and s: "rb_batch s = None" "rb_flushing s = None"
  have "rb_known (flush_begin s) = rb_known s"
    using s by (simp add: rb_known_def flush_begin_def stopUnlocked_def Let_def Un_ac)
  then show ?thesis
    using inv s unfolding rb_inv_def by (simp add: flush_begin_def stopUnlocked_def Let_def)
qed

lemma rb_inv_control:
  "rb_inv c s \<Longrightarrow> rb_inv c (processRetries_tick now s)"
  "rb_inv c s \<Longrightarrow> rb_inv c (fst (stopUnlocked p h s))"
  "rb_inv c s \<Longrightarrow> rb_inv c (resetStats s)"
  "rb_inv c s \<Longrightarrow> rb_inv c (rb_clear s)"
proof -
  have "rb_known (processRetries_tick now s) = rb_known s" "rb_known (fst (stopUnlocked p h s)) = rb_known s"
    "rb_known (resetStats s) = rb_known s" "rb_known (rb_clear s) = rb_known s"
    by (simp_all add: processRetries_tick_def stopUnlocked_def resetStats_def rb_clear_def rb_known_def Un_ac)
  moreover assume "rb_inv c s"
  ultimately show "rb_inv c (processRetries_tick now s)" "rb_inv c (fst (stopUnlocked p h s))"
    "rb_inv c (resetStats s)" "rb_inv c (rb_clear s)"
    unfolding rb_inv_def
    by (cases "rb_batch s"; simp add: processRetries_tick_def stopUnlocked_def resetStats_def rb_clear_def)+
qed

lemma rb_inv_exec: "rb_inv c s \<Longrightarrow> rb_exec c e s = Some s' \<Longrightarrow> rb_inv c s'"
  by (cases e)
    (auto simp: rb_lock_free_def rb_inv_control rb_inv_insert rb_inv_acquire rb_inv_settle rb_inv_start
       rb_inv_flush_begin rb_inv_flush_end split: if_splits)

lemma rb_reach_inv: "rb_reach c es s \<Longrightarrow> rb_inv c s"
  by (induction rule: rb_reach.induct) (use rb_inv_new rb_inv_exec in blast)+

section \<open>Properties\<close>

text \<open>Inserts and background retries: everything but flushing, clearing and loading.\<close>

fun rb_steady :: "'r rb_event \<Rightarrow> bool" where
  "rb_steady (Rb_Start loaded) = (loaded = None)"
| "rb_steady Rb_FlushBegin = False"
| "rb_steady (Rb_FlushEnd oks) = False"
| "rb_steady Rb_Clear = False"
| "rb_steady e = True"

definition rb_attempts_ok :: "rb_config \<Rightarrow> 'r retry_buffer \<Rightarrow> nat \<Rightarrow> bool" where
  "rb_attempts_ok c s i =
     (case rb_heap s i of None \<Rightarrow> False | Some it \<Rightarrow> 1 \<le> bi_attempts it \<and> bi_attempts it < max 2 (rb_maxRetries c))"

definition rb_steady_inv :: "rb_config \<Rightarrow> 'r retry_buffer \<Rightarrow> bool" where
  "rb_steady_inv c s \<longleftrightarrow>
     rb_silent s = [] \<and> rb_flushing s = None \<and> (\<forall>i \<in> set (rb_buffer s). rb_attempts_ok c s i)"

lemma rb_steady_insert:
  "rb_inv c s \<Longrightarrow> rb_steady_inv c s \<Longrightarrow> rb_steady_inv c (snd (rb_insert e c now ok d s))"
  by (cases "rb_buffer s")
    (auto simp: rb_inv_def rb_known_def rb_steady_inv_def rb_attempts_ok_def rb_insert_def bufferForRetry_def
       Let_def rb_op_defs)

lemma rb_steady_retry:
  assumes "rb_inv c s" and "rb_steady_inv c s" and "rb_heap s i = Some it"
  shows "rb_steady_inv c (rb_retry_ok i s)" and "rb_steady_inv c (rb_retry_failed c now i it s)"
  using assms rb_invD(2) [OF assms(1)]
  by (auto simp: rb_steady_inv_def rb_attempts_ok_def rb_retry_ok_def rb_retry_failed_def Let_def
      rb_op_defs split: option.splits)

lemma rb_steady_settle:
  assumes "rb_inv c s" and "rb_steady_inv c s"
  shows "rb_steady_inv c (processRetries_settle c ok s)"
proof -
  have frame: "rb_steady_inv c (rb_batch_next now rest s') = rb_steady_inv c s'" for now rest and s' :: "'a retry_buffer"
    by (simp add: rb_batch_next_def rb_steady_inv_def rb_attempts_ok_def)
  let ?s1 = "s\<lparr>rb_totalAttempts := Suc (rb_totalAttempts s)\<rparr>"
  have "rb_inv c ?s1" "rb_steady_inv c ?s1"
    using assms by (simp_all add: rb_inv_stats rb_steady_inv_def rb_attempts_ok_def)
  then have "rb_heap s i = Some it \<Longrightarrow> rb_steady_inv c (rb_retry_ok i ?s1) \<and> rb_steady_inv c (rb_retry_failed c now i it ?s1)"
    for i it now using rb_steady_retry [of c ?s1 i it] by simp
  with assms show ?thesis
    by (auto simp: processRetries_settle_def Let_def frame split: option.splits list.splits prod.splits)
qed

lemma rb_steady_exec:
  "rb_inv c s \<Longrightarrow> rb_steady_inv c s \<Longrightarrow> rb_exec c e s = Some s' \<Longrightarrow> rb_steady e \<Longrightarrow> rb_steady_inv c s'"
proof (cases e)
  case (Rb_Insert now ok d)
  then show "rb_inv c s \<Longrightarrow> rb_steady_inv c s \<Longrightarrow> rb_exec c e s = Some s' \<Longrightarrow> rb_steady_inv c s'"
    using rb_steady_insert by auto
next
  case (Rb_Settle ok)
  then show "rb_inv c s \<Longrightarrow> rb_steady_inv c s \<Longrightarrow> rb_exec c e s = Some s' \<Longrightarrow> rb_steady_inv c s'"
    using rb_steady_settle by (auto split: if_splits)
qed (auto simp: rb_steady_inv_def rb_attempts_ok_def processRetries_tick_def processRetries_acquire_def
       rb_batch_next_def rb_start_def stopUnlocked_def resetStats_def split: if_splits)

lemma rb_steady_new: "rb_steady_inv c rb_new"
  by (simp add: rb_steady_inv_def rb_new_def)

lemma rb_reach_steady: "rb_reach c es s \<Longrightarrow> list_all rb_steady es \<Longrightarrow> rb_steady_inv c s"
proof (induction rule: rb_reach.induct)
  case (rb_reach_step es s e s')
  then show ?case using rb_steady_exec [OF rb_reach_inv, of c es s e s'] by simp
qed (rule rb_steady_new)

text \<open>Execution of a sequence of events, and its reachable states.\<close>

definition rb_run :: "rb_config \<Rightarrow> 'r rb_event list \<Rightarrow> 'r retry_buffer option" where
  "rb_run c es = foldl (\<lambda>st e. Option.bind st (rb_exec c e)) (Some rb_new) es"

lemma rb_run_reach: "rb_run c es = Some s \<Longrightarrow> rb_reach c es s"
proof (induction es arbitrary: s rule: rev_induct)
  case Nil
  then show ?case by (simp add: rb_run_def rb_reach_new)
next
  case (snoc e es)
  then obtain s0 where "rb_run c es = Some s0" "rb_exec c e s0 = Some s"
    by (auto simp: rb_run_def bind_eq_Some_conv)
  with snoc.IH show ?case by (blast intro: rb_reach_step)
qed

text \<open>
  C10: No telemetry item is lost silently while items are inserted and retried in the background:
  at every point of every interleaving, each item whose first write failed is in the buffer,
  has been written by a retry, or has an entry in the dead-letter log. The buffer never exceeds
  its capacity, and no item waits in it with its attempts exhausted.
\<close>

theorem retry_buffer_no_silent_loss:
  assumes "rb_reach c es s" and "list_all rb_steady es"
  shows "set (rb_buffer s) \<union> set (rb_written s) \<union> fst ` set (rb_dlq s) = {..<rb_next s}
    \<and> length (rb_buffer s) \<le> max 1 (rb_maxBufferSize c) \<and> distinct (rb_buffer s)
    \<and> (\<forall>i \<in> set (rb_buffer s). \<exists>it. rb_heap s i = Some it \<and> 1 \<le> bi_attempts it
          \<and> bi_attempts it < max 2 (rb_maxRetries c))"
  using rb_reach_inv [OF assms(1)] rb_reach_steady [OF assms]
  by (auto simp: rb_inv_def rb_steady_inv_def rb_known_def rb_attempts_ok_def split: option.splits)

definition sample_rb_config :: rb_config where
  "sample_rb_config = DEFAULT_RETRY_CONFIG\<lparr>rb_maxBufferSize := 1, rb_maxRetries := 2\<rparr>"

definition sample_rb_events :: "nat rb_event list" where
  "sample_rb_events =
     [Rb_Insert 0 False (Item_campaign 7), Rb_Insert 1 False (Item_signal [8]), Rb_Start None,
      Rb_Tick 5000, Rb_Acquire, Rb_Settle True]"

lemmas rb_eval =
  sample_rb_config_def sample_rb_events_def DEFAULT_RETRY_CONFIG_def rb_run_def rb_new_def rb_insert_def
  bufferForRetry_def rb_op_defs rb_start_def processRetries_tick_def processRetries_acquire_def
  processRetries_settle_def rb_batch_next_def rb_ready_def rb_retry_ok_def rb_retry_failed_def
  retry_succeeds_def rb_lock_free_def flush_begin_def stopUnlocked_def

theorem retry_buffer_no_silent_loss_witness:
  "\<exists>s. rb_run sample_rb_config sample_rb_events = Some s \<and> rb_next s = 2 \<and>
     set (rb_buffer s) \<union> set (rb_written s) \<union> fst ` set (rb_dlq s) = {..<2}"
proof -
  obtain s where s: "rb_run sample_rb_config sample_rb_events = Some s" "rb_next s = 2"
    by (simp add: rb_eval Let_def)
  have "list_all rb_steady sample_rb_events" by (simp add: sample_rb_events_def)
  from retry_buffer_no_silent_loss [OF rb_run_reach [OF s(1)] this] s show ?thesis by auto
qed

text \<open>
  In every reachable state of every interleaving, with flushes, reloads and clearing
  included, each item ever created is in one of the places the model accounts for (buffer,
  written, dead-letter log, an unfinished flush, or dropped without a trace), the buffer holds
  distinct items within its capacity, and the two busy flags agree with the work in progress.
\<close>

theorem retry_buffer_invariant:
  assumes "rb_reach c es s"
  shows "rb_known s = {..<rb_next s} \<and> distinct (rb_buffer s)
    \<and> length (rb_buffer s) \<le> max 1 (rb_maxBufferSize c)
    \<and> (rb_isProcessing s \<longleftrightarrow> rb_tick s \<noteq> None \<or> rb_batch s \<noteq> None)
    \<and> (rb_isFlushing s \<longleftrightarrow> rb_flushing s \<noteq> None)"
  using rb_reach_inv [OF assms] unfolding rb_inv_def by blast

theorem retry_buffer_invariant_witness:
  "\<exists>s. rb_run sample_rb_config sample_rb_events = Some s \<and> rb_known s = {..<rb_next s}"
proof -
  obtain s where s: "rb_run sample_rb_config sample_rb_events = Some s"
    by (simp add: rb_eval Let_def)
  from retry_buffer_invariant [OF rb_run_reach [OF s]] s show ?thesis by blast
qed

lemma length_filter_parts: "length (filter P xs) + length (filter (\<lambda>x. \<not> P x) xs) = length xs"
  by (induction xs) auto

text \<open>
  A flush reports every item it took over, as succeeded or failed. When it runs into its
  timeout, exactly the items it did not reach get a dead-letter entry. The items whose write
  failed before that get none, and they are not put back: the log and the drop counter grow only
  by the unreached items, although the comments promise that loss stays observable.
\<close>

theorem flush_reports_all_but_logs_only_unreached:
  assumes "rb_flushing s = Some items"
  shows "fr_succeeded (fst (flush_end oks s)) + fr_failed (fst (flush_end oks s)) = length items
    \<and> rb_dlq (snd (flush_end oks s)) = rb_dlq s @ map (\<lambda>i. (i, Flush_timeout)) (drop (length oks) items)
    \<and> rb_droppedItems (snd (flush_end oks s)) = rb_droppedItems s + (length items - length oks)
    \<and> rb_buffer (snd (flush_end oks s)) = rb_buffer s"
proof -
  let ?res = "flush_outcomes s items oks"
  have parts: "length (filter snd ?res) + length (filter (\<lambda>r. \<not> snd r) ?res) = min (length items) (length oks)"
    by (simp add: length_filter_parts length_flush_outcomes)
  have "fr_succeeded (fst (flush_end oks s)) + fr_failed (fst (flush_end oks s)) = length items"
    using assms parts by (auto simp: flush_end_def Let_def length_flush_outcomes)
  moreover have "drop (min (length items) (length oks)) items = drop (length oks) items"
    by (simp add: min_def)
  ultimately show ?thesis
    using assms by (simp add: flush_end_state [OF assms refl] length_flush_outcomes min_def)
qed

theorem flush_reports_all_but_logs_only_unreached_witness:
  "\<exists>s. rb_run sample_rb_config [Rb_Insert 0 False (Item_campaign (7::nat)), Rb_FlushBegin] = Some s \<and>
     fr_failed (fst (flush_end [False] s)) = 1 \<and> rb_dlq (snd (flush_end [False] s)) = []"
proof -
  obtain s where s: "rb_run sample_rb_config [Rb_Insert 0 False (Item_campaign (7::nat)), Rb_FlushBegin] = Some s"
    "rb_flushing s = Some [0]" "rb_dlq s = []"
    by (simp add: rb_eval Let_def)
  then have "fr_succeeded (fst (flush_end [False] s)) = 0"
    by (simp add: flush_end_def flush_outcomes_def retry_succeeds_def Let_def split: option.split)
  with flush_reports_all_but_logs_only_unreached [OF s(2), of "[False]"] s show ?thesis by auto
qed

end
