(* ===== verification/Command_Sender.thy ===== *)
theory Command_Sender
  imports Js_Text
begin

text \<open>
  Reliable command delivery to sensors (\<^verbatim>\<open>api/src/protocols/command-sender.ts\<close>): per-sensor
  queues of pending commands, at most one command in flight per sensor, acknowledgement,
  timeout with retransmission, eviction under queue limits and periodic cleanup.

  The state is the object's maps. A command object is shared between the map \<^verbatim>\<open>commands\<close> and the
  closure of its timer; command ids are non-empty and fresh when a command is created (random
  ids, or database keys), so the object is identified with its entry in the map. A WebSocket is
  represented by what the code observes of it: whether \<^verbatim>\<open>readyState\<close> is \<^verbatim>\<open>OPEN\<close> and whether
  \<^verbatim>\<open>send\<close> throws. \<open>cs_wire\<close> and \<open>cs_events\<close> log the messages sent and the events emitted.
\<close>

section \<open>Data\<close>

datatype command_type =
  Push_config | Push_rules | Restart | Collect_diagnostics | Update | Toggle_chaos | Toggle_mtd

datatype command_status = Cs_pending | Cs_sent | Cs_success | Cs_failed | Cs_timeout

record cs_config =
  cs_maxQueueSize :: nat
  cs_maxPerSensorQueueSize :: nat
  cs_pendingTTL :: int

definition DEFAULT_CONFIG :: cs_config where
  "DEFAULT_CONFIG = \<lparr> cs_maxQueueSize = 10000, cs_maxPerSensorQueueSize = 100, cs_pendingTTL = 3600000 \<rparr>"

record 'p command =
  cmd_id :: string
  cmd_type :: command_type
  cmd_sensorId :: string
  cmd_payload :: 'p
  cmd_status :: command_status
  cmd_createdAt :: int
  cmd_sentAt :: "int option"
  cmd_completedAt :: "int option"
  cmd_attempts :: nat
  cmd_maxAttempts :: nat
  cmd_timeoutMs :: int
  cmd_error :: "string option"

record ws_conn =
  wsc_open :: bool
  wsc_throws :: bool

datatype 'p cs_event =
  Command_sent "'p command" | Command_complete "'p command" | Command_failed "'p command"
| Command_timeout "'p command" | Command_evicted "'p command" "string option"
| Command_dropped string command_type string

record 'p sender =
  cs_commands :: "(string, 'p command) jsmap"
  cs_connections :: "(string, ws_conn) jsmap"
  cs_queues :: "(string, string list) jsmap"
  cs_inflight :: "(string, string) jsmap"
  cs_timeouts :: "string list"
  cs_cleanupInterval :: bool
  cs_dropped :: nat
  cs_evicted :: nat
  cs_wire :: "(string \<times> command_type \<times> string \<times> 'p) list"
  cs_events :: "'p cs_event list"

definition cs_new :: "'p sender" where
  "cs_new = \<lparr> cs_commands = [], cs_connections = [], cs_queues = [], cs_inflight = [], cs_timeouts = [],
              cs_cleanupInterval = False, cs_dropped = 0, cs_evicted = 0, cs_wire = [], cs_events = [] \<rparr>"

section \<open>Helpers\<close>

definition terminal :: "command_status \<Rightarrow> bool" where
  "terminal st \<longleftrightarrow> st \<in> {Cs_success, Cs_failed, Cs_timeout}"

fun getTimeout :: "command_type \<Rightarrow> int" where
  "getTimeout Restart = 60000"
| "getTimeout Collect_diagnostics = 120000"
| "getTimeout Push_config = 30000"
| "getTimeout Push_rules = 30000"
| "getTimeout Update = 300000"
| "getTimeout Toggle_chaos = 10000"
| "getTimeout Toggle_mtd = 10000"

definition getMaxAttempts :: "command_type \<Rightarrow> nat" where
  "getMaxAttempts t = (if t = Restart \<or> t = Collect_diagnostics then 2 else 3)"

definition cs_emit :: "'p cs_event \<Rightarrow> 'p sender \<Rightarrow> 'p sender" where
  "cs_emit e s = s\<lparr>cs_events := cs_events s @ [e]\<rparr>"

text \<open>Mutation of a command object.\<close>

definition cs_modify :: "string \<Rightarrow> ('p command \<Rightarrow> 'p command) \<Rightarrow> 'p sender \<Rightarrow> 'p sender" where
  "cs_modify i f s = s\<lparr>cs_commands := AList.map_entry i f (cs_commands s)\<rparr>"

definition enqueueCommand :: "string \<Rightarrow> string \<Rightarrow> 'p sender \<Rightarrow> 'p sender" where
  "enqueueCommand sid i s =
     s\<lparr>cs_queues := jm_set sid ((case jm_get (cs_queues s) sid of None \<Rightarrow> [] | Some q \<Rightarrow> q) @ [i]) (cs_queues s)\<rparr>"

definition removeFromQueue :: "string \<Rightarrow> string \<Rightarrow> 'p sender \<Rightarrow> 'p sender" where
  "removeFromQueue sid i s =
     (case jm_get (cs_queues s) sid of
        None \<Rightarrow> s
      | Some q \<Rightarrow>
          (let q' = remove1 i q
           in if q' = [] then s\<lparr>cs_queues := jm_delete sid (cs_queues s)\<rparr>
              else s\<lparr>cs_queues := jm_set sid q' (cs_queues s)\<rparr>))"

definition clearCommandTimeout :: "string \<Rightarrow> 'p sender \<Rightarrow> 'p sender" where
  "clearCommandTimeout i s = s\<lparr>cs_timeouts := filter (\<lambda>j. j \<noteq> i) (cs_timeouts s)\<rparr>"

text \<open>Arming the timer; its callback is \<open>commandTimeout\<close> below.\<close>

definition setCommandTimeout :: "string \<Rightarrow> 'p sender \<Rightarrow> 'p sender" where
  "setCommandTimeout i s0 = (let s = clearCommandTimeout i s0 in s\<lparr>cs_timeouts := cs_timeouts s @ [i]\<rparr>)"

definition wsReady :: "string \<Rightarrow> 'p sender \<Rightarrow> bool" where
  "wsReady sid s = (case jm_get (cs_connections s) sid of None \<Rightarrow> False | Some w \<Rightarrow> wsc_open w)"

definition wsThrows :: "string \<Rightarrow> 'p sender \<Rightarrow> bool" where
  "wsThrows sid s = (case jm_get (cs_connections s) sid of None \<Rightarrow> False | Some w \<Rightarrow> wsc_throws w)"

section \<open>Sending\<close>

text \<open>
  The body of \<^verbatim>\<open>trySendCommand\<close> up to the failure handling, for the command \<open>cmd\<close> with the id \<open>i\<close>
  of the sensor \<open>sid\<close>; the flag is set when \<^verbatim>\<open>ws.send\<close> threw.
\<close>

definition sendAttempt ::
  "int \<Rightarrow> string \<Rightarrow> string \<Rightarrow> 'p command \<Rightarrow> 'p sender \<Rightarrow> bool \<times> 'p sender" where
  "sendAttempt now sid i cmd s =
     (if \<not> wsReady sid s then (False, s)
      else if (case jm_get (cs_inflight s) sid of None \<Rightarrow> False | Some j \<Rightarrow> j \<noteq> i) then (False, s)
      else if terminal (cmd_status cmd) then (False, s)
      else
        (let cmd' = cmd\<lparr>cmd_attempts := Suc (cmd_attempts cmd), cmd_sentAt := Some now, cmd_status := Cs_sent\<rparr>;
             s1 = removeFromQueue sid i s;
             s2 = cs_modify i (\<lambda>_. cmd') (s1\<lparr>cs_inflight := jm_set sid i (cs_inflight s1)\<rparr>)
         in if wsThrows sid s then (True, s2)
            else (False,
                  cs_emit (Command_sent cmd')
                    (setCommandTimeout i (s2\<lparr>cs_wire := cs_wire s2 @ [(sid, cmd_type cmd, i, cmd_payload cmd)]\<rparr>)))))"

text \<open>\<^verbatim>\<open>finalizeCommand\<close> without its final call of \<^verbatim>\<open>trySendNext\<close>.\<close>

definition finalizeEntry :: "int \<Rightarrow> string \<Rightarrow> string \<Rightarrow> command_status \<Rightarrow> string option \<Rightarrow> 'p sender \<Rightarrow> 'p sender" where
  "finalizeEntry now sid i st err s0 =
     (let s1 = clearCommandTimeout i s0;
          s2 = cs_modify i (\<lambda>c. c\<lparr>cmd_completedAt := Some now, cmd_status := st,
                                  cmd_error := (if err = None \<or> err = Some '''' then cmd_error c else err)\<rparr>) s1;
          s3 = removeFromQueue sid i s2
      in if jm_get (cs_inflight s3) sid = Some i
         then s3\<lparr>cs_inflight := jm_delete sid (cs_inflight s3)\<rparr> else s3)"

definition queue_of :: "'p sender \<Rightarrow> string \<Rightarrow> string list" where
  "queue_of s sid = (case jm_get (cs_queues s) sid of None \<Rightarrow> [] | Some q \<Rightarrow> q)"

lemma queue_of_remove [simp]:
  "queue_of (removeFromQueue sid i s) sid' = (if sid' = sid then remove1 i (queue_of s sid) else queue_of s sid')"
  by (simp add: queue_of_def removeFromQueue_def Let_def split: option.split)

lemma removeFromQueue_frame [simp]:
  "cs_commands (removeFromQueue sid i s) = cs_commands s" "cs_inflight (removeFromQueue sid i s) = cs_inflight s"
  "cs_timeouts (removeFromQueue sid i s) = cs_timeouts s"
  "cs_connections (removeFromQueue sid i s) = cs_connections s"
  by (simp_all add: removeFromQueue_def Let_def split: option.split)

lemma queue_of_frame [simp]:
  "queue_of (s\<lparr>cs_commands := c\<rparr>) = queue_of s" "queue_of (s\<lparr>cs_inflight := f\<rparr>) = queue_of s"
  "queue_of (s\<lparr>cs_timeouts := t\<rparr>) = queue_of s" "queue_of (s\<lparr>cs_wire := w\<rparr>) = queue_of s"
  "queue_of (s\<lparr>cs_events := e\<rparr>) = queue_of s" "queue_of (s\<lparr>cs_connections := n\<rparr>) = queue_of s"
  "queue_of (s\<lparr>cs_dropped := d\<rparr>) = queue_of s" "queue_of (s\<lparr>cs_evicted := v\<rparr>) = queue_of s"
  by (simp_all add: queue_of_def fun_eq_iff)

lemma queue_of_finalize [simp]:
  "queue_of (finalizeEntry now sid i st err s) sid' = (if sid' = sid then remove1 i (queue_of s sid) else queue_of s sid')"
  by (simp add: finalizeEntry_def Let_def cs_modify_def clearCommandTimeout_def)

lemma queue_of_sendAttempt:
  "sendAttempt now sid i cmd s = (True, s') \<Longrightarrow> queue_of s' sid = remove1 i (queue_of s sid)"
  by (auto simp: sendAttempt_def Let_def cs_modify_def split: if_splits)

text \<open>
  \<^verbatim>\<open>trySendNext\<close> drops stale heads of the queue and sends the first pending command; a send that
  throws finalises the command and continues with the rest of the queue.
\<close>

function trySendNext :: "int \<Rightarrow> string \<Rightarrow> 'p sender \<Rightarrow> 'p sender" where
  "trySendNext now sid s =
     (if jm_get (cs_inflight s) sid \<noteq> None then s
      else
        (case queue_of s sid of
           [] \<Rightarrow> s
         | nextId # rest \<Rightarrow>
             (case jm_get (cs_commands s) nextId of
                None \<Rightarrow> trySendNext now sid (s\<lparr>cs_queues := jm_set sid rest (cs_queues s)\<rparr>)
              | Some cmd \<Rightarrow>
                  if cmd_status cmd \<noteq> Cs_pending
                  then trySendNext now sid (s\<lparr>cs_queues := jm_set sid rest (cs_queues s)\<rparr>)
                  else
                    (case sendAttempt now sid nextId cmd s of
                       (False, s') \<Rightarrow> s'
                     | (True, s') \<Rightarrow>
                         trySendNext now sid
                           (finalizeEntry now sid nextId Cs_failed (Some ''WebSocket send failed'') s')))))"
  by pat_completeness auto

termination
proof (relation "measure (\<lambda>(now, sid, s). length (queue_of s sid))", goal_cases)
  case (4 now sid s)
  then show ?case
    using queue_of_sendAttempt [of now sid _ _ s] by (auto simp: length_remove1)
qed (simp_all add: queue_of_def)

declare trySendNext.simps [simp del]

definition finalizeCommand :: "int \<Rightarrow> string \<Rightarrow> string \<Rightarrow> command_status \<Rightarrow> string option \<Rightarrow> 'p sender \<Rightarrow> 'p sender" where
  "finalizeCommand now sid i st err s = trySendNext now sid (finalizeEntry now sid i st err s)"

definition trySendCommand :: "int \<Rightarrow> 'p command \<Rightarrow> 'p sender \<Rightarrow> 'p sender" where
  "trySendCommand now cmd s =
     (case sendAttempt now (cmd_sensorId cmd) (cmd_id cmd) cmd s of
        (False, s') \<Rightarrow> s'
      | (True, s') \<Rightarrow>
          finalizeCommand now (cmd_sensorId cmd) (cmd_id cmd) Cs_failed (Some ''WebSocket send failed'') s')"

text \<open>Emission of an event that carries the command object as it is now.\<close>

definition cs_emit_cmd :: "('p command \<Rightarrow> 'p cs_event) \<Rightarrow> string \<Rightarrow> 'p sender \<Rightarrow> 'p sender" where
  "cs_emit_cmd f i s = (case jm_get (cs_commands s) i of None \<Rightarrow> s | Some c \<Rightarrow> cs_emit (f c) s)"

section \<open>Timeouts and responses\<close>

text \<open>The timer callback of \<^verbatim>\<open>setCommandTimeout\<close>.\<close>

definition commandTimeout :: "int \<Rightarrow> string \<Rightarrow> 'p sender \<Rightarrow> 'p sender" where
  "commandTimeout now i s =
     (case jm_get (cs_commands s) i of
        None \<Rightarrow> s
      | Some cmd \<Rightarrow>
          if cmd_status cmd \<noteq> Cs_sent then s
          else if \<not> wsReady (cmd_sensorId cmd) s then setCommandTimeout i (clearCommandTimeout i s)
          else if cmd_attempts cmd < cmd_maxAttempts cmd then trySendCommand now cmd (clearCommandTimeout i s)
          else cs_emit_cmd Command_timeout i
                 (finalizeCommand now (cmd_sensorId cmd) i Cs_timeout
                    (Some (''Timed out after '' @ show_nat (cmd_maxAttempts cmd) @ '' attempts'')) s))"

definition handleResponse :: "int \<Rightarrow> string \<Rightarrow> bool \<Rightarrow> string option \<Rightarrow> 'p sender \<Rightarrow> 'p sender" where
  "handleResponse now i ok err s =
     (case jm_get (cs_commands s) i of
        None \<Rightarrow> s
      | Some cmd \<Rightarrow>
          if terminal (cmd_status cmd) then s
          else cs_emit_cmd (if ok then Command_complete else Command_failed) i
                 (finalizeCommand now (cmd_sensorId cmd) i (if ok then Cs_success else Cs_failed) err s))"

section \<open>Queueing\<close>

definition getPendingCommands :: "string \<Rightarrow> 'p sender \<Rightarrow> 'p command list" where
  "getPendingCommands sid s =
     (if queue_of s sid = []
      then filter (\<lambda>c. cmd_sensorId c = sid \<and> cmd_status c = Cs_pending) (jm_values (cs_commands s))
      else filter (\<lambda>c. cmd_status c = Cs_pending) (List.map_filter (jm_get (cs_commands s)) (queue_of s sid)))"

text \<open>The first of the oldest commands, as the scans find it.\<close>

fun oldest_command :: "'p command list \<Rightarrow> 'p command option" where
  "oldest_command [] = None"
| "oldest_command (c # cs) = Some (fold (\<lambda>d o'. if cmd_createdAt d < cmd_createdAt o' then d else o') cs c)"

definition cs_evict :: "string option \<Rightarrow> 'p command \<Rightarrow> 'p sender \<Rightarrow> 'p sender" where
  "cs_evict reason c s =
     (let s1 = removeFromQueue (cmd_sensorId c) (cmd_id c) (s\<lparr>cs_commands := jm_delete (cmd_id c) (cs_commands s)\<rparr>)
      in cs_emit (Command_evicted c reason) (s1\<lparr>cs_evicted := Suc (cs_evicted s1)\<rparr>))"

definition evictOldestPending :: "string \<Rightarrow> 'p sender \<Rightarrow> bool \<times> 'p sender" where
  "evictOldestPending sid s =
     (case oldest_command (filter (\<lambda>c. cmd_sensorId c = sid \<and> cmd_status c = Cs_pending) (jm_values (cs_commands s))) of
        None \<Rightarrow> (False, s)
      | Some c \<Rightarrow> (True, cs_evict None c s))"

definition evictOldestPendingGlobal :: "'p sender \<Rightarrow> bool \<times> 'p sender" where
  "evictOldestPendingGlobal s =
     (case oldest_command (filter (\<lambda>c. cmd_status c = Cs_pending) (jm_values (cs_commands s))) of
        None \<Rightarrow> (False, s)
      | Some c \<Rightarrow> (True, cs_evict None c s))"

definition cs_drop_command :: "string \<Rightarrow> command_type \<Rightarrow> string \<Rightarrow> 'p sender \<Rightarrow> 'p sender" where
  "cs_drop_command sid t reason s = cs_emit (Command_dropped sid t reason) (s\<lparr>cs_dropped := Suc (cs_dropped s)\<rparr>)"

definition sendCommand ::
  "cs_config \<Rightarrow> int \<Rightarrow> string \<Rightarrow> command_type \<Rightarrow> 'p \<Rightarrow> string \<Rightarrow> 'p sender \<Rightarrow> string option \<times> 'p sender" where
  "sendCommand c now sid t payload i s =
     (let (ok1, s1) = (if cs_maxPerSensorQueueSize c \<le> length (getPendingCommands sid s)
                       then evictOldestPending sid s else (True, s)) in
      if \<not> ok1 then (None, cs_drop_command sid t ''per_sensor_limit'' s1)
      else
        (let (ok2, s2) = (if cs_maxQueueSize c \<le> length (cs_commands s1)
                          then evictOldestPendingGlobal s1 else (True, s1)) in
         if \<not> ok2 then (None, cs_drop_command sid t ''global_limit'' s2)
         else
           (let cmd = \<lparr> cmd_id = i, cmd_type = t, cmd_sensorId = sid, cmd_payload = payload,
                        cmd_status = Cs_pending, cmd_createdAt = now, cmd_sentAt = None,
                        cmd_completedAt = None, cmd_attempts = 0, cmd_maxAttempts = getMaxAttempts t,
                        cmd_timeoutMs = getTimeout t, cmd_error = None \<rparr>;
                s3 = enqueueCommand sid i (s2\<lparr>cs_commands := jm_set i cmd (cs_commands s2)\<rparr>)
            in (Some i, trySendNext now sid s3))))"

definition cancelCommand :: "int \<Rightarrow> string \<Rightarrow> 'p sender \<Rightarrow> bool \<times> 'p sender" where
  "cancelCommand now i s =
     (case jm_get (cs_commands s) i of
        None \<Rightarrow> (False, s)
      | Some cmd \<Rightarrow>
          if cmd_status cmd \<noteq> Cs_pending then (False, s)
          else (True, cs_emit_cmd Command_failed i
                        (finalizeCommand now (cmd_sensorId cmd) i Cs_failed (Some ''Cancelled'') s)))"

section \<open>Connections\<close>

definition flushPendingCommands :: "int \<Rightarrow> string \<Rightarrow> 'p sender \<Rightarrow> 'p sender" where
  "flushPendingCommands now sid s =
     (let inflightId = jm_get (cs_inflight s) sid;
          pending = sort_key cmd_createdAt
            (filter (\<lambda>c. cmd_sensorId c = sid \<and> cmd_status c = Cs_pending) (jm_values (cs_commands s)));
          s1 = (if pending \<noteq> [] then s\<lparr>cs_queues := jm_set sid (map cmd_id pending) (cs_queues s)\<rparr>
                else s\<lparr>cs_queues := jm_delete sid (cs_queues s)\<rparr>);
          s2 = (case Option.bind inflightId (jm_get (cs_commands s1)) of
                  None \<Rightarrow> s1
                | Some cmd \<Rightarrow>
                    if cmd_sensorId cmd = sid \<and> (cmd_status cmd = Cs_sent \<or> cmd_status cmd = Cs_pending)
                       \<and> cmd_attempts cmd < cmd_maxAttempts cmd
                    then trySendCommand now cmd s1 else s1)
      in trySendNext now sid s2)"

definition registerConnection :: "int \<Rightarrow> string \<Rightarrow> ws_conn \<Rightarrow> 'p sender \<Rightarrow> 'p sender" where
  "registerConnection now sid ws s =
     flushPendingCommands now sid (s\<lparr>cs_connections := jm_set sid ws (cs_connections s)\<rparr>)"

definition unregisterConnection :: "string \<Rightarrow> 'p sender \<Rightarrow> 'p sender" where
  "unregisterConnection sid s = s\<lparr>cs_connections := jm_delete sid (cs_connections s)\<rparr>"

definition cs_fail_removed :: "int \<Rightarrow> 'p command \<Rightarrow> 'p sender \<Rightarrow> 'p sender" where
  "cs_fail_removed now c s0 =
     (let s = clearCommandTimeout (cmd_id c) s0
      in cs_emit (Command_failed (c\<lparr>cmd_completedAt := Some now, cmd_status := Cs_failed,
                                     cmd_error := Some ''Sensor disconnected''\<rparr>))
           (s\<lparr>cs_commands := jm_delete (cmd_id c) (cs_commands s)\<rparr>))"

definition sensor_toClean :: "string \<Rightarrow> 'p sender \<Rightarrow> 'p command list" where
  "sensor_toClean sid s =
     (let fl = (case Option.bind (jm_get (cs_inflight s) sid) (jm_get (cs_commands s)) of
                  None \<Rightarrow> []
                | Some c \<Rightarrow> if cmd_status c = Cs_sent \<or> cmd_status c = Cs_pending then [c] else [])
      in fl @ filter (\<lambda>c. cmd_sensorId c = sid \<and> cmd_status c = Cs_pending \<and> cmd_id c \<notin> cmd_id ` set fl)
                (jm_values (cs_commands s)))"

definition cleanupSensor :: "int \<Rightarrow> string \<Rightarrow> 'p sender \<Rightarrow> nat \<times> 'p sender" where
  "cleanupSensor now sid s =
     (let toClean = sensor_toClean sid s;
          s1 = s\<lparr>cs_queues := jm_delete sid (cs_queues s), cs_inflight := jm_delete sid (cs_inflight s)\<rparr>
      in (length toClean, fold (cs_fail_removed now) toClean s1))"

section \<open>Housekeeping\<close>

definition completedTTL :: int where
  "completedTTL = 300000"

definition staleSentTTL :: int where
  "staleSentTTL = 60000"

definition cleanupOldCommand :: "cs_config \<Rightarrow> int \<Rightarrow> string \<Rightarrow> 'p sender \<Rightarrow> 'p sender" where
  "cleanupOldCommand c now i s =
     (case jm_get (cs_commands s) i of
        None \<Rightarrow> s
      | Some cmd \<Rightarrow>
          (let sid = cmd_sensorId cmd in
           if terminal (cmd_status cmd) \<and> cmd_completedAt cmd \<noteq> None \<and> cmd_completedAt cmd \<noteq> Some 0
           then (if completedTTL < now - the (cmd_completedAt cmd)
                 then (let s1 = removeFromQueue sid i (s\<lparr>cs_commands := jm_delete i (cs_commands s)\<rparr>)
                       in if jm_get (cs_inflight s1) sid = Some i
                          then s1\<lparr>cs_inflight := jm_delete sid (cs_inflight s1)\<rparr> else s1)
                 else s)
           else if cmd_status cmd = Cs_pending
           then (if cs_pendingTTL c < now - cmd_createdAt cmd then cs_evict (Some ''ttl_expired'') cmd s else s)
           else if cmd_status cmd = Cs_sent \<and> cmd_sentAt cmd \<noteq> None \<and> cmd_sentAt cmd \<noteq> Some 0
           then (if jm_get (cs_connections s) sid = None \<and> staleSentTTL < now - the (cmd_sentAt cmd)
                 then cs_emit_cmd Command_failed i
                        (finalizeCommand now sid i Cs_failed (Some ''Stale command: sensor disconnected'') s)
                 else s)
           else s))"

text \<open>The loop visits the entries present at its start; one removed meanwhile is skipped.\<close>

definition cleanupOldCommands :: "cs_config \<Rightarrow> int \<Rightarrow> 'p sender \<Rightarrow> 'p sender" where
  "cleanupOldCommands c now s = fold (cleanupOldCommand c now) (jm_keys (cs_commands s)) s"

definition cs_start :: "'p sender \<Rightarrow> 'p sender" where
  "cs_start s = s\<lparr>cs_cleanupInterval := True\<rparr>"

definition cs_stop :: "'p sender \<Rightarrow> 'p sender" where
  "cs_stop s = s\<lparr>cs_cleanupInterval := False, cs_timeouts := [], cs_queues := [], cs_inflight := []\<rparr>"

definition cs_clear :: "'p sender \<Rightarrow> 'p sender" where
  "cs_clear s = s\<lparr>cs_timeouts := [], cs_commands := [], cs_queues := [], cs_inflight := []\<rparr>"

definition cs_resetStats :: "'p sender \<Rightarrow> 'p sender" where
  "cs_resetStats s = s\<lparr>cs_dropped := 0, cs_evicted := 0\<rparr>"

record cs_stats =
  css_total :: nat
  css_pending :: nat
  css_sent :: nat
  css_success :: nat
  css_failed :: nat
  css_timeout :: nat
  css_dropped :: nat
  css_evicted :: nat
  css_queueCapacity :: nat
  css_queueUtilization :: rat

definition cs_count :: "command_status \<Rightarrow> 'p sender \<Rightarrow> nat" where
  "cs_count st s = length (filter (\<lambda>c. cmd_status c = st) (jm_values (cs_commands s)))"

definition cs_getStats :: "cs_config \<Rightarrow> 'p sender \<Rightarrow> cs_stats" where
  "cs_getStats c s =
     \<lparr> css_total = length (cs_commands s), css_pending = cs_count Cs_pending s, css_sent = cs_count Cs_sent s,
       css_success = cs_count Cs_success s, css_failed = cs_count Cs_failed s,
       css_timeout = cs_count Cs_timeout s, css_dropped = cs_dropped s, css_evicted = cs_evicted s,
       css_queueCapacity = cs_maxQueueSize c,
       css_queueUtilization = of_nat (length (cs_commands s)) / of_nat (cs_maxQueueSize c) \<rparr>"

section \<open>Invariant\<close>

abbreviation cs_get :: "'p sender \<Rightarrow> string \<Rightarrow> 'p command option" where
  "cs_get s i \<equiv> jm_get (cs_commands s) i"

text \<open>What holds of every command object.\<close>

definition cmd_ok :: "string \<Rightarrow> 'p command \<Rightarrow> bool" where
  "cmd_ok i c \<longleftrightarrow>
     cmd_id c = i \<and> cmd_attempts c \<le> cmd_maxAttempts c \<and> 1 \<le> cmd_maxAttempts c \<and>
     (cmd_status c = Cs_pending \<longrightarrow> cmd_attempts c = 0) \<and> (cmd_status c = Cs_sent \<longrightarrow> 1 \<le> cmd_attempts c)"

definition cs_at :: "command_status \<Rightarrow> 'p sender \<Rightarrow> string \<Rightarrow> string \<Rightarrow> bool" where
  "cs_at st s sid i \<longleftrightarrow> (\<exists>c. cs_get s i = Some c \<and> cmd_sensorId c = sid \<and> cmd_status c = st)"

text \<open>
  The queues hold exactly the pending commands of their sensor, the in-flight map exactly the sent
  ones (so there is at most one per sensor), and exactly the sent commands have a running timer.
\<close>

definition cs_inv :: "'p sender \<Rightarrow> bool" where
  "cs_inv s \<longleftrightarrow>
     jm_wf (cs_commands s) \<and> (\<forall>i c. cs_get s i = Some c \<longrightarrow> cmd_ok i c) \<and>
     (\<forall>sid i. jm_get (cs_inflight s) sid = Some i \<longleftrightarrow> cs_at Cs_sent s sid i) \<and>
     (\<forall>sid. distinct (queue_of s sid)) \<and>
     (\<forall>sid i. i \<in> set (queue_of s sid) \<longleftrightarrow> cs_at Cs_pending s sid i) \<and>
     (\<forall>i. i \<in> set (cs_timeouts s) \<longleftrightarrow> (\<exists>sid. cs_at Cs_sent s sid i))"

lemma cs_invD:
  assumes "cs_inv s"
  shows "jm_wf (cs_commands s)" "cs_get s i = Some c \<Longrightarrow> cmd_ok i c"
    "jm_get (cs_inflight s) sid = Some i \<longleftrightarrow> cs_at Cs_sent s sid i" "distinct (queue_of s sid)"
    "i \<in> set (queue_of s sid) \<longleftrightarrow> cs_at Cs_pending s sid i"
    "i \<in> set (cs_timeouts s) \<longleftrightarrow> (\<exists>sid. cs_at Cs_sent s sid i)"
  using assms unfolding cs_inv_def by blast+

lemma cs_inv_new: "cs_inv cs_new"
  by (simp add: cs_inv_def cs_new_def queue_of_def cs_at_def)

lemma jm_get_map_entry [simp]:
  "jm_get (AList.map_entry i f m) j = (if j = i then map_option f (jm_get m i) else jm_get m j)"
  by (induction m) auto

lemma jm_keys_map_entry [simp]: "jm_keys (AList.map_entry i f m) = jm_keys m"
  by (induction m) auto

lemma length_map_entry [simp]: "length (AList.map_entry i f m) = length m"
  by (induction m) auto

lemmas cs_op_defs = cs_emit_def cs_modify_def clearCommandTimeout_def setCommandTimeout_def Let_def

lemma cs_inv_cong:
  assumes "cs_commands s' = cs_commands s" "cs_inflight s' = cs_inflight s" "cs_timeouts s' = cs_timeouts s"
    and "queue_of s' = queue_of s"
  shows "cs_inv s' \<longleftrightarrow> cs_inv s"
  using assms by (simp add: cs_inv_def cs_at_def)

lemma cs_inv_emit [simp]: "cs_inv (cs_emit e s) = cs_inv s" "cs_inv (cs_emit_cmd f i s) = cs_inv s"
  by (rule cs_inv_cong; simp add: cs_emit_def cs_emit_cmd_def split: option.split)+

lemma cs_at_update:
  assumes "\<And>j. cs_get s' j = (if j = i then Some c' else cs_get s j)"
  shows "cs_at st s' sid j = (if j = i then cmd_sensorId c' = sid \<and> cmd_status c' = st else cs_at st s sid j)"
  using assms by (simp add: cs_at_def)

text \<open>One command changes its state and is no longer pending; the maps follow.\<close>

lemma cs_inv_update:
  assumes inv: "cs_inv s" and c: "cs_get s i = Some c"
    and wf: "jm_wf (cs_commands s')"
    and get: "\<And>j. cs_get s' j = (if j = i then Some c' else cs_get s j)"
    and c': "cmd_ok i c'" "cmd_sensorId c' = cmd_sensorId c" "cmd_status c' \<noteq> Cs_pending"
    and free: "cmd_status c' = Cs_sent \<Longrightarrow> cmd_status c \<noteq> Cs_sent \<Longrightarrow> jm_get (cs_inflight s) (cmd_sensorId c) = None"
    and fl: "\<And>k. jm_get (cs_inflight s') k =
      (if k = cmd_sensorId c
       then (if cmd_status c' = Cs_sent then Some i else if cmd_status c = Cs_sent then None else jm_get (cs_inflight s) k)
       else jm_get (cs_inflight s) k)"
    and q: "\<And>k. queue_of s' k = (if k = cmd_sensorId c then remove1 i (queue_of s k) else queue_of s k)"
    and t: "set (cs_timeouts s') = (if cmd_status c' = Cs_sent then insert i (set (cs_timeouts s)) else set (cs_timeouts s) - {i})"
  shows "cs_inv s'"
proof -
  note at = cs_at_update [OF get]
  have other: "j = i" if "cs_at Cs_sent s (cmd_sensorId c) j" "cmd_status c = Cs_sent" for j
    using that c cs_invD(3) [OF inv, of "cmd_sensorId c" i] cs_invD(3) [OF inv, of "cmd_sensorId c" j]
    by (auto simp: cs_at_def)
  have i_at: "cs_at st s k i \<longleftrightarrow> k = cmd_sensorId c \<and> cmd_status c = st" for st k
    using c by (auto simp: cs_at_def)
  show ?thesis
    unfolding cs_inv_def
  proof (intro conjI allI impI)
    fix k j
    show "jm_get (cs_inflight s') k = Some j \<longleftrightarrow> cs_at Cs_sent s' k j"
      using cs_invD(3) [OF inv, of k j] free other i_at c'
      by (auto simp: fl at split: if_splits)
    show "j \<in> set (queue_of s' k) \<longleftrightarrow> cs_at Cs_pending s' k j"
      using cs_invD(4) [OF inv, of k] cs_invD(5) [OF inv, of j k] c' i_at by (auto simp: q at)
    show "j \<in> set (cs_timeouts s') \<longleftrightarrow> (\<exists>sid. cs_at Cs_sent s' sid j)"
      using cs_invD(6) [OF inv, of j] c' by (auto simp: t at)
  qed (use wf cs_invD [OF inv] c' in \<open>auto simp: get q split: if_splits\<close>)
qed

lemma finalizeEntry_get:
  "cs_get s i = Some c \<Longrightarrow> cs_get (finalizeEntry now sid i st err s) j =
     (if j = i then Some (c\<lparr>cmd_completedAt := Some now, cmd_status := st,
        cmd_error := (if err = None \<or> err = Some '''' then cmd_error c else err)\<rparr>) else cs_get s j)"
  by (simp add: finalizeEntry_def cs_op_defs)

lemma finalizeEntry_fields:
  "jm_get (cs_inflight (finalizeEntry now sid i st err s)) k =
     (if k = sid \<and> jm_get (cs_inflight s) sid = Some i then None else jm_get (cs_inflight s) k)"
  "cs_timeouts (finalizeEntry now sid i st err s) = filter (\<lambda>j. j \<noteq> i) (cs_timeouts s)"
  "jm_keys (cs_commands (finalizeEntry now sid i st err s)) = jm_keys (cs_commands s)"
  "cs_connections (finalizeEntry now sid i st err s) = cs_connections s"
  by (simp_all add: finalizeEntry_def cs_op_defs)

lemma cs_inv_finalizeEntry:
  assumes inv: "cs_inv s" and c: "cs_get s i = Some c" and st: "terminal st"
  shows "cs_inv (finalizeEntry now (cmd_sensorId c) i st err s)"
proof (rule cs_inv_update [OF inv c])
  fix k
  have st': "st \<noteq> Cs_pending" "st \<noteq> Cs_sent" using st by (auto simp: terminal_def)
  show "jm_get (cs_inflight (finalizeEntry now (cmd_sensorId c) i st err s)) k =
      (if k = cmd_sensorId c
       then (if cmd_status (c\<lparr>cmd_completedAt := Some now, cmd_status := st,
                cmd_error := (if err = None \<or> err = Some '''' then cmd_error c else err)\<rparr>) = Cs_sent then Some i
             else if cmd_status c = Cs_sent then None else jm_get (cs_inflight s) k)
       else jm_get (cs_inflight s) k)"
    using st' cs_invD(3) [OF inv, of "cmd_sensorId c" i] c by (auto simp: finalizeEntry_fields cs_at_def)
qed (use assms cs_invD(1) [OF inv] cs_invD(2) [OF inv c]
     in \<open>auto simp: finalizeEntry_get [OF c] finalizeEntry_fields cmd_ok_def terminal_def\<close>)

text \<open>A send attempt on a pending or sent command with attempts left.\<close>

lemma cs_inv_sendAttempt_ok:
  assumes inv: "cs_inv s" and c: "cs_get s i = Some c" and a: "cmd_attempts c < cmd_maxAttempts c"
    and r: "sendAttempt now (cmd_sensorId c) i c s = (False, s')"
  shows "cs_inv s'"
proof (cases "s' = s")
  case False
  define c' where "c' = c\<lparr>cmd_attempts := Suc (cmd_attempts c), cmd_sentAt := Some now, cmd_status := Cs_sent\<rparr>"
  from r False have guards: "jm_get (cs_inflight s) (cmd_sensorId c) \<in> {None, Some i}"
    by (auto simp: sendAttempt_def Let_def split: if_splits option.splits)
  have s': "cs_get s' j = (if j = i then Some c' else cs_get s j)"
    "jm_get (cs_inflight s') k = (if k = cmd_sensorId c then Some i else jm_get (cs_inflight s) k)"
    "queue_of s' k = (if k = cmd_sensorId c then remove1 i (queue_of s k) else queue_of s k)"
    "set (cs_timeouts s') = insert i (set (cs_timeouts s))" "jm_keys (cs_commands s') = jm_keys (cs_commands s)" for j k
    using r False c by (auto simp: sendAttempt_def cs_op_defs c'_def split: if_splits)
  show ?thesis
    by (rule cs_inv_update [OF inv c, where c' = c'])
      (use inv c a guards cs_invD(1) [OF inv] cs_invD(2) [OF inv c] cs_invD(3) [OF inv, of "cmd_sensorId c" i]
       in \<open>auto simp: s' c'_def cmd_ok_def cs_at_def\<close>)
qed (use inv in simp)

lemma cs_inv_sendAttempt_threw:
  assumes inv: "cs_inv s" and c: "cs_get s i = Some c" and a: "cmd_attempts c < cmd_maxAttempts c"
    and r: "sendAttempt now (cmd_sensorId c) i c s = (True, s')"
  shows "cs_inv (finalizeEntry now (cmd_sensorId c) i Cs_failed err s')"
proof -
  define c' where "c' = c\<lparr>cmd_attempts := Suc (cmd_attempts c), cmd_sentAt := Some now, cmd_status := Cs_sent\<rparr>"
  from r have guards: "jm_get (cs_inflight s) (cmd_sensorId c) \<in> {None, Some i}"
    by (auto simp: sendAttempt_def Let_def split: if_splits option.splits)
  have s': "cs_get s' j = (if j = i then Some c' else cs_get s j)"
    "jm_get (cs_inflight s') k = (if k = cmd_sensorId c then Some i else jm_get (cs_inflight s) k)"
    "queue_of s' k = (if k = cmd_sensorId c then remove1 i (queue_of s k) else queue_of s k)"
    "cs_timeouts s' = cs_timeouts s" "jm_keys (cs_commands s') = jm_keys (cs_commands s)" for j k
    using r c by (auto simp: sendAttempt_def cs_op_defs c'_def split: if_splits)
  then have get: "cs_get s' i = Some c'" by simp
  have "i \<notin> set (remove1 i (queue_of s (cmd_sensorId c)))"
    using cs_invD(4) [OF inv, of "cmd_sensorId c"] by simp
  then have q: "remove1 i (remove1 i (queue_of s (cmd_sensorId c))) = remove1 i (queue_of s (cmd_sensorId c))"
    by (rule remove1_idem)
  show ?thesis
    by (rule cs_inv_update [OF inv c, where c' = "c'\<lparr>cmd_completedAt := Some now, cmd_status := Cs_failed,
          cmd_error := (if err = None \<or> err = Some '''' then cmd_error c' else err)\<rparr>"])
      (use inv c a guards q cs_invD(1) [OF inv] cs_invD(2) [OF inv c] cs_invD(3) [OF inv, of "cmd_sensorId c" i]
       in \<open>auto simp: finalizeEntry_get [OF get] finalizeEntry_fields s' c'_def cmd_ok_def cs_at_def\<close>)
qed

lemma cs_queue_pending:
  "cs_inv s \<Longrightarrow> queue_of s sid = i # rest \<Longrightarrow>
     \<exists>c. cs_get s i = Some c \<and> cmd_sensorId c = sid \<and> cmd_status c = Cs_pending \<and> cmd_attempts c < cmd_maxAttempts c"
  using cs_invD(5) [of s i sid] cs_invD(2) [of s i] by (fastforce simp: cs_at_def cmd_ok_def)

lemma cs_inv_trySendNext: "cs_inv s \<Longrightarrow> cs_inv (trySendNext now sid s)"
proof (induction now sid s rule: trySendNext.induct)
  case (1 now sid s)
  show ?case
  proof (cases "jm_get (cs_inflight s) sid = None \<and> queue_of s sid \<noteq> []")
    case False
    with 1 show ?thesis by (subst trySendNext.simps) (auto split: list.split)
  next
    case True
    then obtain i rest where q: "queue_of s sid = i # rest" by (cases "queue_of s sid") auto
    from cs_queue_pending [OF \<open>cs_inv s\<close> q] obtain c where c: "cs_get s i = Some c" "cmd_sensorId c = sid"
      "cmd_status c = Cs_pending" "cmd_attempts c < cmd_maxAttempts c" by blast
    obtain b s' where r: "sendAttempt now sid i c s = (b, s')" by (cases "sendAttempt now sid i c s")
    show ?thesis
    proof (cases b)
      case True
      with r c have "cs_inv (finalizeEntry now sid i Cs_failed (Some ''WebSocket send failed'') s')"
        using cs_inv_sendAttempt_threw [OF \<open>cs_inv s\<close> c(1)] by simp
      then show ?thesis
        using 1 \<open>jm_get _ _ = None \<and> _\<close> q c r True by (subst trySendNext.simps) simp
    next
      case b: False
      with r c have "cs_inv s'" using cs_inv_sendAttempt_ok [OF \<open>cs_inv s\<close> c(1)] by simp
      then show ?thesis
        using True q c r b by (subst trySendNext.simps) simp
    qed
  qed
qed

lemma cs_inv_finalizeCommand:
  "cs_inv s \<Longrightarrow> cs_get s i = Some c \<Longrightarrow> terminal st \<Longrightarrow> cs_inv (finalizeCommand now (cmd_sensorId c) i st err s)"
  by (simp add: finalizeCommand_def cs_inv_trySendNext cs_inv_finalizeEntry)

lemma cs_inv_trySendCommand:
  assumes inv: "cs_inv s" and c: "cs_get s i = Some c" and a: "cmd_attempts c < cmd_maxAttempts c"
  shows "cs_inv (trySendCommand now c s)"
proof -
  have i: "cmd_id c = i" using cs_invD(2) [OF inv c] by (simp add: cmd_ok_def)
  show ?thesis
    using i cs_inv_sendAttempt_ok [OF inv c a] cs_inv_sendAttempt_threw [OF inv c a]
    by (auto simp: trySendCommand_def finalizeCommand_def split: prod.split bool.split intro: cs_inv_trySendNext)
qed

lemma trySendCommand_rearmed:
  assumes "wsReady (cmd_sensorId c) s" and "jm_get (cs_inflight s) (cmd_sensorId c) = Some (cmd_id c)"
    and "cmd_status c = Cs_sent"
  shows "trySendCommand now c (clearCommandTimeout (cmd_id c) s) = trySendCommand now c s"
proof -
  have rq: "removeFromQueue sid i (s\<lparr>cs_timeouts := t\<rparr>) = (removeFromQueue sid i s)\<lparr>cs_timeouts := t\<rparr>" for sid i t
    by (simp add: removeFromQueue_def Let_def split: option.split)
  show ?thesis
    using assms
    by (simp add: trySendCommand_def sendAttempt_def rq terminal_def wsReady_def wsThrows_def finalizeCommand_def
        finalizeEntry_def cs_op_defs split: option.split)
qed

lemma setCommandTimeout_same:
  "cs_inv s \<Longrightarrow> i \<in> set (cs_timeouts s) \<Longrightarrow> cs_inv (setCommandTimeout i (clearCommandTimeout i s))"
proof -
  assume "cs_inv s" "i \<in> set (cs_timeouts s)"
  moreover have "set (cs_timeouts (setCommandTimeout i (clearCommandTimeout i s))) = insert i (set (cs_timeouts s))"
    by (auto simp: cs_op_defs)
  ultimately show ?thesis
    unfolding cs_inv_def cs_at_def by (simp add: cs_op_defs) blast
qed

lemma cs_inv_commandTimeout: "cs_inv s \<Longrightarrow> cs_inv (commandTimeout now i s)"
proof (cases "cs_get s i")
  case (Some c)
  assume inv: "cs_inv s"
  have i: "cmd_id c = i" using cs_invD(2) [OF inv Some] by (simp add: cmd_ok_def)
  show ?thesis
  proof (cases "cmd_status c = Cs_sent")
    case True
    then have at: "cs_at Cs_sent s (cmd_sensorId c) i" using Some by (auto simp: cs_at_def)
    then have "i \<in> set (cs_timeouts s)" "jm_get (cs_inflight s) (cmd_sensorId c) = Some i"
      using cs_invD(3,6) [OF inv] by auto
    then show ?thesis
      using inv Some i True trySendCommand_rearmed [of c s now] cs_inv_trySendCommand [OF inv Some]
      by (auto simp: commandTimeout_def setCommandTimeout_same terminal_def intro: cs_inv_finalizeCommand)
  qed (use inv Some in \<open>simp add: commandTimeout_def\<close>)
qed (simp add: commandTimeout_def)

lemma cs_inv_handleResponse: "cs_inv s \<Longrightarrow> cs_inv (handleResponse now i ok err s)"
  by (auto simp: handleResponse_def terminal_def intro: cs_inv_finalizeCommand split: option.split)

lemma cs_inv_cancelCommand: "cs_inv s \<Longrightarrow> cs_inv (snd (cancelCommand now i s))"
  by (auto simp: cancelCommand_def terminal_def intro: cs_inv_finalizeCommand split: option.split)

text \<open>A command that is not in flight disappears.\<close>

lemma cs_inv_delete:
  assumes inv: "cs_inv s" and c: "cs_get s i = Some c" "cmd_status c \<noteq> Cs_sent"
    and s': "cs_commands s' = jm_delete i (cs_commands s)" "cs_inflight s' = cs_inflight s"
      "cs_timeouts s' = cs_timeouts s"
    and q: "\<And>k. queue_of s' k = (if k = cmd_sensorId c then remove1 i (queue_of s k) else queue_of s k)"
  shows "cs_inv s'"
proof -
  have at: "cs_at st s' k j \<longleftrightarrow> j \<noteq> i \<and> cs_at st s k j" for st k j
    by (simp add: cs_at_def s')
  have i_at: "cs_at st s k i \<longleftrightarrow> k = cmd_sensorId c \<and> cmd_status c = st" for st k
    using c by (auto simp: cs_at_def)
  show ?thesis
    unfolding cs_inv_def
  proof (intro conjI allI impI)
    fix k j
    show "jm_get (cs_inflight s') k = Some j \<longleftrightarrow> cs_at Cs_sent s' k j"
      using cs_invD(3) [OF inv, of k j] i_at c by (auto simp: s' at)
    show "j \<in> set (queue_of s' k) \<longleftrightarrow> cs_at Cs_pending s' k j"
      using cs_invD(4) [OF inv, of k] cs_invD(5) [OF inv, of j k] i_at by (auto simp: q at)
    show "j \<in> set (cs_timeouts s') \<longleftrightarrow> (\<exists>sid. cs_at Cs_sent s' sid j)"
      using cs_invD(6) [OF inv, of j] i_at c by (auto simp: s' at)
  qed (use cs_invD [OF inv] in \<open>auto simp: s' q split: if_splits\<close>)
qed

lemma cs_evict_fields:
  "cs_commands (cs_evict r c s) = jm_delete (cmd_id c) (cs_commands s)"
  "cs_inflight (cs_evict r c s) = cs_inflight s" "cs_timeouts (cs_evict r c s) = cs_timeouts s"
  "cs_connections (cs_evict r c s) = cs_connections s"
  "queue_of (cs_evict r c s) k = (if k = cmd_sensorId c then remove1 (cmd_id c) (queue_of s k) else queue_of s k)"
  by (simp_all add: cs_evict_def Let_def cs_emit_def)

lemma cs_inv_evict:
  "cs_inv s \<Longrightarrow> cs_get s i = Some c \<Longrightarrow> cmd_status c = Cs_pending \<Longrightarrow> cs_inv (cs_evict r c s)"
  using cs_inv_delete [of s i c "cs_evict r c s"] cs_invD(2) [of s i c]
  by (simp add: cs_evict_fields cmd_ok_def)

lemma oldest_command_in: "oldest_command cs = Some c \<Longrightarrow> c \<in> set cs"
proof (cases cs)
  case (Cons d ds)
  have "fold (\<lambda>d o'. if cmd_createdAt d < cmd_createdAt o' then d else o') ds x \<in> insert x (set ds)" for x
    by (induction ds arbitrary: x) auto
  then show "oldest_command cs = Some c \<Longrightarrow> c \<in> set cs" using Cons by auto
qed simp

lemma cs_value_get:
  assumes "cs_inv s" and "c \<in> set (jm_values (cs_commands s))"
  shows "cs_get s (cmd_id c) = Some c"
proof -
  from assms(2) obtain i where "(i, c) \<in> set (cs_commands s)" by auto
  with cs_invD(1) [OF assms(1)] have "cs_get s i = Some c" by (rule in_set_jm_get)
  with cs_invD(2) [OF assms(1) this] show ?thesis by (simp add: cmd_ok_def)
qed

lemma evict_in:
  "cs_inv s \<Longrightarrow> oldest_command (filter P (jm_values (cs_commands s))) = Some c \<Longrightarrow> cs_get s (cmd_id c) = Some c \<and> P c"
  using oldest_command_in [of "filter P (jm_values (cs_commands s))" c] cs_value_get [of s c] by auto

lemma cs_inv_evict_found:
  assumes "cs_inv s" and "\<And>c. P c \<Longrightarrow> cmd_status c = Cs_pending"
  shows "cs_inv (snd (case oldest_command (filter P (jm_values (cs_commands s))) of
                        None \<Rightarrow> (False, s) | Some c \<Rightarrow> (True, cs_evict None c s)))"
proof (cases "oldest_command (filter P (jm_values (cs_commands s)))")
  case (Some c)
  with assms evict_in [OF assms(1), of P c] cs_inv_evict [of s "cmd_id c" c None] show ?thesis by simp
qed (simp add: assms)

lemma cs_inv_evictOldest:
  assumes "cs_inv s"
  shows "cs_inv (snd (evictOldestPending sid s))" and "cs_inv (snd (evictOldestPendingGlobal s))"
  unfolding evictOldestPending_def evictOldestPendingGlobal_def
  by (rule cs_inv_evict_found [OF assms]; simp)+

text \<open>A new pending command at the end of its queue.\<close>

lemma cs_inv_enqueue:
  assumes inv: "cs_inv s" and new: "cs_get s i = None"
    and c: "cmd_ok i c" "cmd_status c = Cs_pending" "cmd_sensorId c = sid"
  shows "cs_inv (enqueueCommand sid i (s\<lparr>cs_commands := jm_set i c (cs_commands s)\<rparr>))" (is "cs_inv ?s")
proof -
  have get: "cs_get ?s j = (if j = i then Some c else cs_get s j)" for j
    by (simp add: enqueueCommand_def)
  note at = cs_at_update [OF get]
  have no: "\<not> cs_at st s k i" for st k using new by (simp add: cs_at_def)
  have q: "queue_of ?s k = (if k = sid then queue_of s k @ [i] else queue_of s k)" for k
    by (simp add: enqueueCommand_def queue_of_def)
  have f: "cs_inflight ?s = cs_inflight s" "cs_timeouts ?s = cs_timeouts s" "jm_wf (cs_commands ?s)"
    using cs_invD(1) [OF inv] by (simp_all add: enqueueCommand_def)
  show ?thesis
    unfolding cs_inv_def
  proof (intro conjI allI impI)
    fix k j
    show "jm_get (cs_inflight ?s) k = Some j \<longleftrightarrow> cs_at Cs_sent ?s k j"
      using cs_invD(3) [OF inv, of k j] no c by (auto simp: f at)
    show "j \<in> set (queue_of ?s k) \<longleftrightarrow> cs_at Cs_pending ?s k j"
      using cs_invD(5) [OF inv, of j k] no c by (auto simp: q at)
    show "j \<in> set (cs_timeouts ?s) \<longleftrightarrow> (\<exists>sid. cs_at Cs_sent ?s sid j)"
      using cs_invD(6) [OF inv, of j] no c by (auto simp: f at)
    show "distinct (queue_of ?s k)"
      using cs_invD(4) [OF inv, of k] cs_invD(5) [OF inv, of i k] no by (auto simp: q)
  qed (use cs_invD(2) [OF inv] c f in \<open>auto simp: get split: if_splits\<close>)
qed

lemma evict_get_None:
  "cs_get s i = None \<Longrightarrow> cs_get (snd (evictOldestPending sid s)) i = None"
  "cs_get s i = None \<Longrightarrow> cs_get (snd (evictOldestPendingGlobal s)) i = None"
  by (auto simp: evictOldestPending_def evictOldestPendingGlobal_def cs_evict_fields split: option.split)

lemma cs_inv_drop_command [simp]: "cs_inv (cs_drop_command sid t r s) = cs_inv s"
  by (rule cs_inv_cong) (simp_all add: cs_drop_command_def cs_emit_def)

lemma cs_inv_sendCommand:
  assumes inv: "cs_inv s" and new: "cs_get s i = None"
  shows "cs_inv (snd (sendCommand c now sid t p i s))"
proof -
  define r1 where "r1 = (if cs_maxPerSensorQueueSize c \<le> length (getPendingCommands sid s)
                       then evictOldestPending sid s else (True, s))"
  define r2 where "r2 = (if cs_maxQueueSize c \<le> length (cs_commands (snd r1))
                          then evictOldestPendingGlobal (snd r1) else (True, snd r1))"
  have 1: "cs_inv (snd r1)" "cs_get (snd r1) i = None"
    using inv new by (simp_all add: r1_def cs_inv_evictOldest evict_get_None)
  have 2: "cs_inv (snd r2)" "cs_get (snd r2) i = None"
    using 1 by (simp_all add: r2_def cs_inv_evictOldest evict_get_None)
  show ?thesis
    using 1 2 unfolding sendCommand_def r1_def [symmetric] Let_def split_beta r2_def [symmetric]
    by (simp add: cs_inv_trySendNext cs_inv_enqueue cmd_ok_def getMaxAttempts_def)
qed

lemma cs_inv_flushQueue:
  assumes inv: "cs_inv s"
    and p: "p = sort_key cmd_createdAt (filter (\<lambda>c. cmd_sensorId c = sid \<and> cmd_status c = Cs_pending) (jm_values (cs_commands s)))"
    and s': "s' = (if p \<noteq> [] then s\<lparr>cs_queues := jm_set sid (map cmd_id p) (cs_queues s)\<rparr>
                   else s\<lparr>cs_queues := jm_delete sid (cs_queues s)\<rparr>)"
  shows "cs_inv s'"
proof -
  have q: "queue_of s' k = (if k = sid then map cmd_id p else queue_of s k)" for k
    by (simp add: s' queue_of_def)
  have f: "cs_commands s' = cs_commands s" "cs_inflight s' = cs_inflight s" "cs_timeouts s' = cs_timeouts s"
    by (simp_all add: s')
  have at: "cs_at st s' = cs_at st s" for st by (simp add: cs_at_def f fun_eq_iff)
  have "c \<in> set (jm_values (cs_commands s)) \<longleftrightarrow> cs_get s (cmd_id c) = Some c" for c
    using cs_value_get [OF inv, of c] jm_get_in_set [of "cs_commands s" "cmd_id c" c] by force
  then have mem: "i \<in> cmd_id ` set p \<longleftrightarrow> cs_at Cs_pending s sid i" for i
    using cs_invD(2) [OF inv] by (fastforce simp: p cs_at_def cmd_ok_def image_iff)
  have keys: "map cmd_id (jm_values (cs_commands s)) = jm_keys (cs_commands s)"
  proof -
    have "cmd_id (snd x) = fst x" if "x \<in> set (cs_commands s)" for x
      using that cs_invD(2) [OF inv, of "fst x" "snd x"] in_set_jm_get [OF cs_invD(1) [OF inv], of "fst x" "snd x"]
      by (simp add: cmd_ok_def)
    then show ?thesis by simp
  qed
  have "distinct (map cmd_id (jm_values (cs_commands s)))"
    using cs_invD(1) [OF inv] unfolding keys .
  then have "distinct (jm_values (cs_commands s)) \<and> inj_on cmd_id (set (jm_values (cs_commands s)))"
    unfolding distinct_map [of cmd_id] .
  then have "distinct (map cmd_id p)"
    unfolding p by (auto simp: distinct_map [of cmd_id] intro: inj_on_subset)
  then show ?thesis
    using inv mem unfolding cs_inv_def at f by (simp add: q)
qed

lemma cs_inv_flushPending: "cs_inv s \<Longrightarrow> cs_inv (flushPendingCommands now sid s)"
proof -
  assume inv: "cs_inv s"
  define p where "p = sort_key cmd_createdAt (filter (\<lambda>c. cmd_sensorId c = sid \<and> cmd_status c = Cs_pending) (jm_values (cs_commands s)))"
  define s1 where "s1 = (if p \<noteq> [] then s\<lparr>cs_queues := jm_set sid (map cmd_id p) (cs_queues s)\<rparr>
                   else s\<lparr>cs_queues := jm_delete sid (cs_queues s)\<rparr>)"
  have "cs_inv s1" by (rule cs_inv_flushQueue [OF inv p_def s1_def])
  then show ?thesis
    unfolding flushPendingCommands_def Let_def p_def [symmetric] s1_def [symmetric]
    by (auto intro!: cs_inv_trySendNext split: option.split simp: bind_eq_Some_conv dest: cs_inv_trySendCommand)
qed

lemma cs_inv_connections [simp]: "cs_inv (s\<lparr>cs_connections := w\<rparr>) = cs_inv s"
  by (rule cs_inv_cong) simp_all

lemma cs_inv_cleanupOldCommand: "cs_inv s \<Longrightarrow> cs_inv (cleanupOldCommand c now i s)"
proof (cases "cs_get s i")
  case (Some cmd)
  assume inv: "cs_inv s"
  let ?s1 = "removeFromQueue (cmd_sensorId cmd) i (s\<lparr>cs_commands := jm_delete i (cs_commands s)\<rparr>)"
  have "cs_inv ?s1" "jm_get (cs_inflight ?s1) (cmd_sensorId cmd) \<noteq> Some i" if "terminal (cmd_status cmd)"
  proof -
    have "cmd_status cmd \<noteq> Cs_sent" using that by (auto simp: terminal_def)
    with inv Some show "cs_inv ?s1" by (rule cs_inv_delete) simp_all
    show "jm_get (cs_inflight ?s1) (cmd_sensorId cmd) \<noteq> Some i"
      using cs_invD(3) [OF inv, of "cmd_sensorId cmd" i] Some that by (auto simp: cs_at_def terminal_def)
  qed
  then show ?thesis
    using inv Some
    by (auto simp: cleanupOldCommand_def Let_def terminal_def intro: cs_inv_evict cs_inv_finalizeCommand)
qed (simp add: cleanupOldCommand_def)

lemma cs_inv_cleanupOldCommands: "cs_inv s \<Longrightarrow> cs_inv (cleanupOldCommands c now s)"
proof -
  have "cs_inv s' \<Longrightarrow> cs_inv (fold (cleanupOldCommand c now) is s')" for "is" s'
    by (induction "is" arbitrary: s') (auto intro: cs_inv_cleanupOldCommand)
  then show "cs_inv s \<Longrightarrow> cs_inv (cleanupOldCommands c now s)"
    by (simp add: cleanupOldCommands_def)
qed

lemma fold_fail_removed:
  "jm_get (cs_commands (fold (cs_fail_removed now) cs s)) j = (if j \<in> cmd_id ` set cs then None else cs_get s j)"
  "jm_wf (cs_commands s) \<Longrightarrow> jm_wf (cs_commands (fold (cs_fail_removed now) cs s))"
  "set (cs_timeouts (fold (cs_fail_removed now) cs s)) = set (cs_timeouts s) - cmd_id ` set cs"
  "cs_inflight (fold (cs_fail_removed now) cs s) = cs_inflight s"
  "queue_of (fold (cs_fail_removed now) cs s) = queue_of s"
  by (induction cs arbitrary: s) (auto simp: cs_fail_removed_def cs_op_defs)

lemma status_ids:
  assumes inv: "cs_inv s"
  shows "cmd_id ` {d \<in> set (jm_values (cs_commands s)). cmd_sensorId d = sid \<and> cmd_status d = st} = {j. cs_at st s sid j}"
proof (rule set_eqI)
  fix j
  have "cs_at st s sid j" if "d \<in> set (jm_values (cs_commands s))" "cmd_sensorId d = sid" "cmd_status d = st" "j = cmd_id d" for d
    using that cs_value_get [OF inv that(1)] by (auto simp: cs_at_def)
  moreover have "\<exists>d. d \<in> set (jm_values (cs_commands s)) \<and> cmd_sensorId d = sid \<and> cmd_status d = st \<and> j = cmd_id d"
    if at: "cs_at st s sid j"
  proof -
    from at obtain d where d: "cs_get s j = Some d" "cmd_sensorId d = sid" "cmd_status d = st" by (auto simp: cs_at_def)
    from jm_get_in_set [OF d(1)] have "d \<in> set (jm_values (cs_commands s))" by force
    with d cs_invD(2) [OF inv d(1)] show ?thesis by (auto simp: cmd_ok_def)
  qed
  ultimately show "j \<in> cmd_id ` {d \<in> set (jm_values (cs_commands s)). cmd_sensorId d = sid \<and> cmd_status d = st} \<longleftrightarrow> j \<in> {j. cs_at st s sid j}"
    by blast
qed

lemma ids_filter_new:
  "f ` set (xs @ filter (\<lambda>d. P d \<and> Q d \<and> f d \<notin> f ` set xs) ys) = f ` set xs \<union> f ` {d \<in> set ys. P d \<and> Q d}"
  by auto

lemma sensor_toClean_ids:
  assumes inv: "cs_inv s"
  shows "cmd_id ` set (sensor_toClean sid s) = {i. cs_at Cs_sent s sid i} \<union> {i. cs_at Cs_pending s sid i}"
proof -
  define fl where "fl = (case Option.bind (jm_get (cs_inflight s) sid) (jm_get (cs_commands s)) of
                  None \<Rightarrow> []
                | Some c \<Rightarrow> if cmd_status c = Cs_sent \<or> cmd_status c = Cs_pending then [c] else [])"
  have "cmd_id ` set fl = {i. cs_at Cs_sent s sid i}"
  proof (cases "jm_get (cs_inflight s) sid")
    case None
    then show ?thesis using cs_invD(3) [OF inv, of sid] by (simp add: fl_def)
  next
    case (Some i)
    then have "cs_at Cs_sent s sid i" using cs_invD(3) [OF inv] by simp
    then obtain c where c: "cs_get s i = Some c" "cmd_status c = Cs_sent" by (auto simp: cs_at_def)
    with Some cs_invD(2) [OF inv c(1)] have "cmd_id ` set fl = {i}" by (simp add: fl_def cmd_ok_def)
    moreover have "cs_at Cs_sent s sid j \<longleftrightarrow> j = i" for j using cs_invD(3) [OF inv, of sid j] Some by auto
    ultimately show ?thesis by simp
  qed
  then show ?thesis
    unfolding sensor_toClean_def Let_def fl_def [symmetric] ids_filter_new status_ids [OF inv] by simp
qed

lemma cs_inv_cleanupSensor:
  assumes inv: "cs_inv s"
  shows "cs_inv (snd (cleanupSensor now sid s))" (is "cs_inv ?s")
proof -
  let ?X = "cmd_id ` set (sensor_toClean sid s)"
  note X = sensor_toClean_ids [OF inv, of sid]
  have get: "cs_get ?s j = (if j \<in> ?X then None else cs_get s j)" for j
    by (simp add: cleanupSensor_def Let_def fold_fail_removed)
  have fl: "jm_get (cs_inflight ?s) k = (if k = sid then None else jm_get (cs_inflight s) k)" for k
    by (simp add: cleanupSensor_def Let_def fold_fail_removed)
  have ti: "set (cs_timeouts ?s) = set (cs_timeouts s) - ?X"
    by (simp add: cleanupSensor_def Let_def fold_fail_removed)
  have q: "queue_of ?s k = (if k = sid then [] else queue_of s k)" for k
    by (simp add: cleanupSensor_def Let_def fold_fail_removed) (simp add: queue_of_def)
  have wf: "jm_wf (cs_commands ?s)"
    using cs_invD(1) [OF inv] by (simp add: cleanupSensor_def Let_def fold_fail_removed)
  have one: "k = k'" if "cs_at st s k j" "cs_at st' s k' j" for st st' k k' j
    using that by (auto simp: cs_at_def)
  have at: "cs_at st ?s k j \<longleftrightarrow> cs_at st s k j \<and> j \<notin> ?X" for st k j
    by (simp add: cs_at_def get)
  show ?thesis
    unfolding cs_inv_def
  proof (intro conjI allI impI)
    fix k j
    show "jm_get (cs_inflight ?s) k = Some j \<longleftrightarrow> cs_at Cs_sent ?s k j"
      using cs_invD(3) [OF inv, of k j] one by (auto simp: fl at X)
    show "j \<in> set (queue_of ?s k) \<longleftrightarrow> cs_at Cs_pending ?s k j"
      using cs_invD(5) [OF inv, of j k] one by (auto simp: q at X)
    show "j \<in> set (cs_timeouts ?s) \<longleftrightarrow> (\<exists>sid. cs_at Cs_sent ?s sid j)"
      using cs_invD(6) [OF inv, of j] by (auto simp: ti at)
  qed (use wf cs_invD [OF inv] in \<open>auto simp: get q split: if_splits\<close>)
qed

section \<open>Runs\<close>

datatype 'p cs_call =
  Call_register string ws_conn
| Call_unregister string
| Call_wsState string ws_conn
| Call_cleanupSensor string
| Call_send string command_type 'p string
| Call_response string bool "string option"
| Call_timer string
| Call_cancel string
| Call_cleanupOld
| Call_clear
| Call_resetStats

text \<open>\<open>Call_wsState\<close> is a change of the socket itself; the id of a new command is fresh.\<close>

fun cs_exec :: "cs_config \<Rightarrow> int \<Rightarrow> 'p cs_call \<Rightarrow> 'p sender \<Rightarrow> 'p sender" where
  "cs_exec c now (Call_register sid w) s = registerConnection now sid w s"
| "cs_exec c now (Call_unregister sid) s = unregisterConnection sid s"
| "cs_exec c now (Call_wsState sid w) s =
     (if jm_get (cs_connections s) sid = None then s else s\<lparr>cs_connections := jm_set sid w (cs_connections s)\<rparr>)"
| "cs_exec c now (Call_cleanupSensor sid) s = snd (cleanupSensor now sid s)"
| "cs_exec c now (Call_send sid t p i) s =
     (if cs_get s i \<noteq> None then s else snd (sendCommand c now sid t p i s))"
| "cs_exec c now (Call_response i ok err) s = handleResponse now i ok err s"
| "cs_exec c now (Call_timer i) s = (if i \<in> set (cs_timeouts s) then commandTimeout now i s else s)"
| "cs_exec c now (Call_cancel i) s = snd (cancelCommand now i s)"
| "cs_exec c now Call_cleanupOld s = cleanupOldCommands c now s"
| "cs_exec c now Call_clear s = cs_clear s"
| "cs_exec c now Call_resetStats s = cs_resetStats s"

definition cs_run :: "cs_config \<Rightarrow> (int \<times> 'p cs_call) list \<Rightarrow> 'p sender" where
  "cs_run c calls = fold (\<lambda>(now, call). cs_exec c now call) calls cs_new"

lemma cs_inv_exec: "cs_inv s \<Longrightarrow> cs_inv (cs_exec c now call s)"
proof (cases call)
  case Call_clear
  then show ?thesis by (simp add: cs_clear_def cs_inv_def cs_at_def queue_of_def)
next
  case Call_resetStats
  moreover assume "cs_inv s"
  ultimately show ?thesis by (simp add: cs_resetStats_def cs_inv_cong [of "s\<lparr>cs_dropped := 0, cs_evicted := 0\<rparr>" s])
qed (auto simp: registerConnection_def unregisterConnection_def cs_inv_flushPending cs_inv_cleanupSensor
       cs_inv_sendCommand cs_inv_handleResponse cs_inv_commandTimeout cs_inv_cancelCommand cs_inv_cleanupOldCommands)

lemma cs_inv_run: "cs_inv (cs_run c calls)"
proof -
  have "cs_inv s \<Longrightarrow> cs_inv (fold (\<lambda>(now, call). cs_exec c now call) calls s)" for s
    by (induction calls arbitrary: s) (auto simp: cs_inv_exec)
  then show ?thesis by (simp add: cs_run_def cs_inv_new)
qed

section \<open>How commands evolve\<close>

text \<open>A finished command never changes; any other command only moves forward.\<close>

definition cmd_evolves :: "'p command \<Rightarrow> 'p command \<Rightarrow> bool" where
  "cmd_evolves c c' \<longleftrightarrow> c' = c \<or>
     \<not> terminal (cmd_status c) \<and> cmd_id c' = cmd_id c \<and> cmd_sensorId c' = cmd_sensorId c \<and>
     cmd_type c' = cmd_type c \<and> cmd_payload c' = cmd_payload c \<and> cmd_maxAttempts c' = cmd_maxAttempts c \<and>
     cmd_status c' \<noteq> Cs_pending \<and> cmd_attempts c \<le> cmd_attempts c'"

definition cs_evolves :: "'p sender \<Rightarrow> 'p sender \<Rightarrow> bool" where
  "cs_evolves s s' \<longleftrightarrow> (\<forall>j c'. cs_get s' j = Some c' \<longrightarrow> (\<exists>c. cs_get s j = Some c \<and> cmd_evolves c c'))"

lemma cs_evolvesD: "cs_evolves s s' \<Longrightarrow> cs_get s' j = Some c' \<Longrightarrow> \<exists>c. cs_get s j = Some c \<and> cmd_evolves c c'"
  by (simp add: cs_evolves_def)

lemma cmd_evolves_refl [simp]: "cmd_evolves c c"
  by (simp add: cmd_evolves_def)

lemma cmd_evolves_trans: "cmd_evolves c c' \<Longrightarrow> cmd_evolves c' c'' \<Longrightarrow> cmd_evolves c c''"
  by (auto simp: cmd_evolves_def)

lemma cs_evolves_refl [simp]: "cs_evolves s s"
  by (auto simp: cs_evolves_def)

lemma cs_evolves_trans: "cs_evolves s s' \<Longrightarrow> cs_evolves s' s'' \<Longrightarrow> cs_evolves s s''"
  unfolding cs_evolves_def by (meson cmd_evolves_trans)

lemma cs_evolves_same: "cs_commands s' = cs_commands s \<Longrightarrow> cs_evolves s s'"
  by (auto simp: cs_evolves_def)

lemma cs_evolves_update:
  "(\<And>j. cs_get s' j = (if j = i then Some c' else cs_get s j)) \<Longrightarrow> cs_get s i = Some c \<Longrightarrow> cmd_evolves c c' \<Longrightarrow> cs_evolves s s'"
  by (auto simp: cs_evolves_def split: if_splits)

lemma cs_evolves_emit [simp]: "cs_evolves s (cs_emit e s') = cs_evolves s s'" "cs_evolves s (cs_emit_cmd f i s') = cs_evolves s s'"
  by (simp_all add: cs_evolves_def cs_emit_def cs_emit_cmd_def split: option.split)

lemma cs_evolves_sendAttempt:
  assumes "cs_get s i = Some c" and "sendAttempt now sid i c s = (b, s')"
  shows "cs_evolves s s'"
proof (cases "s' = s")
  case False
  with assms have "\<not> terminal (cmd_status c)"
    and "cs_get s' j = (if j = i then Some (c\<lparr>cmd_attempts := Suc (cmd_attempts c), cmd_sentAt := Some now, cmd_status := Cs_sent\<rparr>) else cs_get s j)" for j
    by (auto simp: sendAttempt_def cs_op_defs split: if_splits)
  then show ?thesis
    by (intro cs_evolves_update [OF _ assms(1)]) (auto simp: cmd_evolves_def)
qed simp

lemma cs_evolves_finalizeEntry:
  assumes "cs_get s i = Some c" and "\<not> terminal (cmd_status c)" and "st \<noteq> Cs_pending"
  shows "cs_evolves s (finalizeEntry now sid i st err s)"
  by (rule cs_evolves_update [OF finalizeEntry_get [OF assms(1)] assms(1)]) (use assms in \<open>simp add: cmd_evolves_def\<close>)

lemma sendAttempt_threw_get:
  "cs_get s i = Some c \<Longrightarrow> sendAttempt now sid i c s = (True, s') \<Longrightarrow>
     \<exists>c'. cs_get s' i = Some c' \<and> cmd_status c' = Cs_sent"
  by (auto simp: sendAttempt_def cs_op_defs split: if_splits)

lemma cs_evolves_threw:
  assumes "cs_get s i = Some c" and "sendAttempt now sid i c s = (True, s')"
  shows "cs_evolves s (finalizeEntry now sid i Cs_failed err s')"
proof -
  obtain c' where "cs_get s' i = Some c'" "cmd_status c' = Cs_sent"
    using sendAttempt_threw_get [OF assms] by blast
  then have "cs_evolves s' (finalizeEntry now sid i Cs_failed err s')"
    by (intro cs_evolves_finalizeEntry) (auto simp: terminal_def)
  with cs_evolves_sendAttempt [OF assms] show ?thesis by (rule cs_evolves_trans)
qed

lemma cs_evolves_trySendNext: "cs_evolves s (trySendNext now sid s)"
proof (induction now sid s rule: trySendNext.induct)
  case (1 now sid s)
  show ?case
  proof (cases "queue_of s sid")
    case Nil
    then show ?thesis by (subst trySendNext.simps) simp
  next
    case (Cons i rest)
    let ?s = "s\<lparr>cs_queues := jm_set sid rest (cs_queues s)\<rparr>"
    have shift: "cs_evolves s (trySendNext now sid ?s)" if "cs_evolves ?s (trySendNext now sid ?s)"
      using cs_evolves_trans [OF cs_evolves_same that] by simp
    show ?thesis
    proof (cases "jm_get (cs_inflight s) sid = None")
      case False
      then show ?thesis by (subst trySendNext.simps) simp
    next
      case free: True
      show ?thesis
      proof (cases "cs_get s i")
        case None
        with 1 free Cons shift show ?thesis by (subst trySendNext.simps) simp
      next
        case (Some c)
        obtain b s' where r: "sendAttempt now sid i c s = (b, s')" by (cases "sendAttempt now sid i c s")
        let ?f = "finalizeEntry now sid i Cs_failed (Some ''WebSocket send failed'') s'"
        show ?thesis
        proof (cases "cmd_status c = Cs_pending \<and> b")
          case True
          with r have r': "sendAttempt now sid i c s = (True, s')" by simp
          from True 1 free Cons Some r have "cs_evolves ?f (trySendNext now sid ?f)" by simp
          with cs_evolves_threw [OF Some r'] have "cs_evolves s (trySendNext now sid ?f)"
            by (rule cs_evolves_trans)
          then show ?thesis using free Cons Some r True by (subst trySendNext.simps) simp
        next
          case False
          with 1 free Cons shift Some r cs_evolves_sendAttempt [OF Some r] show ?thesis
            by (subst trySendNext.simps) auto
        qed
      qed
    qed
  qed
qed

lemma cs_evolves_finalizeCommand:
  "cs_get s i = Some c \<Longrightarrow> \<not> terminal (cmd_status c) \<Longrightarrow> st \<noteq> Cs_pending \<Longrightarrow> cs_evolves s (finalizeCommand now sid i st err s)"
  unfolding finalizeCommand_def by (rule cs_evolves_trans [OF cs_evolves_finalizeEntry cs_evolves_trySendNext])

lemma cs_evolves_trySendCommand:
  assumes "cs_get s (cmd_id c) = Some c"
  shows "cs_evolves s (trySendCommand now c s)"
proof -
  obtain b s' where r: "sendAttempt now (cmd_sensorId c) (cmd_id c) c s = (b, s')"
    by (cases "sendAttempt now (cmd_sensorId c) (cmd_id c) c s")
  show ?thesis
  proof (cases b)
    case True
    with r cs_evolves_trans [OF cs_evolves_threw [OF assms] cs_evolves_trySendNext] show ?thesis
      by (simp add: trySendCommand_def finalizeCommand_def)
  next
    case False
    with r cs_evolves_sendAttempt [OF assms r] show ?thesis by (simp add: trySendCommand_def)
  qed
qed

lemma cs_inv_get_id: "cs_inv s \<Longrightarrow> cs_get s i = Some c \<Longrightarrow> cmd_id c = i"
  using cs_invD(2) by (auto simp: cmd_ok_def)

lemma cs_evolves_response: "cs_evolves s (handleResponse now i ok err s)"
  by (auto simp: handleResponse_def split: option.split intro!: cs_evolves_finalizeCommand)

lemma cs_evolves_cancel: "cs_evolves s (snd (cancelCommand now i s))"
  by (auto simp: cancelCommand_def terminal_def split: option.split intro!: cs_evolves_finalizeCommand)

lemma cs_evolves_timeout: "cs_inv s \<Longrightarrow> cs_evolves s (commandTimeout now i s)"
proof (cases "cs_get s i")
  case (Some c)
  assume inv: "cs_inv s"
  have i: "cmd_id c = i" by (rule cs_inv_get_id [OF inv Some])
  have clear: "cs_evolves s (clearCommandTimeout i s)" "cs_get (clearCommandTimeout i s) i = Some c"
    using Some by (simp_all add: cs_evolves_same clearCommandTimeout_def)
  have "cs_evolves s (trySendCommand now c (clearCommandTimeout i s))"
    using cs_evolves_trans [OF clear(1) cs_evolves_trySendCommand [of "clearCommandTimeout i s" c now]] clear i by simp
  moreover have "cs_evolves s (setCommandTimeout i (clearCommandTimeout i s))"
    by (rule cs_evolves_same) (simp add: cs_op_defs)
  ultimately show ?thesis
    using Some cs_evolves_finalizeCommand [OF Some] by (simp add: commandTimeout_def terminal_def)
qed (simp add: commandTimeout_def)

lemma cs_evolves_delete: "cs_commands s' = jm_delete i (cs_commands s) \<Longrightarrow> cs_evolves s s'"
  by (auto simp: cs_evolves_def split: if_splits)

lemma cs_evolves_evict:
  "cs_evolves s (cs_evict r c s)" "cs_evolves s (snd (evictOldestPending sid s))" "cs_evolves s (snd (evictOldestPendingGlobal s))"
  by (auto simp: evictOldestPending_def evictOldestPendingGlobal_def cs_evict_fields split: option.split
      intro: cs_evolves_delete)

lemma cs_evolves_flush: "cs_inv s \<Longrightarrow> cs_evolves s (flushPendingCommands now sid s)"
proof -
  assume inv: "cs_inv s"
  let ?p = "sort_key cmd_createdAt (filter (\<lambda>c. cmd_sensorId c = sid \<and> cmd_status c = Cs_pending) (jm_values (cs_commands s)))"
  define s1 where "s1 = (if ?p \<noteq> [] then s\<lparr>cs_queues := jm_set sid (map cmd_id ?p) (cs_queues s)\<rparr>
                   else s\<lparr>cs_queues := jm_delete sid (cs_queues s)\<rparr>)"
  have 1: "cs_evolves s s1" "cs_inv s1"
    using cs_inv_flushQueue [OF inv refl s1_def] by (simp_all add: cs_evolves_same s1_def)
  have "cs_evolves s (trySendCommand now c s1)" if "cs_get s1 i = Some c" for i c
    using that cs_evolves_trans [OF 1(1) cs_evolves_trySendCommand] cs_inv_get_id [OF 1(2) that] by simp
  then have "cs_evolves s (case Option.bind (jm_get (cs_inflight s) sid) (jm_get (cs_commands s1)) of
                  None \<Rightarrow> s1
                | Some cmd \<Rightarrow>
                    if cmd_sensorId cmd = sid \<and> (cmd_status cmd = Cs_sent \<or> cmd_status cmd = Cs_pending)
                       \<and> cmd_attempts cmd < cmd_maxAttempts cmd
                    then trySendCommand now cmd s1 else s1)"
    using 1(1) by (auto split: option.split simp: bind_eq_Some_conv)
  then show ?thesis
    unfolding flushPendingCommands_def Let_def s1_def [symmetric]
    by (rule cs_evolves_trans [OF _ cs_evolves_trySendNext])
qed

lemma cs_evolves_remove:
  "cs_evolves s (removeFromQueue sid i (s\<lparr>cs_commands := jm_delete i (cs_commands s)\<rparr>))"
  "cs_evolves s ((removeFromQueue sid i (s\<lparr>cs_commands := jm_delete i (cs_commands s)\<rparr>))\<lparr>cs_inflight := f\<rparr>)"
  by (rule cs_evolves_delete; simp)+

lemma cs_evolves_cleanupOldCommand: "cs_evolves s (cleanupOldCommand c now i s)"
  by (auto simp: cleanupOldCommand_def Let_def terminal_def cs_evolves_evict cs_evolves_remove split: option.split
      intro!: cs_evolves_finalizeCommand)

lemma cs_evolves_cleanupOldCommands: "cs_evolves s (cleanupOldCommands c now s)"
proof -
  have "cs_evolves s (fold (cleanupOldCommand c now) is s)" for "is" s
    by (induction "is" arbitrary: s) (auto intro: cs_evolves_trans [OF cs_evolves_cleanupOldCommand])
  then show ?thesis by (simp add: cleanupOldCommands_def)
qed

lemma cs_evolves_cleanupSensor: "cs_evolves s (snd (cleanupSensor now sid s))"
  by (auto simp: cs_evolves_def cleanupSensor_def Let_def fold_fail_removed split: if_splits)

section \<open>Queue limits\<close>

definition cs_pend :: "'p sender \<Rightarrow> string \<Rightarrow> string set" where
  "cs_pend s sid = {j. cs_at Cs_pending s sid j}"

definition cs_bounded :: "cs_config \<Rightarrow> 'p sender \<Rightarrow> bool" where
  "cs_bounded c s \<longleftrightarrow>
     length (cs_commands s) \<le> cs_maxQueueSize c \<and> (\<forall>sid. card (cs_pend s sid) \<le> cs_maxPerSensorQueueSize c)"

lemma cs_keys_dom: "set (jm_keys (cs_commands s)) = {i. cs_get s i \<noteq> None}"
  by (auto simp: dom_map_of_conv_image_fst [symmetric] dom_def)

lemma finite_pend [simp]: "finite (cs_pend s sid)"
proof -
  have "cs_pend s sid \<subseteq> set (jm_keys (cs_commands s))"
    unfolding cs_keys_dom by (auto simp: cs_pend_def cs_at_def)
  then show ?thesis using finite_subset by blast
qed

lemma evolves_pend: "cs_evolves s s' \<Longrightarrow> cs_pend s' sid \<subseteq> cs_pend s sid"
  by (fastforce simp: cs_evolves_def cs_pend_def cs_at_def cmd_evolves_def)

lemma evolves_length:
  assumes "cs_evolves s s'" and "jm_wf (cs_commands s')" and "jm_wf (cs_commands s)"
  shows "length (cs_commands s') \<le> length (cs_commands s)"
proof -
  have "set (jm_keys (cs_commands s')) \<subseteq> set (jm_keys (cs_commands s))"
    using assms(1) unfolding cs_keys_dom by (auto simp: cs_evolves_def)
  then have "card (set (jm_keys (cs_commands s'))) \<le> card (set (jm_keys (cs_commands s)))"
    by (rule card_mono [rotated]) simp
  then show ?thesis using distinct_card [OF assms(2)] distinct_card [OF assms(3)] by simp
qed

lemma evolves_bounded: "cs_evolves s s' \<Longrightarrow> cs_inv s \<Longrightarrow> cs_inv s' \<Longrightarrow> cs_bounded c s \<Longrightarrow> cs_bounded c s'"
  using evolves_length [of s s'] card_mono [OF finite_pend evolves_pend, of s s']
  by (auto simp: cs_bounded_def cs_invD(1)) (meson le_trans)+

lemma length_getPending:
  assumes inv: "cs_inv s"
  shows "length (getPendingCommands sid s) = card (cs_pend s sid)"
proof (cases "queue_of s sid = []")
  case True
  then have none: "cs_pend s sid = {}" using cs_invD(5) [OF inv, of _ sid] by (auto simp: cs_pend_def)
  have "filter (\<lambda>c. cmd_sensorId c = sid \<and> cmd_status c = Cs_pending) (jm_values (cs_commands s)) = []"
  proof (rule ccontr)
    assume "\<not> ?thesis"
    then obtain d where "d \<in> set (jm_values (cs_commands s))" "cmd_sensorId d = sid" "cmd_status d = Cs_pending"
      by (metis (mono_tags, lifting) filter_False)
    then have "cmd_id d \<in> cs_pend s sid" using cs_value_get [OF inv] by (auto simp: cs_pend_def cs_at_def)
    with none show False by simp
  qed
  with True none show ?thesis by (simp add: getPendingCommands_def)
next
  case False
  have all: "\<exists>c. cs_get s i = Some c \<and> cmd_status c = Cs_pending" if "i \<in> set (queue_of s sid)" for i
    using that cs_invD(5) [OF inv, of i sid] by (auto simp: cs_at_def)
  have "length (filter (\<lambda>c. cmd_status c = Cs_pending) (List.map_filter (jm_get (cs_commands s)) q)) = length q"
    if "set q \<subseteq> set (queue_of s sid)" for q
    using that all by (induction q) (fastforce simp: List.map_filter_simps split: option.split)+
  moreover have "length (queue_of s sid) = card (cs_pend s sid)"
    using distinct_card [OF cs_invD(4) [OF inv, of sid]] cs_invD(5) [OF inv, of _ sid]
    by (simp add: cs_pend_def) (metis Collect_mem_eq Collect_cong)
  ultimately show ?thesis using False by (simp add: getPendingCommands_def)
qed

lemma evictOldestPending_less:
  assumes inv: "cs_inv s" and "fst (evictOldestPending sid s)"
  shows "card (cs_pend (snd (evictOldestPending sid s)) sid) < card (cs_pend s sid)"
proof -
  let ?P = "\<lambda>c. cmd_sensorId c = sid \<and> cmd_status c = Cs_pending"
  obtain c where o: "oldest_command (filter ?P (jm_values (cs_commands s))) = Some c"
    using assms(2) by (cases "oldest_command (filter ?P (jm_values (cs_commands s)))") (simp_all add: evictOldestPending_def)
  from evict_in [OF inv o] have "cmd_id c \<in> cs_pend s sid" by (auto simp: cs_pend_def cs_at_def)
  moreover from o have "cs_pend (snd (evictOldestPending sid s)) sid = cs_pend s sid - {cmd_id c}"
    by (auto simp: evictOldestPending_def cs_pend_def cs_at_def cs_evict_fields)
  ultimately show ?thesis using card_Diff1_less [OF finite_pend] by metis
qed

lemma evictOldestPendingGlobal_less:
  assumes inv: "cs_inv s" and "fst (evictOldestPendingGlobal s)"
  shows "length (cs_commands (snd (evictOldestPendingGlobal s))) < length (cs_commands s)"
proof -
  let ?P = "\<lambda>c. cmd_status c = Cs_pending"
  obtain c where o: "oldest_command (filter ?P (jm_values (cs_commands s))) = Some c"
    using assms(2) by (cases "oldest_command (filter ?P (jm_values (cs_commands s)))") (simp_all add: evictOldestPendingGlobal_def)
  from evict_in [OF inv o] have "jm_has (cs_commands s) (cmd_id c)" by (simp add: jm_has_get)
  then have "length (jm_delete (cmd_id c) (cs_commands s)) < length (cs_commands s)"
    using length_jm_delete [OF cs_invD(1) [OF inv], of "cmd_id c"] by (cases "cs_commands s") auto
  with o show ?thesis by (simp add: evictOldestPendingGlobal_def cs_evict_fields)
qed

lemma cs_bounded_enqueue:
  assumes "cs_bounded c s" and "card (cs_pend s sid) < cs_maxPerSensorQueueSize c"
    and "length (cs_commands s) < cs_maxQueueSize c" and "cs_get s i = None"
    and "cmd_status cmd = Cs_pending" and "cmd_sensorId cmd = sid"
  shows "cs_bounded c (enqueueCommand sid i (s\<lparr>cs_commands := jm_set i cmd (cs_commands s)\<rparr>))" (is "cs_bounded c ?s")
proof -
  have get: "cs_get ?s j = (if j = i then Some cmd else cs_get s j)" for j
    by (simp add: enqueueCommand_def)
  have no: "\<not> cs_at st s k i" for st k using assms(4) by (simp add: cs_at_def)
  have p: "cs_pend ?s k = (if k = sid then insert i (cs_pend s k) else cs_pend s k)" for k
    using assms(5,6) no by (auto simp: cs_pend_def cs_at_update [OF get])
  have "card (cs_pend ?s k) \<le> cs_maxPerSensorQueueSize c" for k
    using assms(1,2) card_insert_le_m1 [of "cs_maxPerSensorQueueSize c" "cs_pend s sid" i]
    by (auto simp: p cs_bounded_def card_insert_if)
  moreover have "length (cs_commands ?s) \<le> cs_maxQueueSize c"
    using assms(3) by (simp add: enqueueCommand_def length_jm_set)
  ultimately show ?thesis by (simp add: cs_bounded_def)
qed

lemma cs_bounded_sendCommand:
  assumes inv: "cs_inv s" and b: "cs_bounded c s" and new: "cs_get s i = None"
  shows "cs_bounded c (snd (sendCommand c now sid t p i s))"
proof -
  define r1 where "r1 = (if cs_maxPerSensorQueueSize c \<le> length (getPendingCommands sid s)
                       then evictOldestPending sid s else (True, s))"
  define r2 where "r2 = (if cs_maxQueueSize c \<le> length (cs_commands (snd r1))
                          then evictOldestPendingGlobal (snd r1) else (True, snd r1))"
  define cmd where "cmd = \<lparr> cmd_id = i, cmd_type = t, cmd_sensorId = sid, cmd_payload = p,
                        cmd_status = Cs_pending, cmd_createdAt = now, cmd_sentAt = None,
                        cmd_completedAt = None, cmd_attempts = 0, cmd_maxAttempts = getMaxAttempts t,
                        cmd_timeoutMs = getTimeout t, cmd_error = None \<rparr>"
  have 1: "cs_inv (snd r1)" "cs_get (snd r1) i = None" "cs_evolves s (snd r1)"
    using inv new by (simp_all add: r1_def cs_inv_evictOldest evict_get_None cs_evolves_evict)
  have 2: "cs_inv (snd r2)" "cs_get (snd r2) i = None" "cs_evolves (snd r1) (snd r2)"
    using 1 by (simp_all add: r2_def cs_inv_evictOldest evict_get_None cs_evolves_evict)
  have b1: "cs_bounded c (snd r1)" by (rule evolves_bounded [OF 1(3) inv 1(1) b])
  have b2: "cs_bounded c (snd r2)" by (rule evolves_bounded [OF 2(3) 1(1) 2(1) b1])
  have drop: "cs_bounded c (cs_drop_command sid t r s') = cs_bounded c s'" for r and s' :: "'a sender"
    by (simp add: cs_bounded_def cs_drop_command_def cs_emit_def cs_pend_def cs_at_def)
  have "cs_bounded c (trySendNext now sid (enqueueCommand sid i ((snd r2)\<lparr>cs_commands := jm_set i cmd (cs_commands (snd r2))\<rparr>)))"
    (is "cs_bounded c (trySendNext now sid ?s3)") if ok: "fst r1" "fst r2"
  proof -
    have "card (cs_pend (snd r1) sid) < cs_maxPerSensorQueueSize c"
    proof (cases "cs_maxPerSensorQueueSize c \<le> card (cs_pend s sid)")
      case True
      then have "r1 = evictOldestPending sid s" by (simp add: r1_def length_getPending [OF inv])
      with ok(1) evictOldestPending_less [OF inv, of sid]
      have "card (cs_pend (snd r1) sid) < card (cs_pend s sid)" by simp
      with b show ?thesis unfolding cs_bounded_def by (meson less_le_trans)
    qed (simp add: r1_def length_getPending [OF inv])
    moreover have "card (cs_pend (snd r2) sid) \<le> card (cs_pend (snd r1) sid)"
      by (rule card_mono [OF finite_pend evolves_pend [OF 2(3)]])
    moreover have "length (cs_commands (snd r2)) < cs_maxQueueSize c"
    proof (cases "cs_maxQueueSize c \<le> length (cs_commands (snd r1))")
      case True
      then have "r2 = evictOldestPendingGlobal (snd r1)" by (simp add: r2_def)
      with ok(2) evictOldestPendingGlobal_less [OF 1(1)]
      have "length (cs_commands (snd r2)) < length (cs_commands (snd r1))" by simp
      with b1 show ?thesis unfolding cs_bounded_def by simp
    qed (simp add: r2_def)
    ultimately have "cs_bounded c ?s3"
      using b2 2(2) by (intro cs_bounded_enqueue) (auto simp: cmd_def)
    moreover have "cs_inv ?s3"
      using 2 by (intro cs_inv_enqueue) (auto simp: cmd_def cmd_ok_def getMaxAttempts_def)
    ultimately show ?thesis
      using evolves_bounded [OF cs_evolves_trySendNext _ cs_inv_trySendNext] by blast
  qed
  with b1 b2 show ?thesis
    unfolding sendCommand_def r1_def [symmetric] Let_def split_beta r2_def [symmetric] cmd_def [symmetric]
    by (simp add: drop)
qed

lemma cs_evolves_exec:
  assumes "cs_inv s" and "\<And>sid t p i. call \<noteq> Call_send sid t p i"
  shows "cs_evolves s (cs_exec c now call s)"
proof (cases call)
  case (Call_register sid w)
  let ?s = "s\<lparr>cs_connections := jm_set sid w (cs_connections s)\<rparr>"
  have "cs_evolves s ?s" by (simp add: cs_evolves_same)
  moreover have "cs_evolves ?s (flushPendingCommands now sid ?s)" using assms(1) by (simp add: cs_evolves_flush)
  ultimately show ?thesis using Call_register cs_evolves_trans by (simp add: registerConnection_def) blast
next
  case Call_clear
  then show ?thesis by (simp add: cs_clear_def cs_evolves_def)
qed (use assms in \<open>auto simp: unregisterConnection_def cs_resetStats_def cs_evolves_same cs_evolves_cleanupSensor
       cs_evolves_response cs_evolves_timeout cs_evolves_cancel cs_evolves_cleanupOldCommands\<close>)

lemma cs_evolves_sendCommand:
  assumes new: "cs_get s i = None" and j: "cs_get s j = Some cmd"
    and r: "cs_get (snd (sendCommand c now sid t p i s)) j = Some cmd'"
  shows "cmd_evolves cmd cmd'"
proof -
  define r1 where "r1 = (if cs_maxPerSensorQueueSize c \<le> length (getPendingCommands sid s)
                       then evictOldestPending sid s else (True, s))"
  define r2 where "r2 = (if cs_maxQueueSize c \<le> length (cs_commands (snd r1))
                          then evictOldestPendingGlobal (snd r1) else (True, snd r1))"
  have "cs_evolves s (snd r1)" "cs_evolves (snd r1) (snd r2)"
    by (simp_all add: r1_def r2_def cs_evolves_evict)
  then have ev: "cs_evolves s (snd r1)" "cs_evolves s (snd r2)" using cs_evolves_trans by blast+
  have next': "cmd_evolves cmd cmd'"
    if "cs_get (trySendNext now sid (enqueueCommand sid i ((snd r2)\<lparr>cs_commands := jm_set i d (cs_commands (snd r2))\<rparr>))) j = Some cmd'" for d
  proof -
    from cs_evolvesD [OF cs_evolves_trySendNext that]
    obtain e where e: "cs_get (enqueueCommand sid i ((snd r2)\<lparr>cs_commands := jm_set i d (cs_commands (snd r2))\<rparr>)) j = Some e"
      "cmd_evolves e cmd'" by blast
    moreover have "j \<noteq> i" using new j by auto
    ultimately have "cs_get (snd r2) j = Some e" by (simp add: enqueueCommand_def)
    with cs_evolvesD [OF ev(2) this] j e(2) show ?thesis using cmd_evolves_trans by auto
  qed
  have drop: "cs_get (cs_drop_command sid t m s') j = cs_get s' j" for m and s' :: "'a sender"
    by (simp add: cs_drop_command_def cs_emit_def)
  show ?thesis
    using r cs_evolvesD [OF ev(1), of j cmd'] cs_evolvesD [OF ev(2), of j cmd'] j next'
    unfolding sendCommand_def r1_def [symmetric] Let_def split_beta r2_def [symmetric]
    by (auto simp: drop split: if_splits)
qed

section \<open>Properties\<close>

lemma cs_bounded_new: "cs_bounded c cs_new"
  by (simp add: cs_bounded_def cs_new_def cs_pend_def cs_at_def)

lemma cs_bounded_run: "cs_bounded c (cs_run c calls)"
proof -
  have step: "cs_bounded c (cs_exec c now call s)" if "cs_inv s" "cs_bounded c s" for now call s
  proof (cases "\<exists>sid t p i. call = Call_send sid t p i")
    case True
    with that show ?thesis by (auto simp: cs_bounded_sendCommand)
  next
    case False
    then have "cs_evolves s (cs_exec c now call s)" using cs_evolves_exec [OF that(1)] by blast
    then show ?thesis using evolves_bounded cs_inv_exec that by blast
  qed
  have "cs_inv s \<and> cs_bounded c s \<Longrightarrow> cs_bounded c (fold (\<lambda>(now, call). cs_exec c now call) calls s)" for s
    by (induction calls arbitrary: s) (auto simp: cs_inv_exec step)
  then show ?thesis by (simp add: cs_run_def cs_inv_new cs_bounded_new)
qed


definition sample_cs_config :: cs_config where
  "sample_cs_config = \<lparr> cs_maxQueueSize = 2, cs_maxPerSensorQueueSize = 1, cs_pendingTTL = 1000 \<rparr>"

definition sample_cs_calls :: "(int \<times> nat cs_call) list" where
  "sample_cs_calls =
     [(1, Call_register ''s'' \<lparr> wsc_open = True, wsc_throws = False \<rparr>),
      (2, Call_send ''s'' Restart 7 ''a''), (3, Call_send ''s'' Update 8 ''b'')]"

lemmas cs_eval =
  sample_cs_config_def sample_cs_calls_def cs_run_def cs_new_def registerConnection_def flushPendingCommands_def
  sendCommand_def getPendingCommands_def queue_of_def enqueueCommand_def trySendNext.simps sendAttempt_def
  removeFromQueue_def wsReady_def wsThrows_def terminal_def getMaxAttempts_def cs_op_defs

lemma sample_cs_run:
  "cs_get (cs_run sample_cs_config sample_cs_calls) ''a'' =
     Some \<lparr> cmd_id = ''a'', cmd_type = Restart, cmd_sensorId = ''s'', cmd_payload = 7, cmd_status = Cs_sent,
            cmd_createdAt = 2, cmd_sentAt = Some 2, cmd_completedAt = None, cmd_attempts = 1,
            cmd_maxAttempts = 2, cmd_timeoutMs = 60000, cmd_error = None \<rparr>"
  by (simp add: cs_eval)





end
