(* ===== verification/Rollout.thy ===== *)
theory Rollout
  imports Prelude
begin

text \<open>
  Firmware rollouts (\<^verbatim>\<open>api/src/services/fleet/rollout-orchestrator.ts\<close>): the split of the fleet
  into batches, the batch loop with its failure threshold, the health monitor and the final
  status. The rollout's database rows are the state. What the code cannot control is input: the
  outcome of each command, what every poll observes and when, and external cancellation, which
  takes effect between awaits. A database error is represented at the cancellation check of a
  batch, the first query of an iteration.
\<close>

section \<open>Data\<close>

record sensor_info =
  si_id :: string
  si_name :: string
  si_version :: "string option"

record release_info =
  ri_id :: string
  ri_version :: string
  ri_binaryUrl :: string
  ri_sha256 :: string
  ri_size :: int
  ri_changelog :: string

record batch_result =
  br_success :: bool
  br_failedSensors :: "string list"

record progress_row =
  pg_status :: string
  pg_error :: "string option"

text \<open>The row of the rollout and its progress rows, by sensor.\<close>

record rollout_db =
  rd_status :: string
  rd_progress :: "(string, progress_row) jsmap"
  rd_commands :: "(string \<times> string) list"

section \<open>Batches\<close>

definition MAX_BATCH_SIZE :: int where
  "MAX_BATCH_SIZE = 100"

text \<open>
  The chunking loop \<^verbatim>\<open>for (let i = 0; i < xs.length; i += size) batches.push(xs.slice(i, i + size))\<close>;
  the result is \<open>None\<close> when the loop never ends.
\<close>

partial_function (option) batch_loop :: "'a list \<Rightarrow> int \<Rightarrow> int \<Rightarrow> 'a list list \<Rightarrow> 'a list list option" where
  "batch_loop xs step i batches =
     (if i < int (length xs) then batch_loop xs step (i + step) (batches @ [js_slice xs i (i + step)])
      else Some batches)"

declare batch_loop.simps [code]

definition canarySize :: "'a list \<Rightarrow> nat" where
  "canarySize sensors = max 1 (length sensors div 10)"

definition createBatches :: "'a list \<Rightarrow> string \<Rightarrow> int \<Rightarrow> 'a list list option" where
  "createBatches sensors strategy batchSize =
     (if strategy = ''immediate'' then batch_loop sensors MAX_BATCH_SIZE 0 []
      else if strategy = ''canary''
      then (let n = canarySize sensors;
                batches = [js_slice sensors 0 (int n)]
            in if n < length sensors then map_option (\<lambda>bs. batches @ bs) (batch_loop (drop n sensors) MAX_BATCH_SIZE 0 [])
               else Some batches)
      else if strategy = ''rolling'' then batch_loop sensors (min batchSize MAX_BATCH_SIZE) 0 []
      else batch_loop sensors MAX_BATCH_SIZE 0 [])"

section \<open>Database operations\<close>

definition set_progress :: "string set \<Rightarrow> string \<Rightarrow> string option \<Rightarrow> rollout_db \<Rightarrow> rollout_db" where
  "set_progress ids st err db =
     db\<lparr>rd_progress := map (\<lambda>(i, p). (i, if i \<in> ids
          then p\<lparr>pg_status := st, pg_error := (case err of None \<Rightarrow> pg_error p | Some e \<Rightarrow> Some e)\<rparr> else p)) (rd_progress db)\<rparr>"

definition isCancelled :: "rollout_db \<Rightarrow> bool" where
  "isCancelled db \<longleftrightarrow> rd_status db = ''cancelled''"

definition markSensorFailed :: "string \<Rightarrow> string \<Rightarrow> rollout_db \<Rightarrow> rollout_db" where
  "markSensorFailed sid err db = set_progress {sid} ''failed'' (Some err) db"

definition finalizeRollout :: "rollout_db \<Rightarrow> rollout_db" where
  "finalizeRollout db =
     (let progress = jm_values (rd_progress db);
          failedCount = length (filter (\<lambda>p. pg_status p = ''failed'') progress);
          incompleteCount = length (filter (\<lambda>p. pg_status p \<in> {''pending'', ''downloading''}) progress);
          status1 = (if failedCount = length progress then ''failed'' else ''completed'');
          status2 = (if 0 < incompleteCount then ''failed'' else status1)
      in db\<lparr>rd_status := status2\<rparr>)"

definition failRollout :: "rollout_db \<Rightarrow> rollout_db" where
  "failRollout db = db\<lparr>rd_status := ''failed''\<rparr>"

text \<open>External cancellation of the rollout before the next query.\<close>

definition external_cancel :: "bool \<Rightarrow> rollout_db \<Rightarrow> rollout_db" where
  "external_cancel c db = (if c then db\<lparr>rd_status := ''cancelled''\<rparr> else db)"

section \<open>Health monitoring\<close>

record sensor_row =
  sr_version :: "string option"
  sr_connectionState :: string
  sr_lastHeartbeat :: "int option"

text \<open>
  One iteration of the polling loop: the clock at the loop test, a cancellation that happened
  before the query, the rows the query returns, and the clock during the freshness checks.
\<close>

record poll =
  po_now :: int
  po_cancel :: bool
  po_sensors :: "(string, sensor_row) jsmap"
  po_checkedAt :: int

definition sensor_healthy :: "string \<Rightarrow> int \<Rightarrow> sensor_row \<Rightarrow> bool" where
  "sensor_healthy targetVersion now s \<longleftrightarrow>
     sr_version s = Some targetVersion \<and> sr_connectionState s = ''CONNECTED'' \<and>
     (case sr_lastHeartbeat s of None \<Rightarrow> False | Some t \<Rightarrow> now - t < 60000)"

definition mark_deleted :: "string list \<Rightarrow> rollout_db \<Rightarrow> rollout_db" where
  "mark_deleted ids db = fold (\<lambda>i. markSensorFailed i ''Sensor deleted during rollout'') ids db"

text \<open>The effect of one poll on the pending and failed sensors and on the progress rows.\<close>

definition poll_once ::
  "string \<Rightarrow> poll \<Rightarrow> string list \<Rightarrow> string list \<Rightarrow> rollout_db \<Rightarrow> string list \<times> string list \<times> rollout_db" where
  "poll_once targetVersion p pending failed db =
     (let gone = filter (\<lambda>i. jm_get (po_sensors p) i = None) pending;
          ok = filter (\<lambda>i. case jm_get (po_sensors p) i of None \<Rightarrow> False
                 | Some s \<Rightarrow> sensor_healthy targetVersion (po_checkedAt p) s) pending;
          db1 = mark_deleted gone db;
          db2 = (if ok \<noteq> [] then set_progress (set ok) ''activated'' None db1 else db1)
      in (filter (\<lambda>i. i \<notin> set gone \<and> i \<notin> set ok) pending, failed @ gone, db2))"

definition monitor_finish :: "string list \<Rightarrow> string list \<Rightarrow> rollout_db \<Rightarrow> batch_result \<times> rollout_db" where
  "monitor_finish pending failed db =
     (let failed' = failed @ pending;
          db' = (if pending \<noteq> []
                 then set_progress (set pending) ''failed'' (Some ''Update timeout - sensor did not report new version'') db
                 else db)
      in (\<lparr> br_success = (failed' = []), br_failedSensors = failed' \<rparr>, db'))"

text \<open>
  The polling loop over the sequence of polls; \<open>None\<close> when the sequence ends while the loop
  would still continue.
\<close>

fun monitor_loop ::
  "string \<Rightarrow> int \<Rightarrow> poll list \<Rightarrow> string list \<Rightarrow> string list \<Rightarrow> rollout_db \<Rightarrow> (batch_result \<times> rollout_db) option" where
  "monitor_loop v endTime [] pending failed db =
     (if pending = [] then Some (monitor_finish pending failed db) else None)"
| "monitor_loop v endTime (p # ps) pending failed db =
     (if po_now p < endTime \<and> pending \<noteq> []
      then
        (let db1 = external_cancel (po_cancel p) db in
         if isCancelled db1 then Some (\<lparr> br_success = False, br_failedSensors = pending \<rparr>, db1)
         else (case poll_once v p pending failed db1 of
                 (pending', failed', db2) \<Rightarrow> monitor_loop v endTime ps pending' failed' db2))
      else Some (monitor_finish pending failed db))"

definition monitorBatchHealth ::
  "int \<Rightarrow> poll list \<Rightarrow> string list \<Rightarrow> string \<Rightarrow> int \<Rightarrow> rollout_db \<Rightarrow> (batch_result \<times> rollout_db) option" where
  "monitorBatchHealth startTime polls sensors v timeoutSeconds db =
     monitor_loop v (startTime + timeoutSeconds * 1000) polls (rev (remdups (rev sensors))) [] db"

section \<open>Processing a batch\<close>

text \<open>
  Input of a batch: whether the rollout was cancelled, or the database failed, at the check that
  precedes it; the error of each command that could not be sent; the start and the polls of the
  monitoring phase.
\<close>

record batch_input =
  bi_cancelled :: bool
  bi_dbError :: bool
  bi_sendError :: "string \<Rightarrow> string option"
  bi_startTime :: int
  bi_polls :: "poll list"

definition send_update :: "release_info \<Rightarrow> (string \<Rightarrow> string option) \<Rightarrow> string \<Rightarrow> rollout_db \<Rightarrow> rollout_db" where
  "send_update release sendError sid db =
     (let db1 = set_progress {sid} ''downloading'' None db
      in case sendError sid of
           None \<Rightarrow> db1\<lparr>rd_commands := rd_commands db1 @ [(sid, ri_version release)]\<rparr>
         | Some e \<Rightarrow> markSensorFailed sid e db1)"

definition INSTALL_TIMEOUT_BUFFER :: int where
  "INSTALL_TIMEOUT_BUFFER = 60"

text \<open>\<open>commander\<close>: whether a fleet commander is configured; without one sensors succeed at once.\<close>

definition processBatch ::
  "bool \<Rightarrow> release_info \<Rightarrow> batch_input \<Rightarrow> string list \<Rightarrow> int \<Rightarrow> rollout_db \<Rightarrow> (batch_result \<times> rollout_db) option" where
  "processBatch commander release inp batch batchDelaySeconds db =
     (if \<not> commander
      then Some (\<lparr> br_success = True, br_failedSensors = [] \<rparr>,
                 fold (\<lambda>sid d. set_progress {sid} ''activated'' None (set_progress {sid} ''downloading'' None d)) batch db)
      else monitorBatchHealth (bi_startTime inp) (bi_polls inp) batch (ri_version release)
             (max batchDelaySeconds INSTALL_TIMEOUT_BUFFER)
             (fold (send_update release (bi_sendError inp)) batch db))"

section \<open>Executing a rollout\<close>

datatype rollout_exit = Exit_cancelled | Exit_finished | Exit_error

definition MAX_TOTAL_FAILURES :: "'a list \<Rightarrow> nat" where
  "MAX_TOTAL_FAILURES sensors = max 1 (length sensors div 5)"

text \<open>
  The batch loop; \<open>None\<close> when a monitoring phase does not end on its input. The list of results
  records the batches that were processed.
\<close>

fun rollout_loop ::
  "bool \<Rightarrow> release_info \<Rightarrow> int \<Rightarrow> nat \<Rightarrow> (string list \<times> batch_input) list \<Rightarrow> nat \<Rightarrow> rollout_db
     \<Rightarrow> (rollout_exit \<times> batch_result list \<times> rollout_db) option" where
  "rollout_loop cmdr rel delay limit [] totalFailures db = Some (Exit_finished, [], db)"
| "rollout_loop cmdr rel delay limit ((batch, inp) # rest) totalFailures db =
     (let db1 = external_cancel (bi_cancelled inp) db in
      if bi_dbError inp then Some (Exit_error, [], db1)
      else if isCancelled db1 then Some (Exit_cancelled, [], db1)
      else (case processBatch cmdr rel inp batch delay db1 of
              None \<Rightarrow> None
            | Some (res, db2) \<Rightarrow>
                (let total = totalFailures + length (br_failedSensors res) in
                 if limit \<le> total then Some (Exit_finished, [res], db2)
                 else map_option (\<lambda>(ex, ress, db3). (ex, res # ress, db3))
                        (rollout_loop cmdr rel delay limit rest total db2))))"

definition executeRollout ::
  "bool \<Rightarrow> release_info \<Rightarrow> sensor_info list \<Rightarrow> string \<Rightarrow> int \<Rightarrow> int \<Rightarrow> (nat \<Rightarrow> batch_input) \<Rightarrow> rollout_db
     \<Rightarrow> (batch_result list \<times> rollout_db) option" where
  "executeRollout cmdr rel sensors strategy batchSize batchDelay inps db0 =
     (let db = db0\<lparr>rd_status := ''in_progress''\<rparr> in
      case createBatches sensors strategy batchSize of
        None \<Rightarrow> None
      | Some batches \<Rightarrow>
          (case rollout_loop cmdr rel batchDelay (MAX_TOTAL_FAILURES sensors)
                  (map (\<lambda>(k, b). (map si_id b, inps k)) (enumerate 0 batches)) 0 db of
             None \<Rightarrow> None
           | Some (Exit_cancelled, ress, db') \<Rightarrow> Some (ress, db')
           | Some (Exit_finished, ress, db') \<Rightarrow> Some (ress, finalizeRollout db')
           | Some (Exit_error, ress, db') \<Rightarrow> Some (ress, failRollout db')))"

section \<open>Batches partition the fleet\<close>

fun chunks :: "nat \<Rightarrow> 'a list \<Rightarrow> 'a list list" where
  "chunks n xs = (if n = 0 \<or> xs = [] then [] else take n xs # chunks n (drop n xs))"

declare chunks.simps [simp del]

lemma concat_chunks: "0 < n \<Longrightarrow> concat (chunks n xs) = xs"
  by (induction n xs rule: chunks.induct) (subst chunks.simps, simp)

lemma chunks_sizes: "b \<in> set (chunks n xs) \<Longrightarrow> 0 < length b \<and> length b \<le> n"
proof (induction n xs rule: chunks.induct)
  case (1 n xs)
  then show ?case by (subst (asm) (2) chunks.simps) (auto split: if_splits)
qed

lemma batch_loop_chunks:
  "0 < n \<Longrightarrow> batch_loop xs (int n) (int i) acc = Some (acc @ chunks n (drop i xs))"
proof (induction "length xs - i" arbitrary: i acc rule: less_induct)
  case less
  show ?case
  proof (cases "i < length xs")
    case True
    then have "batch_loop xs (int n) (int (i + n)) (acc @ [take n (drop i xs)])
        = Some ((acc @ [take n (drop i xs)]) @ chunks n (drop (i + n) xs))"
      using less by (intro less.hyps) auto
    with True less.prems show ?thesis
      by (subst batch_loop.simps, subst chunks.simps) (simp add: js_slice_nat add.commute)
  next
    case False
    then show ?thesis by (subst batch_loop.simps, subst chunks.simps) simp
  qed
qed

text \<open>With a step that is not positive the loop never ends.\<close>

lemma batch_loop_ends:
  assumes "batch_loop xs step i acc = Some r"
  shows "0 < step \<or> int (length xs) \<le> i"
proof (rule batch_loop.raw_induct [where P = "\<lambda>xs step i acc r. 0 < step \<or> int (length xs) \<le> i", OF _ assms])
  fix f :: "'a list \<Rightarrow> int \<Rightarrow> int \<Rightarrow> 'a list list \<Rightarrow> 'a list list option" and xs step i acc r
  assume IH: "\<And>xs step i acc r. f xs step i acc = Some r \<Longrightarrow> 0 < step \<or> int (length xs) \<le> i"
    and r: "(if i < int (length xs) then f xs step (i + step) (acc @ [js_slice xs i (i + step)]) else Some acc) = Some r"
  show "0 < step \<or> int (length xs) \<le> i"
  proof (cases "i < int (length xs)")
    case True
    with r IH have "0 < step \<or> int (length xs) \<le> i + step" by simp
    with True show ?thesis by linarith
  qed simp
qed

lemma batch_loop_diverges: "step \<le> 0 \<Longrightarrow> i < int (length xs) \<Longrightarrow> batch_loop xs step i acc = None"
  using batch_loop_ends [of xs step i acc] by (cases "batch_loop xs step i acc") auto

text \<open>
  For every strategy and every positive batch size the batches, in order, are exactly the
  fleet: no sensor is left out or updated twice, no batch is larger than 100 sensors except the
  first batch of a canary rollout, which holds a tenth of the fleet (at least one sensor), and
  rolling batches respect the requested size.
\<close>

theorem createBatches_partition:
  assumes "strategy = ''rolling'' \<Longrightarrow> 1 \<le> batchSize"
  shows "\<exists>bs. createBatches sensors strategy batchSize = Some bs \<and> concat bs = sensors
    \<and> (strategy \<noteq> ''canary'' \<longrightarrow> (\<forall>b \<in> set bs. b \<noteq> [] \<and> length b \<le> 100))
    \<and> (strategy = ''canary'' \<longrightarrow> bs \<noteq> [] \<and> hd bs = take (max 1 (length sensors div 10)) sensors
          \<and> (\<forall>b \<in> set (tl bs). b \<noteq> [] \<and> length b \<le> 100))
    \<and> (strategy = ''rolling'' \<longrightarrow> (\<forall>b \<in> set bs. int (length b) \<le> batchSize))"
proof -
  have loop: "batch_loop ys (int n) 0 [] = Some (chunks n ys)" if "0 < n" for n and ys :: "'a list"
    using batch_loop_chunks [OF that, of ys 0 "[]"] by simp
  have hundred: "batch_loop ys MAX_BATCH_SIZE 0 [] = Some (chunks 100 ys)" for ys :: "'a list"
    using loop [of 100 ys] by (simp add: MAX_BATCH_SIZE_def)
  show ?thesis
  proof (cases "strategy = ''rolling''")
    case True
    let ?n = "nat (min batchSize 100)"
    have "0 < ?n" "min batchSize MAX_BATCH_SIZE = int ?n"
      using assms True by (auto simp: MAX_BATCH_SIZE_def)
    moreover have "b \<noteq> [] \<and> length b \<le> 100 \<and> int (length b) \<le> batchSize" if "b \<in> set (chunks ?n sensors)" for b
      using chunks_sizes [OF that] assms True by (auto simp: le_nat_iff)
    ultimately show ?thesis
      using True loop [of ?n sensors] concat_chunks [of ?n sensors]
      by (auto simp: createBatches_def)
  next
    case False
    show ?thesis
    proof (cases "strategy = ''canary''")
      case True
      have first: "js_slice sensors 0 (int n) = take n sensors" for n
        using js_slice_nat [of sensors 0 n] by simp
      let ?n = "max 1 (length sensors div 10)"
      show ?thesis
        using True False hundred [of "drop ?n sensors"] concat_chunks [of 100 "drop ?n sensors"]
          chunks_sizes [of _ 100 "drop ?n sensors"]
        by (auto simp: createBatches_def canarySize_def first Let_def)
    qed (use False hundred [of sensors] concat_chunks [of 100 sensors] chunks_sizes [of _ 100 sensors]
         in \<open>auto simp: createBatches_def\<close>)
  qed
qed

theorem createBatches_partition_witness:
  "\<exists>bs. createBatches [1::nat, 2, 3, 4, 5] ''rolling'' 2 = Some bs \<and> concat bs = [1, 2, 3, 4, 5]"
  using createBatches_partition [of "''rolling''" 2 "[1::nat, 2, 3, 4, 5]"] by auto

text \<open>
  A rolling rollout of a non-empty fleet with a batch size of zero or less never gets past the
  split into batches: the loop does not advance.
\<close>

theorem createBatches_rolling_diverges:
  assumes "batchSize \<le> 0" and "sensors \<noteq> []"
  shows "createBatches sensors ''rolling'' batchSize = None"
  using assms batch_loop_diverges [of "min batchSize MAX_BATCH_SIZE" 0 sensors "[]"]
  by (simp add: createBatches_def)

theorem createBatches_rolling_diverges_witness: "createBatches [1::nat] ''rolling'' 0 = None"
  using createBatches_rolling_diverges [of 0 "[1::nat]"] by simp

section \<open>Health monitoring\<close>

lemma map_of_map_entries: "map_of (map (\<lambda>(i, p). (i, f i p)) m) k = map_option (f k) (map_of m k)"
  by (induction m) auto

definition status_of :: "rollout_db \<Rightarrow> string \<Rightarrow> string option" where
  "status_of db i = map_option pg_status (jm_get (rd_progress db) i)"

lemma status_of_set_progress [simp]:
  "status_of (set_progress ids st err db) i = (if i \<in> ids then map_option (\<lambda>_. st) (status_of db i) else status_of db i)"
  by (simp add: status_of_def set_progress_def map_of_map_entries option.map_comp o_def)

lemma set_progress_frame [simp]:
  "rd_status (set_progress ids st err db) = rd_status db" "rd_commands (set_progress ids st err db) = rd_commands db"
  "map fst (rd_progress (set_progress ids st err db)) = map fst (rd_progress db)"
  by (simp_all add: set_progress_def o_def split_beta)

lemma status_of_mark_deleted:
  "status_of (mark_deleted ids db) i = (if i \<in> set ids then map_option (\<lambda>_. ''failed'') (status_of db i) else status_of db i)"
  by (induction ids arbitrary: db) (auto simp: mark_deleted_def markSensorFailed_def option.map_comp o_def)

lemma mark_deleted_frame [simp]:
  "rd_status (mark_deleted ids db) = rd_status db" "rd_commands (mark_deleted ids db) = rd_commands db"
  unfolding mark_deleted_def by (induction ids arbitrary: db) (simp_all add: markSensorFailed_def)

lemma external_cancel_frame [simp]:
  "status_of (external_cancel c db) = status_of db" "rd_commands (external_cancel c db) = rd_commands db"
  by (simp_all add: external_cancel_def status_of_def fun_eq_iff)

lemma monitor_loop_frame:
  "monitor_loop v e ps pending failed db = Some (res, db') \<Longrightarrow> rd_commands db' = rd_commands db"
proof (induction v e ps pending failed db rule: monitor_loop.induct)
  case (2 v e p ps pending failed db)
  then show ?case
    by (auto simp: Let_def poll_once_def monitor_finish_def split: if_splits)
qed (auto simp: monitor_finish_def Let_def split: if_splits)

text \<open>What a monitoring phase that is not cancelled leaves behind for each pending sensor.\<close>

lemma monitor_loop_outcome:
  assumes "monitor_loop v e ps pending failed db = Some (res, db')" and "\<not> isCancelled db'"
  shows "\<exists>xs. br_failedSensors res = failed @ xs \<and> set xs \<subseteq> set pending
    \<and> (br_success res \<longleftrightarrow> br_failedSensors res = [])
    \<and> (\<forall>i. status_of db' i = (if i \<in> set pending
          then map_option (\<lambda>_. if i \<in> set xs then ''failed'' else ''activated'') (status_of db i)
          else status_of db i))"
  using assms
proof (induction v e ps pending failed db rule: monitor_loop.induct)
  case (1 v e pending failed db)
  then show ?case by (auto simp: monitor_finish_def split: if_splits)
next
  case (2 v e p ps pending failed db)
  show ?case
  proof (cases "po_now p < e \<and> pending \<noteq> []")
    case False
    with 2 have "(res, db') = monitor_finish pending failed db" by auto
    then show ?thesis
      by (intro exI [of _ pending]) (auto simp: monitor_finish_def Let_def)
  next
    case True
    define db1 where "db1 = external_cancel (po_cancel p) db"
    have nc: "\<not> isCancelled db1"
      using 2(2,3) True by (auto simp: Let_def db1_def [symmetric] split: if_splits)
    obtain pending' failed' db2 where po: "poll_once v p pending failed db1 = (pending', failed', db2)"
      by (cases "poll_once v p pending failed db1") auto
    have "monitor_loop v e ps pending' failed' db2 = Some (res, db')"
      using 2(2) True nc po by (simp add: Let_def db1_def)
    from 2(1) [OF True db1_def nc po [symmetric] refl this 2(3)]
    obtain xs where xs: "br_failedSensors res = failed' @ xs" "set xs \<subseteq> set pending'"
      "br_success res \<longleftrightarrow> br_failedSensors res = []"
      "\<And>i. status_of db' i = (if i \<in> set pending'
          then map_option (\<lambda>_. if i \<in> set xs then ''failed'' else ''activated'') (status_of db2 i) else status_of db2 i)"
      by auto
    define gone where "gone = filter (\<lambda>i. jm_get (po_sensors p) i = None) pending"
    define ok where "ok = filter (\<lambda>i. case jm_get (po_sensors p) i of None \<Rightarrow> False
                 | Some s \<Rightarrow> sensor_healthy v (po_checkedAt p) s) pending"
    have disj: "i \<notin> set ok" if "i \<in> set gone" for i using that by (auto simp: gone_def ok_def)
    have p': "pending' = filter (\<lambda>i. i \<notin> set gone \<and> i \<notin> set ok) pending" "failed' = failed @ gone"
      "\<And>i. status_of db2 i = (if i \<in> set ok then map_option (\<lambda>_. ''activated'') (status_of db i)
          else if i \<in> set gone then map_option (\<lambda>_. ''failed'') (status_of db i) else status_of db i)"
      using po unfolding poll_once_def Let_def gone_def [symmetric] ok_def [symmetric]
      by (auto simp: status_of_mark_deleted db1_def option.map_comp o_def)
    have sub: "set gone \<subseteq> set pending" "set ok \<subseteq> set pending" by (auto simp: gone_def ok_def)
    show ?thesis
      using xs p' sub disj
      by (intro exI [of _ "gone @ xs"]) (auto simp: option.map_comp o_def)
  qed
qed

text \<open>
  Unless the rollout is cancelled, a monitoring phase settles every sensor of the batch: the
  sensors it reports as failed are marked failed, all other sensors of the batch are marked
  activated, no other sensor's progress changes, and it reports success exactly when nothing
  failed.
\<close>

theorem monitorBatchHealth_settles_batch:
  assumes "monitorBatchHealth t polls sensors v timeout db = Some (res, db')" and "\<not> isCancelled db'"
  shows "set (br_failedSensors res) \<subseteq> set sensors \<and> (br_success res \<longleftrightarrow> br_failedSensors res = [])
    \<and> (\<forall>i. status_of db' i = (if i \<in> set sensors
          then map_option (\<lambda>_. if i \<in> set (br_failedSensors res) then ''failed'' else ''activated'') (status_of db i)
          else status_of db i))"
  using monitor_loop_outcome [OF assms(1) [unfolded monitorBatchHealth_def] assms(2)] by auto

definition sample_db :: rollout_db where
  "sample_db = \<lparr> rd_status = ''in_progress'',
     rd_progress = [(''a'', \<lparr> pg_status = ''downloading'', pg_error = None \<rparr>),
                    (''b'', \<lparr> pg_status = ''downloading'', pg_error = None \<rparr>)], rd_commands = [] \<rparr>"

definition sample_row :: sensor_row where
  "sample_row = \<lparr> sr_version = Some ''2.0'', sr_connectionState = ''CONNECTED'', sr_lastHeartbeat = Some 990 \<rparr>"

definition sample_polls :: "poll list" where
  "sample_polls =
     [\<lparr> po_now = 1000, po_cancel = False, po_sensors = [(''a'', sample_row)], po_checkedAt = 1000 \<rparr>]"

lemmas rollout_eval =
  sample_db_def sample_row_def sample_polls_def monitorBatchHealth_def external_cancel_def isCancelled_def
  poll_once_def sensor_healthy_def mark_deleted_def markSensorFailed_def set_progress_def monitor_finish_def
  status_of_def Let_def

lemma sample_monitor:
  "monitorBatchHealth 0 sample_polls [''a'', ''b''] ''2.0'' 60 sample_db =
     Some (\<lparr> br_success = False, br_failedSensors = [''b''] \<rparr>,
       \<lparr> rd_status = ''in_progress'',
         rd_progress = [(''a'', \<lparr> pg_status = ''activated'', pg_error = None \<rparr>),
                        (''b'', \<lparr> pg_status = ''failed'', pg_error = Some ''Sensor deleted during rollout'' \<rparr>)],
         rd_commands = [] \<rparr>)"
  by (simp add: rollout_eval)

theorem monitorBatchHealth_settles_batch_witness:
  "\<exists>res db'. monitorBatchHealth 0 sample_polls [''a'', ''b''] ''2.0'' 60 sample_db = Some (res, db') \<and>
     status_of db' ''a'' = Some ''activated'' \<and> status_of db' ''b'' = Some ''failed''"
proof -
  note m = sample_monitor
  have "\<not> isCancelled \<lparr> rd_status = ''in_progress'',
         rd_progress = [(''a'', \<lparr> pg_status = ''activated'', pg_error = None \<rparr>),
                        (''b'', \<lparr> pg_status = ''failed'', pg_error = Some ''Sensor deleted during rollout'' \<rparr>)],
         rd_commands = [] \<rparr>"
    by (simp add: isCancelled_def)
  from monitorBatchHealth_settles_batch [OF m this] m show ?thesis
    by (simp add: status_of_def)
qed

lemma monitor_loop_terminates:
  assumes "\<forall>k < length ps. base + 5000 * int k \<le> po_now (ps ! k)" and "ps \<noteq> []"
    and "e \<le> base + 5000 * (int (length ps) - 1)"
  shows "monitor_loop v e ps pending failed db \<noteq> None"
  using assms
proof (induction v e ps pending failed db arbitrary: base rule: monitor_loop.induct)
  case (2 v e p ps pending failed db)
  show ?case
  proof (cases "po_now p < e \<and> pending \<noteq> []")
    case True
    have "base \<le> po_now p" using 2(2) by force
    with True 2(4) have ps: "ps \<noteq> []" by auto
    have step: "\<forall>k < length ps. base + 5000 + 5000 * int k \<le> po_now (ps ! k)"
    proof (intro allI impI)
      fix k assume "k < length ps"
      with 2(2) [rule_format, of "Suc k"] show "base + 5000 + 5000 * int k \<le> po_now (ps ! k)" by simp
    qed
    have bound: "e \<le> base + 5000 + 5000 * (int (length ps) - 1)" using 2(4) by simp
    show ?thesis
    proof (cases "isCancelled (external_cancel (po_cancel p) db)")
      case False
      obtain pending' failed' db2 where po: "poll_once v p pending failed (external_cancel (po_cancel p) db) = (pending', failed', db2)"
        by (cases "poll_once v p pending failed (external_cancel (po_cancel p) db)") auto
      from 2(1) [OF True refl False po [symmetric] refl step ps bound] True False po
      show ?thesis by (simp add: Let_def)
    qed (simp add: True Let_def)
  qed auto
qed simp

text \<open>
  Monitoring ends: since the loop polls at most every five seconds, it has returned after at
  most one poll per five seconds of its timeout, whatever the polls observe.
\<close>

theorem monitorBatchHealth_terminates:
  assumes "\<forall>k < length polls. t + 5000 * int k \<le> po_now (polls ! k)"
    and "polls \<noteq> []" and "timeoutSeconds * 1000 \<le> 5000 * (int (length polls) - 1)"
  shows "\<exists>res db'. monitorBatchHealth t polls sensors v timeoutSeconds db = Some (res, db')"
  using monitor_loop_terminates [OF assms(1,2), of "t + timeoutSeconds * 1000"] assms(3)
  by (fastforce simp: monitorBatchHealth_def)

definition idle_poll :: "nat \<Rightarrow> poll" where
  "idle_poll k = \<lparr> po_now = 5000 * int k, po_cancel = False, po_sensors = [], po_checkedAt = 0 \<rparr>"

theorem monitorBatchHealth_terminates_witness:
  "\<exists>res db'. monitorBatchHealth 0 (map idle_poll [0..<13]) [''a''] ''2.0'' 60 sample_db = Some (res, db')"
proof -
  have "\<forall>k < length (map idle_poll [0..<13]). 0 + 5000 * int k \<le> po_now (map idle_poll [0..<13] ! k)"
    by (simp add: idle_poll_def)
  from monitorBatchHealth_terminates [OF this] show ?thesis by simp
qed

section \<open>The batch loop\<close>

lemma processBatch_commands:
  assumes "processBatch cmdr rel inp batch delay db = Some (res, db')"
  shows "fst ` set (rd_commands db') \<subseteq> fst ` set (rd_commands db) \<union> set batch"
proof -
  have quiet: "rd_commands (fold (\<lambda>sid d. set_progress {sid} ''activated'' None (set_progress {sid} ''downloading'' None d)) xs d)
      = rd_commands d" for xs d
    by (induction xs arbitrary: d) simp_all
  have send: "fst ` set (rd_commands (fold (send_update rel f) xs d)) \<subseteq> fst ` set (rd_commands d) \<union> set xs" for f xs d
  proof (induction xs arbitrary: d)
    case (Cons x xs)
    have "fst ` set (rd_commands (send_update rel f x d)) \<subseteq> insert x (fst ` set (rd_commands d))"
      by (auto simp: send_update_def Let_def markSensorFailed_def split: option.split)
    with Cons [of "send_update rel f x d"] show ?case by auto
  qed simp
  show ?thesis
  proof (cases cmdr)
    case True
    with assms have "rd_commands db' = rd_commands (fold (send_update rel (bi_sendError inp)) batch db)"
      by (auto simp: processBatch_def monitorBatchHealth_def dest!: monitor_loop_frame)
    with send show ?thesis by metis
  next
    case False
    with assms quiet show ?thesis by (auto simp: processBatch_def)
  qed
qed

definition failures :: "batch_result list \<Rightarrow> nat" where
  "failures rs = sum_list (map (\<lambda>r. length (br_failedSensors r)) rs)"

lemma rollout_loop_prefix:
  assumes "rollout_loop cmdr rel delay limit bs tf db = Some (ex, ress, db')"
  shows "length ress \<le> length bs
    \<and> (\<forall>k < length ress. 0 < k \<longrightarrow> tf + failures (take k ress) < limit)
    \<and> fst ` set (rd_commands db') \<subseteq> fst ` set (rd_commands db) \<union> set (concat (map fst (take (length ress) bs)))"
  using assms
proof (induction cmdr rel delay limit bs tf db arbitrary: ress rule: rollout_loop.induct)
  case (2 cmdr rel delay limit batch inp rest tf db)
  define db1 where "db1 = external_cancel (bi_cancelled inp) db"
  show ?case
  proof (cases "bi_dbError inp \<or> isCancelled db1")
    case True
    with 2(2) show ?thesis by (auto simp: Let_def db1_def split: if_splits)
  next
    case False
    obtain res db2 where pb: "processBatch cmdr rel inp batch delay db1 = Some (res, db2)"
      using 2(2) False by (auto simp: Let_def db1_def split: option.splits)
    have cmds: "fst ` set (rd_commands db2) \<subseteq> fst ` set (rd_commands db) \<union> set batch"
      using processBatch_commands [OF pb] by (simp add: db1_def)
    define n where "n = tf + length (br_failedSensors res)"
    show ?thesis
    proof (cases "limit \<le> n")
      case True
      with 2(2) False pb cmds show ?thesis by (auto simp: Let_def db1_def n_def)
    next
      case nolimit: False
      obtain ress' where r: "rollout_loop cmdr rel delay limit rest n db2 = Some (ex, ress', db')" "ress = res # ress'"
        using 2(2) False pb nolimit by (auto simp: Let_def db1_def n_def)
      from 2(1) [of db1 "(res, db2)" res db2 n ress'] False pb nolimit r(1)
      have IH: "length ress' \<le> length rest" "\<And>k. k < length ress' \<Longrightarrow> 0 < k \<Longrightarrow> n + failures (take k ress') < limit"
        "fst ` set (rd_commands db') \<subseteq> fst ` set (rd_commands db2) \<union> set (concat (map fst (take (length ress') rest)))"
        by (auto simp: db1_def n_def)
      have "tf + failures (take k ress) < limit" if "k < length ress" "0 < k" for k
      proof (cases k)
        case (Suc m)
        with that r IH(2) [of m] nolimit show ?thesis
          by (cases "m = 0") (auto simp: failures_def n_def)
      qed (use that in simp)
      moreover have "fst ` set (rd_commands db') \<subseteq> fst ` set (rd_commands db) \<union> set (concat (map fst (take (length ress) ((batch, inp) # rest))))"
        using IH(3) cmds r(2) by auto
      ultimately show ?thesis using IH(1) r(2) by simp
    qed
  qed
qed (auto simp: failures_def)

text \<open>
  C16: The failure threshold stops a rollout: before each batch after the first, fewer sensors have
  failed than the limit (a fifth of the fleet, at least one), and only sensors of batches that
  were processed ever receive a command. So once the limit is reached no further sensor is
  updated.
\<close>

theorem executeRollout_stops_at_threshold:
  assumes "createBatches sensors strategy batchSize = Some batches"
    and "executeRollout cmdr rel sensors strategy batchSize delay inps db = Some (ress, db')"
  shows "(\<forall>k < length ress. 0 < k \<longrightarrow> failures (take k ress) < MAX_TOTAL_FAILURES sensors)
    \<and> fst ` set (rd_commands db') \<subseteq> fst ` set (rd_commands db) \<union> si_id ` set (concat (take (length ress) batches))"
proof -
  let ?bs = "map (\<lambda>(k, b). (map si_id b, inps k)) (enumerate 0 batches)"
  have "map fst ?bs = map (map si_id) (map snd (enumerate 0 batches))"
    by (simp only: map_map o_def split_beta fst_conv)
  then have "map fst (take n ?bs) = map (map si_id) (take n batches)" for n
    by (simp add: take_map [symmetric])
  then have ids: "set (concat (map fst (take n ?bs))) = si_id ` set (concat (take n batches))" for n
    by (simp add: image_UN)
  from assms obtain ex db2 where r: "rollout_loop cmdr rel delay (MAX_TOTAL_FAILURES sensors) ?bs 0
      (db\<lparr>rd_status := ''in_progress''\<rparr>) = Some (ex, ress, db2)" "rd_commands db' = rd_commands db2"
    by (auto simp: executeRollout_def Let_def finalizeRollout_def failRollout_def
        split: option.splits prod.splits rollout_exit.splits)
  from rollout_loop_prefix [OF r(1)] show ?thesis
    unfolding ids r(2) by simp
qed

definition sample_release :: release_info where
  "sample_release = \<lparr> ri_id = ''r'', ri_version = ''2.0'', ri_binaryUrl = '''', ri_sha256 = '''', ri_size = 1, ri_changelog = '''' \<rparr>"

definition sample_fleet :: "sensor_info list" where
  "sample_fleet = [\<lparr> si_id = ''a'', si_name = ''a'', si_version = None \<rparr>,
                   \<lparr> si_id = ''b'', si_name = ''b'', si_version = None \<rparr>]"

definition gone_input :: "nat \<Rightarrow> batch_input" where
  "gone_input k = \<lparr> bi_cancelled = False, bi_dbError = False, bi_sendError = (\<lambda>_. None), bi_startTime = 0,
     bi_polls = [\<lparr> po_now = 0, po_cancel = False, po_sensors = [], po_checkedAt = 0 \<rparr>] \<rparr>"

lemma sample_rolling: "createBatches sample_fleet ''rolling'' 1 = Some [[hd sample_fleet], [last sample_fleet]]"
proof -
  have "createBatches sample_fleet ''rolling'' 1 = Some (chunks 1 sample_fleet)"
    using batch_loop_chunks [of 1 sample_fleet 0 "[]"] by (simp add: createBatches_def MAX_BATCH_SIZE_def)
  then show ?thesis by (simp add: sample_fleet_def chunks.simps)
qed

lemma sample_execute:
  "\<exists>res db'. executeRollout True sample_release sample_fleet ''rolling'' 1 0 gone_input sample_db = Some ([res], db')"
  by (simp add: executeRollout_def sample_rolling)
    (simp add: sample_fleet_def MAX_TOTAL_FAILURES_def processBatch_def gone_input_def send_update_def rollout_eval INSTALL_TIMEOUT_BUFFER_def)

theorem executeRollout_stops_at_threshold_witness:
  "\<exists>ress db'. executeRollout True sample_release sample_fleet ''rolling'' 1 0 gone_input sample_db = Some (ress, db') \<and>
     fst ` set (rd_commands db') \<subseteq> {''a''}"
proof -
  obtain res db' where r: "executeRollout True sample_release sample_fleet ''rolling'' 1 0 gone_input sample_db = Some ([res], db')"
    using sample_execute by blast
  from executeRollout_stops_at_threshold [OF sample_rolling r] r show ?thesis
    by (auto simp: sample_fleet_def sample_db_def)
qed

text \<open>The operator cancels while the only batch is being monitored.\<close>

definition cancel_input :: "nat \<Rightarrow> batch_input" where
  "cancel_input k = \<lparr> bi_cancelled = False, bi_dbError = False, bi_sendError = (\<lambda>_. None), bi_startTime = 0,
     bi_polls = [\<lparr> po_now = 0, po_cancel = True, po_sensors = [], po_checkedAt = 0 \<rparr>] \<rparr>"

lemma sample_immediate: "createBatches sample_fleet ''immediate'' 1 = Some [sample_fleet]"
  using batch_loop_chunks [of 100 sample_fleet 0 "[]"]
  by (simp add: createBatches_def MAX_BATCH_SIZE_def) (simp add: sample_fleet_def chunks.simps)

text \<open>
  A rollout cancelled while its last batch is monitored does not stay cancelled: the monitor
  notices the cancellation and returns, and then the final status update overwrites it with
  \<^verbatim>\<open>failed\<close>.
\<close>

theorem executeRollout_overwrites_cancellation:
  "map_option (\<lambda>(ress, db). rd_status db)
     (executeRollout True sample_release sample_fleet ''immediate'' 1 0 cancel_input sample_db) = Some ''failed''"
  by (simp add: executeRollout_def sample_immediate)
    (simp add: sample_fleet_def MAX_TOTAL_FAILURES_def processBatch_def cancel_input_def send_update_def rollout_eval
      INSTALL_TIMEOUT_BUFFER_def finalizeRollout_def)

end
