(* ===== verification/Scopes.thy ===== *)
theory Scopes
  imports Js_Text
begin

text \<open>
  The scope registry (\<^verbatim>\<open>api/src/api/middleware/scopes.ts\<close>): the scopes with their descriptions, the
  scopes of the user roles, the backward-compatible aliases, the recursive expansion of a set of
  scopes with its cycle and depth guards, and the membership check used by the authorisation
  middleware. JavaScript sets are lists without duplicates in insertion order.
\<close>

section \<open>Registry\<close>

definition MAX_ALIAS_DEPTH :: nat where
  "MAX_ALIAS_DEPTH = 10"

definition SCOPES :: "(string, string) jsmap" where
  "SCOPES =
     [(''hunt:read'', ''View signal timeline and saved queries''),
      (''hunt:write'', ''Create and modify saved queries''),
      (''hunt:execute'', ''Execute saved queries''),
      (''hunt:export'', ''Export hunt results''),
      (''analytics:read'', ''View analytics dashboards''),
      (''analytics:health'', ''View system health metrics''),
      (''tunnel:read'', ''View tunnel status and sessions''),
      (''tunnel:shell'', ''Open shell sessions to sensors''),
      (''tunnel:dashboard'', ''Open dashboard proxy sessions''),
      (''tunnel:manage'', ''Manage tunnel sessions''),
      (''playbook:read'', ''View playbooks''),
      (''playbook:create'', ''Create new playbooks''),
      (''playbook:update'', ''Modify existing playbooks''),
      (''playbook:execute'', ''Execute playbooks''),
      (''playbook:delete'', ''Delete playbooks''),
      (''warroom:read'', ''View war rooms''),
      (''warroom:create'', ''Create war rooms''),
      (''warroom:update'', ''Modify war room settings''),
      (''warroom:manage'', ''Manage membership and blocks''),
      (''warroom:execute'', ''Execute actions''),
      (''threats:read'', ''View threat data''),
      (''threats:feedback'', ''Provide threat feedback''),
      (''campaigns:read'', ''View campaigns''),
      (''campaigns:update'', ''Modify campaigns''),
      (''credentials:read'', ''View API keys''),
      (''credentials:manage'', ''Create/rotate/revoke credentials''),
      (''audit:read'', ''View audit logs''),
      (''sensor:read'', ''View sensor data and status''),
      (''sensor:control'', ''Control sensor operations''),
      (''fleet:read'', ''Read fleet data''),
      (''fleet:write'', ''Modify fleet configuration''),
      (''fleet:admin'', ''Full fleet administrative access''),
      (''dashboard:read'', ''Read dashboard data''),
      (''dashboard:write'', ''Modify dashboard settings''),
      (''config:read'', ''Read configuration''),
      (''config:write'', ''Modify configuration''),
      (''rules:read'', ''View WAF rules''),
      (''rules:write'', ''Modify WAF rules''),
      (''signal:read'', ''Read signals''),
      (''signal:write'', ''Write signals''),
      (''command:execute'', ''Execute fleet commands''),
      (''users:manage'', ''Manage tenant members and roles'')]"

definition VIEWER_SCOPES :: "string list" where
  "VIEWER_SCOPES =
     [''analytics:read'', ''analytics:health'', ''threats:read'', ''warroom:read'',
      ''hunt:read'', ''playbook:read'', ''campaigns:read'', ''audit:read'',
      ''sensor:read'', ''fleet:read'', ''config:read'', ''rules:read'',
      ''signal:read'']"

definition OPERATOR_SCOPES :: "string list" where
  "OPERATOR_SCOPES =
     [''analytics:read'', ''analytics:health'', ''threats:read'', ''warroom:read'',
      ''hunt:read'', ''playbook:read'', ''campaigns:read'', ''audit:read'',
      ''sensor:read'', ''fleet:read'', ''config:read'', ''rules:read'',
      ''signal:read'', ''warroom:create'', ''warroom:update'', ''warroom:execute'',
      ''playbook:create'', ''playbook:update'', ''playbook:execute'', ''threats:feedback'',
      ''hunt:write'', ''hunt:execute'', ''sensor:control'', ''fleet:write'',
      ''config:write'', ''rules:write'', ''command:execute'', ''signal:write'']"

definition ADMIN_SCOPES :: "string list" where
  "ADMIN_SCOPES =
     [''analytics:read'', ''analytics:health'', ''threats:read'', ''warroom:read'',
      ''hunt:read'', ''playbook:read'', ''campaigns:read'', ''audit:read'',
      ''sensor:read'', ''fleet:read'', ''config:read'', ''rules:read'',
      ''signal:read'', ''warroom:create'', ''warroom:update'', ''warroom:execute'',
      ''playbook:create'', ''playbook:update'', ''playbook:execute'', ''threats:feedback'',
      ''hunt:write'', ''hunt:execute'', ''sensor:control'', ''fleet:write'',
      ''config:write'', ''rules:write'', ''command:execute'', ''signal:write'',
      ''warroom:manage'', ''playbook:delete'', ''hunt:export'', ''credentials:manage'',
      ''fleet:admin'', ''users:manage'']"

definition SUPER_ADMIN_SCOPES :: "string list" where
  "SUPER_ADMIN_SCOPES =
     [''*'']"

definition ROLE_SCOPES :: "(string, string list) jsmap" where
  "ROLE_SCOPES =
     [(''VIEWER'', VIEWER_SCOPES), (''OPERATOR'', OPERATOR_SCOPES), (''ADMIN'', ADMIN_SCOPES),
      (''SUPER_ADMIN'', SUPER_ADMIN_SCOPES)]"

definition SCOPE_ALIASES :: "(string, string list) jsmap" where
  "SCOPE_ALIASES =
     [(''dashboard:read'',
       [''analytics:read'', ''analytics:health'', ''threats:read'', ''warroom:read'',
        ''hunt:read'', ''playbook:read'', ''campaigns:read'']),
      (''dashboard:write'',
       [''warroom:create'', ''warroom:update'', ''playbook:create'', ''playbook:execute'',
        ''threats:feedback'', ''hunt:write'', ''hunt:execute'']),
      (''fleet:read'',
       [''tunnel:read'', ''credentials:read'', ''sensor:read'']),
      (''fleet:write'',
       [''tunnel:manage'', ''credentials:manage'', ''sensor:control'']),
      (''fleet:admin'',
       [''tunnel:shell'', ''tunnel:dashboard'', ''audit:read'', ''playbook:delete'',
        ''hunt:export'', ''warroom:manage'', ''warroom:execute'']),
      (''signal:read'',
       [''hunt:read'']),
      (''signal:write'',
       [''hunt:write'', ''hunt:execute''])]"

section \<open>Expansion\<close>

definition set_add :: "'a \<Rightarrow> 'a list \<Rightarrow> 'a list" where
  "set_add x xs = (if x \<in> set xs then xs else xs @ [x])"

text \<open>
  \<^verbatim>\<open>expandRecursive\<close> over the pair of sets \<^verbatim>\<open>expanded\<close> and \<^verbatim>\<open>visited\<close>, and its loop over the aliases
  of a scope. The alias table is an argument.
\<close>

function expandRecursive ::
    "(string, string list) jsmap \<Rightarrow> string \<Rightarrow> nat \<Rightarrow> string list \<times> string list \<Rightarrow> string list \<times> string list"
  and expandAliases ::
    "(string, string list) jsmap \<Rightarrow> string list \<Rightarrow> nat \<Rightarrow> string list \<times> string list \<Rightarrow> string list \<times> string list"
where
  "expandRecursive al scope depth (expanded, visited) =
     (if scope \<in> set visited \<or> MAX_ALIAS_DEPTH < depth then (expanded, visited)
      else
        (let visited' = set_add scope visited in
         case jm_get al scope of
           None \<Rightarrow> (expanded, visited')
         | Some aliases \<Rightarrow> expandAliases al aliases (Suc depth) (expanded, visited')))"
| "expandAliases al [] depth st = st"
| "expandAliases al (a # as) depth (expanded, visited) =
     expandAliases al as depth (expandRecursive al a depth (set_add a expanded, visited))"
  by pat_completeness auto

termination
  by (relation "measures [\<lambda>x. case x of Inl (al, scope, depth, st) \<Rightarrow> MAX_ALIAS_DEPTH + 2 - depth
                              | Inr (al, as, depth, st) \<Rightarrow> MAX_ALIAS_DEPTH + 2 - depth,
                          \<lambda>x. case x of Inl _ \<Rightarrow> 0 | Inr (al, as, depth, st) \<Rightarrow> Suc (length as)]") auto

declare expandRecursive.simps [simp del]

definition expandScopes_in :: "(string, string list) jsmap \<Rightarrow> string list \<Rightarrow> string list" where
  "expandScopes_in al scopes =
     fst (fold (\<lambda>scope st. expandRecursive al scope 0 st) scopes (fold set_add scopes [], []))"

definition expandScopes :: "string list \<Rightarrow> string list" where
  "expandScopes scopes = expandScopes_in SCOPE_ALIASES scopes"

definition hasScope :: "string list \<Rightarrow> string \<Rightarrow> bool" where
  "hasScope userScopes requiredScope \<longleftrightarrow>
     ''*'' \<in> set userScopes \<or> requiredScope \<in> set userScopes \<or>
     list_ex (\<lambda>u. case jm_get SCOPE_ALIASES u of None \<Rightarrow> False | Some as \<Rightarrow> requiredScope \<in> set as) userScopes"

section \<open>The guards never cut the expansion short\<close>

definition aliases_of :: "(string, string list) jsmap \<Rightarrow> string \<Rightarrow> string set" where
  "aliases_of al s = (case jm_get al s of None \<Rightarrow> {} | Some as \<Rightarrow> set as)"

text \<open>No alias stands for a scope that is itself expanded further.\<close>

definition flat_aliases :: "(string, string list) jsmap \<Rightarrow> bool" where
  "flat_aliases al \<longleftrightarrow> list_all (\<lambda>as. list_all (\<lambda>a. \<not> jm_has al a) as) (jm_values al)"

lemma set_set_add [simp]: "set (set_add x xs) = insert x (set xs)"
  by (auto simp: set_add_def)

lemma set_fold_set_add: "set (fold set_add xs ys) = set xs \<union> set ys"
  by (induction xs arbitrary: ys) auto

lemma flat_aliasesD: "flat_aliases al \<Longrightarrow> jm_get al s = Some as \<Longrightarrow> a \<in> set as \<Longrightarrow> jm_get al a = None"
  using jm_get_in_set [of al s as] by (fastforce simp: flat_aliases_def list_all_iff jm_has_get)

lemma expandAliases_flat:
  assumes "\<forall>a \<in> set as. jm_get al a = None" and "depth \<le> MAX_ALIAS_DEPTH"
    and "expandAliases al as depth (E, V) = (E', V')"
  shows "set E' = set E \<union> set as \<and> set V' = set V \<union> set as"
  using assms
proof (induction as arbitrary: E V)
  case (Cons a as)
  from Cons.prems have "expandAliases al as depth
      (set_add a E, if a \<in> set V then V else set_add a V) = (E', V')"
    by (cases "a \<in> set V") (simp_all add: Let_def expandRecursive.simps)
  with Cons.IH Cons.prems show ?case by (cases "a \<in> set V") auto
qed simp

lemma expandRecursive_flat:
  assumes "flat_aliases al" and "expandRecursive al s 0 (E, V) = (E', V')"
  shows "set E' = set E \<union> (if s \<in> set V then {} else aliases_of al s) \<and>
         set V' = set V \<union> {s} \<union> (if s \<in> set V then {} else aliases_of al s)"
proof (cases "s \<in> set V")
  case True
  with assms show ?thesis by (auto simp: expandRecursive.simps)
next
  case new: False
  show ?thesis
  proof (cases "jm_get al s")
    case None
    with assms new show ?thesis by (auto simp: aliases_of_def Let_def expandRecursive.simps)
  next
    case (Some as)
    with assms new have "expandAliases al as 1 (E, set_add s V) = (E', V')" by (simp add: Let_def expandRecursive.simps)
    with flat_aliasesD [OF assms(1) Some] have "set E' = set E \<union> set as \<and> set V' = set (set_add s V) \<union> set as"
      by (intro expandAliases_flat) (auto simp: MAX_ALIAS_DEPTH_def)
    with new Some show ?thesis by (auto simp: aliases_of_def)
  qed
qed

lemma expandScopes_flat:
  assumes flat: "flat_aliases al"
  shows "set (expandScopes_in al scopes) = set scopes \<union> (\<Union>s \<in> set scopes. aliases_of al s)"
proof -
  have "set (fst (fold (\<lambda>scope st. expandRecursive al scope 0 st) ss (E, V))) = set E \<union> (\<Union>s \<in> set ss. aliases_of al s)"
    if "\<forall>v \<in> set V. aliases_of al v \<subseteq> set E" for ss E V
    using that
  proof (induction ss arbitrary: E V)
    case (Cons s ss)
    obtain E' V' where r: "expandRecursive al s 0 (E, V) = (E', V')" by (cases "expandRecursive al s 0 (E, V)")
    note eff = expandRecursive_flat [OF flat r]
    have sub: "aliases_of al x = {}" if "x \<in> aliases_of al s" for x
      using that flat_aliasesD [OF flat] by (auto simp: aliases_of_def split: option.splits)
    then have "\<forall>v \<in> set V'. aliases_of al v \<subseteq> set E'"
      using Cons.prems eff by (auto split: if_splits)
    with Cons.IH Cons.prems eff r show ?case by (auto split: if_splits)
  qed simp
  then show ?thesis by (simp add: expandScopes_in_def set_fold_set_add)
qed

lemma SCOPE_ALIASES_flat: "flat_aliases SCOPE_ALIASES"
  by code_simp

section \<open>Properties\<close>

text \<open>
  The two authorisation checks agree: a scope is granted by \<^verbatim>\<open>hasScope\<close> exactly when the caller
  has the wildcard or the scope is in the recursive expansion of the caller's scopes; the cycle and
  depth guards of the expansion never cut anything off.
\<close>

theorem hasScope_iff_expandScopes:
  "hasScope userScopes requiredScope \<longleftrightarrow>
     ''*'' \<in> set userScopes \<or> requiredScope \<in> set (expandScopes userScopes)"
  using expandScopes_flat [OF SCOPE_ALIASES_flat, of userScopes]
  by (auto simp: hasScope_def expandScopes_def aliases_of_def list_ex_iff split: option.splits)

lemma hasScope_mono: "set us \<subseteq> set vs \<Longrightarrow> hasScope us r \<Longrightarrow> hasScope vs r"
  by (auto simp: hasScope_def list_ex_iff)

text \<open>
  The roles are ordered: whatever scope a viewer is granted, directly or through an alias, an
  operator is granted too, an administrator is granted everything an operator is, and a super
  administrator everything.
\<close>

theorem roles_are_ordered:
  "(hasScope VIEWER_SCOPES r \<longrightarrow> hasScope OPERATOR_SCOPES r)
   \<and> (hasScope OPERATOR_SCOPES r \<longrightarrow> hasScope ADMIN_SCOPES r) \<and> hasScope SUPER_ADMIN_SCOPES r"
proof -
  have "list_all (\<lambda>s. s \<in> set OPERATOR_SCOPES) VIEWER_SCOPES" "list_all (\<lambda>s. s \<in> set ADMIN_SCOPES) OPERATOR_SCOPES"
    by code_simp+
  then have "set VIEWER_SCOPES \<subseteq> set OPERATOR_SCOPES" "set OPERATOR_SCOPES \<subseteq> set ADMIN_SCOPES"
    by (auto simp: list_all_iff)
  then show ?thesis using hasScope_mono by (auto simp: hasScope_def SUPER_ADMIN_SCOPES_def)
qed

lemma viewer_hunt: "hasScope VIEWER_SCOPES ''hunt:read''"
  by code_simp

theorem roles_are_ordered_witness: "hasScope OPERATOR_SCOPES ''hunt:read''"
  using roles_are_ordered [of "''hunt:read''"] viewer_hunt by simp

text \<open>
  An operator may manage credentials: \<^verbatim>\<open>fleet:write\<close> is an alias for \<^verbatim>\<open>credentials:manage\<close>, a
  scope that the role table lists for administrators only, while the comment on the alias mentions
  tunnel management alone.
\<close>

theorem operator_can_manage_credentials:
  "hasScope OPERATOR_SCOPES ''credentials:manage'' \<and> ''credentials:manage'' \<notin> set OPERATOR_SCOPES
   \<and> \<not> hasScope VIEWER_SCOPES ''credentials:manage''"
  by code_simp

end
