(* ===== verification/Json_Depth.thy ===== *)
theory Json_Depth
  imports Js_Text
begin

text \<open>
  The nesting limit for request bodies (\<^verbatim>\<open>api/src/middleware/json-depth.ts\<close>): the iterative
  traversal with an explicit stack and a circuit breaker, and the middleware built on it. A parsed
  body is a JSON value.
\<close>

section \<open>Values\<close>

datatype json = JNull | JBool bool | JNum rat | JStr string | JArr "json list" | JObj "(string \<times> json) list"

text \<open>\<^verbatim>\<open>typeof value === 'object' && value !== null\<close>.\<close>

fun is_object :: "json \<Rightarrow> bool" where
  "is_object (JArr xs) = True"
| "is_object (JObj ps) = True"
| "is_object v = False"

fun children :: "json \<Rightarrow> json list" where
  "children (JArr xs) = xs"
| "children (JObj ps) = map snd ps"
| "children v = []"

section \<open>Traversal\<close>

definition DEFAULT_MAX_DEPTH :: nat where
  "DEFAULT_MAX_DEPTH = 20"

definition CIRCUIT_BREAKER_DEPTH :: nat where
  "CIRCUIT_BREAKER_DEPTH = 100"

lemma child_size: "c \<in> set (children v) \<Longrightarrow> size c < size v"
proof (cases v)
  case (JArr xs)
  then show "c \<in> set (children v) \<Longrightarrow> size c < size v"
    by (simp add: less_Suc_eq_le size_list_estimation')
next
  case (JObj ps)
  assume "c \<in> set (children v)"
  with JObj obtain k where "(k, c) \<in> set ps" by auto
  with JObj show ?thesis
    by (simp add: less_Suc_eq_le) (rule size_list_estimation' [of "(k, c)"]; simp)
qed simp_all

function jnodes :: "json \<Rightarrow> nat" where
  "jnodes v = Suc (sum_list (map jnodes (children v)))"
  by auto
termination by (relation "measure size") (auto dest: child_size)

declare jnodes.simps [simp del]

lemma jnodes_filter: "sum_list (map jnodes (filter P xs)) \<le> sum_list (map jnodes xs)"
  by (induction xs) auto

lemma sum_list_map_rev: "sum_list (map f (rev xs)) = sum_list (map f (xs :: 'a list) :: nat list)"
  by (induction xs) auto

text \<open>
  The loop of \<^verbatim>\<open>getDepth\<close>; the top of the stack is the head of the list, so the children that are
  pushed one after the other end up in reverse order.
\<close>

function depth_loop :: "nat \<Rightarrow> (json \<times> nat) list \<Rightarrow> nat" where
  "depth_loop maxDepth [] = maxDepth"
| "depth_loop maxDepth ((v, d) # stack) =
     (if CIRCUIT_BREAKER_DEPTH < d then CIRCUIT_BREAKER_DEPTH
      else depth_loop (if maxDepth < d then d else maxDepth)
             (rev (map (\<lambda>c. (c, d + 1)) (filter is_object (children v))) @ stack))"
  by pat_completeness auto

termination
proof (relation "measure (\<lambda>(m, st). sum_list (map (jnodes \<circ> fst) st))", goal_cases)
  case (2 m v d st)
  have "sum_list (map jnodes (filter is_object (children v))) < jnodes v"
    using jnodes_filter [of is_object "children v"] by (simp add: jnodes.simps [of v])
  then show ?case by (simp add: o_def sum_list_map_rev)
qed simp

definition getDepth :: "json \<Rightarrow> nat" where
  "getDepth v = (if \<not> is_object v then 0 else depth_loop 1 [(v, 1)])"

datatype depth_outcome = DepthNext | DepthExceeded nat

text \<open>The body is absent, or a parsed value; falsy values and primitives are not checked.\<close>

definition jsonDepthLimit :: "nat \<Rightarrow> json option \<Rightarrow> depth_outcome" where
  "jsonDepthLimit maxDepth body =
     (case body of
        None \<Rightarrow> DepthNext
      | Some v \<Rightarrow>
          if \<not> is_object v then DepthNext
          else if maxDepth < getDepth v then DepthExceeded maxDepth else DepthNext)"

section \<open>Reference definition\<close>

function jdepth :: "json \<Rightarrow> nat" where
  "jdepth v = (if is_object v then Suc (fold max (map jdepth (children v)) 0) else 0)"
  by auto
termination by (relation "measure size") (auto dest: child_size)

declare jdepth.simps [simp del]

text \<open>The deepest level reached below an entry of the stack.\<close>

definition height :: "json \<times> nat \<Rightarrow> nat" where
  "height x = snd x + jdepth (fst x) - 1"

lemma fold_max_le: "fold max xs m \<le> n \<longleftrightarrow> m \<le> n \<and> (\<forall>x \<in> set xs. x \<le> (n::nat))"
  by (induction xs arbitrary: m) auto

lemma jdepth_object: "is_object v \<Longrightarrow> jdepth v \<le> n \<longleftrightarrow> 1 \<le> n \<and> (\<forall>c \<in> set (children v). jdepth c < n)"
  by (cases n) (auto simp: jdepth.simps [of v] fold_max_le less_Suc_eq_le)

lemma jdepth_primitive: "\<not> is_object v \<Longrightarrow> jdepth v = 0"
  by (simp add: jdepth.simps)

lemma height_children:
  assumes "is_object v" and "1 \<le> d" and "d \<le> n"
  shows "height (v, d) \<le> n \<longleftrightarrow> (\<forall>c \<in> set (filter is_object (children v)). height (c, d + 1) \<le> n)"
proof -
  have "height (v, d) \<le> n \<longleftrightarrow> jdepth v \<le> n + 1 - d" using assms(2,3) by (auto simp: height_def)
  also have "\<dots> \<longleftrightarrow> (\<forall>c \<in> set (children v). jdepth c < n + 1 - d)"
    using jdepth_object [OF assms(1), of "n + 1 - d"] assms(3) by auto
  also have "\<dots> \<longleftrightarrow> (\<forall>c \<in> set (filter is_object (children v)). jdepth c < n + 1 - d)"
  proof -
    have "jdepth c < n + 1 - d" if "\<not> is_object c" for c using jdepth_primitive [OF that] assms(3) by simp
    then show ?thesis by auto
  qed
  also have "\<dots> \<longleftrightarrow> (\<forall>c \<in> set (filter is_object (children v)). height (c, d + 1) \<le> n)"
    by (auto simp: height_def)
  finally show ?thesis .
qed

text \<open>The loop computes the greatest height, cut off at the circuit breaker.\<close>

lemma depth_loop_le:
  assumes "\<forall>x \<in> set st. is_object (fst x) \<and> 1 \<le> snd x" and "m \<le> CIRCUIT_BREAKER_DEPTH" and "n < CIRCUIT_BREAKER_DEPTH"
  shows "depth_loop m st \<le> n \<longleftrightarrow> m \<le> n \<and> (\<forall>x \<in> set st. height x \<le> n)"
  using assms
proof (induction m st rule: depth_loop.induct)
  case (2 m v d st)
  show ?case
  proof (cases "CIRCUIT_BREAKER_DEPTH < d")
    case True
    moreover have "jdepth v \<ge> 1" using 2 by (simp add: jdepth.simps [of v])
    ultimately show ?thesis using 2(4) by (auto simp: height_def)
  next
    case False
    let ?cs = "filter is_object (children v)"
    have d: "1 \<le> d" "is_object v" using 2 by auto
    let ?st = "rev (map (\<lambda>c. (c, d + 1)) ?cs) @ st"
    have pre: "\<forall>x \<in> set ?st. is_object (fst x) \<and> 1 \<le> snd x" using 2(2) by auto
    have "(if m < d then d else m) \<le> CIRCUIT_BREAKER_DEPTH" using 2(3) False by simp
    from 2(1) [OF False pre this 2(4)]
    have "depth_loop m ((v, d) # st) \<le> n \<longleftrightarrow> (if m < d then d else m) \<le> n \<and> (\<forall>x \<in> set ?st. height x \<le> n)"
      using False by simp
    also have "\<dots> \<longleftrightarrow> max m d \<le> n \<and> (\<forall>c \<in> set ?cs. height (c, d + 1) \<le> n) \<and> (\<forall>x \<in> set st. height x \<le> n)"
      by (auto simp: max_def)
    also have "\<dots> \<longleftrightarrow> m \<le> n \<and> d \<le> n \<and> height (v, d) \<le> n \<and> (\<forall>x \<in> set st. height x \<le> n)"
      using height_children [OF d(2,1), of n] by auto
    also have "\<dots> \<longleftrightarrow> m \<le> n \<and> (\<forall>x \<in> set ((v, d) # st). height x \<le> n)"
      using d jdepth_object [OF d(2), of 0] by (auto simp: height_def)
    finally show ?thesis .
  qed
qed simp

lemma depth_loop_breaker: "m \<le> CIRCUIT_BREAKER_DEPTH \<Longrightarrow> depth_loop m st \<le> CIRCUIT_BREAKER_DEPTH"
  by (induction m st rule: depth_loop.induct) auto

lemma getDepth_min: "getDepth v = min CIRCUIT_BREAKER_DEPTH (jdepth v)"
proof (cases "is_object v")
  case False
  then show ?thesis by (simp add: getDepth_def jdepth_primitive)
next
  case True
  have le: "getDepth v \<le> n \<longleftrightarrow> jdepth v \<le> n" if "n < CIRCUIT_BREAKER_DEPTH" for n
    using depth_loop_le [of "[(v, 1)]" 1 n] that True jdepth_object [OF True, of n]
    by (auto simp: getDepth_def height_def CIRCUIT_BREAKER_DEPTH_def)
  have top: "getDepth v \<le> CIRCUIT_BREAKER_DEPTH"
    using depth_loop_breaker [of 1 "[(v, 1)]"] True by (simp add: getDepth_def CIRCUIT_BREAKER_DEPTH_def)
  show ?thesis
  proof (cases "jdepth v < CIRCUIT_BREAKER_DEPTH")
    case True
    with le [of "jdepth v"] le [of "getDepth v"] top show ?thesis by force
  next
    case False
    with le [of "getDepth v"] top show ?thesis by force
  qed
qed

text \<open>
  The iterative traversal computes the nesting depth of the value, cut off at the circuit
  breaker: for every value the result is the smaller of its depth and 100. In particular it ends on
  every value.
\<close>

theorem getDepth_is_depth: "getDepth v = min CIRCUIT_BREAKER_DEPTH (jdepth v)"
  by (rule getDepth_min)

text \<open>
  Below the circuit breaker the limit is exact: with a limit under 100 a body is rejected exactly
  when it is nested deeper than the limit; with a limit of 100 or more nothing is ever rejected.
\<close>

theorem jsonDepthLimit_exact:
  "(maxDepth < CIRCUIT_BREAKER_DEPTH \<longrightarrow>
      (jsonDepthLimit maxDepth (Some v) = DepthNext \<longleftrightarrow> jdepth v \<le> maxDepth))
   \<and> (CIRCUIT_BREAKER_DEPTH \<le> maxDepth \<longrightarrow> jsonDepthLimit maxDepth (Some v) = DepthNext)"
  using jdepth_primitive [of v] by (auto simp: jsonDepthLimit_def getDepth_min)

definition sample_json :: json where
  "sample_json = JObj [(''a'', JArr [JNum 1, JArr []]), (''b'', JStr ''x'')]"

theorem jsonDepthLimit_exact_witness:
  "jdepth sample_json = 3 \<and> jsonDepthLimit 2 (Some sample_json) \<noteq> DepthNext"
proof -
  have d: "jdepth sample_json = 3" by (simp add: sample_json_def jdepth.simps)
  with jsonDepthLimit_exact [of 2 sample_json] show ?thesis by (simp add: CIRCUIT_BREAKER_DEPTH_def)
qed

end
