(* ===== verification/Signals.thy ===== *)
theory Signals
  imports Json_Depth Js_Text
begin

text \<open>
  The signal types that the ingestion path shares (\<^verbatim>\<open>api/src/types/protocol.ts\<close>): severities, sharing
  preferences, the signal as it arrives from a sensor and the enriched signal that the aggregator
  hands to the correlator. Confidences are exact fractions; metadata is a JSON object.
\<close>

datatype severity = LOW | MEDIUM | HIGH | CRITICAL

fun severity_rank :: "severity \<Rightarrow> nat" where
  "severity_rank LOW = 1"
| "severity_rank MEDIUM = 2"
| "severity_rank HIGH = 3"
| "severity_rank CRITICAL = 4"

text \<open>Severities are ordered by their rank.\<close>

instantiation severity :: linorder
begin

definition less_eq_severity :: "severity \<Rightarrow> severity \<Rightarrow> bool" where
  "less_eq_severity a b \<longleftrightarrow> severity_rank a \<le> severity_rank b"

definition less_severity :: "severity \<Rightarrow> severity \<Rightarrow> bool" where
  "less_severity a b \<longleftrightarrow> severity_rank a < severity_rank b"

instance
proof
  fix a b c :: severity
  show "a < b \<longleftrightarrow> a \<le> b \<and> \<not> b \<le> a" by (auto simp: less_eq_severity_def less_severity_def)
  show "a \<le> a" by (simp add: less_eq_severity_def)
  show "a \<le> b \<Longrightarrow> b \<le> c \<Longrightarrow> a \<le> c" by (simp add: less_eq_severity_def)
  show "a \<le> b \<Longrightarrow> b \<le> a \<Longrightarrow> a = b" by (cases a; cases b) (simp_all add: less_eq_severity_def)
  show "a \<le> b \<or> b \<le> a" by (auto simp: less_eq_severity_def)
qed

end

datatype sharing_preference = CONTRIBUTE_AND_RECEIVE | RECEIVE_ONLY | CONTRIBUTE_ONLY | ISOLATED

text \<open>Unknown values are read as the safest preference.\<close>

definition parsePreference :: "string \<Rightarrow> sharing_preference" where
  "parsePreference v =
     (if v = ''CONTRIBUTE_AND_RECEIVE'' then CONTRIBUTE_AND_RECEIVE
      else if v = ''RECEIVE_ONLY'' then RECEIVE_ONLY
      else if v = ''CONTRIBUTE_ONLY'' then CONTRIBUTE_ONLY
      else ISOLATED)"

record incoming_signal =
  sg_signalType :: string
  sg_sourceIp :: "string option"
  sg_fingerprint :: "string option"
  sg_severity :: severity
  sg_confidence :: rat
  sg_eventCount :: "nat option"
  sg_metadata :: "(string, json) jsmap option"
  sg_tenantId :: string
  sg_sensorId :: string
  sg_requestId :: "string option"
  sg_idempotencyKey :: "string option"

record enriched_signal = incoming_signal +
  es_anonFingerprint :: "string option"
  es_id :: "string option"
  es_threatScore :: "rat option"
  es_sharingPreference :: "sharing_preference option"

text \<open>Truthiness of an optional property of a JSON object.\<close>

fun json_truthy :: "json \<Rightarrow> bool" where
  "json_truthy JNull = False"
| "json_truthy (JBool b) = b"
| "json_truthy (JNum r) = (r \<noteq> 0)"
| "json_truthy (JStr s) = (s \<noteq> '''')"
| "json_truthy (JArr xs) = True"
| "json_truthy (JObj ps) = True"

definition meta_get :: "(string, json) jsmap option \<Rightarrow> string \<Rightarrow> json option" where
  "meta_get m k = Option.bind m (\<lambda>ps. jm_get ps k)"

end
