(* ===== verification/Sequence_Matcher.thy ===== *)
theory Sequence_Matcher
  imports Signals
begin

text \<open>
  Attack-sequence tracking (\<^verbatim>\<open>api/src/services/correlator/sequence-matcher.ts\<close>): the stage of a
  signal, the transition table, one step of the state and the fold over a batch. The id generated
  for a signal without one and the clock are arguments, for a batch one of each per position; the
  boosts are exact decimal fractions.
\<close>

section \<open>Data\<close>

datatype attack_stage = RECONNAISSANCE | EXPLOITATION | EXFILTRATION

fun stage_string :: "attack_stage \<Rightarrow> string" where
  "stage_string RECONNAISSANCE = ''reconnaissance''"
| "stage_string EXPLOITATION = ''exploitation''"
| "stage_string EXFILTRATION = ''exfiltration''"

record history_entry =
  he_stage :: attack_stage
  he_signalId :: string
  he_timestamp :: int
  he_confidence :: rat

record sequence_state =
  ss_currentStage :: "attack_stage option"
  ss_highestStage :: "attack_stage option"
  ss_history :: "history_entry list"

record process_result =
  pr_newState :: sequence_state
  pr_confidenceBoost :: rat
  pr_severityEscalation :: "severity option"

fun STAGE_ORDER :: "attack_stage \<Rightarrow> nat" where
  "STAGE_ORDER RECONNAISSANCE = 1"
| "STAGE_ORDER EXPLOITATION = 2"
| "STAGE_ORDER EXFILTRATION = 3"

definition MAX_HISTORY_SIZE :: nat where
  "MAX_HISTORY_SIZE = 500"

record transition_rule =
  tr_from :: "attack_stage option"
  tr_to :: attack_stage
  tr_boost :: rat
  tr_escalation :: "severity option"

definition TRANSITIONS :: "transition_rule list" where
  "TRANSITIONS =
     [\<lparr> tr_from = None, tr_to = RECONNAISSANCE, tr_boost = 1/10, tr_escalation = None \<rparr>,
      \<lparr> tr_from = None, tr_to = EXPLOITATION, tr_boost = 2/10, tr_escalation = None \<rparr>,
      \<lparr> tr_from = Some RECONNAISSANCE, tr_to = EXPLOITATION, tr_boost = 4/10, tr_escalation = None \<rparr>,
      \<lparr> tr_from = Some EXPLOITATION, tr_to = EXFILTRATION, tr_boost = 5/10, tr_escalation = Some CRITICAL \<rparr>]"

section \<open>The stage of a signal\<close>

definition stage_of_string :: "string \<Rightarrow> attack_stage option" where
  "stage_of_string s = List.find (\<lambda>st. stage_string st = s) [RECONNAISSANCE, EXPLOITATION, EXFILTRATION]"

text \<open>The string elements of the array \<^verbatim>\<open>rule_ids\<close>.\<close>

fun json_string :: "json \<Rightarrow> string option" where
  "json_string (JStr s) = Some s"
| "json_string v = None"

definition rule_ids_of :: "(string, json) jsmap \<Rightarrow> string list" where
  "rule_ids_of m = (case jm_get m ''rule_ids'' of Some (JArr xs) \<Rightarrow> List.map_filter json_string xs | _ \<Rightarrow> [])"

definition mapIpThreatToStage :: "(string, json) jsmap option \<Rightarrow> attack_stage option" where
  "mapIpThreatToStage metadata =
     (case metadata of
        None \<Rightarrow> Some EXPLOITATION
      | Some m \<Rightarrow>
          (let ruleIds = rule_ids_of m;
               mentions = (\<lambda>ws. list_ex (\<lambda>i. list_ex (str_includes i) ws) ruleIds)
           in if mentions [''sqli'', ''xss'', ''rce'', ''lfi''] then Some EXPLOITATION
              else if mentions [''exfil''] then Some EXFILTRATION
              else if mentions [''scanner'', ''recon''] then Some RECONNAISSANCE
              else Some EXPLOITATION))"

definition mapSignalToStage :: "'a enriched_signal_scheme \<Rightarrow> attack_stage option" where
  "mapSignalToStage signal =
     (let metadata = sg_metadata signal; t = sg_signalType signal in
      case (case meta_get metadata ''attackStage'' of Some (JStr s) \<Rightarrow> stage_of_string s | _ \<Rightarrow> None) of
        Some st \<Rightarrow> Some st
      | None \<Rightarrow>
          if t = ''SCHEMA_VIOLATION'' \<and>
             (case meta_get metadata ''dlp_match_count'' of None \<Rightarrow> False | Some v \<Rightarrow> json_truthy v)
          then Some EXFILTRATION
          else if t = ''TEMPLATE_DISCOVERY'' then Some RECONNAISSANCE
          else if t = ''BOT_SIGNATURE'' then Some RECONNAISSANCE
          else if t = ''SCHEMA_VIOLATION'' then Some EXPLOITATION
          else if t = ''CREDENTIAL_STUFFING'' then Some EXPLOITATION
          else if t = ''IP_THREAT'' then mapIpThreatToStage metadata
          else None)"

section \<open>Steps\<close>

definition order_of :: "attack_stage option \<Rightarrow> nat" where
  "order_of st = (case st of None \<Rightarrow> 0 | Some s \<Rightarrow> STAGE_ORDER s)"

definition find_transition :: "attack_stage option \<Rightarrow> attack_stage \<Rightarrow> transition_rule option" where
  "find_transition cur sig =
     (case List.find (\<lambda>r. tr_from r = cur \<and> tr_to r = sig) TRANSITIONS of
        Some r \<Rightarrow> Some r
      | None \<Rightarrow> List.find (\<lambda>r. tr_from r = None \<and> tr_to r = sig) TRANSITIONS)"

definition processSignal ::
  "int \<Rightarrow> string \<Rightarrow> sequence_state \<Rightarrow> 'a enriched_signal_scheme \<Rightarrow> process_result" where
  "processSignal now gen state signal =
     (case mapSignalToStage signal of
        None \<Rightarrow> \<lparr> pr_newState = state, pr_confidenceBoost = 0, pr_severityEscalation = None \<rparr>
      | Some sig \<Rightarrow>
          (let up = order_of (ss_currentStage state) < STAGE_ORDER sig;
               rule = (if up then find_transition (ss_currentStage state) sig else None);
               entry = \<lparr> he_stage = sig, he_signalId = (if str_truthy (es_id signal) then the (es_id signal) else gen),
                         he_timestamp = now, he_confidence = sg_confidence signal \<rparr>;
               newHistory = ss_history state @ [entry];
               history = (if MAX_HISTORY_SIZE < length newHistory then tl newHistory else newHistory)
           in \<lparr> pr_newState =
                  \<lparr> ss_currentStage = (if up then Some sig else ss_currentStage state),
                    ss_highestStage =
                      (if ss_highestStage state = None \<or> order_of (ss_highestStage state) < STAGE_ORDER sig
                       then Some sig else ss_highestStage state),
                    ss_history = history \<rparr>,
                pr_confidenceBoost = (case rule of None \<Rightarrow> 2/100 | Some r \<Rightarrow> tr_boost r),
                pr_severityEscalation = Option.bind rule tr_escalation \<rparr>))"

record batch_outcome =
  bo_state :: sequence_state
  bo_confidence :: rat
  bo_severity :: severity

definition batch_step :: "int \<Rightarrow> string \<Rightarrow> 'a enriched_signal_scheme \<Rightarrow> batch_outcome \<Rightarrow> batch_outcome" where
  "batch_step now gen signal b =
     (let result = processSignal now gen (bo_state b) signal
      in \<lparr> bo_state = pr_newState result,
           bo_confidence = min (bo_confidence b + pr_confidenceBoost result) 1,
           bo_severity = (case pr_severityEscalation result of
                            None \<Rightarrow> bo_severity b
                          | Some e \<Rightarrow> if severity_rank (bo_severity b) < severity_rank e then e else bo_severity b) \<rparr>)"

definition processSignalBatch ::
  "(nat \<Rightarrow> int) \<Rightarrow> (nat \<Rightarrow> string) \<Rightarrow> sequence_state \<Rightarrow> 'a enriched_signal_scheme list \<Rightarrow> rat \<Rightarrow> severity
     \<Rightarrow> batch_outcome" where
  "processSignalBatch clock gen state signals conf sev =
     fold (\<lambda>(i, signal). batch_step (clock i) (gen i) signal) (enumerate 0 signals)
       \<lparr> bo_state = state, bo_confidence = conf, bo_severity = sev \<rparr>"

section \<open>Properties\<close>

lemma find_transition_boost: "find_transition cur sig = Some r \<Longrightarrow> 0 \<le> tr_boost r"
  by (auto simp: find_transition_def TRANSITIONS_def split: option.splits if_splits)

lemma processSignal_progress:
  assumes "r = processSignal now gen st signal"
  shows "order_of (ss_currentStage st) \<le> order_of (ss_currentStage (pr_newState r))"
    and "order_of (ss_highestStage st) \<le> order_of (ss_highestStage (pr_newState r))"
    and "length (ss_history st) \<le> MAX_HISTORY_SIZE \<Longrightarrow> length (ss_history (pr_newState r)) \<le> MAX_HISTORY_SIZE"
    and "0 \<le> pr_confidenceBoost r"
proof -
  show "0 \<le> pr_confidenceBoost r"
    using assms by (auto simp: processSignal_def Let_def find_transition_boost split: option.splits)
qed (use assms in \<open>auto simp: processSignal_def Let_def order_of_def split: option.splits\<close>)

lemma batch_step_mono:
  assumes "b' = batch_step now gen signal b"
  shows "order_of (ss_currentStage (bo_state b)) \<le> order_of (ss_currentStage (bo_state b'))"
    and "order_of (ss_highestStage (bo_state b)) \<le> order_of (ss_highestStage (bo_state b'))"
    and "length (ss_history (bo_state b)) \<le> MAX_HISTORY_SIZE \<Longrightarrow> length (ss_history (bo_state b')) \<le> MAX_HISTORY_SIZE"
    and "bo_confidence b \<le> 1 \<Longrightarrow> bo_confidence b \<le> bo_confidence b' \<and> bo_confidence b' \<le> 1"
    and "bo_severity b \<le> bo_severity b'"
  using assms processSignal_progress [OF refl, where now = now and gen = gen and st = "bo_state b" and signal = signal]
  by (auto simp: batch_step_def Let_def less_eq_severity_def split: option.split)

lemma processSignalBatch_mono_aux:
  "length (ss_history (bo_state b)) \<le> MAX_HISTORY_SIZE \<Longrightarrow> bo_confidence b \<le> 1 \<Longrightarrow> b' = fold (\<lambda>(i, signal). batch_step (clock i) (gen i) signal) ps b \<Longrightarrow>
     order_of (ss_currentStage (bo_state b)) \<le> order_of (ss_currentStage (bo_state b')) \<and>
     order_of (ss_highestStage (bo_state b)) \<le> order_of (ss_highestStage (bo_state b')) \<and>
     length (ss_history (bo_state b')) \<le> MAX_HISTORY_SIZE \<and>
     bo_confidence b \<le> bo_confidence b' \<and> bo_confidence b' \<le> 1 \<and> bo_severity b \<le> bo_severity b'"
proof (induction ps arbitrary: b)
  case (Cons p ps)
  obtain i x where p: "p = (i, x)" by (cases p)
  note step = batch_step_mono [OF refl, where now = "clock i" and gen = "gen i" and signal = x and b = b]
  from p Cons.prems step(3,4) Cons.IH [of "batch_step (clock i) (gen i) x b"] step(1,2,5)
  show ?case by (auto intro: order_trans)
qed simp

text \<open>
  Processing a batch never lowers anything: the current and the highest stage only move up, the
  confidence only grows and never exceeds 1, the severity is never lowered, and the history never
  exceeds 500 entries.
\<close>

theorem processSignalBatch_monotone:
  assumes "length (ss_history state) \<le> MAX_HISTORY_SIZE" and "conf \<le> 1"
    and "b = processSignalBatch clock gen state signals conf sev"
  shows "order_of (ss_currentStage state) \<le> order_of (ss_currentStage (bo_state b))
    \<and> order_of (ss_highestStage state) \<le> order_of (ss_highestStage (bo_state b))
    \<and> length (ss_history (bo_state b)) \<le> MAX_HISTORY_SIZE
    \<and> conf \<le> bo_confidence b \<and> bo_confidence b \<le> 1 \<and> sev \<le> bo_severity b"
  using processSignalBatch_mono_aux [of "\<lparr> bo_state = state, bo_confidence = conf, bo_severity = sev \<rparr>" b clock gen
      "enumerate 0 signals"]
    assms by (simp add: processSignalBatch_def)

definition sample_signal :: "string \<Rightarrow> string \<Rightarrow> string option \<Rightarrow> enriched_signal" where
  "sample_signal t tenant fp =
     \<lparr> sg_signalType = t, sg_sourceIp = None, sg_fingerprint = fp, sg_severity = HIGH, sg_confidence = 9/10,
       sg_eventCount = None, sg_metadata = None, sg_tenantId = tenant, sg_sensorId = ''s'', sg_requestId = None,
       sg_idempotencyKey = None, es_anonFingerprint = fp, es_id = Some ''1'', es_threatScore = None,
       es_sharingPreference = None \<rparr>"

theorem processSignalBatch_monotone_witness:
  "LOW \<le> bo_severity (processSignalBatch (\<lambda>i. 0) (\<lambda>i. ''g'') \<lparr> ss_currentStage = None, ss_highestStage = None, ss_history = [] \<rparr>
      [sample_signal ''BOT_SIGNATURE'' ''t'' None] (8/10) LOW)"
  using processSignalBatch_monotone [of "\<lparr> ss_currentStage = None, ss_highestStage = None, ss_history = [] \<rparr>" "8/10",
      OF _ _ refl, of "\<lambda>i. 0" "\<lambda>i. ''g''" "[sample_signal ''BOT_SIGNATURE'' ''t'' None]" LOW] by simp

text \<open>
  The boost and the escalation of a signal, for every combination of the campaign's stage and
  the stage of the signal. Only the move from exploitation to exfiltration escalates the campaign
  to \<^verbatim>\<open>CRITICAL\<close>; exfiltration that is seen first, or directly after reconnaissance, gets the base
  boost and no escalation.
\<close>

theorem processSignal_transitions:
  assumes "mapSignalToStage signal = Some sig"
  shows "pr_confidenceBoost (processSignal now gen st signal) =
     (case (ss_currentStage st, sig) of
        (None, RECONNAISSANCE) \<Rightarrow> 1/10
      | (None, EXPLOITATION) \<Rightarrow> 2/10
      | (Some RECONNAISSANCE, EXPLOITATION) \<Rightarrow> 4/10
      | (Some EXPLOITATION, EXFILTRATION) \<Rightarrow> 5/10
      | _ \<Rightarrow> 2/100) \<and>
     pr_severityEscalation (processSignal now gen st signal) =
       (if ss_currentStage st = Some EXPLOITATION \<and> sig = EXFILTRATION then Some CRITICAL else None)"
proof (cases "ss_currentStage st")
  case None
  with assms show ?thesis
    by (cases sig) (simp_all add: processSignal_def Let_def order_of_def find_transition_def TRANSITIONS_def)
next
  case (Some c)
  with assms show ?thesis
    by (cases c; cases sig) (simp_all add: processSignal_def Let_def order_of_def find_transition_def TRANSITIONS_def)
qed

lemma sample_stage: "mapSignalToStage (sample_signal ''BOT_SIGNATURE'' ''t'' None) = Some RECONNAISSANCE"
  by (simp add: mapSignalToStage_def sample_signal_def meta_get_def Let_def)

theorem processSignal_transitions_witness:
  "pr_confidenceBoost (processSignal 0 ''g'' \<lparr> ss_currentStage = None, ss_highestStage = None, ss_history = [] \<rparr>
     (sample_signal ''BOT_SIGNATURE'' ''t'' None)) = 1/10"
  using processSignal_transitions [OF sample_stage] by simp

end
