(* ===== verification/Correlator.thy ===== *)
theory Correlator
  imports Sequence_Matcher
begin

text \<open>
  Campaign detection (\<^verbatim>\<open>api/src/services/correlator/index.ts\<close>): grouping a batch by anonymised
  fingerprint, the cross-tenant threshold, the lookup of running campaigns and their creation or
  update. The database, the broadcaster and ClickHouse are the fields of an environment over a world
  state \<open>'w\<close>; a rejected promise is \<open>None\<close> (or \<open>False\<close> where the value is not used). Of a campaign's
  JSON metadata the model keeps what the code reads: whether it is an object, its
  \<^verbatim>\<open>anonFingerprint\<close> (any JSON value), its \<^verbatim>\<open>signalCount\<close> and its \<^verbatim>\<open>sequenceState\<close>.
\<close>

section \<open>Data\<close>

record correlation_result =
  cr_isCampaign :: bool
  cr_campaignId :: "string option"
  cr_confidence :: rat
  cr_signals :: "string list"

record campaign_metadata =
  cm_anonFingerprint :: "json option"
  cm_signalCount :: "nat option"
  cm_sequenceState :: "sequence_state option"

datatype metadata_column = MetaNull | MetaScalar | MetaObject campaign_metadata

fun isCampaignMetadata :: "metadata_column \<Rightarrow> bool" where
  "isCampaignMetadata MetaNull = False"
| "isCampaignMetadata MetaScalar = False"
| "isCampaignMetadata (MetaObject m) =
     (case cm_anonFingerprint m of None \<Rightarrow> True | Some v \<Rightarrow> json_string v \<noteq> None)"

datatype campaign_status = ACTIVE | MONITORING | RESOLVED | FALSE_POSITIVE

record correlation_signals =
  cs_fingerprintMatch :: rat
  cs_timingMatch :: rat
  cs_tenantCount :: nat
  cs_currentStage :: "attack_stage option"

record campaign_data =
  cd_name :: string
  cd_description :: string
  cd_status :: campaign_status
  cd_severity :: severity
  cd_isCrossTenant :: bool
  cd_tenantsAffected :: nat
  cd_confidence :: rat
  cd_correlationSignals :: "correlation_signals option"
  cd_firstSeenAt :: int
  cd_lastActivityAt :: int
  cd_metadata :: metadata_column

record campaign = campaign_data +
  cp_id :: string
  cp_tenantId :: "string option"

record campaign_update =
  cu_lastActivityAt :: int
  cu_tenantsAffected :: nat
  cu_confidence :: rat
  cu_severity :: severity
  cu_metadata :: metadata_column

datatype campaign_event = Campaign_created | Campaign_updated | Campaign_escalated | Campaign_resolved

record campaign_history_row =
  hr_timestamp :: int
  hr_campaign_id :: string
  hr_tenant_id :: string
  hr_event_type :: campaign_event
  hr_name :: string
  hr_status :: campaign_status
  hr_severity :: severity
  hr_is_cross_tenant :: nat
  hr_tenants_affected :: nat
  hr_confidence :: rat
  hr_metadata :: "metadata_column \<times> correlation_signals option"

record 'w correlator_env =
  ce_findActive :: "'w \<Rightarrow> campaign list option"
  ce_create :: "'w \<Rightarrow> campaign_data \<Rightarrow> 'w \<times> campaign option"
  ce_update :: "'w \<Rightarrow> string \<Rightarrow> campaign_update \<Rightarrow> 'w \<times> campaign option"
  ce_onCampaignDetected :: "'w \<Rightarrow> campaign \<Rightarrow> enriched_signal list \<Rightarrow> 'w \<times> bool"
  ce_clickhouseEnabled :: bool
  ce_insertCampaignEvent :: "'w \<Rightarrow> campaign_history_row \<Rightarrow> 'w"
  ce_now :: int
  ce_clock :: "nat \<Rightarrow> int"
  ce_gen :: "nat \<Rightarrow> string"

definition CROSS_TENANT_THRESHOLD :: nat where
  "CROSS_TENANT_THRESHOLD = 2"

definition FINGERPRINT_CONFIDENCE :: rat where
  "FINGERPRINT_CONFIDENCE = 98/100"

definition TIMING_CONFIDENCE :: rat where
  "TIMING_CONFIDENCE = 89/100"

definition MIN_CAMPAIGN_CONFIDENCE :: rat where
  "MIN_CAMPAIGN_CONFIDENCE = 75/100"

section \<open>Grouping\<close>

definition group_step ::
  "(string, enriched_signal list) jsmap \<Rightarrow> enriched_signal \<Rightarrow> (string, enriched_signal list) jsmap" where
  "group_step groups signal =
     (case es_anonFingerprint signal of
        None \<Rightarrow> groups
      | Some fp \<Rightarrow>
          if fp = '''' then groups
          else jm_set fp ((case jm_get groups fp of None \<Rightarrow> [] | Some xs \<Rightarrow> xs) @ [signal]) groups)"

definition groupByAnonFingerprint :: "enriched_signal list \<Rightarrow> (string, enriched_signal list) jsmap" where
  "groupByAnonFingerprint signals = foldl group_step [] signals"

text \<open>\<^verbatim>\<open>new Set(signals.map(s => s.tenantId)).size\<close>.\<close>

definition tenant_count :: "enriched_signal list \<Rightarrow> nat" where
  "tenant_count signals = length (remdups (map sg_tenantId signals))"

definition crossTenantFingerprints :: "enriched_signal list \<Rightarrow> (string \<times> enriched_signal list \<times> nat) list" where
  "crossTenantFingerprints signals =
     map (\<lambda>(fp, xs). (fp, xs, tenant_count xs))
       (filter (\<lambda>(fp, xs). fp \<noteq> '''' \<and> xs \<noteq> [] \<and> CROSS_TENANT_THRESHOLD \<le> tenant_count xs)
          (groupByAnonFingerprint signals))"

section \<open>Scores\<close>

definition calculateConfidence :: "enriched_signal list \<Rightarrow> rat" where
  "calculateConfidence signals =
     (let baseConfidence = min (1/2 + of_nat (length signals) * (5/100)) (95/100);
          avgSignalConfidence = fold (\<lambda>s a. a + sg_confidence s) signals 0 / of_nat (length signals);
          confidence = (baseConfidence + avgSignalConfidence) / 2
      in max confidence MIN_CAMPAIGN_CONFIDENCE)"

definition calculateSeverity :: "enriched_signal list \<Rightarrow> severity" where
  "calculateSeverity signals =
     (let maxScore = fold max (map (\<lambda>s. severity_rank (sg_severity s)) signals) 0
      in if 4 \<le> maxScore then CRITICAL
         else if 3 \<le> maxScore then HIGH
         else if 2 \<le> maxScore then MEDIUM
         else LOW)"

section \<open>Campaigns\<close>

definition meta_fingerprint :: "metadata_column \<Rightarrow> string option" where
  "meta_fingerprint c =
     (case c of MetaObject m \<Rightarrow> Option.bind (cm_anonFingerprint m) json_string | _ \<Rightarrow> None)"

definition findExistingCampaignsBatch ::
  "'w correlator_env \<Rightarrow> 'w \<Rightarrow> string list \<Rightarrow> (string, campaign) jsmap option" where
  "findExistingCampaignsBatch env w anonFingerprints =
     (if anonFingerprints = [] then Some []
      else case ce_findActive env w of
             None \<Rightarrow> None
           | Some campaigns \<Rightarrow>
               Some (foldl (\<lambda>m c. if isCampaignMetadata (cd_metadata c)
                                 then (case meta_fingerprint (cd_metadata c) of
                                         Some fp \<Rightarrow> if fp \<noteq> '''' \<and> fp \<in> set anonFingerprints
                                                    then jm_set fp c m else m
                                       | None \<Rightarrow> m)
                                 else m) [] campaigns))"

definition logCampaignEvent :: "'w correlator_env \<Rightarrow> campaign \<Rightarrow> campaign_event \<Rightarrow> 'w \<Rightarrow> 'w" where
  "logCampaignEvent env c ev w =
     (if \<not> ce_clickhouseEnabled env then w
      else ce_insertCampaignEvent env w
        \<lparr> hr_timestamp = ce_now env, hr_campaign_id = cp_id c,
          hr_tenant_id = (case cp_tenantId c of None \<Rightarrow> ''fleet'' | Some t \<Rightarrow> t),
          hr_event_type = ev, hr_name = cd_name c, hr_status = cd_status c, hr_severity = cd_severity c,
          hr_is_cross_tenant = (if cd_isCrossTenant c then 1 else 0),
          hr_tenants_affected = cd_tenantsAffected c, hr_confidence = cd_confidence c,
          hr_metadata = (cd_metadata c, cd_correlationSignals c) \<rparr>)"

definition empty_sequence :: sequence_state where
  "empty_sequence = \<lparr> ss_currentStage = None, ss_highestStage = None, ss_history = [] \<rparr>"

definition campaign_create_data ::
  "'w correlator_env \<Rightarrow> string \<Rightarrow> enriched_signal list \<Rightarrow> nat \<Rightarrow> campaign_data" where
  "campaign_create_data env anonFingerprint signals tenantCount =
     (let b = processSignalBatch (ce_clock env) (ce_gen env) empty_sequence signals
                (calculateConfidence signals) (calculateSeverity signals)
      in \<lparr> cd_name = ''Fleet Campaign '' @ take 8 anonFingerprint,
           cd_description = ''Cross-tenant attack detected affecting '' @ show_nat tenantCount @ '' tenants'',
           cd_status = ACTIVE, cd_severity = bo_severity b, cd_isCrossTenant = True,
           cd_tenantsAffected = tenantCount, cd_confidence = bo_confidence b,
           cd_correlationSignals = Some
             \<lparr> cs_fingerprintMatch = FINGERPRINT_CONFIDENCE, cs_timingMatch = TIMING_CONFIDENCE,
               cs_tenantCount = tenantCount, cs_currentStage = ss_currentStage (bo_state b) \<rparr>,
           cd_firstSeenAt = ce_now env, cd_lastActivityAt = ce_now env,
           cd_metadata = MetaObject
             \<lparr> cm_anonFingerprint = Some (JStr anonFingerprint), cm_signalCount = Some (length signals),
               cm_sequenceState = Some (bo_state b) \<rparr> \<rparr>)"

definition createCampaign ::
  "'w correlator_env \<Rightarrow> string \<Rightarrow> enriched_signal list \<Rightarrow> nat \<Rightarrow> 'w \<Rightarrow> 'w \<times> campaign option" where
  "createCampaign env anonFingerprint signals tenantCount w =
     (case ce_create env w (campaign_create_data env anonFingerprint signals tenantCount) of
        (w', None) \<Rightarrow> (w', None)
      | (w', Some c) \<Rightarrow> (logCampaignEvent env c Campaign_created w', Some c))"

definition campaign_meta :: "metadata_column \<Rightarrow> campaign_metadata" where
  "campaign_meta c =
     (case c of
        MetaObject m \<Rightarrow> if isCampaignMetadata c then m
                       else \<lparr> cm_anonFingerprint = None, cm_signalCount = Some 0, cm_sequenceState = None \<rparr>
      | _ \<Rightarrow> \<lparr> cm_anonFingerprint = None, cm_signalCount = Some 0, cm_sequenceState = None \<rparr>)"

definition campaign_update_data ::
  "'w correlator_env \<Rightarrow> enriched_signal list \<Rightarrow> nat \<Rightarrow> campaign \<Rightarrow> campaign_update" where
  "campaign_update_data env signals tenantCount existing =
     (let metadata = campaign_meta (cd_metadata existing);
          b = processSignalBatch (ce_clock env) (ce_gen env)
                (case cm_sequenceState metadata of None \<Rightarrow> empty_sequence | Some s \<Rightarrow> s)
                signals (cd_confidence existing) (cd_severity existing)
      in \<lparr> cu_lastActivityAt = ce_now env, cu_tenantsAffected = tenantCount,
           cu_confidence = bo_confidence b, cu_severity = bo_severity b,
           cu_metadata = MetaObject
             \<lparr> cm_anonFingerprint = cm_anonFingerprint metadata,
               cm_signalCount = Some ((case cm_signalCount metadata of None \<Rightarrow> 0 | Some n \<Rightarrow> n) + length signals),
               cm_sequenceState = Some (bo_state b) \<rparr> \<rparr>)"

definition updateCampaign ::
  "'w correlator_env \<Rightarrow> string \<Rightarrow> enriched_signal list \<Rightarrow> nat \<Rightarrow> campaign \<Rightarrow> 'w \<Rightarrow> 'w \<times> bool" where
  "updateCampaign env campaignId signals tenantCount existing w =
     (case ce_update env w campaignId (campaign_update_data env signals tenantCount existing) of
        (w', None) \<Rightarrow> (w', False)
      | (w', Some c) \<Rightarrow> (logCampaignEvent env c Campaign_updated w', True))"

definition correlateFingerprint ::
  "'w correlator_env \<Rightarrow> string \<Rightarrow> enriched_signal list \<Rightarrow> nat \<Rightarrow> campaign option \<Rightarrow> 'w
     \<Rightarrow> 'w \<times> correlation_result option" where
  "correlateFingerprint env anonFingerprint signals tenantCount existingCampaign w =
     (case (case existingCampaign of
              None \<Rightarrow> createCampaign env anonFingerprint signals tenantCount w
            | Some c \<Rightarrow> (case updateCampaign env (cp_id c) signals tenantCount c w of
                          (w', ok) \<Rightarrow> (w', if ok then Some c else None))) of
        (w1, None) \<Rightarrow> (w1, None)
      | (w1, Some campaign) \<Rightarrow>
          (case ce_onCampaignDetected env w1 campaign signals of
             (w2, False) \<Rightarrow> (w2, None)
           | (w2, True) \<Rightarrow>
               (w2, Some \<lparr> cr_isCampaign = True, cr_campaignId = Some (cp_id campaign),
                           cr_confidence = calculateConfidence signals,
                           cr_signals = map (\<lambda>s. the (es_id s)) (filter (\<lambda>s. str_truthy (es_id s)) signals) \<rparr>)))"

fun correlate_all ::
  "'w correlator_env \<Rightarrow> (string, campaign) jsmap \<Rightarrow> (string \<times> enriched_signal list \<times> nat) list \<Rightarrow> 'w
     \<Rightarrow> 'w \<times> correlation_result list" where
  "correlate_all env existing [] w = (w, [])"
| "correlate_all env existing ((fp, xs, n) # rest) w =
     (case correlateFingerprint env fp xs n (jm_get existing fp) w of
        (w1, r) \<Rightarrow>
          (case correlate_all env existing rest w1 of
             (w2, rs) \<Rightarrow>
               (w2, (case r of None \<Rightarrow> [] | Some x \<Rightarrow> if cr_isCampaign x then [x] else []) @ rs)))"

definition analyzeSignals ::
  "'w correlator_env \<Rightarrow> enriched_signal list \<Rightarrow> 'w \<Rightarrow> 'w \<times> correlation_result list option" where
  "analyzeSignals env signals w =
     (if signals = [] then (w, Some [])
      else
        (let cross = crossTenantFingerprints signals in
         if cross = [] then (w, Some [])
         else case findExistingCampaignsBatch env w (map fst cross) of
                None \<Rightarrow> (w, None)
              | Some existing \<Rightarrow> (case correlate_all env existing cross w of (w', rs) \<Rightarrow> (w', Some rs))))"

section \<open>Groups\<close>

abbreviation of_fingerprint :: "string \<Rightarrow> enriched_signal list \<Rightarrow> enriched_signal list" where
  "of_fingerprint fp signals \<equiv> filter (\<lambda>s. es_anonFingerprint s = Some fp) signals"

definition append_group :: "'a list option \<Rightarrow> 'a list \<Rightarrow> 'a list option" where
  "append_group old xs = (if xs = [] then old else Some ((case old of None \<Rightarrow> [] | Some ys \<Rightarrow> ys) @ xs))"

lemma group_fold_get:
  "fp \<noteq> '''' \<Longrightarrow> jm_get (foldl group_step g signals) fp = append_group (jm_get g fp) (of_fingerprint fp signals)"
proof (induction signals arbitrary: g)
  case (Cons s signals)
  then show ?case
    by (cases "es_anonFingerprint s") (auto simp: group_step_def append_group_def split: option.splits)
qed (simp add: append_group_def)

lemma group_fold_wf: "jm_wf g \<Longrightarrow> jm_wf (foldl group_step g signals)"
  by (induction signals arbitrary: g) (auto simp: group_step_def split: option.split)

lemma group_fold_keys: "'''' \<notin> set (jm_keys g) \<Longrightarrow> '''' \<notin> set (jm_keys (foldl group_step g signals))"
proof (induction signals arbitrary: g)
  case (Cons s signals)
  have "'''' \<notin> set (jm_keys (group_step g s))"
    using Cons.prems by (cases "es_anonFingerprint s") (simp_all add: group_step_def jm_keys_set del: set_map)
  with Cons.IH show ?case by simp
qed simp

lemma groups_iff:
  "(fp, xs) \<in> set (groupByAnonFingerprint signals) \<longleftrightarrow>
     fp \<noteq> '''' \<and> xs \<noteq> [] \<and> xs = of_fingerprint fp signals"
proof (cases "fp = ''''")
  case True
  then show ?thesis
    using group_fold_keys [of "[]" signals] by (force simp: groupByAnonFingerprint_def)
next
  case False
  have wf: "jm_wf (groupByAnonFingerprint signals)"
    by (simp add: groupByAnonFingerprint_def group_fold_wf)
  have "(fp, xs) \<in> set (groupByAnonFingerprint signals) \<longleftrightarrow> jm_get (groupByAnonFingerprint signals) fp = Some xs"
    using wf by (auto dest: jm_get_in_set in_set_jm_get)
  then show ?thesis
    using False by (auto simp: groupByAnonFingerprint_def group_fold_get append_group_def)
qed

lemma tenant_count_card: "tenant_count xs = card (sg_tenantId ` set xs)"
  by (simp add: tenant_count_def length_remdups_card_conv)

lemma cross_iff:
  "(fp, xs, n) \<in> set (crossTenantFingerprints signals) \<longleftrightarrow>
     fp \<noteq> '''' \<and> xs = of_fingerprint fp signals \<and> n = card (sg_tenantId ` set xs) \<and> 2 \<le> n"
proof -
  have "xs \<noteq> []" if "2 \<le> card (sg_tenantId ` set xs)" using that by auto
  then show ?thesis
    by (auto simp: crossTenantFingerprints_def groups_iff tenant_count_card CROSS_TENANT_THRESHOLD_def)
qed

lemma cross_distinct: "distinct (map fst (crossTenantFingerprints signals))"
proof -
  have "jm_wf (groupByAnonFingerprint signals)"
    by (simp add: groupByAnonFingerprint_def group_fold_wf)
  then have "jm_wf (filter P (groupByAnonFingerprint signals))" for P by simp
  moreover have "map fst (crossTenantFingerprints signals) =
      map fst (filter (\<lambda>(fp, xs). fp \<noteq> '''' \<and> xs \<noteq> [] \<and> CROSS_TENANT_THRESHOLD \<le> tenant_count xs)
        (groupByAnonFingerprint signals))"
    by (simp add: crossTenantFingerprints_def case_prod_beta comp_def)
  ultimately show ?thesis by simp
qed

text \<open>The fingerprints that at least two tenants reported in a batch.\<close>

definition shared_fingerprints :: "enriched_signal list \<Rightarrow> string set" where
  "shared_fingerprints signals =
     {fp. fp \<noteq> '''' \<and> (\<exists>s \<in> set signals. \<exists>t \<in> set signals. es_anonFingerprint s = Some fp \<and>
        es_anonFingerprint t = Some fp \<and> sg_tenantId s \<noteq> sg_tenantId t)}"

lemma two_le_card_iff: "finite A \<Longrightarrow> 2 \<le> card A \<longleftrightarrow> (\<exists>x \<in> A. \<exists>y \<in> A. x \<noteq> y)"
  by (metis card_le_Suc0_iff_eq not_less_eq_eq numeral_2_eq_2)

lemma cross_fingerprints: "set (map fst (crossTenantFingerprints signals)) = shared_fingerprints signals"
proof -
  have "fp \<in> set (map fst (crossTenantFingerprints signals)) \<longleftrightarrow>
      (\<exists>xs n. (fp, xs, n) \<in> set (crossTenantFingerprints signals))" for fp
    by (simp only: set_map image_iff Bex_def split_paired_Ex fst_conv) metis
  then have "fp \<in> set (map fst (crossTenantFingerprints signals)) \<longleftrightarrow>
      fp \<noteq> '''' \<and> 2 \<le> card (sg_tenantId ` set (of_fingerprint fp signals))" for fp
    unfolding cross_iff by blast
  moreover have "2 \<le> card (sg_tenantId ` set (of_fingerprint fp signals)) \<longleftrightarrow>
      (\<exists>s \<in> set signals. \<exists>t \<in> set signals. es_anonFingerprint s = Some fp \<and>
        es_anonFingerprint t = Some fp \<and> sg_tenantId s \<noteq> sg_tenantId t)" for fp
    by (subst two_le_card_iff) auto
  ultimately show ?thesis
    unfolding shared_fingerprints_def set_eq_iff by simp
qed

section \<open>Scores\<close>

lemma sum_bounds:
  fixes f :: "'a \<Rightarrow> rat"
  assumes "\<forall>x \<in> set xs. 0 \<le> f x \<and> f x \<le> 1"
  shows "a \<le> fold (\<lambda>s a. a + f s) xs a \<and> fold (\<lambda>s a. a + f s) xs a \<le> a + of_nat (length xs)"
  using assms
proof (induction xs arbitrary: a)
  case (Cons x xs)
  then have "0 \<le> f x" "f x \<le> 1" by simp_all
  with Cons.IH [of "a + f x"] Cons.prems show ?case by simp
qed simp

lemma half_sum_le: "a \<le> 95/100 \<Longrightarrow> b \<le> 1 \<Longrightarrow> (a + b) / 2 \<le> (975/1000 :: rat)"
  by simp

lemma calculateConfidence_bounds:
  assumes "\<forall>s \<in> set signals. 0 \<le> sg_confidence s \<and> sg_confidence s \<le> 1"
  shows "75/100 \<le> calculateConfidence signals \<and> calculateConfidence signals \<le> 975/1000"
proof -
  have "fold (\<lambda>s a. a + sg_confidence s) signals 0 / of_nat (length signals) \<le> 1"
    using sum_bounds [OF assms, of 0] by (simp add: divide_le_eq)
  then have "(min (1/2 + of_nat (length signals) * (5/100)) (95/100) +
      fold (\<lambda>s a. a + sg_confidence s) signals 0 / of_nat (length signals)) / 2 \<le> 975/1000"
    by (intro half_sum_le min.cobounded2)
  then show ?thesis
    unfolding calculateConfidence_def Let_def MIN_CAMPAIGN_CONFIDENCE_def by (simp only: max_def) auto
qed

lemma fold_max_Max: "fold max xs (a::nat) = Max (insert a (set xs))"
  using Max.set_eq_fold [of a xs] by simp

lemma severity_rank_max: "severity_rank (max a b) = max (severity_rank a) (severity_rank b)"
  by (auto simp: max_def less_eq_severity_def)

lemma calculateSeverity_Max:
  assumes "signals \<noteq> []"
  shows "calculateSeverity signals = Max (sg_severity ` set signals)"
proof -
  let ?M = "Max (sg_severity ` set signals)"
  have in_M: "?M \<in> sg_severity ` set signals" using assms by (intro Max_in) auto
  have "fold max (map (\<lambda>s. severity_rank (sg_severity s)) signals) 0 = severity_rank ?M"
    unfolding fold_max_Max
  proof (rule Max_eqI)
    show "severity_rank ?M \<in> insert 0 (set (map (\<lambda>s. severity_rank (sg_severity s)) signals))"
      using in_M by auto
  next
    fix y assume "y \<in> insert 0 (set (map (\<lambda>s. severity_rank (sg_severity s)) signals))"
    then show "y \<le> severity_rank ?M"
      by (auto simp flip: less_eq_severity_def)
  qed simp
  then show ?thesis
    unfolding calculateSeverity_def Let_def by (cases ?M) simp_all
qed

section \<open>Campaigns\<close>

lemma meta_fingerprint_guard: "meta_fingerprint c = Some fp \<Longrightarrow> isCampaignMetadata c"
  by (cases c) (auto simp: meta_fingerprint_def split: option.splits Option.bind_splits)

lemma campaign_fold_get:
  "jm_get (foldl (\<lambda>m c. if isCampaignMetadata (cd_metadata c)
       then (case meta_fingerprint (cd_metadata c) of
               Some fp \<Rightarrow> if fp \<noteq> '''' \<and> fp \<in> set fps then jm_set fp c m else m
             | None \<Rightarrow> m)
       else m) m cs) fp =
     (case List.find (\<lambda>c. fp \<noteq> '''' \<and> fp \<in> set fps \<and> meta_fingerprint (cd_metadata c) = Some fp) (rev cs) of
        Some c \<Rightarrow> Some c | None \<Rightarrow> jm_get m fp)"
proof (induction cs rule: rev_induct)
  case (snoc c cs)
  then show ?case
    by (cases "meta_fingerprint (cd_metadata c)") (auto simp: meta_fingerprint_guard)
qed simp

lemma findExistingCampaignsBatch_get:
  assumes "findExistingCampaignsBatch env w fps = Some m" and "ce_findActive env w = Some cs"
    and "fp \<in> set fps" and "fp \<noteq> ''''"
  shows "jm_get m fp = List.find (\<lambda>c. meta_fingerprint (cd_metadata c) = Some fp) (rev cs)"
proof -
  from assms(3) have "fps \<noteq> []" by auto
  with assms(1,2) have "m = foldl (\<lambda>m c. if isCampaignMetadata (cd_metadata c)
       then (case meta_fingerprint (cd_metadata c) of
               Some fp \<Rightarrow> if fp \<noteq> '''' \<and> fp \<in> set fps then jm_set fp c m else m
             | None \<Rightarrow> m)
       else m) [] cs"
    by (simp add: findExistingCampaignsBatch_def)
  then show ?thesis
    using assms(3,4) by (simp only: campaign_fold_get) (simp split: option.split)
qed

lemma batch_bounds:
  assumes "length (ss_history st) \<le> MAX_HISTORY_SIZE" and "conf \<le> 1"
  shows "conf \<le> bo_confidence (processSignalBatch clock gen st signals conf sev)"
    and "bo_confidence (processSignalBatch clock gen st signals conf sev) \<le> 1"
    and "sev \<le> bo_severity (processSignalBatch clock gen st signals conf sev)"
    and "length (ss_history (bo_state (processSignalBatch clock gen st signals conf sev))) \<le> MAX_HISTORY_SIZE"
  using processSignalBatch_mono_aux [of "\<lparr> bo_state = st, bo_confidence = conf, bo_severity = sev \<rparr>"
      "processSignalBatch clock gen st signals conf sev" clock gen "enumerate 0 signals"] assms
  by (simp_all add: processSignalBatch_def)

lemma batch_step_severity: "bo_severity (batch_step now gen signal b) \<in> {bo_severity b, CRITICAL}"
proof -
  have "e = CRITICAL" if "find_transition cur sig = Some r" "tr_escalation r = Some e" for cur sig r e
    using that by (auto simp: find_transition_def TRANSITIONS_def split: option.splits if_splits)
  then have "e = CRITICAL" if "pr_severityEscalation (processSignal now gen (bo_state b) signal) = Some e" for e
    using that by (auto simp: processSignal_def Let_def split: option.splits if_splits Option.bind_splits)
  then show ?thesis
    by (auto simp: batch_step_def Let_def split: option.splits)
qed

lemma batch_fold_severity:
  "bo_severity (fold (\<lambda>(i, signal). batch_step (clock i) (gen i) signal) ps b) \<in> {bo_severity b, CRITICAL}"
proof (induction ps arbitrary: b)
  case (Cons p ps)
  show ?case
    using Cons.IH [of "batch_step (clock (fst p)) (gen (fst p)) (snd p) b"]
      batch_step_severity [of "clock (fst p)" "gen (fst p)" "snd p" b]
    by (auto simp: case_prod_beta)
qed simp

lemma batch_severity:
  "bo_severity (processSignalBatch clock gen st signals conf sev) \<in> {sev, CRITICAL}"
  using batch_fold_severity [of clock gen "enumerate 0 signals" "\<lparr> bo_state = st, bo_confidence = conf, bo_severity = sev \<rparr>"]
  by (simp add: processSignalBatch_def)

section \<open>Properties\<close>

text \<open>The calls of the environment succeed.\<close>

definition env_ok :: "'w correlator_env \<Rightarrow> bool" where
  "env_ok env \<longleftrightarrow>
     (\<forall>w. ce_findActive env w \<noteq> None) \<and> (\<forall>w d. snd (ce_create env w d) \<noteq> None) \<and>
     (\<forall>w i u. snd (ce_update env w i u) \<noteq> None) \<and> (\<forall>w c xs. snd (ce_onCampaignDetected env w c xs))"

definition signal_ids :: "enriched_signal list \<Rightarrow> string list" where
  "signal_ids xs = map (\<lambda>s. the (es_id s)) (filter (\<lambda>s. str_truthy (es_id s)) xs)"

lemma correlateFingerprint_ok:
  assumes "env_ok env"
  shows "\<exists>w' i. correlateFingerprint env fp xs n existing w =
    (w', Some \<lparr> cr_isCampaign = True, cr_campaignId = Some i, cr_confidence = calculateConfidence xs,
                cr_signals = signal_ids xs \<rparr>)"
proof -
  have notify: "\<exists>w'. ce_onCampaignDetected env v c xs = (w', True)" for v c
    using assms unfolding env_ok_def by (metis (full_types) prod.collapse)
  have create: "\<exists>w' c. createCampaign env fp xs n w = (w', Some c)"
  proof -
    obtain w' r where r: "ce_create env w (campaign_create_data env fp xs n) = (w', r)" by fastforce
    then have "r \<noteq> None" using assms unfolding env_ok_def by (metis snd_conv)
    then show ?thesis by (auto simp: createCampaign_def r)
  qed
  have update: "\<exists>w'. updateCampaign env (cp_id c) xs n c w = (w', True)" for c
  proof -
    obtain w' r where r: "ce_update env w (cp_id c) (campaign_update_data env xs n c) = (w', r)" by fastforce
    then have "r \<noteq> None" using assms unfolding env_ok_def by (metis snd_conv)
    then show ?thesis by (auto simp: updateCampaign_def r)
  qed
  show ?thesis
  proof (cases existing)
    case None
    from create obtain w1 c where "createCampaign env fp xs n w = (w1, Some c)" by blast
    moreover from notify obtain w2 where "ce_onCampaignDetected env w1 c xs = (w2, True)" by blast
    ultimately show ?thesis using None by (simp add: correlateFingerprint_def signal_ids_def)
  next
    case (Some c)
    from update obtain w1 where "updateCampaign env (cp_id c) xs n c w = (w1, True)" by blast
    moreover from notify obtain w2 where "ce_onCampaignDetected env w1 c xs = (w2, True)" by blast
    ultimately show ?thesis using Some by (simp add: correlateFingerprint_def signal_ids_def)
  qed
qed

lemma correlate_all_ok:
  assumes "env_ok env"
  shows "\<exists>w' rs. correlate_all env existing groups w = (w', rs) \<and>
    map cr_signals rs = map (\<lambda>(fp, xs, n). signal_ids xs) groups \<and>
    map cr_confidence rs = map (\<lambda>(fp, xs, n). calculateConfidence xs) groups \<and> list_all cr_isCampaign rs"
proof (induction groups arbitrary: w)
  case (Cons g groups)
  obtain fp xs n where g: "g = (fp, xs, n)" by (cases g)
  obtain w1 i where 1: "correlateFingerprint env fp xs n (jm_get existing fp) w =
      (w1, Some \<lparr> cr_isCampaign = True, cr_campaignId = Some i, cr_confidence = calculateConfidence xs,
                  cr_signals = signal_ids xs \<rparr>)"
    using correlateFingerprint_ok [OF assms] by blast
  from Cons.IH [of w1] show ?case by (auto simp: g 1)
qed simp

text \<open>A campaign table held in a list, for the concrete inputs below.\<close>

definition apply_update :: "campaign_update \<Rightarrow> campaign \<Rightarrow> campaign" where
  "apply_update u c = c\<lparr> cd_lastActivityAt := cu_lastActivityAt u, cd_tenantsAffected := cu_tenantsAffected u,
     cd_confidence := cu_confidence u, cd_severity := cu_severity u, cd_metadata := cu_metadata u \<rparr>"

definition table_env :: "campaign list correlator_env" where
  "table_env =
     \<lparr> ce_findActive = (\<lambda>w. Some (filter (\<lambda>c. cd_status c = ACTIVE \<and> cd_isCrossTenant c) w)),
       ce_create = (\<lambda>w d. (let c = campaign_data.extend d \<lparr> cp_id = show_nat (length w), cp_tenantId = None \<rparr>
                          in (w @ [c], Some c))),
       ce_update = (\<lambda>w i u. (map (\<lambda>c. if cp_id c = i then apply_update u c else c) w,
                            map_option (apply_update u) (List.find (\<lambda>c. cp_id c = i) w))),
       ce_onCampaignDetected = (\<lambda>w c xs. (w, True)), ce_clickhouseEnabled = False,
       ce_insertCampaignEvent = (\<lambda>w r. w), ce_now = 0, ce_clock = (\<lambda>i. int i), ce_gen = (\<lambda>i. ''g'') \<rparr>"

definition sample_campaign :: "string \<Rightarrow> campaign" where
  "sample_campaign i = campaign_data.extend (campaign_create_data table_env ''f'' [] 5) \<lparr> cp_id = i, cp_tenantId = None \<rparr>"

definition ok_env :: "campaign list correlator_env" where
  "ok_env = table_env\<lparr> ce_update := (\<lambda>w i u. (w, Some (apply_update u (sample_campaign i)))) \<rparr>"

definition sample_batch :: "enriched_signal list" where
  "sample_batch = [sample_signal ''BOT_SIGNATURE'' ''t1'' (Some ''f''), sample_signal ''IP_THREAT'' ''t2'' (Some ''f''),
     sample_signal ''IP_THREAT'' ''t1'' (Some ''h'')]"

lemma ok_env_ok: "env_ok ok_env"
  by (simp add: env_ok_def ok_env_def table_env_def Let_def)

lemma sample_shared: "shared_fingerprints sample_batch = {''f''}"
  by (auto simp: shared_fingerprints_def sample_batch_def sample_signal_def)

text \<open>
  C17: While the database and the broadcaster answer, a batch yields exactly one campaign result for
  each fingerprint that at least two tenants reported, and none for any other fingerprint; the result
  lists the ids of exactly the signals with that fingerprint, in order.
\<close>

theorem analyzeSignals_one_campaign_per_shared_fingerprint:
  assumes "env_ok env"
  shows "\<exists>w' rs fps. analyzeSignals env signals w = (w', Some rs) \<and> distinct fps \<and>
    set fps = shared_fingerprints signals \<and> list_all cr_isCampaign rs \<and>
    map cr_signals rs = map (\<lambda>fp. signal_ids (of_fingerprint fp signals)) fps \<and>
    map cr_confidence rs = map (\<lambda>fp. calculateConfidence (of_fingerprint fp signals)) fps"
proof (cases "signals = [] \<or> crossTenantFingerprints signals = []")
  case True
  then have "crossTenantFingerprints signals = []"
    by (auto simp: crossTenantFingerprints_def groupByAnonFingerprint_def)
  then have "analyzeSignals env signals w = (w, Some []) \<and> set [] = shared_fingerprints signals"
    using cross_fingerprints [of signals] by (simp add: analyzeSignals_def)
  then show ?thesis by (intro exI [of _ w] exI [of _ "[]"]) simp
next
  case False
  let ?cross = "crossTenantFingerprints signals"
  from assms obtain cs where "ce_findActive env w = Some cs" unfolding env_ok_def by blast
  then obtain existing where ex: "findExistingCampaignsBatch env w (map fst ?cross) = Some existing"
    using False by (cases "findExistingCampaignsBatch env w (map fst ?cross)") (auto simp: findExistingCampaignsBatch_def)
  obtain w' rs where rs: "correlate_all env existing ?cross w = (w', rs)"
      "map cr_signals rs = map (\<lambda>(fp, xs, n). signal_ids xs) ?cross"
      "map cr_confidence rs = map (\<lambda>(fp, xs, n). calculateConfidence xs) ?cross" "list_all cr_isCampaign rs"
    using correlate_all_ok [OF assms] by blast

  have sigs: "map cr_signals rs = map (\<lambda>fp. signal_ids (of_fingerprint fp signals)) (map fst ?cross)"
    unfolding rs(2) map_map comp_def by (rule map_cong [OF refl]) (auto simp: cross_iff)
  have confs: "map cr_confidence rs = map (\<lambda>fp. calculateConfidence (of_fingerprint fp signals)) (map fst ?cross)"
    unfolding rs(3) map_map comp_def by (rule map_cong [OF refl]) (auto simp: cross_iff)
  from rs(1,4) sigs confs False ex show ?thesis
    by (intro exI [of _ w'] exI [of _ rs] exI [of _ "map fst ?cross"])
      (simp add: analyzeSignals_def Let_def cross_distinct flip: cross_fingerprints)
qed

theorem analyzeSignals_one_campaign_per_shared_fingerprint_witness:
  "\<exists>w' r. analyzeSignals ok_env sample_batch [] = (w', Some [r])"
  using analyzeSignals_one_campaign_per_shared_fingerprint [OF ok_env_ok, of sample_batch "[]"]
  unfolding sample_shared
proof (elim exE conjE)
  fix w' rs fps
  assume a: "analyzeSignals ok_env sample_batch [] = (w', Some rs)" "distinct fps" "set fps = {''f''}"
    and m: "map cr_signals rs = map (\<lambda>fp. signal_ids (of_fingerprint fp sample_batch)) fps"
  have "length rs = length fps" using arg_cong [OF m, of length] by simp
  also have "length fps = 1" using distinct_card [OF a(2)] a(3) by simp
  finally show ?thesis using a(1) by (auto simp: length_Suc_conv)
qed

lemma analyzeSignals_no_sharing:
  "shared_fingerprints signals = {} \<Longrightarrow> analyzeSignals env signals w = (w, Some [])"
  using cross_fingerprints [of signals] by (simp add: analyzeSignals_def)

text \<open>
  A batch in which no fingerprint is shared by two tenants touches nothing: no lookup result is
  used, no campaign is created or updated, nothing is broadcast and the result is empty, whatever the
  database does.
\<close>

theorem analyzeSignals_silent_without_sharing:
  assumes "shared_fingerprints signals = {}"
  shows "analyzeSignals env signals w = (w, Some [])"
  by (rule analyzeSignals_no_sharing [OF assms])

theorem analyzeSignals_silent_without_sharing_witness:
  "analyzeSignals table_env [sample_signal ''IP_THREAT'' ''t1'' (Some ''f''), sample_signal ''IP_THREAT'' ''t1'' (Some ''f'')] []
     = ([], Some [])"
  by (rule analyzeSignals_silent_without_sharing) (simp add: shared_fingerprints_def sample_signal_def)

lemma cross_signals_nonempty: "(fp, xs, n) \<in> set (crossTenantFingerprints signals) \<Longrightarrow> xs \<noteq> []"
  unfolding cross_iff by auto

text \<open>
  A new campaign starts with a confidence between 0.75 and 1 when the confidences of the signals
  are between 0 and 1. Its severity is the highest severity among its signals, or \<^verbatim>\<open>CRITICAL\<close> when the
  batch itself walks from exploitation to exfiltration.
\<close>

theorem new_campaign_scores:
  assumes "(fp, xs, n) \<in> set (crossTenantFingerprints signals)"
    and "\<forall>s \<in> set signals. 0 \<le> sg_confidence s \<and> sg_confidence s \<le> 1"
    and "d = campaign_create_data env fp xs n"
  shows "75/100 \<le> cd_confidence d \<and> cd_confidence d \<le> 1 \<and>
    Max (sg_severity ` set xs) \<le> cd_severity d \<and>
    cd_severity d \<in> {Max (sg_severity ` set xs), CRITICAL} \<and>
    cd_tenantsAffected d = card (sg_tenantId ` set xs) \<and> 2 \<le> cd_tenantsAffected d"
proof -
  have xs: "xs = of_fingerprint fp signals" and n: "n = card (sg_tenantId ` set xs)" "2 \<le> n"
    using assms(1) by (auto simp: cross_iff)
  have "\<forall>s \<in> set xs. 0 \<le> sg_confidence s \<and> sg_confidence s \<le> 1"
    using assms(2) xs by simp
  from calculateConfidence_bounds [OF this]
  have conf: "75/100 \<le> calculateConfidence xs" "calculateConfidence xs \<le> 1" by simp_all
  have sev: "calculateSeverity xs = Max (sg_severity ` set xs)"
    by (rule calculateSeverity_Max [OF cross_signals_nonempty [OF assms(1)]])
  have "length (ss_history empty_sequence) \<le> MAX_HISTORY_SIZE" by (simp add: empty_sequence_def)
  from batch_bounds(1-3) [OF this conf(2), where clock = "ce_clock env" and gen = "ce_gen env" and signals = xs
        and sev = "calculateSeverity xs"]
    batch_severity [of "ce_clock env" "ce_gen env" empty_sequence xs "calculateConfidence xs" "calculateSeverity xs"]
  show ?thesis
    using conf n assms(3) unfolding sev by (simp add: campaign_create_data_def Let_def sev)
qed

lemma sample_cross:
  "(''f'', of_fingerprint ''f'' sample_batch, 2) \<in> set (crossTenantFingerprints sample_batch)"
  by code_simp

lemma sample_confidences: "\<forall>s \<in> set sample_batch. 0 \<le> sg_confidence s \<and> sg_confidence s \<le> 1"
  by (simp add: sample_batch_def sample_signal_def)

theorem new_campaign_scores_witness:
  "75/100 \<le> cd_confidence (campaign_create_data table_env ''f'' (of_fingerprint ''f'' sample_batch) 2)"
  using new_campaign_scores [OF sample_cross sample_confidences refl, of table_env] by (rule conjunct1)

lemma find_SomeD: "List.find P xs = Some x \<Longrightarrow> P x \<and> x \<in> set xs"
  by (induction xs) (auto split: if_splits)

lemma campaign_meta_found:
  assumes "meta_fingerprint (cd_metadata c) = Some fp"
  shows "\<exists>m. cd_metadata c = MetaObject m \<and> campaign_meta (cd_metadata c) = m \<and>
    Option.bind (cm_anonFingerprint m) json_string = Some fp"
  using assms meta_fingerprint_guard [OF assms]
  by (cases "cd_metadata c") (auto simp: meta_fingerprint_def campaign_meta_def)

text \<open>
  The running campaign of a fingerprint is found and kept up to date: the batch lookup returns the
  last active campaign with that fingerprint; updating it never lowers its confidence or severity, adds
  the batch to its signal count, and writes back the same fingerprint, so the next batch finds it again.
\<close>

theorem campaign_update_is_found_again:
  assumes "findExistingCampaignsBatch env w fps = Some m" and "ce_findActive env w = Some cs"
    and "fp \<in> set fps" and "fp \<noteq> ''''" and "jm_get m fp = Some c"
    and "cd_confidence c \<le> 1"
    and "\<forall>st. cm_sequenceState (campaign_meta (cd_metadata c)) = Some st \<longrightarrow> length (ss_history st) \<le> MAX_HISTORY_SIZE"
    and "c' = apply_update (campaign_update_data env xs n c) c"
  shows "c \<in> set cs \<and> meta_fingerprint (cd_metadata c') = Some fp \<and> isCampaignMetadata (cd_metadata c') \<and>
    cd_confidence c \<le> cd_confidence c' \<and> cd_confidence c' \<le> 1 \<and> cd_severity c \<le> cd_severity c' \<and>
    (\<exists>st. cm_sequenceState (campaign_meta (cd_metadata c')) = Some st \<and> length (ss_history st) \<le> MAX_HISTORY_SIZE) \<and>
    cm_signalCount (campaign_meta (cd_metadata c')) =
      Some ((case cm_signalCount (campaign_meta (cd_metadata c)) of None \<Rightarrow> 0 | Some k \<Rightarrow> k) + length xs)"
proof -
  have "List.find (\<lambda>c. meta_fingerprint (cd_metadata c) = Some fp) (rev cs) = Some c"
    using findExistingCampaignsBatch_get [OF assms(1-4)] assms(5) by simp
  then have c: "c \<in> set cs" "meta_fingerprint (cd_metadata c) = Some fp"
    using find_SomeD [of _ "rev cs" c] by auto
  then obtain md where md: "cd_metadata c = MetaObject md" "campaign_meta (cd_metadata c) = md"
      "Option.bind (cm_anonFingerprint md) json_string = Some fp"
    using campaign_meta_found by blast
  let ?st = "case cm_sequenceState md of None \<Rightarrow> empty_sequence | Some s \<Rightarrow> s"
  have "length (ss_history ?st) \<le> MAX_HISTORY_SIZE"
    using assms(7) md(2) by (simp add: empty_sequence_def split: option.split)
  note b = batch_bounds [OF this assms(6), where clock = "ce_clock env" and gen = "ce_gen env" and signals = xs
      and sev = "cd_severity c"]
  have fp': "meta_fingerprint (cd_metadata c') = Some fp"
    using md assms(8) by (simp add: apply_update_def campaign_update_data_def Let_def meta_fingerprint_def)
  have "campaign_meta (cd_metadata c') = m2" if "cd_metadata c' = MetaObject m2" for m2
    using campaign_meta_found [OF fp'] that by auto
  then have m': "campaign_meta (cd_metadata c') =
      (case cu_metadata (campaign_update_data env xs n c) of MetaObject m2 \<Rightarrow> m2 | _ \<Rightarrow> md)"
    using assms(8) by (simp add: apply_update_def campaign_update_data_def Let_def)
  show ?thesis
    using c(1) fp' meta_fingerprint_guard [OF fp'] b assms(8) md(2) unfolding m'
    by (simp add: apply_update_def campaign_update_data_def Let_def)
qed

definition sample_table :: "campaign list" where
  "sample_table = fst (createCampaign table_env ''f'' (of_fingerprint ''f'' sample_batch) 2 [])"

lemma sample_table_eq: "sample_table = [campaign_data.extend
    (campaign_create_data table_env ''f'' (of_fingerprint ''f'' sample_batch) 2) \<lparr> cp_id = show_nat 0, cp_tenantId = None \<rparr>]"
  by (simp add: sample_table_def createCampaign_def table_env_def Let_def logCampaignEvent_def del: show_nat.simps)

theorem campaign_update_is_found_again_witness:
  "\<exists>m c c'. findExistingCampaignsBatch table_env sample_table [''f''] = Some m \<and> jm_get m ''f'' = Some c \<and>
     c' = apply_update (campaign_update_data table_env sample_batch 2 c) c \<and> meta_fingerprint (cd_metadata c') = Some ''f''"
proof -
  define c where "c = hd sample_table"
  have t: "sample_table = [c]" by (simp add: c_def sample_table_eq)
  have c: "cd_status c = ACTIVE" "cd_isCrossTenant c" "cd_metadata c =
      cd_metadata (campaign_create_data table_env ''f'' (of_fingerprint ''f'' sample_batch) 2)"
    "cd_confidence c = cd_confidence (campaign_create_data table_env ''f'' (of_fingerprint ''f'' sample_batch) 2)"
    by (simp_all add: c_def sample_table_eq campaign_data.defs campaign_create_data_def Let_def)
  have active: "ce_findActive table_env sample_table = Some [c]"
    using c(1,2) unfolding t by (simp add: table_env_def)
  have fp: "meta_fingerprint (cd_metadata c) = Some ''f''"
    by (simp add: c campaign_create_data_def Let_def meta_fingerprint_def)
  have found: "findExistingCampaignsBatch table_env sample_table [''f''] = Some [(''f'', c)]"
    using active fp meta_fingerprint_guard [OF fp] by (simp add: findExistingCampaignsBatch_def)
  have conf: "cd_confidence c \<le> 1"
    using batch_bounds(2) [of empty_sequence "calculateConfidence (of_fingerprint ''f'' sample_batch)" "ce_clock table_env"
        "ce_gen table_env" "of_fingerprint ''f'' sample_batch" "calculateSeverity (of_fingerprint ''f'' sample_batch)"]
      calculateConfidence_bounds [of "of_fingerprint ''f'' sample_batch"] sample_confidences
    by (simp add: c campaign_create_data_def Let_def empty_sequence_def)
  have hist: "\<forall>st. cm_sequenceState (campaign_meta (cd_metadata c)) = Some st \<longrightarrow> length (ss_history st) \<le> MAX_HISTORY_SIZE"
    using batch_bounds(4) [of empty_sequence "calculateConfidence (of_fingerprint ''f'' sample_batch)" "ce_clock table_env"
        "ce_gen table_env" "of_fingerprint ''f'' sample_batch" "calculateSeverity (of_fingerprint ''f'' sample_batch)"]
      calculateConfidence_bounds [of "of_fingerprint ''f'' sample_batch"] sample_confidences
    by (simp add: c campaign_create_data_def Let_def empty_sequence_def campaign_meta_def)
  show ?thesis
    using campaign_update_is_found_again [OF found active _ _ _ conf hist refl, of "''f''" sample_batch 2] found by auto
qed

text \<open>
  An update writes the number of tenants of the current batch over the number that the campaign had
  affected: a campaign that affected five tenants is reported with two after a batch from two of them.
\<close>

theorem updateCampaign_forgets_tenants:
  "cd_tenantsAffected (sample_campaign i) = 5 \<and>
   cd_tenantsAffected (apply_update (campaign_update_data env (of_fingerprint ''f'' sample_batch)
      (tenant_count (of_fingerprint ''f'' sample_batch)) (sample_campaign i)) (sample_campaign i)) = 2"
proof -
  have "tenant_count (of_fingerprint ''f'' sample_batch) = 2" by code_simp
  then show ?thesis
    by (simp add: sample_campaign_def campaign_data.defs campaign_create_data_def Let_def apply_update_def
        campaign_update_data_def)
qed

end
