(* ===== verification/Aggregator.thy ===== *)
theory Aggregator
  imports Correlator Replay_Protection
begin

text \<open>
  Signal ingestion (\<^verbatim>\<open>api/src/services/aggregator/index.ts\<close>): the bounded queue with its
  back-pressure, the flush of a batch with deduplication, retry and dropping, and the storage of one
  signal with the idempotency check, the sharing policy and the side writes. A running flush is
  suspended at its awaits: its local variables are the record \<open>flight\<close>, and each completed
  await is one event of the state machine. Dropped signals are those of the code's
  \<^verbatim>\<open>signalsDroppedTotal\<close> branches; the model keeps them in a ghost list.
\<close>

section \<open>Configuration and state\<close>

record aggregator_config =
  ac_batchSize :: nat
  ac_maxQueueSize :: nat
  ac_maxRetries :: nat

definition DEFAULT_MAX_QUEUE_SIZE :: nat where
  "DEFAULT_MAX_QUEUE_SIZE = 10000"

definition DEFAULT_MAX_RETRIES :: nat where
  "DEFAULT_MAX_RETRIES = 3"

definition BUFFER_PRESSURE_THRESHOLD :: rat where
  "BUFFER_PRESSURE_THRESHOLD = 8/10"

datatype queue_reason = Queued | Queue_full | Flushing

record queue_result =
  qr_accepted :: bool
  qr_reason :: queue_reason
  qr_queueSize :: nat

record flight =
  fl_batch :: "incoming_signal list"
  fl_deduped :: "incoming_signal list"
  fl_stored :: "enriched_signal list"

record aggregator =
  ag_batchTimer :: bool
  ag_signalBatch :: "incoming_signal list"
  ag_isFlushing :: bool
  ag_retryQueue :: "incoming_signal list"
  ag_retryCount :: nat
  ag_flight :: "flight option"
  ag_warnings :: nat
  ag_droppedQueueFull :: nat
  ag_droppedMaxRetries :: nat
  ag_droppedOverflow :: nat
  ag_lost :: "incoming_signal list"

definition aggregator_config_of :: "nat \<Rightarrow> nat option \<Rightarrow> nat option \<Rightarrow> aggregator_config" where
  "aggregator_config_of batchSize maxQueueSize maxRetries =
     \<lparr> ac_batchSize = batchSize,
       ac_maxQueueSize = (case maxQueueSize of None \<Rightarrow> DEFAULT_MAX_QUEUE_SIZE | Some n \<Rightarrow> n),
       ac_maxRetries = (case maxRetries of None \<Rightarrow> DEFAULT_MAX_RETRIES | Some n \<Rightarrow> n) \<rparr>"

definition aggregator_new :: aggregator where
  "aggregator_new =
     \<lparr> ag_batchTimer = True, ag_signalBatch = [], ag_isFlushing = False, ag_retryQueue = [],
       ag_retryCount = 0, ag_flight = None, ag_warnings = 0, ag_droppedQueueFull = 0,
       ag_droppedMaxRetries = 0, ag_droppedOverflow = 0, ag_lost = [] \<rparr>"

section \<open>Deduplication\<close>

fun severityRank :: "severity \<Rightarrow> nat" where
  "severityRank LOW = 25"
| "severityRank MEDIUM = 50"
| "severityRank HIGH = 75"
| "severityRank CRITICAL = 100"

definition buildDedupeKey :: "incoming_signal \<Rightarrow> string" where
  "buildDedupeKey signal =
     (let base = sg_signalType signal @ '':'' in
      if str_truthy (sg_sourceIp signal) then base @ the (sg_sourceIp signal)
      else if str_truthy (sg_fingerprint signal) then base @ the (sg_fingerprint signal)
      else
        (case (if sg_signalType signal = ''TEMPLATE_DISCOVERY'' \<or> sg_signalType signal = ''SCHEMA_VIOLATION''
               then meta_get (sg_metadata signal) ''template'' else None) of
           Some (JStr t) \<Rightarrow> if t \<noteq> '''' then base @ ''template:'' @ t else base @ ''unknown''
         | _ \<Rightarrow> base @ ''unknown''))"

definition event_count :: "'a incoming_signal_scheme \<Rightarrow> nat" where
  "event_count signal = (case sg_eventCount signal of None \<Rightarrow> 1 | Some n \<Rightarrow> n)"

definition merge_signal :: "incoming_signal \<Rightarrow> incoming_signal \<Rightarrow> incoming_signal" where
  "merge_signal existing signal =
     existing\<lparr> sg_eventCount := Some (event_count existing + event_count signal),
       sg_severity := (if severityRank (sg_severity existing) < severityRank (sg_severity signal)
                       then sg_severity signal else sg_severity existing) \<rparr>"

definition dedupe_step ::
  "(string, incoming_signal) jsmap \<Rightarrow> incoming_signal \<Rightarrow> (string, incoming_signal) jsmap" where
  "dedupe_step seen signal =
     (let key = buildDedupeKey signal in
      case jm_get seen key of
        Some existing \<Rightarrow> jm_set key (merge_signal existing signal) seen
      | None \<Rightarrow> jm_set key (signal\<lparr> sg_eventCount := Some (event_count signal) \<rparr>) seen)"

definition deduplicateSignals :: "incoming_signal list \<Rightarrow> incoming_signal list" where
  "deduplicateSignals signals = jm_values (foldl dedupe_step [] signals)"

section \<open>The queue and the flush\<close>

text \<open>
  \<^verbatim>\<open>flushBatch\<close> up to its first await: the early returns, the snapshot of both queues and the
  deduplication.
\<close>

definition flushBatch :: "aggregator \<Rightarrow> aggregator" where
  "flushBatch s =
     (if ag_signalBatch s = [] \<and> ag_retryQueue s = [] then s
      else if ag_isFlushing s then s
      else
        (let batch = ag_signalBatch s @ ag_retryQueue s
         in s\<lparr> ag_isFlushing := True, ag_signalBatch := [], ag_retryQueue := [],
               ag_flight := Some \<lparr> fl_batch = batch, fl_deduped = deduplicateSignals batch, fl_stored = [] \<rparr> \<rparr>))"

definition warnPressure :: "aggregator_config \<Rightarrow> nat \<Rightarrow> aggregator \<Rightarrow> aggregator" where
  "warnPressure c currentSize s =
     (let utilization = of_nat currentSize / (of_nat (ac_maxQueueSize c) :: rat)
      in if BUFFER_PRESSURE_THRESHOLD \<le> utilization then s\<lparr> ag_warnings := ag_warnings s + 1 \<rparr> else s)"

definition queueSignal :: "aggregator_config \<Rightarrow> incoming_signal \<Rightarrow> aggregator \<Rightarrow> aggregator \<times> queue_result" where
  "queueSignal c signal s =
     (let currentSize = length (ag_signalBatch s) + length (ag_retryQueue s) in
      if ac_maxQueueSize c \<le> currentSize
      then (s\<lparr> ag_droppedQueueFull := ag_droppedQueueFull s + 1 \<rparr>,
            \<lparr> qr_accepted = False, qr_reason = Queue_full, qr_queueSize = currentSize \<rparr>)
      else
        (let s1 = warnPressure c currentSize s
         in if ag_isFlushing s1
            then (s1\<lparr> ag_retryQueue := ag_retryQueue s1 @ [signal] \<rparr>,
                  \<lparr> qr_accepted = True, qr_reason = Flushing, qr_queueSize = currentSize + 1 \<rparr>)
            else
              (let s2 = s1\<lparr> ag_signalBatch := ag_signalBatch s1 @ [signal] \<rparr>;
                   s3 = (if ac_batchSize c \<le> length (ag_signalBatch s2) then flushBatch s2 else s2)
               in (s3, \<lparr> qr_accepted = True, qr_reason = Queued, qr_queueSize = length (ag_signalBatch s3) \<rparr>))))"

text \<open>The await of \<^verbatim>\<open>storeSignal\<close> for the next signal of the batch returns.\<close>

definition flush_stored :: "enriched_signal \<Rightarrow> aggregator \<Rightarrow> aggregator" where
  "flush_stored e s =
     (case ag_flight s of
        None \<Rightarrow> s
      | Some f \<Rightarrow>
          if length (fl_stored f) < length (fl_deduped f)
          then s\<lparr> ag_flight := Some (f\<lparr> fl_stored := fl_stored f @ [e] \<rparr>) \<rparr> else s)"

text \<open>The catch and finally blocks.\<close>

definition flush_catch :: "aggregator_config \<Rightarrow> flight \<Rightarrow> aggregator \<Rightarrow> aggregator" where
  "flush_catch c f s0 =
     (let s = s0\<lparr> ag_retryCount := ag_retryCount s0 + 1 \<rparr>;
          remaining = drop (length (fl_stored f)) (deduplicateSignals (fl_batch f));
          s1 =
            (if ac_maxRetries c \<le> ag_retryCount s
             then s\<lparr> ag_droppedMaxRetries := ag_droppedMaxRetries s + (length (fl_batch f) - length (fl_stored f)),
                     ag_lost := ag_lost s @ remaining, ag_retryCount := 0 \<rparr>
             else
               (let combined = remaining @ ag_retryQueue s in
                if ac_maxQueueSize c < length combined
                then (let dropCount = length combined - ac_maxQueueSize c
                      in s\<lparr> ag_droppedOverflow := ag_droppedOverflow s + dropCount,
                            ag_lost := ag_lost s @ take dropCount combined,
                            ag_retryQueue := drop dropCount combined \<rparr>)
                else s\<lparr> ag_retryQueue := combined \<rparr>))
      in s1\<lparr> ag_isFlushing := False, ag_flight := None \<rparr>)"

text \<open>\<^verbatim>\<open>storeSignal\<close> rejects, or the correlator does once every signal is stored.\<close>

definition flush_failed :: "aggregator_config \<Rightarrow> aggregator \<Rightarrow> aggregator" where
  "flush_failed c s = (case ag_flight s of None \<Rightarrow> s | Some f \<Rightarrow> flush_catch c f s)"

text \<open>Every signal is stored and the correlator has returned.\<close>

definition flush_done :: "aggregator \<Rightarrow> aggregator" where
  "flush_done s =
     (case ag_flight s of
        None \<Rightarrow> s
      | Some f \<Rightarrow>
          if length (fl_stored f) = length (fl_deduped f)
          then s\<lparr> ag_retryCount := 0, ag_isFlushing := False, ag_flight := None \<rparr> else s)"

text \<open>\<^verbatim>\<open>stop\<close> clears the timer and starts a last flush.\<close>

definition aggregator_stop :: "aggregator \<Rightarrow> aggregator" where
  "aggregator_stop s = flushBatch (s\<lparr> ag_batchTimer := False \<rparr>)"

record aggregator_stats =
  as_queueSize :: nat
  as_retryQueueSize :: nat
  as_isFlushing :: bool
  as_retryCount :: nat

definition ag_getStats :: "aggregator \<Rightarrow> aggregator_stats" where
  "ag_getStats s =
     \<lparr> as_queueSize = length (ag_signalBatch s), as_retryQueueSize = length (ag_retryQueue s),
       as_isFlushing = ag_isFlushing s, as_retryCount = ag_retryCount s \<rparr>"

datatype aggregator_event =
  EvQueue incoming_signal | EvTimer | EvStored enriched_signal | EvFailed | EvDone | EvStop

fun ag_step :: "aggregator_config \<Rightarrow> aggregator_event \<Rightarrow> aggregator \<Rightarrow> aggregator" where
  "ag_step c (EvQueue x) s = fst (queueSignal c x s)"
| "ag_step c EvTimer s = (if ag_batchTimer s then flushBatch s else s)"
| "ag_step c (EvStored e) s = flush_stored e s"
| "ag_step c EvFailed s = flush_failed c s"
| "ag_step c EvDone s = flush_done s"
| "ag_step c EvStop s = aggregator_stop s"

inductive ag_reachable :: "aggregator_config \<Rightarrow> aggregator \<Rightarrow> bool" for c where
  ag_init: "ag_reachable c aggregator_new"
| ag_next: "ag_reachable c s \<Longrightarrow> ag_reachable c (ag_step c e s)"

section \<open>Deduplication preserves events\<close>

abbreviation weight :: "incoming_signal list \<Rightarrow> nat" where
  "weight xs \<equiv> sum_list (map event_count xs)"

abbreviation of_key :: "string \<Rightarrow> incoming_signal list \<Rightarrow> incoming_signal list" where
  "of_key k xs \<equiv> filter (\<lambda>s. buildDedupeKey s = k) xs"

lemma buildDedupeKey_update [simp]:
  "buildDedupeKey (x\<lparr> sg_eventCount := n \<rparr>) = buildDedupeKey x"
  "buildDedupeKey (x\<lparr> sg_severity := v \<rparr>) = buildDedupeKey x"
  by (simp_all add: buildDedupeKey_def Let_def cong del: if_weak_cong option.case_cong_weak)

lemma buildDedupeKey_merge [simp]: "buildDedupeKey (merge_signal x y) = buildDedupeKey x"
  by (simp add: merge_signal_def)

lemma event_count_update [simp]: "event_count (x\<lparr> sg_eventCount := Some n \<rparr>) = n"
  by (simp add: event_count_def)

lemma event_count_merge [simp]: "event_count (merge_signal x y) = event_count x + event_count y"
  by (simp add: merge_signal_def event_count_def)

lemma severityRank_less [simp]: "severityRank a < severityRank b \<longleftrightarrow> a < b"
  by (cases a; cases b) (simp_all add: less_severity_def)

lemma severity_merge [simp]: "sg_severity (merge_signal x y) = max (sg_severity x) (sg_severity y)"
  by (auto simp: merge_signal_def max_def)

lemma sum_jm_set:
  fixes f :: "'b \<Rightarrow> nat"
  shows "jm_get m k = Some v \<Longrightarrow> sum_list (map f (jm_values (jm_set k v' m))) + f v = sum_list (map f (jm_values m)) + f v'"
  by (induction m) (auto split: if_splits)

lemma jm_set_new_get: "jm_get m k = None \<Longrightarrow> jm_set k v m = m @ [(k, v)]"
  by (rule jm_set_new) (simp add: map_of_eq_None_iff)

text \<open>What holds of the map of seen signals after a prefix \<open>xs\<close> of the batch.\<close>

definition dedupe_inv :: "incoming_signal list \<Rightarrow> (string, incoming_signal) jsmap \<Rightarrow> bool" where
  "dedupe_inv xs m \<longleftrightarrow> jm_wf m \<and> set (jm_keys m) = buildDedupeKey ` set xs \<and>
     (\<forall>k x. jm_get m k = Some x \<longrightarrow> buildDedupeKey x = k \<and> event_count x = weight (of_key k xs) \<and>
        sg_severity x = Max (sg_severity ` set (of_key k xs)))"

lemma dedupe_inv_step:
  assumes "dedupe_inv xs m"
  shows "dedupe_inv (xs @ [y]) (dedupe_step m y)"
proof (cases "jm_get m (buildDedupeKey y)")
  case None
  then have no: "buildDedupeKey y \<notin> set (jm_keys m)" by (simp add: map_of_eq_None_iff)
  have "set (jm_keys m) = buildDedupeKey ` set xs" using assms unfolding dedupe_inv_def by blast
  with no have "buildDedupeKey y \<notin> buildDedupeKey ` set xs" by metis
  then have none: "of_key (buildDedupeKey y) xs = []"
    by (metis (mono_tags, lifting) filter_False imageI)
  let ?k = "buildDedupeKey y" and ?y = "y\<lparr> sg_eventCount := Some (event_count y) \<rparr>"
  have step: "dedupe_step m y = jm_set ?k ?y m" by (simp add: dedupe_step_def None)
  have own: "of_key ?k (xs @ [y]) = [y]" using none by simp
  have "set (jm_keys (jm_set ?k ?y m)) = insert ?k (set (jm_keys m))"
    unfolding jm_keys_set by auto
  then have keys: "set (jm_keys (jm_set ?k ?y m)) = buildDedupeKey ` set (xs @ [y])"
    using assms unfolding dedupe_inv_def by simp
  have vals: "buildDedupeKey x = k \<and> event_count x = weight (of_key k (xs @ [y])) \<and>
      sg_severity x = Max (sg_severity ` set (of_key k (xs @ [y])))" if "jm_get (jm_set ?k ?y m) k = Some x" for k x
  proof (cases "k = ?k")
    case True
    with that have "x = ?y" by simp
    then show ?thesis unfolding own True by simp
  next
    case False
    with that assms show ?thesis unfolding dedupe_inv_def by auto
  qed
  have "jm_wf (jm_set ?k ?y m)" using assms by (simp add: dedupe_inv_def)
  with keys vals show ?thesis unfolding dedupe_inv_def step by blast
next
  case (Some x)
  have k: "buildDedupeKey x = buildDedupeKey y" "event_count x = weight (of_key (buildDedupeKey y) xs)"
      "sg_severity x = Max (sg_severity ` set (of_key (buildDedupeKey y) xs))"
    using assms Some by (auto simp: dedupe_inv_def)
  have mem: "buildDedupeKey y \<in> set (jm_keys m)" using Some by (force dest: jm_get_in_set)
  then have ne: "sg_severity ` set (of_key (buildDedupeKey y) xs) \<noteq> {}"
    using assms by (auto simp: dedupe_inv_def)
  have keys: "set (jm_keys (jm_set (buildDedupeKey y) v m)) = set (jm_keys m)" for v
    using mem by (simp only: jm_keys_set) auto
  have sev: "Max (insert (sg_severity y) (sg_severity ` set (of_key (buildDedupeKey y) xs))) =
      max (sg_severity x) (sg_severity y)"
    using ne k(3) by (simp add: Max_insert max.commute)
  show ?thesis
    using assms mem k sev unfolding dedupe_inv_def dedupe_step_def Let_def Some option.simps keys
    by (auto simp: image_iff)
qed

lemma dedupe_fold_inv: "dedupe_inv xs (foldl dedupe_step [] xs)"
proof (induction xs rule: rev_induct)
  case Nil
  then show ?case by (simp add: dedupe_inv_def)
next
  case (snoc y xs)
  then show ?case using dedupe_inv_step by simp
qed

lemma dedupe_weight: "weight (deduplicateSignals xs) = weight xs"
  unfolding deduplicateSignals_def
proof (induction xs rule: rev_induct)
  case (snoc y xs)
  let ?m = "foldl dedupe_step [] xs"
  show ?case
  proof (cases "jm_get ?m (buildDedupeKey y)")
    case None
    then have "dedupe_step ?m y = ?m @ [(buildDedupeKey y, y\<lparr> sg_eventCount := Some (event_count y) \<rparr>)]"
      by (simp add: dedupe_step_def jm_set_new_get)
    then show ?thesis using snoc by simp
  next
    case (Some x)
    then have "dedupe_step ?m y = jm_set (buildDedupeKey y) (merge_signal x y) ?m"
      by (simp add: dedupe_step_def)
    with sum_jm_set [OF Some, of event_count "merge_signal x y"] snoc show ?thesis by simp
  qed
qed simp

lemma dedupe_length: "length (deduplicateSignals xs) \<le> length xs"
  unfolding deduplicateSignals_def
proof (induction xs rule: rev_induct)
  case (snoc y xs)
  have "length (dedupe_step m y) \<le> Suc (length m)" for m
    by (auto simp: dedupe_step_def Let_def length_jm_set split: option.split)
  from this [of "foldl dedupe_step [] xs"] snoc show ?case by simp
qed simp

lemma dedupe_nonempty: "xs \<noteq> [] \<Longrightarrow> deduplicateSignals xs \<noteq> []"
  using dedupe_fold_inv [of xs] by (auto simp: dedupe_inv_def deduplicateSignals_def)

section \<open>Queue invariant\<close>

definition flight_ok :: "aggregator_config \<Rightarrow> flight \<Rightarrow> bool" where
  "flight_ok c f \<longleftrightarrow> fl_deduped f = deduplicateSignals (fl_batch f) \<and> fl_batch f \<noteq> [] \<and>
     length (fl_batch f) \<le> ac_maxQueueSize c \<and> length (fl_stored f) \<le> length (fl_deduped f)"

definition ag_inv :: "aggregator_config \<Rightarrow> aggregator \<Rightarrow> bool" where
  "ag_inv c s \<longleftrightarrow>
     length (ag_signalBatch s) + length (ag_retryQueue s) \<le> ac_maxQueueSize c \<and>
     (ag_isFlushing s \<longleftrightarrow> ag_flight s \<noteq> None) \<and>
     (ag_isFlushing s \<longrightarrow> ag_signalBatch s = []) \<and>
     (\<forall>f. ag_flight s = Some f \<longrightarrow> flight_ok c f)"

lemma ag_inv_new: "ag_inv c aggregator_new"
  by (simp add: ag_inv_def aggregator_new_def)

lemma flushBatch_inv [horizon_inv]: "ag_inv c s \<Longrightarrow> ag_inv c (flushBatch s)"
  by (auto simp: flushBatch_def ag_inv_def flight_ok_def Let_def)

lemma warnPressure_fields [simp]:
  "ag_signalBatch (warnPressure c n s) = ag_signalBatch s" "ag_retryQueue (warnPressure c n s) = ag_retryQueue s"
  "ag_isFlushing (warnPressure c n s) = ag_isFlushing s" "ag_flight (warnPressure c n s) = ag_flight s"
  "ag_lost (warnPressure c n s) = ag_lost s"
  by (simp_all add: warnPressure_def Let_def)

lemma queue_push_inv:
  assumes "ag_inv c s" "length (ag_signalBatch s) + length (ag_retryQueue s) < ac_maxQueueSize c" "\<not> ag_isFlushing s"
  shows "ag_inv c ((warnPressure c n s)\<lparr> ag_signalBatch := ag_signalBatch s @ [x] \<rparr>)"
  using assms by (simp add: ag_inv_def)

lemma queueSignal_cases:
  assumes "ag_inv c s"
  obtains (full) "queueSignal c x s = (s\<lparr> ag_droppedQueueFull := ag_droppedQueueFull s + 1 \<rparr>,
      \<lparr> qr_accepted = False, qr_reason = Queue_full, qr_queueSize = length (ag_signalBatch s) + length (ag_retryQueue s) \<rparr>)"
  | (flushing) n r where "queueSignal c x s = ((warnPressure c n s)\<lparr> ag_retryQueue := ag_retryQueue s @ [x] \<rparr>, r)"
      "qr_accepted r" "ag_isFlushing s" "length (ag_signalBatch s) + length (ag_retryQueue s) < ac_maxQueueSize c"
  | (queued) n r where "queueSignal c x s = ((warnPressure c n s)\<lparr> ag_signalBatch := ag_signalBatch s @ [x] \<rparr>, r)"
      "qr_accepted r" "ag_inv c ((warnPressure c n s)\<lparr> ag_signalBatch := ag_signalBatch s @ [x] \<rparr>)"
  | (flush) n r where "queueSignal c x s = (flushBatch ((warnPressure c n s)\<lparr> ag_signalBatch := ag_signalBatch s @ [x] \<rparr>), r)"
      "qr_accepted r" "ag_inv c ((warnPressure c n s)\<lparr> ag_signalBatch := ag_signalBatch s @ [x] \<rparr>)"
proof (cases "ac_maxQueueSize c \<le> length (ag_signalBatch s) + length (ag_retryQueue s)")
  case True
  then show ?thesis using full by (simp add: queueSignal_def)
next
  case False
  then have push: "\<not> ag_isFlushing s \<Longrightarrow> ag_inv c ((warnPressure c n s)\<lparr> ag_signalBatch := ag_signalBatch s @ [x] \<rparr>)" for n
    using queue_push_inv [OF assms] by simp
  show ?thesis
  proof (cases "ag_isFlushing s")
    case True
    with False show ?thesis
      by (intro flushing [where n = "length (ag_signalBatch s) + length (ag_retryQueue s)"
            and r = "\<lparr> qr_accepted = True, qr_reason = Flushing,
              qr_queueSize = length (ag_signalBatch s) + length (ag_retryQueue s) + 1 \<rparr>"])
        (simp_all add: queueSignal_def Let_def)
  next
    case nf: False
    show ?thesis
    proof (cases "ac_batchSize c \<le> Suc (length (ag_signalBatch s))")
      case True
      with False nf show ?thesis by (intro flush [OF _ _ push]) (simp_all add: queueSignal_def Let_def, simp)
    next
      case False2: False
      with False nf show ?thesis by (intro queued [OF _ _ push]) (simp_all add: queueSignal_def Let_def, simp)
    qed
  qed
qed

lemma queueSignal_inv [horizon_inv]:
  assumes "ag_inv c s"
  shows "ag_inv c (fst (queueSignal c x s))"
  using assms
proof (cases rule: queueSignal_cases [where x = x])
  case full
  with assms show ?thesis by (simp add: ag_inv_def)
next
  case (flushing n r)
  with assms show ?thesis by (simp add: ag_inv_def)
qed (simp_all add: flushBatch_inv)

lemma flush_stored_inv [horizon_inv]: "ag_inv c s \<Longrightarrow> ag_inv c (flush_stored e s)"
  by (auto simp: flush_stored_def ag_inv_def flight_ok_def split: option.splits)

lemma flush_failed_inv [horizon_inv]: "ag_inv c s \<Longrightarrow> ag_inv c (flush_failed c s)"
  by (auto simp: flush_failed_def flush_catch_def ag_inv_def Let_def split: option.splits)

lemma flush_done_inv [horizon_inv]: "ag_inv c s \<Longrightarrow> ag_inv c (flush_done s)"
  by (auto simp: flush_done_def ag_inv_def split: option.splits)

lemma ag_step_inv: "ag_inv c s \<Longrightarrow> ag_inv c (ag_step c e s)"
  by (cases e) (auto simp: aggregator_stop_def intro!: horizon_inv, simp add: ag_inv_def)

lemma ag_reachable_inv: "ag_reachable c s \<Longrightarrow> ag_inv c s"
  by (induction rule: ag_reachable.induct) (simp_all add: ag_inv_new ag_step_inv)

section \<open>Every accepted event is accounted for\<close>

definition in_flight :: "aggregator \<Rightarrow> incoming_signal list" where
  "in_flight s = (case ag_flight s of None \<Rightarrow> [] | Some f \<Rightarrow> drop (length (fl_stored f)) (fl_deduped f))"

definition held :: "aggregator \<Rightarrow> nat" where
  "held s = weight (ag_signalBatch s) + weight (ag_retryQueue s) + weight (in_flight s) + weight (ag_lost s)"

text \<open>The events that a step accepts, and the events that it stores.\<close>

fun accepted_by :: "aggregator_config \<Rightarrow> aggregator_event \<Rightarrow> aggregator \<Rightarrow> nat" where
  "accepted_by c (EvQueue x) s = (if qr_accepted (snd (queueSignal c x s)) then event_count x else 0)"
| "accepted_by c e s = 0"

fun stored_by :: "aggregator_event \<Rightarrow> aggregator \<Rightarrow> nat" where
  "stored_by (EvStored e) s = (case in_flight s of [] \<Rightarrow> 0 | x # xs \<Rightarrow> event_count x)"
| "stored_by e s = 0"

lemma flushBatch_held: "ag_inv c s \<Longrightarrow> held (flushBatch s) = held s"
  by (auto simp: flushBatch_def Let_def held_def in_flight_def dedupe_weight ag_inv_def)

lemma queue_held:
  assumes "ag_inv c s"
  shows "held (fst (queueSignal c x s)) = held s + accepted_by c (EvQueue x) s"
  using assms
proof (cases rule: queueSignal_cases [where x = x])
  case (flush n r)
  with flushBatch_held [OF flush(3)] show ?thesis by (simp add: held_def in_flight_def)
qed (simp_all add: held_def in_flight_def)

lemma drop_next: "n < length xs \<Longrightarrow> drop n xs = xs ! n # drop (Suc n) xs"
  by (rule Cons_nth_drop_Suc [symmetric])

lemma stored_held: "ag_inv c s \<Longrightarrow> held (flush_stored e s) + stored_by (EvStored e) s = held s"
  by (auto simp: flush_stored_def held_def in_flight_def drop_next Suc_le_eq split: option.split list.split)

lemma failed_held: "ag_inv c s \<Longrightarrow> held (flush_failed c s) = held s"
proof (cases "ag_flight s")
  case (Some f)
  assume "ag_inv c s"
  with Some have f: "fl_deduped f = deduplicateSignals (fl_batch f)" by (simp add: ag_inv_def flight_ok_def)
  define remaining where "remaining = drop (length (fl_stored f)) (deduplicateSignals (fl_batch f))"
  have "weight (take n xs) + weight (drop n xs) = weight xs" for n xs
    by (metis append_take_drop_id map_append sum_list_append)
  from this [of "length (remaining @ ag_retryQueue s) - ac_maxQueueSize c" "remaining @ ag_retryQueue s"] Some f
  moreover have "flush_failed c s = flush_catch c f s" using Some by (simp add: flush_failed_def)
  ultimately show ?thesis
    unfolding flush_catch_def Let_def held_def in_flight_def remaining_def [symmetric] f
    by (simp add: remaining_def [symmetric] f del: take_append drop_append length_append)
qed (simp add: flush_failed_def)

lemma done_held: "held (flush_done s) = held s"
  by (auto simp: flush_done_def held_def in_flight_def split: option.split)

lemma ag_step_held:
  "ag_inv c s \<Longrightarrow> held (ag_step c e s) + stored_by e s = held s + accepted_by c e s"
proof (cases e)
  case EvStop
  assume "ag_inv c s"
  then have "ag_inv c (s\<lparr> ag_batchTimer := False \<rparr>)" by (simp add: ag_inv_def)
  from flushBatch_held [OF this] EvStop show ?thesis
    by (simp add: aggregator_stop_def held_def in_flight_def)
next
  case (EvStored x)
  assume "ag_inv c s"
  from stored_held [OF this, of x] EvStored show ?thesis by simp
qed (simp_all add: queue_held failed_held done_held flushBatch_held)

text \<open>The totals over a run.\<close>

fun ag_totals :: "aggregator_config \<Rightarrow> aggregator_event list \<Rightarrow> aggregator \<Rightarrow> nat \<times> nat" where
  "ag_totals c [] s = (0, 0)"
| "ag_totals c (e # es) s =
     (case ag_totals c es (ag_step c e s) of (a, b) \<Rightarrow> (accepted_by c e s + a, stored_by e s + b))"

lemma ag_totals_held:
  "ag_inv c s \<Longrightarrow> ag_totals c es s = (a, b) \<Longrightarrow> held (fold (ag_step c) es s) + b = held s + a"
proof (induction es arbitrary: s a b)
  case (Cons e es)
  obtain a' b' where ab: "ag_totals c es (ag_step c e s) = (a', b')" by fastforce
  from Cons.IH [OF ag_step_inv [OF Cons.prems(1)] ab] ag_step_held [OF Cons.prems(1), of e] Cons.prems(2) ab
  show ?case by auto
qed simp

section \<open>Queue properties\<close>

text \<open>
  In every interleaving of arrivals, timer ticks, completed and failed writes, the two queues
  together never exceed \<^verbatim>\<open>maxQueueSize\<close>, the flushing flag is set exactly while a flush is running,
  new signals never enter the batch under processing, and a running flush holds one non-empty batch of
  at most \<^verbatim>\<open>maxQueueSize\<close> signals.
\<close>

theorem aggregator_queue_invariant:
  assumes "ag_reachable c s"
  shows "length (ag_signalBatch s) + length (ag_retryQueue s) \<le> ac_maxQueueSize c \<and>
    (ag_isFlushing s \<longleftrightarrow> ag_flight s \<noteq> None) \<and> (ag_isFlushing s \<longrightarrow> ag_signalBatch s = []) \<and>
    (\<forall>f. ag_flight s = Some f \<longrightarrow> fl_batch f \<noteq> [] \<and> length (fl_batch f) \<le> ac_maxQueueSize c)"
  using ag_reachable_inv [OF assms] by (auto simp: ag_inv_def flight_ok_def)

definition raw_signal :: "string \<Rightarrow> string \<Rightarrow> incoming_signal" where
  "raw_signal tenant ip =
     \<lparr> sg_signalType = ''IP_THREAT'', sg_sourceIp = Some ip, sg_fingerprint = Some ''fp'', sg_severity = HIGH,
       sg_confidence = 9/10, sg_eventCount = None, sg_metadata = None, sg_tenantId = tenant, sg_sensorId = ''s'',
       sg_requestId = None, sg_idempotencyKey = None \<rparr>"

definition sample_config :: aggregator_config where
  "sample_config = aggregator_config_of 2 (Some 3) None"

theorem aggregator_queue_invariant_witness:
  "length (ag_retryQueue (ag_step sample_config (EvQueue (raw_signal ''t'' ''1.1.1.1'')) aggregator_new)) \<le> 3"
  using aggregator_queue_invariant [OF ag_next [OF ag_init], of sample_config "EvQueue (raw_signal ''t'' ''1.1.1.1'')"]
  by (simp add: sample_config_def aggregator_config_of_def)


text \<open>
  Deduplication merges a batch by key: it yields one signal for each key, whose event count is the
  sum of the event counts and whose severity is the maximum of the severities of the signals with that
  key; nothing is left out and no key appears twice.
\<close>

theorem deduplicateSignals_merges_by_key:
  "distinct (map buildDedupeKey (deduplicateSignals xs)) \<and>
   buildDedupeKey ` set (deduplicateSignals xs) = buildDedupeKey ` set xs \<and>
   (\<forall>x \<in> set (deduplicateSignals xs).
      event_count x = weight (of_key (buildDedupeKey x) xs) \<and>
      sg_severity x = Max (sg_severity ` set (of_key (buildDedupeKey x) xs)))"
proof -
  let ?m = "foldl dedupe_step [] xs"
  have inv: "dedupe_inv xs ?m" by (rule dedupe_fold_inv)
  have val: "buildDedupeKey v = k \<and> event_count v = weight (of_key k xs) \<and>
      sg_severity v = Max (sg_severity ` set (of_key k xs))" if "(k, v) \<in> set ?m" for k v
    using inv that unfolding dedupe_inv_def by (metis in_set_jm_get)
  have keys: "map buildDedupeKey (jm_values ?m) = jm_keys ?m"
    unfolding map_map comp_def by (rule map_cong [OF refl]) (metis prod.collapse val)
  have wf: "jm_wf ?m" "set (jm_keys ?m) = buildDedupeKey ` set xs"
    using inv unfolding dedupe_inv_def by blast+
  have "\<forall>v \<in> set (jm_values ?m). event_count v = weight (of_key (buildDedupeKey v) xs) \<and>
      sg_severity v = Max (sg_severity ` set (of_key (buildDedupeKey v) xs))"
    using val by fastforce
  moreover have "buildDedupeKey ` set (jm_values ?m) = buildDedupeKey ` set xs"
    using wf(2) unfolding keys [symmetric] by (simp only: set_map)
  moreover have "distinct (map buildDedupeKey (jm_values ?m))"
    unfolding keys by (rule wf(1))
  ultimately show ?thesis
    unfolding deduplicateSignals_def by (intro conjI)
qed

theorem deduplicateSignals_merges_by_key_witness:
  "distinct (map buildDedupeKey (deduplicateSignals [raw_signal ''a'' ''1.1.1.1'', raw_signal ''a'' ''1.1.1.1'']))"
  using deduplicateSignals_merges_by_key [of "[raw_signal ''a'' ''1.1.1.1'', raw_signal ''a'' ''1.1.1.1'']"]
  by (rule conjunct1)

text \<open>
  The key does not contain the tenant. Two tenants that report the same address in one batch are
  merged into a single signal of the first tenant; the signal of the second one is not stored under its
  own tenant and its sharing policy is not consulted.
\<close>

theorem deduplicateSignals_merges_tenants:
  assumes "sg_signalType x = sg_signalType y" and "sg_sourceIp x = sg_sourceIp y" and "str_truthy (sg_sourceIp x)"
  shows "\<exists>z. deduplicateSignals [x, y] = [z] \<and> sg_tenantId z = sg_tenantId x \<and>
    sg_sensorId z = sg_sensorId x \<and> event_count z = event_count x + event_count y"
proof -
  let ?k = "buildDedupeKey x" and ?x = "x\<lparr> sg_eventCount := Some (event_count x) \<rparr>"
  have k: "buildDedupeKey y = ?k" using assms by (simp add: buildDedupeKey_def Let_def)
  have 1: "dedupe_step [] x = [(?k, ?x)]" by (simp add: dedupe_step_def Let_def)
  have "dedupe_step [(?k, ?x)] y = [(?k, merge_signal ?x y)]" by (simp add: dedupe_step_def Let_def k)
  with 1 have "deduplicateSignals [x, y] = [merge_signal ?x y]" by (simp add: deduplicateSignals_def)
  then show ?thesis by (simp add: merge_signal_def event_count_def)
qed

theorem deduplicateSignals_merges_tenants_witness:
  "\<exists>z. deduplicateSignals [raw_signal ''a'' ''1.1.1.1'', raw_signal ''b'' ''1.1.1.1''] = [z] \<and> sg_tenantId z = ''a''"
  using deduplicateSignals_merges_tenants [of "raw_signal ''a'' ''1.1.1.1''" "raw_signal ''b'' ''1.1.1.1''"]
  by (auto simp: raw_signal_def str_truthy_def)

end
