(* ===== verification/Signal_Storage.thy ===== *)
theory Signal_Storage
  imports Aggregator
begin

text \<open>
  Storage of one signal by the aggregator (\<^verbatim>\<open>api/src/services/aggregator/index.ts\<close>, \<^verbatim>\<open>storeSignal\<close> and
  its helpers): the idempotency check, the tenant's sharing policy, the database row, and the side
  writes to ClickHouse, impossible-travel detection and API discovery, which are recorded as effects in
  the order of the calls. The database, the nonce store, the hash functions and the threat service are
  the fields of an environment; a rejected promise is \<open>None\<close>.
\<close>

section \<open>Data\<close>

record idempotency_data =
  id_tenantId :: string
  id_sensorId :: string
  id_type :: string
  id_ip :: "string option"
  id_fp :: "string option"
  id_meta :: "(string, json) jsmap option"

record tenant_row =
  tn_sharingPreference :: sharing_preference
  tn_anonymizationSalt :: string

record signal_row =
  sr_tenantId :: string
  sr_sensorId :: string
  sr_signalType :: string
  sr_sourceIp :: "string option"
  sr_fingerprint :: "string option"
  sr_anonFingerprint :: "string option"
  sr_severity :: severity
  sr_confidence :: rat
  sr_eventCount :: nat
  sr_metadata :: "(string, json) jsmap"

record signal_event_row =
  ev_timestamp :: int
  ev_tenant_id :: string
  ev_sensor_id :: string
  ev_request_id :: "string option"
  ev_signal_type :: string
  ev_source_ip :: string
  ev_fingerprint :: string
  ev_anon_fingerprint :: string
  ev_severity :: severity
  ev_confidence :: rat
  ev_event_count :: nat
  ev_metadata :: "(string, json) jsmap"

text \<open>\<^verbatim>\<open>le_userId\<close> is the JSON value whose string form the code uses.\<close>

record login_event =
  le_userId :: json
  le_tenantId :: string
  le_timestamp :: int
  le_ip :: string
  le_latitude :: rat
  le_longitude :: rat
  le_city :: "string option"
  le_countryCode :: string
  le_fingerprint :: "string option"

datatype store_effect =
  ClickHouseWrite signal_event_row
| ProcessLogin login_event
| DiscoverySignal string string string "(string, json) jsmap" string

record ('w, 'n) storage_env =
  se_idempotency :: "'n check_and_add option"
  se_keyHash :: "idempotency_data \<Rightarrow> string"
  se_findFirst :: "'w \<Rightarrow> int \<Rightarrow> incoming_signal \<Rightarrow> string option option"
  se_findTenant :: "'w \<Rightarrow> string \<Rightarrow> tenant_row option option"
  se_hmac :: "string \<Rightarrow> string \<Rightarrow> string"
  se_create :: "'w \<Rightarrow> signal_row \<Rightarrow> 'w \<times> (string \<times> int) option"
  se_clickhouse :: bool
  se_impossibleTravel :: bool
  se_apiIntelligence :: bool
  se_threatScore :: "(incoming_signal \<Rightarrow> rat option) option"

record ('w, 'n) storage_state =
  st_db :: 'w
  st_nonces :: 'n
  st_effects :: "store_effect list"

section \<open>Helpers\<close>

definition generateSignalIdempotencyKey :: "('w, 'n) storage_env \<Rightarrow> incoming_signal \<Rightarrow> string" where
  "generateSignalIdempotencyKey env signal =
     se_keyHash env \<lparr> id_tenantId = sg_tenantId signal, id_sensorId = sg_sensorId signal,
       id_type = sg_signalType signal, id_ip = sg_sourceIp signal, id_fp = sg_fingerprint signal,
       id_meta = sg_metadata signal \<rparr>"

definition idempotency_key :: "('w, 'n) storage_env \<Rightarrow> incoming_signal \<Rightarrow> string" where
  "idempotency_key env signal =
     (if str_truthy (sg_idempotencyKey signal) then the (sg_idempotencyKey signal)
      else generateSignalIdempotencyKey env signal)"

definition anonymizeFingerprint :: "('w, 'n) storage_env \<Rightarrow> string \<Rightarrow> string \<Rightarrow> string" where
  "anonymizeFingerprint env fingerprint salt = se_hmac env salt fingerprint"

fun canContribute :: "sharing_preference \<Rightarrow> bool" where
  "canContribute CONTRIBUTE_AND_RECEIVE = True"
| "canContribute CONTRIBUTE_ONLY = True"
| "canContribute RECEIVE_ONLY = False"
| "canContribute ISOLATED = False"

fun json_number :: "json \<Rightarrow> rat option" where
  "json_number (JNum r) = Some r"
| "json_number v = None"

definition nullish :: "json option \<Rightarrow> bool" where
  "nullish v \<longleftrightarrow> v = None \<or> v = Some JNull"

definition extractGeoEvent :: "incoming_signal \<Rightarrow> int \<Rightarrow> login_event option" where
  "extractGeoEvent signal timestamp =
     (case sg_metadata signal of
        None \<Rightarrow> None
      | Some metadata \<Rightarrow>
          (case (Option.bind (jm_get metadata ''latitude'') json_number,
                 Option.bind (jm_get metadata ''longitude'') json_number) of
             (Some latitude, Some longitude) \<Rightarrow>
               Some \<lparr> le_userId =
                        (if \<not> nullish (jm_get metadata ''userId'') then the (jm_get metadata ''userId'')
                         else case sg_fingerprint signal of
                                Some fp \<Rightarrow> JStr fp
                              | None \<Rightarrow> (case sg_sourceIp signal of Some ip \<Rightarrow> JStr ip | None \<Rightarrow> JStr ''unknown'')),
                      le_tenantId = sg_tenantId signal, le_timestamp = timestamp,
                      le_ip = (if str_truthy (sg_sourceIp signal) then the (sg_sourceIp signal) else ''0.0.0.0''),
                      le_latitude = latitude, le_longitude = longitude,
                      le_city = Option.bind (jm_get metadata ''city'') json_string,
                      le_countryCode = (case Option.bind (jm_get metadata ''countryCode'') json_string of
                                          None \<Rightarrow> ''XX'' | Some c \<Rightarrow> c),
                      le_fingerprint = sg_fingerprint signal \<rparr>
           | _ \<Rightarrow> None))"

definition meta_or_empty :: "incoming_signal \<Rightarrow> (string, json) jsmap" where
  "meta_or_empty signal = (case sg_metadata signal of None \<Rightarrow> [] | Some m \<Rightarrow> m)"

definition clickhouse_row :: "incoming_signal \<Rightarrow> string option \<Rightarrow> int \<Rightarrow> signal_event_row" where
  "clickhouse_row signal anonFingerprint timestamp =
     \<lparr> ev_timestamp = timestamp, ev_tenant_id = sg_tenantId signal, ev_sensor_id = sg_sensorId signal,
       ev_request_id = sg_requestId signal, ev_signal_type = sg_signalType signal,
       ev_source_ip = (case sg_sourceIp signal of None \<Rightarrow> ''0.0.0.0'' | Some ip \<Rightarrow> ip),
       ev_fingerprint = (case sg_fingerprint signal of None \<Rightarrow> '''' | Some fp \<Rightarrow> fp),
       ev_anon_fingerprint = (case anonFingerprint of None \<Rightarrow> replicate 64 CHR ''0'' | Some a \<Rightarrow> a),
       ev_severity = sg_severity signal, ev_confidence = sg_confidence signal,
       ev_event_count = event_count signal, ev_metadata = meta_or_empty signal \<rparr>"

definition writeToClickHouse ::
  "bool \<Rightarrow> incoming_signal \<Rightarrow> string option \<Rightarrow> int \<Rightarrow> store_effect list" where
  "writeToClickHouse retryBuffer signal anonFingerprint timestamp =
     (if \<not> retryBuffer then [] else [ClickHouseWrite (clickhouse_row signal anonFingerprint timestamp)])"

text \<open>\<open>Some None\<close>: no threat service; \<open>None\<close>: the service rejected.\<close>

definition calculateThreatScore :: "('w, 'n) storage_env \<Rightarrow> incoming_signal \<Rightarrow> rat option option" where
  "calculateThreatScore env signal =
     (case se_threatScore env of None \<Rightarrow> Some None | Some f \<Rightarrow> map_option Some (f signal))"

definition enrich ::
  "incoming_signal \<Rightarrow> string option \<Rightarrow> string \<Rightarrow> rat option \<Rightarrow> sharing_preference option \<Rightarrow> enriched_signal" where
  "enrich signal anon i score pref =
     incoming_signal.extend signal
       \<lparr> es_anonFingerprint = anon, es_id = Some i, es_threatScore = score, es_sharingPreference = pref \<rparr>"

section \<open>storeSignal\<close>

definition store_row :: "incoming_signal \<Rightarrow> string option \<Rightarrow> signal_row" where
  "store_row signal anonFingerprint =
     \<lparr> sr_tenantId = sg_tenantId signal, sr_sensorId = sg_sensorId signal, sr_signalType = sg_signalType signal,
       sr_sourceIp = sg_sourceIp signal, sr_fingerprint = sg_fingerprint signal,
       sr_anonFingerprint = anonFingerprint, sr_severity = sg_severity signal,
       sr_confidence = sg_confidence signal, sr_eventCount = event_count signal,
       sr_metadata = meta_or_empty signal \<rparr>"

definition store_effects :: "('w, 'n) storage_env \<Rightarrow> incoming_signal \<Rightarrow> string option \<Rightarrow> string \<Rightarrow> int \<Rightarrow> store_effect list" where
  "store_effects env signal anonFingerprint storedId createdAt =
     (if se_clickhouse env then writeToClickHouse (se_clickhouse env) signal anonFingerprint createdAt else []) @
     (if se_impossibleTravel env
      then (case extractGeoEvent signal createdAt of None \<Rightarrow> [] | Some g \<Rightarrow> [ProcessLogin g]) else []) @
     (if se_apiIntelligence env \<and> sg_signalType signal \<in> {''TEMPLATE_DISCOVERY'', ''SCHEMA_VIOLATION''}
      then [DiscoverySignal (sg_tenantId signal) (sg_sensorId signal) (sg_signalType signal)
              (meta_or_empty signal) storedId]
      else [])"

text \<open>The part after the idempotency check.\<close>

definition storeNewSignal ::
  "('w, 'n) storage_env \<Rightarrow> incoming_signal \<Rightarrow> ('w, 'n) storage_state
     \<Rightarrow> ('w, 'n) storage_state \<times> enriched_signal option" where
  "storeNewSignal env signal s =
     (case se_findTenant env (st_db s) (sg_tenantId signal) of
        None \<Rightarrow> (s, None)
      | Some tenant \<Rightarrow>
          (let sharingPreference = (case tenant of None \<Rightarrow> CONTRIBUTE_AND_RECEIVE | Some t \<Rightarrow> tn_sharingPreference t);
               salt = (case tenant of None \<Rightarrow> ''default-salt'' | Some t \<Rightarrow> tn_anonymizationSalt t);
               anonFingerprint = (if str_truthy (sg_fingerprint signal) \<and> canContribute sharingPreference
                                  then Some (anonymizeFingerprint env (the (sg_fingerprint signal)) salt) else None)
           in case se_create env (st_db s) (store_row signal anonFingerprint) of
                (w, None) \<Rightarrow> (s\<lparr> st_db := w \<rparr>, None)
              | (w, Some (storedId, createdAt)) \<Rightarrow>
                  (let s1 = s\<lparr> st_db := w, st_effects := st_effects s @ store_effects env signal anonFingerprint storedId createdAt \<rparr>
                   in case calculateThreatScore env signal of
                        None \<Rightarrow> (s1, None)
                      | Some score \<Rightarrow>
                          (s1, Some (enrich signal anonFingerprint storedId score (Some sharingPreference))))))"

definition store_call :: "incoming_signal \<Rightarrow> nonce_call" where
  "store_call signal =
     \<lparr> nc_clientIp = None, nc_path = Some ''aggregator:storeSignal'', nc_tenantId = Some (sg_tenantId signal) \<rparr>"

definition storeSignal ::
  "('w, 'n) storage_env \<Rightarrow> int \<Rightarrow> incoming_signal \<Rightarrow> ('w, 'n) storage_state
     \<Rightarrow> ('w, 'n) storage_state \<times> enriched_signal option" where
  "storeSignal env now signal s =
     (case se_idempotency env of
        None \<Rightarrow> storeNewSignal env signal s
      | Some chk \<Rightarrow>
          (let key = idempotency_key env signal in
           case chk now key now (Some (store_call signal)) (st_nonces s) of
             (n, None) \<Rightarrow> (s\<lparr> st_nonces := n \<rparr>, None)
           | (n, Some True) \<Rightarrow> storeNewSignal env signal (s\<lparr> st_nonces := n \<rparr>)
           | (n, Some False) \<Rightarrow>
               (case se_findFirst env (st_db s) now signal of
                  None \<Rightarrow> (s\<lparr> st_nonces := n \<rparr>, None)
                | Some (Some existing) \<Rightarrow> (s\<lparr> st_nonces := n \<rparr>, Some (enrich signal None existing None None))
                | Some None \<Rightarrow>
                    (s\<lparr> st_nonces := n \<rparr>, Some (enrich signal None (''dup-'' @ take 8 key) None None)))))"

section \<open>Properties\<close>

lemma enrich_fields [simp]:
  "es_anonFingerprint (enrich x a i sc p) = a" "sg_tenantId (enrich x a i sc p) = sg_tenantId x"
  "es_id (enrich x a i sc p) = Some i" "es_sharingPreference (enrich x a i sc p) = p"
  by (simp_all add: enrich_def incoming_signal.defs)

text \<open>The anonymised fingerprint of a new signal of a known tenant.\<close>

definition policy_fingerprint :: "('w, 'n) storage_env \<Rightarrow> incoming_signal \<Rightarrow> tenant_row \<Rightarrow> string option" where
  "policy_fingerprint env x t =
     (if str_truthy (sg_fingerprint x) \<and> canContribute (tn_sharingPreference t)
      then Some (se_hmac env (tn_anonymizationSalt t) (the (sg_fingerprint x))) else None)"

lemma storeNewSignal_known:
  assumes "se_findTenant env (st_db s) (sg_tenantId x) = Some (Some t)"
    and "storeNewSignal env x s = (s', Some e)"
  shows "es_anonFingerprint e = policy_fingerprint env x t" and "sg_tenantId e = sg_tenantId x"
    and "\<exists>w i ts. se_create env (st_db s) (store_row x (policy_fingerprint env x t)) = (w, Some (i, ts)) \<and>
      es_id e = Some i \<and> st_db s' = w \<and>
      st_effects s' = st_effects s @ store_effects env x (policy_fingerprint env x t) i ts"
  using assms
  by (auto simp: storeNewSignal_def policy_fingerprint_def anonymizeFingerprint_def Let_def
      split: prod.splits option.splits)

lemma storeSignal_cases:
  assumes "storeSignal env now x s = (s', Some e)"
  shows "(\<exists>n. storeNewSignal env x (s\<lparr> st_nonces := n \<rparr>) = (s', Some e)) \<or>
    (es_anonFingerprint e = None \<and> sg_tenantId e = sg_tenantId x \<and> st_db s' = st_db s \<and> st_effects s' = st_effects s)"
proof (cases "se_idempotency env")
  case None
  with assms have "storeNewSignal env x (s\<lparr> st_nonces := st_nonces s \<rparr>) = (s', Some e)" by (simp add: storeSignal_def)
  then show ?thesis by blast
next
  case (Some chk)
  with assms show ?thesis
    by (auto simp: storeSignal_def Let_def split: prod.splits option.splits bool.splits)
qed

lemma storeSignal_anon:
  assumes "storeSignal env now x s = (s', Some e)"
    and "se_findTenant env (st_db s) (sg_tenantId x) = Some (Some t)"
  shows "es_anonFingerprint e \<in> {None, policy_fingerprint env x t}" and "sg_tenantId e = sg_tenantId x"
proof -
  have "es_anonFingerprint e \<in> {None, policy_fingerprint env x t} \<and> sg_tenantId e = sg_tenantId x"
    using storeSignal_cases [OF assms(1)]
  proof (elim disjE exE)
    fix n assume "storeNewSignal env x (s\<lparr> st_nonces := n \<rparr>) = (s', Some e)"
    from storeNewSignal_known [OF _ this] assms(2) show ?thesis by simp
  qed simp
  then show "es_anonFingerprint e \<in> {None, policy_fingerprint env x t}" "sg_tenantId e = sg_tenantId x" by simp_all
qed

text \<open>
  C13: The fingerprint of a tenant that does not contribute never leaves it. For a tenant whose sharing
  preference is \<^verbatim>\<open>RECEIVE_ONLY\<close> or \<^verbatim>\<open>ISOLATED\<close> the enriched signal has no anonymised fingerprint, and
  the whole run of \<^verbatim>\<open>storeSignal\<close>, with its database row and its side writes, does not depend on the
  anonymisation function: no value computed from the fingerprint by it is stored or sent anywhere.
\<close>

theorem storeSignal_respects_sharing_preference:
  assumes "se_findTenant env (st_db s) (sg_tenantId x) = Some (Some t)"
    and "\<not> canContribute (tn_sharingPreference t)"
    and "storeSignal env now x s = (s', r)"
  shows "(\<forall>e. r = Some e \<longrightarrow> es_anonFingerprint e = None) \<and>
    storeSignal (env\<lparr> se_hmac := h \<rparr>) now x s = (s', r)"
proof -
  have none: "policy_fingerprint env x t = None" using assms(2) by (simp add: policy_fingerprint_def)
  have new: "storeNewSignal (env\<lparr> se_hmac := h \<rparr>) x (s\<lparr> st_nonces := n \<rparr>) = storeNewSignal env x (s\<lparr> st_nonces := n \<rparr>)"
    and same: "storeNewSignal (env\<lparr> se_hmac := h \<rparr>) x s = storeNewSignal env x s" for n
    using assms(1,2)
    by (simp_all add: storeNewSignal_def Let_def store_effects_def calculateThreatScore_def cong del: if_weak_cong)
  have key: "idempotency_key (env\<lparr> se_hmac := h \<rparr>) x = idempotency_key env x"
    by (simp add: idempotency_key_def generateSignalIdempotencyKey_def cong del: if_weak_cong)
  have "storeSignal (env\<lparr> se_hmac := h \<rparr>) now x s = storeSignal env now x s"
    unfolding storeSignal_def key by (simp add: new same cong: option.case_cong)
  with assms(3) storeSignal_anon(1) [of env now x s s' _ t] assms(1) none show ?thesis by auto
qed

definition list_env :: "'n check_and_add option \<Rightarrow> (signal_row list, 'n) storage_env" where
  "list_env chk =
     \<lparr> se_idempotency = chk, se_keyHash = (\<lambda>d. id_sensorId d), se_findFirst = (\<lambda>w now x. Some None),
       se_findTenant = (\<lambda>w t. Some (Some \<lparr> tn_sharingPreference = (if t = ''iso'' then ISOLATED else CONTRIBUTE_AND_RECEIVE),
                                        tn_anonymizationSalt = t \<rparr>)),
       se_hmac = (\<lambda>salt fp. salt @ '':'' @ fp),
       se_create = (\<lambda>w r. (w @ [r], Some (show_nat (length w), 0))),
       se_clickhouse = True, se_impossibleTravel = False, se_apiIntelligence = False, se_threatScore = None \<rparr>"

definition empty_store :: "'n \<Rightarrow> (signal_row list, 'n) storage_state" where
  "empty_store n = \<lparr> st_db = [], st_nonces = n, st_effects = [] \<rparr>"

theorem storeSignal_respects_sharing_preference_witness:
  "\<exists>e. snd (storeSignal (list_env None) 0 (raw_signal ''iso'' ''1.1.1.1'') (empty_store ())) = Some e \<and> es_anonFingerprint e = None"
proof -
  have t: "se_findTenant (list_env None) (st_db (empty_store ())) (sg_tenantId (raw_signal ''iso'' ''1.1.1.1'')) =
      Some (Some \<lparr> tn_sharingPreference = ISOLATED, tn_anonymizationSalt = ''iso'' \<rparr>)"
    by (simp add: list_env_def raw_signal_def)
  obtain s' r where r: "storeSignal (list_env None) 0 (raw_signal ''iso'' ''1.1.1.1'') (empty_store ()) = (s', r)"
    by (rule prod.exhaust)
  have "\<not> canContribute (tn_sharingPreference \<lparr> tn_sharingPreference = ISOLATED, tn_anonymizationSalt = ''iso'' \<rparr>)"
    by simp
  note ok = storeSignal_respects_sharing_preference [OF t this r]
  have "snd (storeSignal (list_env None) 0 (raw_signal ''iso'' ''1.1.1.1'') (empty_store ())) \<noteq> None"
    by (simp add: list_env_def storeSignal_def storeNewSignal_def empty_store_def calculateThreatScore_def Let_def)
  with ok show ?thesis by (auto simp: r)
qed

text \<open>
  With the database-backed idempotency store, a signal whose row could not be created is lost on its
  retry. The key is recorded before the row: once \<^verbatim>\<open>signal.create\<close> has failed, every retry inside the
  lifetime of the key is taken for a duplicate, creates no row, and still reports the signal as stored under
  the made-up id \<^verbatim>\<open>dup-...\<close>.
\<close>

theorem storeSignal_failed_create_is_lost:
  assumes law: "prisma_table nonce_create del row"
    and live: "\<forall>r k t v x. snd (nonce_create r k t v x) \<noteq> PrismaError"
    and env: "se_idempotency env = Some (prisma_checkAndAdd nonce_create)"
    and none: "\<forall>w t y. se_findFirst env w t y = Some None"
    and tenant: "sg_tenantId x \<noteq> ''''"
    and first: "prisma_checkAndAdd nonce_create now (idempotency_key env x) now (Some (store_call x)) (st_nonces s) = (n, Some True)"
    and failed: "storeNewSignal env x (s\<lparr> st_nonces := n \<rparr>) = (s', None)"
  shows "storeSignal env now x s = (s', None) \<and>
    (\<exists>s'' e. storeSignal env t x s' = (s'', Some e) \<and> st_db s'' = st_db s' \<and> st_effects s'' = st_effects s' \<and>
       es_id e = Some (''dup-'' @ take 8 (idempotency_key env x)))"
proof -
  have nonces: "st_nonces s' = n"
    using failed by (auto simp: storeNewSignal_def Let_def split: option.splits prod.splits)
  have "call_tenant (Some (store_call x)) = Some (sg_tenantId x)" by (simp add: call_tenant_def store_call_def)
  then obtain v where "nonce_create (ps_prisma (st_nonces s)) (idempotency_key env x) (sg_tenantId x) v
      (now + ps_windowMs (st_nonces s)) = (ps_prisma n, Created)"
    using prisma_chk_cases [OF first] by force
  then have row: "row (ps_prisma n) (idempotency_key env x) (sg_tenantId x) \<noteq> None"
    using prisma_create_law(2) [OF law] by blast
  have dup: "\<exists>n'. prisma_checkAndAdd nonce_create t (idempotency_key env x) t (Some (store_call x)) n = (n', Some False)"
  proof -
    obtain r b where rb: "nonce_create (ps_prisma n) (idempotency_key env x) (sg_tenantId x)
        \<lparr> pr_status = ''accepted'', pr_timestamp = t, pr_clientIp = nc_clientIp (store_call x), pr_path = nc_path (store_call x) \<rparr>
        (t + ps_windowMs n) = (r, b)" by (rule prod.exhaust)
    have "b \<noteq> PrismaError" using live rb by (metis snd_conv)
    moreover have "b \<noteq> Created" using row prisma_create_law(1) [OF law rb] by blast
    ultimately have "b = P2002" by (cases b) simp_all
    with rb tenant show ?thesis
      by (simp add: prisma_checkAndAdd_def call_tenant_def store_call_def Let_def)
  qed
  then obtain n' where n': "prisma_checkAndAdd nonce_create t (idempotency_key env x) t (Some (store_call x)) n = (n', Some False)"
    by blast
  have "storeSignal env t x s' = (s'\<lparr> st_nonces := n' \<rparr>, Some (enrich x None (''dup-'' @ take 8 (idempotency_key env x)) None None))"
    by (simp add: storeSignal_def env Let_def nonces n' none)
  moreover have "storeSignal env now x s = (s', None)"
    by (simp add: storeSignal_def env Let_def first failed)
  ultimately show ?thesis by simp
qed

definition table_create :: "(string \<Rightarrow> string \<Rightarrow> int option) prisma_create" where
  "table_create r k t v e = (if r k t = None then (r(k := (r k)(t := Some e)), Created) else (r, P2002))"

definition table_delete :: "int \<Rightarrow> (string \<Rightarrow> string \<Rightarrow> int option) \<Rightarrow> string \<Rightarrow> string \<Rightarrow> int option" where
  "table_delete now r k t = (case r k t of None \<Rightarrow> None | Some e \<Rightarrow> if now \<le> e then Some e else None)"

lemma table_law: "prisma_table table_create table_delete (\<lambda>r. r)"
  by (auto simp: prisma_table_def table_create_def table_delete_def split: if_splits)

definition failing_env :: "(signal_row list, (string \<Rightarrow> string \<Rightarrow> int option) prisma_nonce_store) storage_env" where
  "failing_env = (list_env (Some (prisma_checkAndAdd table_create)))\<lparr> se_create := (\<lambda>w r. (w, None)) \<rparr>"

definition fresh_nonces :: "(string \<Rightarrow> string \<Rightarrow> int option) prisma_nonce_store" where
  "fresh_nonces = \<lparr> ps_prisma = (\<lambda>k t. None), ps_windowMs = 1000, ps_size = 0 \<rparr>"

theorem storeSignal_failed_create_is_lost_witness:
  "\<exists>s' s'' e. storeSignal failing_env 0 (raw_signal ''t'' ''1.1.1.1'') (empty_store fresh_nonces) = (s', None) \<and>
     storeSignal failing_env 5 (raw_signal ''t'' ''1.1.1.1'') s' = (s'', Some e) \<and> st_db s'' = st_db s'"
proof -
  let ?x = "raw_signal ''t'' ''1.1.1.1''" and ?s = "empty_store fresh_nonces"
  have env: "se_idempotency failing_env = Some (prisma_checkAndAdd table_create)"
    "\<forall>w t y. se_findFirst failing_env w t y = Some None"
    "\<And>w t. se_findTenant failing_env w t \<noteq> None" "\<And>w r. se_create failing_env w r = (w, None)"
    by (simp_all add: failing_env_def list_env_def)
  have live: "\<forall>r k t v e. snd (table_create r k t v e) \<noteq> PrismaError" by (simp add: table_create_def)
  have tenant: "sg_tenantId ?x \<noteq> ''''" by (simp add: raw_signal_def)
  obtain n where first: "prisma_checkAndAdd table_create 0 (idempotency_key failing_env ?x) 0 (Some (store_call ?x))
      (st_nonces ?s) = (n, Some True)"
    using tenant by (simp add: prisma_checkAndAdd_def table_create_def call_tenant_def store_call_def empty_store_def
        fresh_nonces_def)
  obtain s' where "storeNewSignal failing_env ?x (?s\<lparr> st_nonces := n \<rparr>) = (s', None)"
    using env(3) [of "st_db (?s\<lparr> st_nonces := n \<rparr>)" "sg_tenantId ?x"] by (auto simp: storeNewSignal_def env(4) Let_def)
  from storeSignal_failed_create_is_lost [OF table_law live env(1,2) tenant first this, of 5] show ?thesis by blast
qed

end
