(* ===== verification/Redis_Keys.thy ===== *)
theory Redis_Keys
  imports Js_Text
begin

text \<open>
  Redis keys (\<^verbatim>\<open>api/src/storage/redis/keys.ts\<close>): percent-encoded segments joined with colons. Strings are
  lists of UTF-8 bytes, on which \<^verbatim>\<open>encodeURIComponent\<close> works byte by byte. Numbers in keys are integers;
  a version that is not finite is \<open>None\<close>.
\<close>

section \<open>encodeURIComponent\<close>

definition in_range :: "char \<Rightarrow> char \<Rightarrow> char \<Rightarrow> bool" where
  "in_range a b c \<longleftrightarrow> of_char a \<le> (of_char c :: nat) \<and> of_char c \<le> (of_char b :: nat)"

definition unreserved :: "char \<Rightarrow> bool" where
  "unreserved c \<longleftrightarrow> in_range CHR ''a'' CHR ''z'' c \<or> in_range CHR ''A'' CHR ''Z'' c \<or>
     in_range CHR ''0'' CHR ''9'' c \<or> c \<in> set ''-_.!~*()'' \<or> c = CHR 0x27"

definition hex_char :: "nat \<Rightarrow> char" where
  "hex_char n = (if n < 10 then char_of (48 + n) else char_of (55 + n))"

definition encode_char :: "char \<Rightarrow> string" where
  "encode_char c = (if unreserved c then [c]
     else let n = of_char c :: nat in [CHR ''%'', hex_char (n div 16), hex_char (n mod 16)])"

definition encodeURIComponent :: "string \<Rightarrow> string" where
  "encodeURIComponent s = concat (map encode_char s)"

section \<open>buildRedisKey\<close>

datatype key_part = KStr string | KNum int | KBool bool

fun part_string :: "key_part \<Rightarrow> string" where
  "part_string (KStr s) = s"
| "part_string (KNum i) = show_int i"
| "part_string (KBool b) = (if b then ''true'' else ''false'')"

definition encodeKeyPart :: "key_part \<Rightarrow> string" where
  "encodeKeyPart p = encodeURIComponent (part_string p)"

record redis_key_input =
  rk_namespace :: string
  rk_version :: "int option"
  rk_tenantId :: string
  rk_dataType :: string
  rk_id :: "key_part list"

datatype key_error = Namespace_required | Version_not_positive | TenantId_required | DataType_required

definition buildRedisKey :: "redis_key_input \<Rightarrow> key_error + string" where
  "buildRedisKey input =
     (if rk_namespace input = '''' then Inl Namespace_required
      else case rk_version input of
        None \<Rightarrow> Inl Version_not_positive
      | Some v \<Rightarrow>
          if v \<le> 0 then Inl Version_not_positive
          else if rk_tenantId input = '''' then Inl TenantId_required
          else if rk_dataType input = '''' then Inl DataType_required
          else Inr (js_join CHR '':''
            ([encodeKeyPart (KStr (rk_namespace input)), ''v'' @ show_int v,
              encodeKeyPart (KStr (rk_tenantId input)), encodeKeyPart (KStr (rk_dataType input))] @
             map encodeKeyPart (rk_id input))))"

section \<open>Decoding\<close>

text \<open>The inverse of the encoding, for the round trip.\<close>

definition hex_value :: "char \<Rightarrow> nat" where
  "hex_value c = (let n = of_char c in if n < 58 then n - 48 else n - 55)"

fun decodeURIComponent :: "string \<Rightarrow> string" where
  "decodeURIComponent (c # a # b # cs) =
     (if c = CHR ''%'' then char_of (16 * hex_value a + hex_value b) # decodeURIComponent cs
      else c # decodeURIComponent (a # b # cs))"
| "decodeURIComponent cs = cs"

definition parseRedisKey :: "string \<Rightarrow> (string \<times> int option \<times> string \<times> string \<times> string list) option" where
  "parseRedisKey k =
     (case js_split CHR '':'' k of
        n # v # t # d # ids \<Rightarrow>
          Some (decodeURIComponent n, parseInt (tl v), decodeURIComponent t, decodeURIComponent d,
                map decodeURIComponent ids)
      | _ \<Rightarrow> None)"

lemma hex_value_char: "n < 16 \<Longrightarrow> hex_value (hex_char n) = n"
  by (simp add: hex_value_def hex_char_def Let_def)

lemma of_char_less: "(of_char c :: nat) < 256"
proof -
  have "(of_char c :: nat) \<in> {0..<256}" unfolding range_nat_of_char [symmetric] by (rule rangeI)
  then show ?thesis by simp
qed

lemma of_char_hex: "(of_char c :: nat) div 16 < 16" "(of_char c :: nat) mod 16 < 16"
  using of_char_less [of c] by (simp_all add: less_mult_imp_div_less)

lemma unreserved_not: "unreserved c \<Longrightarrow> c \<noteq> CHR ''%'' \<and> c \<noteq> CHR '':''"
  by (auto simp: unreserved_def in_range_def)

lemma hex_char_not_colon: "n < 16 \<Longrightarrow> hex_char n \<noteq> CHR '':''"
proof
  assume n: "n < 16" and "hex_char n = CHR '':''"
  then have "(of_char (hex_char n) :: nat) = 58" by simp
  with n show False by (simp add: hex_char_def split: if_splits)
qed

lemma encode_char_no_colon: "CHR '':'' \<notin> set (encode_char c)"
proof -
  show ?thesis
    using hex_char_not_colon [OF of_char_hex(1) [of c]] hex_char_not_colon [OF of_char_hex(2) [of c]] unreserved_not [of c] by (auto simp: encode_char_def Let_def)
qed

lemma decode_char: "decodeURIComponent (encode_char c @ cs) = c # decodeURIComponent cs"
proof (cases "unreserved c")
  case True
  then have "c \<noteq> CHR ''%''" by (simp add: unreserved_not)
  moreover have "encode_char c = [c]" using True by (simp add: encode_char_def)
  ultimately show ?thesis by (cases cs rule: decodeURIComponent.cases) simp_all
next
  case False
  with of_char_hex [of c] show ?thesis by (simp add: encode_char_def Let_def hex_value_char)
qed

lemma decode_encode: "decodeURIComponent (encodeURIComponent s) = s"
  unfolding encodeURIComponent_def by (induction s) (simp_all add: decode_char)

lemma encode_no_colon: "CHR '':'' \<notin> set (encodeURIComponent s)"
  using encode_char_no_colon by (auto simp: encodeURIComponent_def)

lemma buildRedisKey_parse:
  assumes "buildRedisKey input = Inr k"
  shows "parseRedisKey k = Some (rk_namespace input, rk_version input, rk_tenantId input, rk_dataType input,
    map part_string (rk_id input))"
proof -
  obtain v where v: "rk_version input = Some v"
    using assms by (cases "rk_version input") (auto simp: buildRedisKey_def split: if_splits)
  let ?segs = "[encodeKeyPart (KStr (rk_namespace input)), ''v'' @ show_int v,
     encodeKeyPart (KStr (rk_tenantId input)), encodeKeyPart (KStr (rk_dataType input))] @ map encodeKeyPart (rk_id input)"
  have k: "k = js_join CHR '':'' ?segs"
    using assms v unfolding buildRedisKey_def by (auto split: if_splits)
  have "js_split CHR '':'' k = ?segs"
    unfolding k by (rule js_split_join) (auto simp: encodeKeyPart_def encode_no_colon show_int_no_colon)
  then show ?thesis
    using v by (simp add: parseRedisKey_def encodeKeyPart_def decode_encode parseInt_show_int)
qed

text \<open>
  Redis keys can be read back: whenever \<^verbatim>\<open>buildRedisKey\<close> returns a key, splitting it at the
  colons and decoding the segments yields exactly the namespace, version, tenant, data type and identifier
  parts it was built from. So two inputs share a key only if they agree in all of them; in particular keys
  of different tenants never collide, whatever characters the parts contain.
\<close>

theorem buildRedisKey_roundtrip:
  assumes "buildRedisKey input = Inr k"
  shows "parseRedisKey k = Some (rk_namespace input, rk_version input, rk_tenantId input, rk_dataType input,
    map part_string (rk_id input))"
  by (rule buildRedisKey_parse [OF assms])

definition sample_key_input :: redis_key_input where
  "sample_key_input = \<lparr> rk_namespace = ''horizon'', rk_version = Some 1, rk_tenantId = ''a:b'',
     rk_dataType = ''cache'', rk_id = [KStr ''x%y'', KNum 7] \<rparr>"

theorem buildRedisKey_roundtrip_witness:
  "\<exists>k. buildRedisKey sample_key_input = Inr k \<and>
     parseRedisKey k = Some (''horizon'', Some 1, ''a:b'', ''cache'', [''x%y'', show_int 7])"
proof -
  obtain k where "buildRedisKey sample_key_input = Inr k"
    by (simp add: buildRedisKey_def sample_key_input_def)
  with buildRedisKey_roundtrip [OF this] show ?thesis by (simp add: sample_key_input_def)
qed

end
