(* ===== verification/Json_Text.thy ===== *)
theory Json_Text
  imports Json_Depth
begin

text \<open>
  \<^verbatim>\<open>JSON.parse\<close> and \<^verbatim>\<open>JSON.stringify\<close> on JSON values, and the codec of \<^verbatim>\<open>api/src/storage/redis/json.ts\<close>.
  Strings are sequences of UTF-8 bytes; numbers are exact and print in decimal notation (the sources store
  integers and short decimal fractions); the keys of an object keep their insertion order.
\<close>

section \<open>Printing\<close>

definition hex_digit :: "nat \<Rightarrow> char" where
  "hex_digit n = (if n < 10 then char_of (48 + n) else char_of (87 + n))"

definition escape_char :: "char \<Rightarrow> string" where
  "escape_char c =
     (let n = of_char c :: nat in
      if n = 34 then [char_of (92::nat), char_of (34::nat)]
      else if n = 92 then [char_of (92::nat), char_of (92::nat)]
      else if n = 8 then [char_of (92::nat), CHR ''b'']
      else if n = 9 then [char_of (92::nat), CHR ''t'']
      else if n = 10 then [char_of (92::nat), CHR ''n'']
      else if n = 12 then [char_of (92::nat), CHR ''f'']
      else if n = 13 then [char_of (92::nat), CHR ''r'']
      else if n < 32 then [char_of (92::nat), CHR ''u'', CHR ''0'', CHR ''0'', hex_digit (n div 16), hex_digit (n mod 16)]
      else [c])"

abbreviation dquote :: char where "dquote \<equiv> char_of (34::nat)"

definition show_string :: "string \<Rightarrow> string" where
  "show_string s = dquote # concat (map escape_char s) @ [dquote]"

text \<open>A decimal number with \<open>d\<close> places, the least number of places that is exact.\<close>

definition decimal_places :: "rat \<Rightarrow> nat" where
  "decimal_places r = (case List.find (\<lambda>d. r * 10 ^ d = of_int \<lfloor>r * 10 ^ d\<rfloor>) [0..<21] of None \<Rightarrow> 20 | Some d \<Rightarrow> d)"

definition show_places :: "nat \<Rightarrow> nat \<Rightarrow> string" where
  "show_places d n = (let s = show_nat n in replicate (d - length s) CHR ''0'' @ s)"

definition show_num :: "rat \<Rightarrow> string" where
  "show_num r =
     (let d = decimal_places r; n = nat \<bar>\<lfloor>r * 10 ^ d\<rfloor>\<bar>
      in (if r < 0 then ''-'' else []) @ show_nat (n div 10 ^ d) @
         (if d = 0 then [] else CHR ''.'' # show_places d (n mod 10 ^ d)))"

fun JSON_stringify :: "json \<Rightarrow> string" where
  "JSON_stringify JNull = ''null''"
| "JSON_stringify (JBool b) = (if b then ''true'' else ''false'')"
| "JSON_stringify (JNum r) = show_num r"
| "JSON_stringify (JStr s) = show_string s"
| "JSON_stringify (JArr vs) = ''['' @ js_join CHR '','' (map JSON_stringify vs) @ '']''"
| "JSON_stringify (JObj ps) =
     ''{'' @ js_join CHR '','' (map (\<lambda>(k, v). show_string k @ '':'' @ JSON_stringify v) ps) @ ''}''"

section \<open>Parsing\<close>

definition json_ws :: "char \<Rightarrow> bool" where
  "json_ws c \<longleftrightarrow> c \<in> {CHR '' '', char_of (9::nat), char_of (10::nat), char_of (13::nat)}"

definition skip_ws :: "string \<Rightarrow> string" where
  "skip_ws s = dropWhile json_ws s"

definition json_hex_value :: "char \<Rightarrow> nat option" where
  "json_hex_value c =
     (let n = of_char c :: nat in
      if 48 \<le> n \<and> n \<le> 57 then Some (n - 48)
      else if 97 \<le> n \<and> n \<le> 102 then Some (n - 87)
      else if 65 \<le> n \<and> n \<le> 70 then Some (n - 55)
      else None)"

fun hex4 :: "char \<Rightarrow> char \<Rightarrow> char \<Rightarrow> char \<Rightarrow> nat option" where
  "hex4 a b c d =
     (case (json_hex_value a, json_hex_value b, json_hex_value c, json_hex_value d) of
        (Some p, Some q, Some r, Some s) \<Rightarrow> Some (((p * 16 + q) * 16 + r) * 16 + s)
      | _ \<Rightarrow> None)"

text \<open>A string literal is a sequence of plain bytes and escaped UTF-16 units.\<close>

datatype piece = Plain char | Unit16 nat

fun escaped :: "char \<Rightarrow> char option" where
  "escaped c =
     (if c = dquote \<or> c = char_of (92::nat) \<or> c = CHR ''/'' then Some c
      else if c = CHR ''b'' then Some (char_of (8::nat))
      else if c = CHR ''t'' then Some (char_of (9::nat))
      else if c = CHR ''n'' then Some (char_of (10::nat))
      else if c = CHR ''f'' then Some (char_of (12::nat))
      else if c = CHR ''r'' then Some (char_of (13::nat))
      else None)"

definition cons_piece :: "piece \<Rightarrow> (piece list \<times> string) option \<Rightarrow> (piece list \<times> string) option" where
  "cons_piece p r = map_option (\<lambda>(ps, rest). (p # ps, rest)) r"

fun parse_pieces :: "string \<Rightarrow> (piece list \<times> string) option" where
  "parse_pieces [] = None"
| "parse_pieces (c # cs) =
     (if c = dquote then Some ([], cs)
      else if c = char_of (92::nat) then
        (case cs of
           [] \<Rightarrow> None
         | e # cs' \<Rightarrow>
             if e = CHR ''u'' then
               (case cs' of
                  p # q # r # s # cs'' \<Rightarrow>
                    (case hex4 p q r s of None \<Rightarrow> None | Some u \<Rightarrow> cons_piece (Unit16 u) (parse_pieces cs''))
                | _ \<Rightarrow> None)
             else (case escaped e of None \<Rightarrow> None | Some x \<Rightarrow> cons_piece (Plain x) (parse_pieces cs')))
      else if (of_char c :: nat) < 32 then None
      else cons_piece (Plain c) (parse_pieces cs))"

definition utf8 :: "nat \<Rightarrow> string" where
  "utf8 u =
     (if u < 128 then [char_of u]
      else if u < 2048 then [char_of (192 + u div 64), char_of (128 + u mod 64)]
      else if u < 65536 then [char_of (224 + u div 4096), char_of (128 + (u div 64) mod 64), char_of (128 + u mod 64)]
      else [char_of (240 + u div 262144), char_of (128 + (u div 4096) mod 64), char_of (128 + (u div 64) mod 64),
            char_of (128 + u mod 64)])"

fun piece_bytes :: "piece list \<Rightarrow> string" where
  "piece_bytes [] = []"
| "piece_bytes (Plain c # ps) = c # piece_bytes ps"
| "piece_bytes (Unit16 h # Unit16 l # ps) =
     (if 55296 \<le> h \<and> h < 56320 \<and> 56320 \<le> l \<and> l < 57344
      then utf8 (65536 + (h - 55296) * 1024 + (l - 56320)) @ piece_bytes ps
      else utf8 h @ piece_bytes (Unit16 l # ps))"
| "piece_bytes (Unit16 u # ps) = utf8 u @ piece_bytes ps"

definition parse_string :: "string \<Rightarrow> (string \<times> string) option" where
  "parse_string s = map_option (\<lambda>(ps, rest). (piece_bytes ps, rest)) (parse_pieces s)"

abbreviation is_digit :: "char \<Rightarrow> bool" where
  "is_digit c \<equiv> char_digit c \<noteq> None"

definition digits_value :: "string \<Rightarrow> nat" where
  "digits_value ds = (case parse_digits None ds of None \<Rightarrow> 0 | Some n \<Rightarrow> n)"

definition parse_fraction :: "string \<Rightarrow> (string \<times> string) option" where
  "parse_fraction s =
     (case s of
        c # t \<Rightarrow> if c = CHR ''.'' then (if takeWhile is_digit t = [] then None
                                        else Some (takeWhile is_digit t, dropWhile is_digit t))
                 else Some ([], s)
      | [] \<Rightarrow> Some ([], []))"

definition parse_exponent :: "string \<Rightarrow> (int \<times> string) option" where
  "parse_exponent s =
     (case s of
        c # t \<Rightarrow>
          if c = CHR ''e'' \<or> c = CHR ''E'' then
            (let neg = (t \<noteq> [] \<and> hd t = CHR ''-'');
                 u = (if t \<noteq> [] \<and> (hd t = CHR ''-'' \<or> hd t = CHR ''+'') then tl t else t)
             in if takeWhile is_digit u = [] then None
                else Some (if neg then - int (digits_value (takeWhile is_digit u)) else int (digits_value (takeWhile is_digit u)),
                           dropWhile is_digit u))
          else Some (0, s)
      | [] \<Rightarrow> Some (0, []))"

definition scale10 :: "int \<Rightarrow> rat \<Rightarrow> rat" where
  "scale10 e r = (if 0 \<le> e then r * 10 ^ nat e else r / 10 ^ nat (- e))"

definition parse_number :: "string \<Rightarrow> (rat \<times> string) option" where
  "parse_number s =
     (let neg = (s \<noteq> [] \<and> hd s = CHR ''-'');
          s1 = (if neg then tl s else s);
          ip = takeWhile is_digit s1
      in if ip = [] \<or> (1 < length ip \<and> hd ip = CHR ''0'') then None
         else (case parse_fraction (dropWhile is_digit s1) of
                 None \<Rightarrow> None
               | Some (fp, s3) \<Rightarrow>
                   (case parse_exponent s3 of
                      None \<Rightarrow> None
                    | Some (e, s4) \<Rightarrow>
                        (let m = scale10 (e - int (length fp)) (of_nat (digits_value (ip @ fp)))
                         in Some (if neg then - m else m, s4)))))"

definition parse_scalar :: "string \<Rightarrow> (json \<times> string) option" where
  "parse_scalar s =
     (if s \<noteq> [] \<and> hd s = dquote then map_option (\<lambda>(x, rest). (JStr x, rest)) (parse_string (tl s))
      else if prefix ''null'' s then Some (JNull, drop 4 s)
      else if prefix ''true'' s then Some (JBool True, drop 4 s)
      else if prefix ''false'' s then Some (JBool False, drop 5 s)
      else map_option (\<lambda>(r, rest). (JNum r, rest)) (parse_number s))"

text \<open>
  Values, by recursive descent. The fuel bounds the number of values and separators read; \<open>JSON_parse\<close> starts
  with more than the length of the text, and \<open>parse_fuel\<close> below shows that more never changes the result.
\<close>

fun parse_value :: "nat \<Rightarrow> string \<Rightarrow> (json \<times> string) option"
  and parse_elements :: "nat \<Rightarrow> string \<Rightarrow> (json list \<times> string) option"
  and parse_members :: "nat \<Rightarrow> string \<Rightarrow> (string, json) jsmap \<Rightarrow> ((string, json) jsmap \<times> string) option"
where
  "parse_value 0 s = None"
| "parse_value (Suc n) s =
     (case skip_ws s of
        [] \<Rightarrow> None
      | c # cs \<Rightarrow>
          if c = CHR ''['' then
            (case skip_ws cs of
               [] \<Rightarrow> None
             | d # ds \<Rightarrow> if d = CHR '']'' then Some (JArr [], ds)
                         else map_option (\<lambda>(vs, rest). (JArr vs, rest)) (parse_elements n cs))
          else if c = CHR ''{'' then
            (case skip_ws cs of
               [] \<Rightarrow> None
             | d # ds \<Rightarrow> if d = CHR ''}'' then Some (JObj [], ds)
                         else map_option (\<lambda>(m, rest). (JObj m, rest)) (parse_members n cs []))
          else parse_scalar (c # cs))"
| "parse_elements 0 s = None"
| "parse_elements (Suc n) s =
     (case parse_value n s of
        None \<Rightarrow> None
      | Some (v, rest) \<Rightarrow>
          (case skip_ws rest of
             [] \<Rightarrow> None
           | d # ds \<Rightarrow> if d = CHR '']'' then Some ([v], ds)
                       else if d = CHR '','' then map_option (\<lambda>(vs, r). (v # vs, r)) (parse_elements n ds)
                       else None))"
| "parse_members 0 s m = None"
| "parse_members (Suc n) s m =
     (case skip_ws s of
        [] \<Rightarrow> None
      | c # cs \<Rightarrow>
          if c \<noteq> dquote then None
          else (case parse_string cs of
                  None \<Rightarrow> None
                | Some (k, rest) \<Rightarrow>
                    (case skip_ws rest of
                       [] \<Rightarrow> None
                     | d # ds \<Rightarrow>
                         if d \<noteq> CHR '':'' then None
                         else (case parse_value n ds of
                                 None \<Rightarrow> None
                               | Some (v, rest') \<Rightarrow>
                                   (case skip_ws rest' of
                                      [] \<Rightarrow> None
                                    | e # es \<Rightarrow>
                                        if e = CHR ''}'' then Some (jm_set k v m, es)
                                        else if e = CHR '','' then parse_members n es (jm_set k v m)
                                        else None)))))"

definition JSON_parse :: "string \<Rightarrow> json option" where
  "JSON_parse s =
     (case parse_value (Suc (length s)) s of
        Some (v, rest) \<Rightarrow> if skip_ws rest = [] then Some v else None
      | None \<Rightarrow> None)"

text \<open>The codec; \<open>None\<close> is an exception.\<close>

definition jsonEncode :: "json \<Rightarrow> string" where
  "jsonEncode v = JSON_stringify v"

definition jsonDecode :: "int option \<Rightarrow> string \<Rightarrow> json option" where
  "jsonDecode maxBytes raw =
     (if maxBytes \<noteq> None \<and> maxBytes \<noteq> Some 0 \<and> the maxBytes < int (length raw) then None else JSON_parse raw)"

definition tryJsonDecode :: "int option \<Rightarrow> string \<Rightarrow> json" where
  "tryJsonDecode maxBytes raw = (case jsonDecode maxBytes raw of None \<Rightarrow> JNull | Some v \<Rightarrow> v)"

text \<open>A property of a value (\<open>None\<close> is \<^verbatim>\<open>undefined\<close>), and the length of a string in UTF-16 units.\<close>

fun json_field :: "string \<Rightarrow> json \<Rightarrow> json option" where
  "json_field k (JObj ps) = map_of ps k"
| "json_field k v = None"

definition utf16_length :: "string \<Rightarrow> nat" where
  "utf16_length s = length (filter (\<lambda>c. (of_char c :: nat) < 128 \<or> 192 \<le> (of_char c :: nat)) s) +
     length (filter (\<lambda>c. 240 \<le> (of_char c :: nat)) s)"


section \<open>Fuel\<close>

lemma length_skip_ws: "length (skip_ws s) \<le> length s"
  by (simp add: skip_ws_def length_dropWhile_le)

lemma skip_ws_Cons: "skip_ws s = c # cs \<Longrightarrow> length cs < length s"
  using length_skip_ws [of s] by simp

lemma parse_pieces_length: "parse_pieces s = Some (ps, rest) \<Longrightarrow> length rest < length s"
proof (induction s arbitrary: ps rule: parse_pieces.induct)
  case (2 c cs)
  then show ?case
    by (auto simp: cons_piece_def split: if_splits list.splits option.splits) fastforce+
qed simp

lemma parse_string_length: "parse_string s = Some (x, rest) \<Longrightarrow> length rest < length s"
  by (auto simp: parse_string_def dest: parse_pieces_length)

lemma takeWhile_dropWhile_length: "takeWhile P s \<noteq> [] \<Longrightarrow> length (dropWhile P s) < length s"
  by (metis length_append length_greater_0_conv less_add_same_cancel2 takeWhile_dropWhile_id)

lemma parse_fraction_length: "parse_fraction s = Some (x, rest) \<Longrightarrow> length rest \<le> length s"
  by (cases s) (auto simp: parse_fraction_def le_SucI length_dropWhile_le split: if_splits)

lemma parse_exponent_length: "parse_exponent s = Some (x, rest) \<Longrightarrow> length rest \<le> length s"
proof (cases s)
  case (Cons c t)
  have "length (dropWhile is_digit u) \<le> Suc (length t)" if "u = tl t \<or> u = t" for u
    using that length_dropWhile_le [of is_digit u] by (auto simp: le_diff_conv)
  with Cons show "parse_exponent s = Some (x, rest) \<Longrightarrow> length rest \<le> length s"
    by (auto simp: parse_exponent_def Let_def split: if_splits)
qed (simp add: parse_exponent_def)

lemma parse_number_length:
  assumes "parse_number s = Some (r, rest)"
  shows "length rest < length s"
proof -
  define s1 where "s1 = (if s \<noteq> [] \<and> hd s = CHR ''-'' then tl s else s)"
  from assms obtain fp s3 e where ip: "takeWhile is_digit s1 \<noteq> []"
      and f: "parse_fraction (dropWhile is_digit s1) = Some (fp, s3)" and x: "parse_exponent s3 = Some (e, rest)"
    unfolding parse_number_def Let_def s1_def [symmetric] by (auto split: if_splits option.splits prod.splits)
  have "length s1 \<le> length s" by (simp add: s1_def)
  with takeWhile_dropWhile_length [OF ip] parse_fraction_length [OF f] parse_exponent_length [OF x] show ?thesis
    by linarith
qed

text \<open>
  A successful parse needs no more fuel than it consumes characters: the statement for values, elements and
  members with at most \<open>m\<close> units of fuel, proved together.
\<close>

definition value_fuel :: "nat \<Rightarrow> bool" where
  "value_fuel m \<longleftrightarrow> (\<forall>s v rest. parse_value m s = Some (v, rest) \<longrightarrow>
     length rest < length s \<and> (\<forall>n \<ge> length s - length rest. parse_value n s = Some (v, rest)))"

definition elements_fuel :: "nat \<Rightarrow> bool" where
  "elements_fuel m \<longleftrightarrow> (\<forall>s vs rest. parse_elements m s = Some (vs, rest) \<longrightarrow>
     Suc (length rest) < length s \<and> (\<forall>n \<ge> length s - length rest. parse_elements n s = Some (vs, rest)))"

definition members_fuel :: "nat \<Rightarrow> bool" where
  "members_fuel m \<longleftrightarrow> (\<forall>s acc ps rest. parse_members m s acc = Some (ps, rest) \<longrightarrow>
     Suc (length rest) < length s \<and> (\<forall>n \<ge> length s - length rest. parse_members n s acc = Some (ps, rest)))"

lemma value_fuelD:
  assumes "value_fuel m" and "parse_value m s = Some (v, rest)"
  shows "length rest < length s" and "n \<ge> length s - length rest \<Longrightarrow> parse_value n s = Some (v, rest)"
  using assms unfolding value_fuel_def by blast+

lemma elements_fuelD:
  assumes "elements_fuel m" and "parse_elements m s = Some (vs, rest)"
  shows "Suc (length rest) < length s" and "n \<ge> length s - length rest \<Longrightarrow> parse_elements n s = Some (vs, rest)"
  using assms unfolding elements_fuel_def by blast+

lemma members_fuelD:
  assumes "members_fuel m" and "parse_members m s acc = Some (ps, rest)"
  shows "Suc (length rest) < length s" and "n \<ge> length s - length rest \<Longrightarrow> parse_members n s acc = Some (ps, rest)"
  using assms unfolding members_fuel_def by blast+

text \<open>The fuel is positive when something was consumed.\<close>

lemma fuel_from_Suc:
  fixes a b :: nat
  assumes "b < a" and "\<And>k. Suc k \<ge> a - b \<Longrightarrow> P (Suc k)"
  shows "\<forall>n \<ge> a - b. P n"
proof (intro allI impI)
  fix n assume "a - b \<le> n"
  with assms(1) obtain k where "n = Suc k" by (cases n) auto
  with assms(2) \<open>a - b \<le> n\<close> show "P n" by simp
qed

text \<open>What a value with one more unit of fuel can be: a constant, or an array or object over the rest of the fuel.\<close>

lemma scalar_length:
  assumes "parse_scalar s = Some (v, rest)" and "s \<noteq> []"
  shows "length rest < length s"
proof -
  have "length t < length s" if "parse_string (tl s) = Some (x, t)" for x t
    using parse_string_length [OF that] by simp
  then show ?thesis
    using assms parse_number_length [of s] unfolding parse_scalar_def by (auto split: if_splits)
qed

lemma value_kinds:
  assumes p: "parse_value (Suc m) s = Some (v, rest)" and c: "skip_ws s = c # cs"
  obtains (const) "length rest < length s" "\<And>k. parse_value (Suc k) s = Some (v, rest)"
    | (arr) d ds vs where "c = CHR ''[''" "skip_ws cs = d # ds" "d \<noteq> CHR '']''"
        "parse_elements m cs = Some (vs, rest)" "v = JArr vs"
    | (obj) d ds ps where "c = CHR ''{''" "skip_ws cs = d # ds" "d \<noteq> CHR ''}''"
        "parse_members m cs [] = Some (ps, rest)" "v = JObj ps"
proof (cases "c = CHR ''['' \<or> c = CHR ''{''")
  case False
  then have "parse_value (Suc k) s = Some (v, rest)" for k using p c by simp
  moreover have "length rest < length s"
    using scalar_length [of "c # cs" v rest] False p c length_skip_ws [of s] by simp
  ultimately show thesis by (intro that(1))
next
  case True
  obtain d ds where d: "skip_ws cs = d # ds" using p c True by (cases "skip_ws cs") auto
  have len: "length ds < length s" using skip_ws_Cons [OF c] skip_ws_Cons [OF d] by simp
  show thesis
  proof (cases "c = CHR ''['' \<and> d = CHR '']'' \<or> c = CHR ''{'' \<and> d = CHR ''}''")
    case empty: True
    then have "rest = ds" "\<And>k. parse_value (Suc k) s = Some (v, rest)" using p c d by auto
    with len show thesis by (intro that(1)) auto
  next
    case False
    then consider "c = CHR ''[''" "d \<noteq> CHR '']''" | "c = CHR ''{''" "d \<noteq> CHR ''}''" using True by blast
    then show thesis
    proof cases
      case 1
      with p c d obtain vs where "parse_elements m cs = Some (vs, rest)" "v = JArr vs" by auto
      with 1 d show thesis by (intro that(2))
    next
      case 2
      with p c d obtain ps where "parse_members m cs [] = Some (ps, rest)" "v = JObj ps" by auto
      with 2 d show thesis by (intro that(3))
    qed
  qed
qed

lemma value_fuel_Suc:
  assumes "elements_fuel m" and "members_fuel m"
  shows "value_fuel (Suc m)"
  unfolding value_fuel_def
proof (intro allI impI)
  fix s v rest assume p: "parse_value (Suc m) s = Some (v, rest)"
  obtain c cs where c: "skip_ws s = c # cs" using p by (cases "skip_ws s") auto
  note len = skip_ws_Cons [OF c]
  from p c show "length rest < length s \<and> (\<forall>n \<ge> length s - length rest. parse_value n s = Some (v, rest))"
  proof (cases rule: value_kinds)
    case const
    then show ?thesis using fuel_from_Suc [of "length rest" "length s" "\<lambda>n. parse_value n s = Some (v, rest)"] by blast
  next
    case arr
    note E = elements_fuelD [OF assms(1) arr(4)]
    have "length rest < length s" using E(1) len by simp
    moreover have "parse_value (Suc k) s = Some (v, rest)" if "Suc k \<ge> length s - length rest" for k
      using E(2) [of k] that len E(1) arr c by simp
    ultimately show ?thesis
      using fuel_from_Suc [of "length rest" "length s" "\<lambda>n. parse_value n s = Some (v, rest)"] by blast
  next
    case obj
    note M = members_fuelD [OF assms(2) obj(4)]
    have "length rest < length s" using M(1) len by simp
    moreover have "parse_value (Suc k) s = Some (v, rest)" if "Suc k \<ge> length s - length rest" for k
      using M(2) [of k] that len M(1) obj c by simp
    ultimately show ?thesis
      using fuel_from_Suc [of "length rest" "length s" "\<lambda>n. parse_value n s = Some (v, rest)"] by blast
  qed
qed

lemma elements_fuel_Suc:
  assumes "value_fuel m" and "elements_fuel m"
  shows "elements_fuel (Suc m)"
  unfolding elements_fuel_def
proof (intro allI impI)
  fix s vs rest assume p: "parse_elements (Suc m) s = Some (vs, rest)"
  obtain v r1 where v: "parse_value m s = Some (v, r1)" using p by (auto split: option.splits)
  obtain d ds where d: "skip_ws r1 = d # ds" using p v by (cases "skip_ws r1") auto
  note V = value_fuelD [OF assms(1) v]
  note len = V(1) skip_ws_Cons [OF d]
  have step: "parse_elements (Suc k) s =
      (if d = CHR '']'' then Some ([v], ds)
       else if d = CHR '','' then map_option (\<lambda>(vs, r). (v # vs, r)) (parse_elements k ds) else None)"
    if "k \<ge> length s - length r1" for k
    using V(2) [OF that] d by simp
  have "Suc (length rest) < length s \<and>
      (\<forall>k. Suc k \<ge> length s - length rest \<longrightarrow> parse_elements (Suc k) s = Some (vs, rest))"
  proof (cases "d = CHR '']''")
    case True
    then have "vs = [v]" "rest = ds" using p v d by simp_all
    with len True step show ?thesis by auto
  next
    case False
    then obtain vs' where e: "d = CHR '',''" "parse_elements m ds = Some (vs', rest)" "vs = v # vs'"
      using p v d by (auto split: if_splits)
    note E = elements_fuelD [OF assms(2) e(2)]
    have "parse_elements (Suc k) s = Some (vs, rest)" if "Suc k \<ge> length s - length rest" for k
    proof -
      have "k \<ge> length s - length r1" "k \<ge> length ds - length rest" using that len E(1) by linarith+
      with step E(2) e False show ?thesis by simp
    qed
    with len E(1) show ?thesis by simp
  qed
  then show "Suc (length rest) < length s \<and> (\<forall>n \<ge> length s - length rest. parse_elements n s = Some (vs, rest))"
    using fuel_from_Suc [of "length rest" "length s" "\<lambda>n. parse_elements n s = Some (vs, rest)"] by simp
qed

lemma members_fuel_Suc:
  assumes "value_fuel m" and "members_fuel m"
  shows "members_fuel (Suc m)"
  unfolding members_fuel_def
proof (intro allI impI)
  fix s acc ps rest assume p: "parse_members (Suc m) s acc = Some (ps, rest)"
  obtain cs where c: "skip_ws s = dquote # cs" using p by (cases "skip_ws s") (auto split: if_splits)
  obtain k r1 where k: "parse_string cs = Some (k, r1)" using p c by (auto split: option.splits)
  obtain ds where d: "skip_ws r1 = CHR '':'' # ds" using p c k by (cases "skip_ws r1") (auto split: if_splits)
  obtain v r2 where v: "parse_value m ds = Some (v, r2)" using p c k d by (auto split: option.splits)
  obtain e es where e: "skip_ws r2 = e # es" using p c k d v by (cases "skip_ws r2") auto
  note V = value_fuelD [OF assms(1) v]
  note len = skip_ws_Cons [OF c] parse_string_length [OF k] skip_ws_Cons [OF d] V(1) skip_ws_Cons [OF e]
  have step: "parse_members (Suc j) s acc =
      (if e = CHR ''}'' then Some (jm_set k v acc, es)
       else if e = CHR '','' then parse_members j es (jm_set k v acc) else None)"
    if "j \<ge> length ds - length r2" for j
    using V(2) [OF that] c k d e by simp
  have "Suc (length rest) < length s \<and>
      (\<forall>j. Suc j \<ge> length s - length rest \<longrightarrow> parse_members (Suc j) s acc = Some (ps, rest))"
  proof (cases "e = CHR ''}''")
    case True
    then have "ps = jm_set k v acc" "rest = es" using p c k d v e by simp_all
    with len True step show ?thesis by auto
  next
    case False
    then have x: "e = CHR '',''" "parse_members m es (jm_set k v acc) = Some (ps, rest)"
      using p c k d v e by (auto split: if_splits)
    note M = members_fuelD [OF assms(2) x(2)]
    have "parse_members (Suc j) s acc = Some (ps, rest)" if "Suc j \<ge> length s - length rest" for j
    proof -
      have "j \<ge> length ds - length r2" "j \<ge> length es - length rest" using that len M(1) by linarith+
      with step M(2) x False show ?thesis by simp
    qed
    with len M(1) show ?thesis by simp
  qed
  then show "Suc (length rest) < length s \<and> (\<forall>n \<ge> length s - length rest. parse_members n s acc = Some (ps, rest))"
    using fuel_from_Suc [of "length rest" "length s" "\<lambda>n. parse_members n s acc = Some (ps, rest)"] by simp
qed

lemma all_fuel: "value_fuel m \<and> elements_fuel m \<and> members_fuel m"
proof (induction m)
  case 0
  show ?case by (simp add: value_fuel_def elements_fuel_def members_fuel_def)
next
  case (Suc m)
  then show ?case using value_fuel_Suc elements_fuel_Suc members_fuel_Suc by blast
qed

lemma parse_fuel:
  assumes "parse_value m s = Some (v, rest)" and "length s \<le> n"
  shows "parse_value n s = Some (v, rest)"
  using value_fuelD(2) [OF conjunct1 [OF all_fuel] assms(1)] assms(2) by simp


section \<open>Round trip\<close>

subsection \<open>Strings\<close>

definition piece_of :: "char \<Rightarrow> piece" where
  "piece_of c = (if (of_char c :: nat) < 32 \<and> of_char c \<notin> {8, 9, 10, 12, 13 :: nat} then Unit16 (of_char c) else Plain c)"

lemma json_hex_value_digit: "n < 16 \<Longrightarrow> json_hex_value (hex_digit n) = Some n"
  by (simp add: json_hex_value_def hex_digit_def Let_def)

lemma char_eqI: "(of_char c :: nat) = n \<Longrightarrow> c = char_of n"
  by (metis char_of_char)

lemma escape_letters [simp]:
  "CHR ''u'' \<noteq> dquote" "CHR ''u'' \<noteq> char_of (92::nat)" "CHR ''b'' \<noteq> dquote" "CHR ''b'' \<noteq> char_of (92::nat)"
  "CHR ''t'' \<noteq> dquote" "CHR ''t'' \<noteq> char_of (92::nat)" "CHR ''n'' \<noteq> dquote" "CHR ''n'' \<noteq> char_of (92::nat)"
  "CHR ''f'' \<noteq> dquote" "CHR ''f'' \<noteq> char_of (92::nat)" "CHR ''r'' \<noteq> dquote" "CHR ''r'' \<noteq> char_of (92::nat)"
  "char_of (92::nat) \<noteq> dquote"
  by (simp_all add: char_of_def)

lemma parse_escape: "parse_pieces (escape_char c @ rest) = cons_piece (piece_of c) (parse_pieces rest)"
proof -
  let ?n = "of_char c :: nat"
  consider (short) "?n \<in> {34, 92, 8, 9, 10, 12, 13}" | (unit) "?n < 32" "?n \<notin> {34, 92, 8, 9, 10, 12, 13}"
    | (plain) "32 \<le> ?n" "?n \<notin> {34, 92}" by force
  then show ?thesis
  proof cases
    case short
    then show ?thesis
      using escape_letters [symmetric] by (elim insertE) (auto dest!: char_eqI simp: escape_char_def piece_of_def)
  next
    case unit
    then have "json_hex_value (hex_digit (?n div 16)) = Some (?n div 16)" "json_hex_value (hex_digit (?n mod 16)) = Some (?n mod 16)"
      by (simp_all add: json_hex_value_digit)
    moreover have "json_hex_value (CHR ''0'') = Some 0" by (simp add: json_hex_value_def)
    ultimately have "hex4 (CHR ''0'') (CHR ''0'') (hex_digit (?n div 16)) (hex_digit (?n mod 16)) = Some ?n"
      by simp
    with unit show ?thesis by (simp add: escape_char_def piece_of_def Let_def del: hex4.simps)
  next
    case plain
    then have "c \<noteq> dquote" "c \<noteq> char_of (92::nat)" by auto
    with plain show ?thesis by (simp add: escape_char_def piece_of_def)
  qed
qed

lemma parse_pieces_show:
  "parse_pieces (concat (map escape_char s) @ dquote # rest) = Some (map piece_of s, rest)"
  by (induction s) (simp_all add: parse_escape cons_piece_def)

lemma piece_bytes_of: "piece_bytes (piece_of c # ps) = c # piece_bytes ps"
proof (cases "piece_of c")
  case (Unit16 u)
  then have u: "u = of_char c" "u < 32" by (auto simp: piece_of_def split: if_splits)
  then have "utf8 u = [c]" by (simp add: utf8_def)
  with Unit16 u(2) show ?thesis
    by (cases "Unit16 u # ps" rule: piece_bytes.cases) auto
qed (auto simp: piece_of_def split: if_splits)

lemma parse_show_string: "parse_string (concat (map escape_char s) @ dquote # rest) = Some (s, rest)"
  by (simp add: parse_string_def parse_pieces_show) (induction s, simp_all add: piece_bytes_of)


subsection \<open>Numbers\<close>

text \<open>Numbers with at most twenty decimal places.\<close>

definition num_ok :: "rat \<Rightarrow> bool" where
  "num_ok r \<longleftrightarrow> list_ex (\<lambda>d. r * 10 ^ d = of_int \<lfloor>r * 10 ^ d\<rfloor>) [0..<21]"

text \<open>The text after a number does not continue it.\<close>

definition number_end :: "string \<Rightarrow> bool" where
  "number_end s \<longleftrightarrow> (case s of [] \<Rightarrow> True | c # _ \<Rightarrow> \<not> is_digit c \<and> c \<notin> set ''.eE'')"

lemma find_satisfies: "List.find P xs = Some x \<Longrightarrow> P x"
  by (induction xs) (auto split: if_splits)

lemma find_exists: "list_ex P xs \<Longrightarrow> \<exists>x. List.find P xs = Some x"
  by (induction xs) auto

lemma decimal_places_exact:
  assumes "num_ok r" shows "r * 10 ^ decimal_places r = of_int \<lfloor>r * 10 ^ decimal_places r\<rfloor>"
proof -
  let ?P = "\<lambda>d. r * 10 ^ d = of_int \<lfloor>r * 10 ^ d\<rfloor>"
  obtain d where "List.find ?P [0..<21] = Some d"
    using find_exists [OF assms [unfolded num_ok_def]] by (elim exE)
  note find = this
  then have d: "decimal_places r = d" by (simp only: decimal_places_def option.case)
  show ?thesis unfolding d by (rule find_satisfies [OF find])
qed

lemma show_nat_small: "n < 10 \<Longrightarrow> show_nat n = [digit_char n]"
  by (simp add: show_nat.simps [of n])

lemma length_show_nat: "0 < d \<Longrightarrow> n < 10 ^ d \<Longrightarrow> length (show_nat n) \<le> d"
proof (induction d arbitrary: n)
  case (Suc d)
  show ?case
  proof (cases "n < 10")
    case False
    with Suc.prems have "0 < d" "n div 10 < 10 ^ d" by (cases d; auto)+
    with Suc.IH False show ?thesis by (simp add: show_nat.simps [of n])
  qed (simp add: show_nat_small)
qed simp

lemma parse_zeros: "parse_digits (Some 0) (replicate k CHR ''0'' @ s) = parse_digits (Some 0) s"
  by (induction k) (simp_all add: char_digit_def)

lemma parse_digits_start:
  assumes "s \<noteq> []" and "\<forall>c \<in> set s. is_digit c"
  shows "parse_digits (Some 0) s = parse_digits None s"
  using assms by (cases s) (auto split: option.splits)

lemma parse_digits_acc:
  "\<forall>c \<in> set s. is_digit c \<Longrightarrow> parse_digits (Some a) s = Some (a * 10 ^ length s + digits_value s)"
proof (induction s arbitrary: a rule: rev_induct)
  case (snoc c s)
  obtain d where d: "char_digit c = Some d" using snoc.prems by auto
  have s: "\<forall>c \<in> set s. is_digit c" using snoc.prems by simp
  have "digits_value (s @ [c]) = digits_value s * 10 + d"
    using d s snoc.IH [OF s, of 0] parse_digits_start [of s]
    by (cases "s = []") (auto simp: digits_value_def parse_digits_append [OF s] split: option.splits)
  with snoc.IH [OF s, of a] d s show ?case
    by (simp add: parse_digits_append [OF s] algebra_simps)
qed (simp add: digits_value_def)

lemma digits_value_append:
  assumes "\<forall>c \<in> set s. is_digit c" and "\<forall>c \<in> set t. is_digit c" and "s \<noteq> []"
  shows "digits_value (s @ t) = digits_value s * 10 ^ length t + digits_value t"
proof -
  have "parse_digits None s = Some (digits_value s)"
    using parse_digits_start [OF assms(3,1)] parse_digits_acc [OF assms(1), of 0] by simp
  then show ?thesis
    using parse_digits_acc [OF assms(2), of "digits_value s"]
    by (simp add: digits_value_def [of "s @ t"] parse_digits_append [OF assms(1)])
qed

lemma show_places_digits: "c \<in> set (show_places d n) \<Longrightarrow> is_digit c"
  using show_nat_digits [of c n] by (auto simp: show_places_def Let_def char_digit_def split: if_splits)

lemma show_places_value:
  assumes "0 < d" and "n < 10 ^ d"
  shows "length (show_places d n) = d" and "digits_value (show_places d n) = n" and "show_places d n \<noteq> []"
proof -
  show "length (show_places d n) = d" using length_show_nat [OF assms] by (simp add: show_places_def Let_def)
  then show ne: "show_places d n \<noteq> []" using assms(1) by auto
  have "parse_digits (Some 0) (show_nat n) = Some n"
    using parse_digits_start [of "show_nat n"] show_nat_digits parse_show_nat by simp
  then have "parse_digits None (show_places d n) = Some n"
    using parse_zeros [of "d - length (show_nat n)" "show_nat n"] parse_digits_start [OF ne] show_places_digits [of _ d n]
    by (auto simp: show_places_def Let_def)
  then show "digits_value (show_places d n) = n" by (simp add: digits_value_def)
qed

lemma show_nat_leading: "1 < length (show_nat n) \<Longrightarrow> hd (show_nat n) \<noteq> CHR ''0''"
proof (induction n rule: show_nat.induct)
  case (1 n)
  show ?case
  proof (cases "n < 10")
    case False
    with 1 have "hd (show_nat (n div 10)) \<noteq> CHR ''0''"
    proof (cases "1 < length (show_nat (n div 10))")
      case short: False
      then have small: "n div 10 < 10"
        by (auto simp: show_nat.simps [of "n div 10"] show_nat.simps [of "n div 10 div 10"] split: if_splits)
      moreover have "0 < n div 10" using False by simp
      ultimately show ?thesis
        by (simp add: show_nat_small digit_char_def char_of_eq_iff take_bit_nat_eq_self)
    qed simp
    with False show ?thesis by (simp add: show_nat.simps [of n])
  qed (use 1 in \<open>simp add: show_nat_small\<close>)
qed


lemma takeWhile_digits:
  assumes "\<forall>c \<in> set ds. is_digit c" and "rest = [] \<or> \<not> is_digit (hd rest)"
  shows "takeWhile is_digit (ds @ rest) = ds" and "dropWhile is_digit (ds @ rest) = rest"
  using assms by (cases rest; simp add: takeWhile_append2 dropWhile_append2)+

lemma show_nat_value: "digits_value (show_nat n) = n"
  by (simp add: digits_value_def parse_show_nat)

lemma parse_exponent_end: "number_end rest \<Longrightarrow> parse_exponent rest = Some (0, rest)"
  by (cases rest) (auto simp: parse_exponent_def number_end_def)

lemma parse_number_unsigned:
  assumes "number_end rest" and "0 < d \<Longrightarrow> f < 10 ^ d" and "d = 0 \<Longrightarrow> f = 0"
  shows "let s = show_nat i @ (if d = 0 then [] else CHR ''.'' # show_places d f) @ rest
    in takeWhile is_digit s = show_nat i \<and>
       (\<exists>fp s3. parse_fraction (dropWhile is_digit s) = Some (fp, s3) \<and> parse_exponent s3 = Some (0, rest) \<and>
          length fp = d \<and> digits_value (show_nat i @ fp) = i * 10 ^ d + f)"
proof (cases "d = 0")
  case True
  have stop: "rest = [] \<or> \<not> is_digit (hd rest)" using assms(1) by (cases rest) (auto simp: number_end_def)
  have "\<forall>c \<in> set (show_nat i). is_digit c" using show_nat_digits by blast
  note tw = takeWhile_digits [OF this stop]
  have "parse_fraction rest = Some ([], rest)"
    using assms(1) by (cases rest) (auto simp: parse_fraction_def number_end_def)
  with tw True assms(3) parse_exponent_end [OF assms(1)] show ?thesis by (simp add: show_nat_value)
next
  case False
  then have f: "f < 10 ^ d" using assms(2) by simp
  note places = show_places_value [OF _ f] and dg = show_places_digits [of _ d f]
  have stop: "rest = [] \<or> \<not> is_digit (hd rest)" using assms(1) by (cases rest) (auto simp: number_end_def)
  have sn: "\<forall>c \<in> set (show_nat i). is_digit c" using show_nat_digits by blast
  have "\<not> is_digit (CHR ''.'')" by (simp add: char_digit_def)
  then have tw: "takeWhile is_digit (show_nat i @ CHR ''.'' # show_places d f @ rest) = show_nat i"
      "dropWhile is_digit (show_nat i @ CHR ''.'' # show_places d f @ rest) = CHR ''.'' # show_places d f @ rest"
    using takeWhile_digits [OF sn, of "CHR ''.'' # show_places d f @ rest"] by simp_all
  have sp: "\<forall>c \<in> set (show_places d f). is_digit c" using dg by blast
  have "parse_fraction (CHR ''.'' # show_places d f @ rest) = Some (show_places d f, rest)"
    using takeWhile_digits [OF sp stop] places(3) False by (simp add: parse_fraction_def)
  moreover have "digits_value (show_nat i @ show_places d f) = i * 10 ^ d + f"
    using digits_value_append [OF sn sp] places False by (simp add: show_nat_value)
  ultimately show ?thesis using tw False places(1) parse_exponent_end [OF assms(1)] by simp
qed

lemma parse_show_num:
  assumes "num_ok r" and "number_end rest"
  shows "parse_number (show_num r @ rest) = Some (r, rest)"
proof -
  define d z where "d = decimal_places r" and "z = \<lfloor>r * 10 ^ d\<rfloor>"
  define n where "n = nat \<bar>z\<bar>"
  have z: "r * 10 ^ d = of_int z" using decimal_places_exact [OF assms(1)] unfolding d_def z_def .
  define s where "s = show_nat (n div 10 ^ d) @ (if d = 0 then [] else CHR ''.'' # show_places d (n mod 10 ^ d)) @ rest"
  have shown: "show_num r @ rest = (if r < 0 then CHR ''-'' # s else s)"
    unfolding show_num_def Let_def d_def [symmetric] z_def [symmetric] n_def [symmetric] s_def by simp
  have hd: "s \<noteq> [] \<and> hd s \<noteq> CHR ''-''"
    unfolding s_def using char_digit_not_special [OF show_nat_head] by (cases "show_nat (n div 10 ^ d)") auto
  have "let s = show_nat (n div 10 ^ d) @ (if d = 0 then [] else CHR ''.'' # show_places d (n mod 10 ^ d)) @ rest
    in takeWhile is_digit s = show_nat (n div 10 ^ d) \<and>
       (\<exists>fp s3. parse_fraction (dropWhile is_digit s) = Some (fp, s3) \<and> parse_exponent s3 = Some (0, rest) \<and>
          length fp = d \<and> digits_value (show_nat (n div 10 ^ d) @ fp) = n div 10 ^ d * 10 ^ d + n mod 10 ^ d)"
    by (rule parse_number_unsigned [OF assms(2)]) auto
  then obtain fp s3 where parts: "takeWhile is_digit s = show_nat (n div 10 ^ d)"
      "parse_fraction (dropWhile is_digit s) = Some (fp, s3)" "parse_exponent s3 = Some (0, rest)"
      "length fp = d" "digits_value (show_nat (n div 10 ^ d) @ fp) = n"
    unfolding Let_def s_def [symmetric] div_mult_mod_eq by auto
  have pos: "0 < (10::rat) ^ d" by simp
  have "(if r < 0 then - scale10 (- int d) (of_nat n) else scale10 (- int d) (of_nat n)) = r"
  proof -
    have "r = of_int z / 10 ^ d" using z pos by (simp add: field_simps)
    moreover have "r < 0 \<longleftrightarrow> z < 0" using z pos by (metis mult_less_0_iff of_int_less_0_iff not_less_iff_gr_or_eq)
    ultimately show ?thesis
      unfolding scale10_def n_def by (cases "d = 0") (auto simp: of_nat_nat)
  qed
  moreover have "parse_number (show_num r @ rest) =
      Some (if r < 0 then - scale10 (- int d) (of_nat n) else scale10 (- int d) (of_nat n), rest)"
    unfolding shown parse_number_def using hd parts show_nat_leading [of "n div 10 ^ d"] by (simp add: Let_def)
  ultimately show ?thesis by simp
qed


subsection \<open>Values\<close>

text \<open>Values that are texts of their own: printable numbers, no key twice.\<close>

fun json_ok :: "json \<Rightarrow> bool" where
  "json_ok (JNum r) = num_ok r"
| "json_ok (JArr vs) = (\<forall>v \<in> set vs. json_ok v)"
| "json_ok (JObj ps) = (distinct (map fst ps) \<and> (\<forall>p \<in> set ps. json_ok (snd p)))"
| "json_ok v = True"

definition reads_back :: "json \<Rightarrow> bool" where
  "reads_back v \<longleftrightarrow> (\<forall>rest. number_end rest \<longrightarrow> (\<exists>n. parse_value n (JSON_stringify v @ rest) = Some (v, rest)))"

lemma reads_back_any:
  assumes "reads_back v" and "number_end rest" and "length (JSON_stringify v @ rest) \<le> n"
  shows "parse_value n (JSON_stringify v @ rest) = Some (v, rest)"
  using assms parse_fuel unfolding reads_back_def by blast

lemma not_ws [simp]:
  "\<not> json_ws (CHR '']'')" "\<not> json_ws (CHR ''}'')" "\<not> json_ws (CHR '','')" "\<not> json_ws (CHR '':'')" "\<not> json_ws dquote"
  "dquote \<noteq> CHR ''[''" "dquote \<noteq> CHR ''{''" "dquote \<noteq> CHR '']''" "dquote \<noteq> CHR ''}''" "dquote \<noteq> CHR '',''" "dquote \<noteq> CHR ''-''"
  "\<not> json_ws (CHR ''['')" "\<not> json_ws (CHR ''{'')" "\<not> json_ws (CHR ''n'')" "\<not> json_ws (CHR ''t'')" "\<not> json_ws (CHR ''f'')"
  "\<not> json_ws (CHR ''-'')"
  by (code_simp)+

lemma skip_ws_not [simp]: "\<not> json_ws c \<Longrightarrow> skip_ws (c # cs) = c # cs"
  by (simp add: skip_ws_def)

lemma number_end_marks [simp]: "number_end (CHR '']'' # s)" "number_end (CHR ''}'' # s)" "number_end (CHR '','' # s)" "number_end []"
  by (simp_all add: number_end_def char_digit_def)

lemma digit_not_ws: "is_digit c \<Longrightarrow> \<not> json_ws c \<and> c \<notin> set ''[{]},'' \<and> c \<noteq> dquote"
  by (auto simp: json_ws_def char_digit_def split: if_splits)

lemma show_num_head: "\<exists>c cs. show_num r = c # cs \<and> (is_digit c \<or> c = CHR ''-'')"
proof -
  obtain p k q where p: "show_num r = p @ show_nat k @ q" "p = [] \<or> p = ''-''"
    using that [OF show_num_def [unfolded Let_def]] by auto
  obtain c cs where c: "show_nat k = c # cs" by (cases "show_nat k") auto
  with p show_nat_head [OF c] show ?thesis by auto
qed


lemma JSON_stringify_head:
  "\<exists>c cs. JSON_stringify v = c # cs \<and> \<not> json_ws c \<and> c \<notin> set '']},''"
proof (cases v)
  case (JNum r)
  then show ?thesis using show_num_head [of r] digit_not_ws by auto
qed (auto simp: show_string_def)

lemma stringify_skip: "skip_ws (JSON_stringify v @ rest) = JSON_stringify v @ rest"
  using JSON_stringify_head [of v] by auto

lemma elements_read_back:
  assumes "vs \<noteq> []" and "\<forall>v \<in> set vs. reads_back v"
  shows "\<exists>n. parse_elements n (js_join CHR '','' (map JSON_stringify vs) @ CHR '']'' # rest) = Some (vs, rest)"
  using assms
proof (induction vs rule: list_nonempty_induct)
  case (single v)
  then obtain n where "parse_value n (JSON_stringify v @ CHR '']'' # rest) = Some (v, CHR '']'' # rest)"
    unfolding reads_back_def by (metis list.set_intros(1) number_end_marks(1))
  then have "parse_elements (Suc n) (JSON_stringify v @ CHR '']'' # rest) = Some ([v], rest)" by simp
  then show ?case unfolding list.map js_join.simps by (rule exI)
next
  case (cons v vs)
  let ?t = "js_join CHR '','' (map JSON_stringify vs) @ CHR '']'' # rest"
  let ?s = "JSON_stringify v @ CHR '','' # ?t"
  obtain m where "parse_elements m ?t = Some (vs, rest)" using cons by auto
  from elements_fuelD(2) [OF _ this, of "length ?s"] all_fuel
  have e: "parse_elements (length ?s) ?t = Some (vs, rest)" by (simp add: le_diff_conv)
  have "parse_value (length ?s) ?s = Some (v, CHR '','' # ?t)"
    using cons.prems by (intro reads_back_any) auto
  with e have "parse_elements (Suc (length ?s)) ?s = Some (v # vs, rest)" by simp
  moreover have "js_join CHR '','' (map JSON_stringify (v # vs)) @ CHR '']'' # rest = ?s"
    using cons.hyps by (cases vs) auto
  ultimately show ?case by metis
qed

definition show_member :: "string \<times> json \<Rightarrow> string" where
  "show_member p = show_string (fst p) @ '':'' @ JSON_stringify (snd p)"

lemma member_step:
  assumes "reads_back v" and "number_end rest" and "length (show_member (k, v) @ rest) \<le> n"
  shows "parse_members (Suc n) (show_member (k, v) @ rest) acc =
    (case skip_ws rest of
       [] \<Rightarrow> None
     | e # es \<Rightarrow> if e = CHR ''}'' then Some (jm_set k v acc, es)
                 else if e = CHR '','' then parse_members n es (jm_set k v acc) else None)"
proof -
  have "parse_value n (JSON_stringify v @ rest) = Some (v, rest)"
    using assms by (intro reads_back_any) (auto simp: show_member_def)
  then show ?thesis
    by (simp add: show_member_def show_string_def parse_show_string)
qed

lemma members_read_back:
  assumes "ps \<noteq> []" and "\<forall>p \<in> set ps. reads_back (snd p)" and "distinct (map fst (acc @ ps))"
  shows "\<exists>n. parse_members n (js_join CHR '','' (map show_member ps) @ CHR ''}'' # rest) acc = Some (acc @ ps, rest)"
  using assms
proof (induction ps arbitrary: acc rule: list_nonempty_induct)
  case (single p)
  obtain k v where p: "p = (k, v)" by (cases p)
  have "jm_set k v acc = acc @ [(k, v)]" using single.prems p by (intro jm_set_new) auto
  then have "parse_members (Suc (length (show_member (k, v) @ CHR ''}'' # rest))) (show_member (k, v) @ CHR ''}'' # rest) acc =
      Some (acc @ [p], rest)"
    using member_step [of v "CHR ''}'' # rest" k _ acc] single.prems p by (simp del: parse_members.simps)
  then show ?case unfolding list.map js_join.simps p by (rule exI)
next
  case (cons p ps)
  obtain k v where p: "p = (k, v)" by (cases p)
  let ?t = "js_join CHR '','' (map show_member ps) @ CHR ''}'' # rest"
  let ?s = "show_member (k, v) @ CHR '','' # ?t"
  have new: "jm_set k v acc = acc @ [(k, v)]" using cons.prems p by (intro jm_set_new) auto
  obtain m where "parse_members m ?t (acc @ [(k, v)]) = Some ((acc @ [(k, v)]) @ ps, rest)"
    using cons.IH [of "acc @ [(k, v)]"] cons.prems p by auto
  from members_fuelD(2) [OF _ this, of "length ?s"] all_fuel
  have e: "parse_members (length ?s) ?t (acc @ [(k, v)]) = Some (acc @ p # ps, rest)"
    using p by (simp add: le_diff_conv)
  have "parse_members (Suc (length ?s)) ?s acc = Some (acc @ p # ps, rest)"
    using member_step [of v "CHR '','' # ?t" k "length ?s" acc] cons.prems(1) p new e by simp
  moreover have "js_join CHR '','' (map show_member (p # ps)) @ CHR ''}'' # rest = ?s"
    using cons.hyps p by (cases ps) auto
  ultimately show ?case by metis
qed


lemma stringify_array: "JSON_stringify (JArr vs) = CHR ''['' # js_join CHR '','' (map JSON_stringify vs) @ '']''"
  by simp

lemma stringify_object: "JSON_stringify (JObj ps) = CHR ''{'' # js_join CHR '','' (map show_member ps) @ ''}''"
  by (simp add: show_member_def [abs_def] case_prod_unfold)

lemma join_head:
  assumes "xs \<noteq> []" and "\<forall>x \<in> set xs. \<exists>c cs. x = c # cs \<and> P c"
  shows "\<exists>c cs. js_join sep xs = c # cs \<and> P c"
  using assms by (cases xs rule: remdups_adj.cases) auto

lemma array_reads_back:
  assumes "\<forall>v \<in> set vs. reads_back v"
  shows "reads_back (JArr vs)"
  unfolding reads_back_def
proof (intro allI impI)
  fix rest
  show "\<exists>n. parse_value n (JSON_stringify (JArr vs) @ rest) = Some (JArr vs, rest)"
  proof (cases "vs = []")
    case True
    then have "parse_value 1 (JSON_stringify (JArr vs) @ rest) = Some (JArr vs, rest)" by simp
    then show ?thesis ..
  next
    case False
    let ?t = "js_join CHR '','' (map JSON_stringify vs) @ CHR '']'' # rest"
    obtain n where n: "parse_elements n ?t = Some (vs, rest)" using elements_read_back [OF False assms] by blast
    have "\<exists>c cs. js_join CHR '','' (map JSON_stringify vs) = c # cs \<and> (\<not> json_ws c \<and> c \<notin> set '']},'')"
      using False JSON_stringify_head by (intro join_head) auto
    then obtain c cs where c: "?t = c # cs" "\<not> json_ws c" "c \<noteq> CHR '']''" by auto
    then have "parse_value (Suc n) (CHR ''['' # ?t) = Some (JArr vs, rest)" using n by simp
    then show ?thesis unfolding stringify_array by (intro exI) (simp del: parse_value.simps)
  qed
qed

lemma object_reads_back:
  assumes "\<forall>p \<in> set ps. reads_back (snd p)" and "distinct (map fst ps)"
  shows "reads_back (JObj ps)"
  unfolding reads_back_def
proof (intro allI impI)
  fix rest
  show "\<exists>n. parse_value n (JSON_stringify (JObj ps) @ rest) = Some (JObj ps, rest)"
  proof (cases "ps = []")
    case True
    then have "parse_value 1 (JSON_stringify (JObj ps) @ rest) = Some (JObj ps, rest)" by simp
    then show ?thesis ..
  next
    case False
    let ?t = "js_join CHR '','' (map show_member ps) @ CHR ''}'' # rest"
    obtain n where n: "parse_members n ?t [] = Some (ps, rest)" using members_read_back [OF False assms(1), of "[]"] assms(2) by auto
    have "\<exists>c cs. js_join CHR '','' (map show_member ps) = c # cs \<and> c = dquote"
      using False by (intro join_head) (auto simp: show_member_def show_string_def)
    then obtain cs where c: "?t = dquote # cs" by auto
    then have "parse_value (Suc n) (CHR ''{'' # ?t) = Some (JObj ps, rest)" using n by simp
    then show ?thesis unfolding stringify_object by (intro exI) (simp del: parse_value.simps)
  qed
qed

lemma scalars_read_back: "reads_back JNull" "reads_back (JBool b)" "reads_back (JStr s)"
proof -
  have "parse_value 1 (JSON_stringify v @ rest) = Some (v, rest)" if "v \<in> {JNull, JBool b, JStr s}" for v rest
    using that by (auto simp: parse_scalar_def show_string_def parse_show_string)
  then show "reads_back JNull" "reads_back (JBool b)" "reads_back (JStr s)" unfolding reads_back_def by blast+
qed

lemma json_reads_back: "json_ok v \<Longrightarrow> reads_back v"
proof (induction v rule: json_ok.induct)
  case (1 r)
  have "parse_value 1 (JSON_stringify (JNum r) @ rest) = Some (JNum r, rest)" if e: "number_end rest" for rest
  proof -
    obtain c cs where c: "show_num r = c # cs" "is_digit c \<or> c = CHR ''-''" using show_num_head by blast
    then have "\<not> json_ws c" "c \<notin> set ''[{ntf''" "c \<noteq> dquote" using digit_not_ws [of c] by (auto simp: char_digit_def)
    then have "parse_scalar (show_num r @ rest) = Some (JNum r, rest)"
      using parse_show_num [of r rest] 1 e c by (auto simp: parse_scalar_def)
    with c \<open>\<not> json_ws c\<close> \<open>c \<notin> set ''[{ntf''\<close> show ?thesis by simp
  qed
  then show ?case unfolding reads_back_def by blast
next
  case (2 vs)
  then show ?case by (intro array_reads_back) auto
next
  case (3 ps)
  then show ?case by (intro object_reads_back) auto
qed (simp_all add: scalars_read_back)

lemma JSON_parse_stringify: "json_ok v \<Longrightarrow> JSON_parse (JSON_stringify v) = Some v"
  using reads_back_any [OF json_reads_back, of v "[]" "Suc (length (JSON_stringify v))"]
  by (simp add: JSON_parse_def skip_ws_def)



end
