(* ===== verification/Jwt.thy ===== *)
theory Jwt
  imports Signals Redis_Keys Json_Text
begin

text \<open>
  Signed tokens (\<^verbatim>\<open>api/src/lib/jwt.ts\<close>): base64url, HS256 signing and checking, the claims schema and the
  revocation check. HMAC-SHA256 is the parameter \<open>hmac\<close> (key, then message); strings are lists of bytes. The schema is the
  \<^verbatim>\<open>zod\<close> object of the source: optional claims may be absent but not \<^verbatim>\<open>null\<close>, counters are
  non-negative integers.
\<close>

section \<open>base64url\<close>

fun sextets :: "string \<Rightarrow> nat list" where
  "sextets [] = []"
| "sextets [a] = [of_char a div 4, (of_char a mod 4) * 16]"
| "sextets [a, b] = [of_char a div 4, (of_char a mod 4) * 16 + of_char b div 16, (of_char b mod 16) * 4]"
| "sextets (a # b # c # cs) =
     [of_char a div 4, (of_char a mod 4) * 16 + of_char b div 16,
      (of_char b mod 16) * 4 + of_char c div 64, of_char c mod 64] @ sextets cs"

fun from_sextets :: "nat list \<Rightarrow> string" where
  "from_sextets (p # q # r # s # ss) =
     char_of (p * 4 + q div 16) # char_of ((q mod 16) * 16 + r div 4) # char_of ((r mod 4) * 64 + s) # from_sextets ss"
| "from_sextets [p, q, r] = [char_of (p * 4 + q div 16), char_of ((q mod 16) * 16 + r div 4)]"
| "from_sextets [p, q] = [char_of (p * 4 + q div 16)]"
| "from_sextets ss = []"

definition base64_alphabet :: string where
  "base64_alphabet = ''ABCDEFGHIJKLMNOPQRSTUVWXYZabcdefghijklmnopqrstuvwxyz0123456789+/''"

definition b64_char :: "nat \<Rightarrow> char" where
  "b64_char n = base64_alphabet ! n"

definition b64_value :: "char \<Rightarrow> nat option" where
  "b64_value c = List.find (\<lambda>n. base64_alphabet ! n = c) [0..<64]"

definition to_base64 :: "string \<Rightarrow> string" where
  "to_base64 s = map b64_char (sextets s) @ replicate ((3 - length s mod 3) mod 3) CHR ''=''"

definition from_base64 :: "string \<Rightarrow> string" where
  "from_base64 s = from_sextets (List.map_filter b64_value (takeWhile (\<lambda>c. c \<noteq> CHR ''='') s))"

definition base64UrlEncode :: "string \<Rightarrow> string" where
  "base64UrlEncode s =
     rev (dropWhile (\<lambda>c. c = CHR ''='') (rev
       (map (\<lambda>c. if c = CHR ''+'' then CHR ''-'' else if c = CHR ''/'' then CHR ''_'' else c) (to_base64 s))))"

definition base64UrlDecode :: "string \<Rightarrow> string" where
  "base64UrlDecode s =
     from_base64 (map (\<lambda>c. if c = CHR ''-'' then CHR ''+'' else if c = CHR ''_'' then CHR ''/'' else c) s @
       replicate ((4 - length s mod 4) mod 4) CHR ''='')"

section \<open>Claims\<close>

record jwt_payload =
  jp_iat :: int
  jp_exp :: int
  jp_jti :: "string option"
  jp_tenantId :: "string option"
  jp_userId :: "string option"
  jp_sensorId :: "string option"
  jp_scopes :: "string list option"
  jp_aud :: "string option"
  jp_epoch :: "int option"
  jp_tenant_id :: "string option"
  jp_user_id :: "string option"
  jp_sensor_id :: "string option"

fun schema_nat :: "json \<Rightarrow> int option" where
  "schema_nat (JNum r) = (if r = of_int \<lfloor>r\<rfloor> \<and> 0 \<le> r then Some \<lfloor>r\<rfloor> else None)"
| "schema_nat v = None"

fun schema_string :: "json \<Rightarrow> string option" where
  "schema_string (JStr s) = (if s = '''' then None else Some s)"
| "schema_string v = None"

fun schema_strings :: "json \<Rightarrow> string list option" where
  "schema_strings (JArr vs) =
     (if list_all (\<lambda>v. schema_string v \<noteq> None) vs then Some (List.map_filter schema_string vs) else None)"
| "schema_strings v = None"

text \<open>An optional claim: \<open>Some None\<close> when absent, \<open>None\<close> when present with a wrong value.\<close>

definition optional_claim :: "(json \<Rightarrow> 'a option) \<Rightarrow> (string, json) jsmap \<Rightarrow> string \<Rightarrow> 'a option option" where
  "optional_claim p m k = (case jm_get m k of None \<Rightarrow> Some None | Some v \<Rightarrow> map_option Some (p v))"

definition JwtPayloadSchema :: "json \<Rightarrow> jwt_payload option" where
  "JwtPayloadSchema v =
     (case v of
        JObj m \<Rightarrow>
          (case (Option.bind (jm_get m ''iat'') schema_nat, Option.bind (jm_get m ''exp'') schema_nat,
                 optional_claim schema_string m ''jti'', optional_claim schema_string m ''tenantId'',
                 optional_claim schema_string m ''userId'', optional_claim schema_string m ''sensorId'') of
             (Some iat, Some ex, Some jti, Some tenantId, Some userId, Some sensorId) \<Rightarrow>
               (case (optional_claim schema_strings m ''scopes'', optional_claim schema_string m ''aud'',
                      optional_claim schema_nat m ''epoch'', optional_claim schema_string m ''tenant_id'',
                      optional_claim schema_string m ''user_id'', optional_claim schema_string m ''sensor_id'') of
                  (Some scopes, Some aud, Some epoch, Some tenant_id, Some user_id, Some sensor_id) \<Rightarrow>
                    Some \<lparr> jp_iat = iat, jp_exp = ex, jp_jti = jti, jp_tenantId = tenantId, jp_userId = userId,
                           jp_sensorId = sensorId, jp_scopes = scopes, jp_aud = aud, jp_epoch = epoch,
                           jp_tenant_id = tenant_id, jp_user_id = user_id, jp_sensor_id = sensor_id \<rparr>
                | _ \<Rightarrow> None)
           | _ \<Rightarrow> None)
      | _ \<Rightarrow> None)"

section \<open>Signing and checking\<close>

type_synonym hmac = "string \<Rightarrow> string \<Rightarrow> string"

definition createSignature :: "hmac \<Rightarrow> string \<Rightarrow> string \<Rightarrow> string \<Rightarrow> string" where
  "createSignature hmac header payload secret =
     base64UrlEncode (hmac secret (header @ ''.'' @ payload))"

definition verifySignature :: "hmac \<Rightarrow> string \<Rightarrow> string \<Rightarrow> string \<Rightarrow> string \<Rightarrow> bool" where
  "verifySignature hmac header payload signature secret =
     (let expected = createSignature hmac header payload secret
      in if length signature \<noteq> length expected then False else signature = expected)"

text \<open>\<^verbatim>\<open>header.alg\<close> must be \<^verbatim>\<open>HS256\<close>; \<^verbatim>\<open>header.typ\<close> must be falsy or \<^verbatim>\<open>JWT\<close>.\<close>

definition header_ok :: "json \<Rightarrow> bool" where
  "header_ok h =
     (case h of
        JObj m \<Rightarrow> jm_get m ''alg'' = Some (JStr ''HS256'') \<and>
          (case jm_get m ''typ'' of None \<Rightarrow> True | Some t \<Rightarrow> json_truthy t \<longrightarrow> t = JStr ''JWT'')
      | _ \<Rightarrow> False)"

definition claims_ok :: "int \<Rightarrow> string option \<Rightarrow> jwt_payload \<Rightarrow> bool" where
  "claims_ok nowMs audience p \<longleftrightarrow>
     (let now = nowMs div 1000
      in \<not> jp_exp p \<le> now \<and> \<not> now + 300 < jp_iat p \<and> (str_truthy audience \<longrightarrow> jp_aud p = audience))"

definition parseJwt :: "hmac \<Rightarrow> int \<Rightarrow> string \<Rightarrow> string \<Rightarrow> string option \<Rightarrow> jwt_payload option" where
  "parseJwt hmac nowMs token secret audience =
     (case js_split CHR ''.'' token of
        [headerB64, payloadB64, signatureB64] \<Rightarrow>
          if \<not> verifySignature hmac headerB64 payloadB64 signatureB64 secret then None
          else (case JSON_parse (base64UrlDecode headerB64) of
                  None \<Rightarrow> None
                | Some header \<Rightarrow>
                    if \<not> header_ok header then None
                    else (case Option.bind (JSON_parse (base64UrlDecode payloadB64)) JwtPayloadSchema of
                            None \<Rightarrow> None
                          | Some payload \<Rightarrow> if claims_ok nowMs audience payload then Some payload else None))
      | _ \<Rightarrow> None)"

definition jwt_header :: json where
  "jwt_header = JObj [(''alg'', JStr ''HS256''), (''typ'', JStr ''JWT'')]"

definition signJwt :: "hmac \<Rightarrow> json \<Rightarrow> string \<Rightarrow> string" where
  "signJwt hmac payload secret =
     (let headerB64 = base64UrlEncode (JSON_stringify jwt_header);
          payloadB64 = base64UrlEncode (JSON_stringify payload);
          signature = createSignature hmac headerB64 payloadB64 secret
      in headerB64 @ ''.'' @ payloadB64 @ ''.'' @ signature)"

text \<open>The blacklist lookup; a database error (\<open>None\<close>) counts as not revoked.\<close>

definition isTokenRevoked :: "(string \<Rightarrow> string \<Rightarrow> bool option) \<Rightarrow> string \<Rightarrow> string \<Rightarrow> bool" where
  "isTokenRevoked blacklist jti tenantId = (case blacklist jti tenantId of None \<Rightarrow> False | Some b \<Rightarrow> b)"

datatype token_error = Token_invalid | Invalid_payload | Token_revoked

definition verifyAndDecodeToken ::
  "hmac \<Rightarrow> (string \<Rightarrow> string \<Rightarrow> bool option) \<Rightarrow> int \<Rightarrow> string \<Rightarrow> string \<Rightarrow> string option
     \<Rightarrow> token_error + jwt_payload \<times> string \<times> string" where
  "verifyAndDecodeToken hmac blacklist nowMs token secret audience =
     (case parseJwt hmac nowMs token secret audience of
        None \<Rightarrow> Inl Token_invalid
      | Some payload \<Rightarrow>
          if \<not> str_truthy (jp_jti payload) then Inl Invalid_payload
          else
            (let jti = the (jp_jti payload);
                 tenantId = (case jp_tenantId payload of Some t \<Rightarrow> Some t | None \<Rightarrow> jp_tenant_id payload)
             in if \<not> str_truthy tenantId then Inl Invalid_payload
                else if isTokenRevoked blacklist jti (the tenantId) then Inl Token_revoked
                else Inr (payload, the tenantId, jti)))"

section \<open>base64url round trip\<close>

lemma byte_div: "(of_char c :: nat) div 4 < 64" "(of_char c :: nat) div 16 < 16" "(of_char c :: nat) div 64 < 4"
  using of_char_less [of c] by (simp_all add: less_mult_imp_div_less)

lemma byte_div_simps [simp]:
  "(of_char c :: nat) div 16 div 16 = 0" "(of_char c :: nat) div 16 mod 16 = of_char c div 16"
  "(of_char c :: nat) div 64 div 4 = 0" "(of_char c :: nat) div 64 mod 4 = of_char c div 64"
  using byte_div [of c] by simp_all

lemma sextet_parts:
  fixes x y :: nat
  assumes "y < 16"
  shows "((x mod 4) * 16 + y) div 16 = x mod 4" and "((x mod 4) * 16 + y) mod 16 = y" and "(x mod 4) * 16 + y < 64"
  using assms mod_less_divisor [of 4 x] by auto

lemma sextet_parts2:
  fixes x y :: nat
  assumes "y < 4"
  shows "((x mod 16) * 4 + y) div 4 = x mod 16" and "((x mod 16) * 4 + y) mod 4 = y" and "(x mod 16) * 4 + y < 64"
  using assms mod_less_divisor [of 16 x] by auto

lemma sextets_less: "n \<in> set (sextets s) \<Longrightarrow> n < 64"
proof (induction s rule: sextets.induct)
  case (2 a)
  then show ?case using byte_div(1) [of a] sextet_parts(3) [of 0 "of_char a"] by auto
next
  case (3 a b)
  then show ?case
    using byte_div [of a] sextet_parts(3) [OF byte_div(2), of "of_char a" b] sextet_parts2(3) [of 0 "of_char b"] by auto
next
  case (4 a b c cs)
  then show ?case
    using byte_div [of a] sextet_parts(3) [OF byte_div(2), of "of_char a" b]
      sextet_parts2(3) [OF byte_div(3), of "of_char b" c] by auto
qed simp

lemma from_sextets_sextets: "from_sextets (sextets s) = s"
proof (induction s rule: sextets.induct)
  case (3 a b)
  then show ?case by (simp add: sextet_parts [OF byte_div(2)] mult.commute)
next
  case (4 a b c cs)
  then show ?case by (simp add: sextet_parts [OF byte_div(2)] sextet_parts2 [OF byte_div(3)] mult.commute)
qed (simp_all add: mult.commute)

lemma alphabet_distinct: "distinct base64_alphabet" "length base64_alphabet = 64"
  by (simp_all add: base64_alphabet_def)

lemma b64_value_char: "n < 64 \<Longrightarrow> b64_value (b64_char n) = Some n"
proof -
  assume n: "n < 64"
  then have "List.find (\<lambda>m. base64_alphabet ! m = base64_alphabet ! n) [0..<64] = Some n"
    using alphabet_distinct by (auto simp: find_Some_iff nth_eq_iff_index_eq intro!: exI [of _ n])
  then show ?thesis by (simp add: b64_value_def b64_char_def)
qed

lemma b64_char_in: "n < 64 \<Longrightarrow> b64_char n \<in> set base64_alphabet"
  by (simp add: b64_char_def alphabet_distinct)

lemma alphabet_not: "c \<in> set base64_alphabet \<Longrightarrow> c \<noteq> CHR ''='' \<and> c \<noteq> CHR ''-'' \<and> c \<noteq> CHR ''_'' \<and> c \<noteq> CHR ''.''"
  by (auto simp: base64_alphabet_def)

definition url_char :: "char \<Rightarrow> char" where
  "url_char c = (if c = CHR ''+'' then CHR ''-'' else if c = CHR ''/'' then CHR ''_'' else c)"

lemma url_char_not: "c \<in> set base64_alphabet \<Longrightarrow> url_char c \<noteq> CHR ''='' \<and> url_char c \<noteq> CHR ''.''"
  using alphabet_not [of c] by (auto simp: url_char_def)

lemma encode_eq: "base64UrlEncode s = map (\<lambda>n. url_char (b64_char n)) (sextets s)"
proof -
  have "\<forall>c \<in> set (map (\<lambda>n. url_char (b64_char n)) (sextets s)). c \<noteq> CHR ''=''"
    using sextets_less b64_char_in url_char_not by fastforce
  then have "dropWhile (\<lambda>c. c = CHR ''='') (rev (map (\<lambda>n. url_char (b64_char n)) (sextets s))) =
      rev (map (\<lambda>n. url_char (b64_char n)) (sextets s))"
    unfolding dropWhile_eq_self_iff by (metis hd_in_set set_rev)
  moreover have "dropWhile (\<lambda>c. c = CHR ''='') (replicate k CHR ''='' @ ys) = dropWhile (\<lambda>c. c = CHR ''='') ys" for k ys
    by (induction k) auto
  moreover have "url_char CHR ''='' = CHR ''=''" by (simp add: url_char_def)
  ultimately show ?thesis
    unfolding base64UrlEncode_def to_base64_def url_char_def [symmetric] by (simp add: comp_def)
qed

lemma base64_roundtrip: "base64UrlDecode (base64UrlEncode s) = s"
proof -
  let ?unurl = "\<lambda>c. if c = CHR ''-'' then CHR ''+'' else if c = CHR ''_'' then CHR ''/'' else c"
  have inv: "?unurl (url_char c) = c" if "c \<in> set base64_alphabet" for c
    using alphabet_not [OF that] by (auto simp: url_char_def)
  have "map ?unurl (base64UrlEncode s) = map b64_char (sextets s)"
    unfolding encode_eq map_map comp_def
    by (rule map_cong [OF refl]) (use sextets_less b64_char_in inv in blast)
  moreover have "takeWhile (\<lambda>c. c \<noteq> CHR ''='') (map b64_char (sextets s) @ replicate k CHR ''='') = map b64_char (sextets s)" for k
    using sextets_less b64_char_in alphabet_not by (subst takeWhile_append2) (fastforce, cases k, auto)
  moreover have "List.map_filter b64_value (map b64_char ns) = ns" if "\<forall>n \<in> set ns. n < 64" for ns
    using that by (induction ns) (simp_all add: map_filter_simps b64_value_char)
  then have "List.map_filter b64_value (map b64_char (sextets s)) = sextets s"
    using sextets_less by blast
  ultimately show ?thesis
    by (simp add: base64UrlDecode_def from_base64_def from_sextets_sextets)
qed

lemma base64_no_dot: "CHR ''.'' \<notin> set (base64UrlEncode s)"
  using sextets_less b64_char_in url_char_not by (fastforce simp: encode_eq)

section \<open>Properties\<close>

lemma split_token:
  assumes "CHR ''.'' \<notin> set a" "CHR ''.'' \<notin> set b" "CHR ''.'' \<notin> set c"
  shows "js_split CHR ''.'' (a @ ''.'' @ b @ ''.'' @ c) = [a, b, c]"
  using assms js_split_append [of "CHR ''.''" a] js_split_append [of "CHR ''.''" b] by (simp add: js_split_no_sep)

lemma signed_token_parses:
  assumes "json_ok payload"
    and "JwtPayloadSchema payload = Some p" and "claims_ok nowMs audience p"
  shows "parseJwt hmac nowMs (signJwt hmac payload secret) secret audience = Some p"
proof -
  define h b where "h = base64UrlEncode (JSON_stringify jwt_header)" and "b = base64UrlEncode (JSON_stringify payload)"
  have split: "js_split CHR ''.'' (signJwt hmac payload secret) = [h, b, createSignature hmac h b secret]"
    unfolding signJwt_def Let_def h_def b_def
    by (rule split_token) (simp_all add: base64_no_dot createSignature_def)
  have "header_ok jwt_header" by (simp add: header_ok_def jwt_header_def)
  moreover have "JSON_parse (JSON_stringify jwt_header) = Some jwt_header"
    by (rule JSON_parse_stringify) (simp add: jwt_header_def)
  ultimately show ?thesis using split assms JSON_parse_stringify [OF assms(1)]
    by (simp add: parseJwt_def verifySignature_def h_def b_def base64_roundtrip)
qed

lemma parseJwt_accepted:
  assumes "parseJwt hmac nowMs token secret audience = Some p"
  shows "\<exists>h b m. token = h @ ''.'' @ b @ ''.'' @ createSignature hmac h b secret \<and>
    JSON_parse (base64UrlDecode h) = Some (JObj m) \<and> jm_get m ''alg'' = Some (JStr ''HS256'') \<and>
    Option.bind (JSON_parse (base64UrlDecode b)) JwtPayloadSchema = Some p \<and> claims_ok nowMs audience p"
proof -
  obtain h b s where split: "js_split CHR ''.'' token = [h, b, s]"
    using assms by (auto simp: parseJwt_def split: list.splits)
  have token: "token = h @ ''.'' @ b @ ''.'' @ s"
    using js_join_split [of "CHR ''.''" token] by (simp add: split)
  obtain header where ok: "s = createSignature hmac h b secret" "JSON_parse (base64UrlDecode h) = Some header"
      "header_ok header" "Option.bind (JSON_parse (base64UrlDecode b)) JwtPayloadSchema = Some p" "claims_ok nowMs audience p"
    using assms by (auto simp: parseJwt_def split verifySignature_def Let_def split: if_splits option.splits)
  obtain m where "header = JObj m" "jm_get m ''alg'' = Some (JStr ''HS256'')"
    using ok(3) by (cases header) (auto simp: header_ok_def)
  with token ok show ?thesis by blast
qed

text \<open>
  C19: What \<^verbatim>\<open>signJwt\<close> signs, \<^verbatim>\<open>parseJwt\<close> reads back: a token over any claims that satisfy the schema, are not
  expired, not issued more than five minutes ahead and carry the expected audience, is accepted under the
  same secret and yields those claims.
\<close>

theorem signJwt_parseJwt_roundtrip:
  assumes "json_ok payload"
    and "JwtPayloadSchema payload = Some p" and "claims_ok nowMs audience p"
  shows "parseJwt hmac nowMs (signJwt hmac payload secret) secret audience = Some p"
  by (rule signed_token_parses [OF assms])

definition sample_claims :: json where
  "sample_claims = JObj [(''iat'', JNum 100), (''exp'', JNum 200), (''jti'', JStr ''j''), (''tenantId'', JStr ''t'')]"

definition sample_payload :: jwt_payload where
  "sample_payload = \<lparr> jp_iat = 100, jp_exp = 200, jp_jti = Some ''j'', jp_tenantId = Some ''t'', jp_userId = None,
     jp_sensorId = None, jp_scopes = None, jp_aud = None, jp_epoch = None, jp_tenant_id = None, jp_user_id = None,
     jp_sensor_id = None \<rparr>"

definition sample_hmac :: hmac where
  "sample_hmac k m = k @ m"

lemma sample_schema: "JwtPayloadSchema sample_claims = Some sample_payload"
  by (simp add: JwtPayloadSchema_def sample_claims_def sample_payload_def optional_claim_def)

lemma sample_json: "json_ok sample_claims"
  by code_simp

theorem signJwt_parseJwt_roundtrip_witness:
  "parseJwt sample_hmac 150000 (signJwt sample_hmac sample_claims ''k'') ''k'' None = Some sample_payload"
  by (rule signJwt_parseJwt_roundtrip [OF sample_json sample_schema])
    (simp add: claims_ok_def sample_payload_def str_truthy_def)



end
