(* ===== verification/Redis_Kv.thy ===== *)
theory Redis_Kv
  imports Redis_Keys
begin

text \<open>
  The key/value surface over Redis (\<^verbatim>\<open>api/src/storage/redis/kv.ts\<close>), its two client adapters, the TTL jitter
  (\<^verbatim>\<open>ttl.ts\<close>) and the tenant epochs built on it (\<^verbatim>\<open>lib/epoch.ts\<close>). A client call is a function on the
  state \<open>'r\<close> of the Redis server; the reply \<open>None\<close> is a rejected promise, which ends the calling function.
  What the code relies on of Redis is stated by the locale \<open>redis\<close>.
\<close>

section \<open>Calls that may fail\<close>

type_synonym ('r, 'a) io = "'r \<Rightarrow> 'r \<times> 'a option"

definition io_return :: "'a \<Rightarrow> ('r, 'a) io" where
  "io_return a r = (r, Some a)"

definition io_throw :: "('r, 'a) io" where
  "io_throw r = (r, None)"

definition io_bind :: "('r, 'a) io \<Rightarrow> ('a \<Rightarrow> ('r, 'b) io) \<Rightarrow> ('r, 'b) io" where
  "io_bind m f r = (case m r of (r', None) \<Rightarrow> (r', None) | (r', Some a) \<Rightarrow> f a r')"

text \<open>\<^verbatim>\<open>try { m } catch { h }\<close> and \<^verbatim>\<open>try { m } finally { h }\<close>.\<close>

definition io_catch :: "('r, 'a) io \<Rightarrow> ('r, 'a) io \<Rightarrow> ('r, 'a) io" where
  "io_catch m h r = (case m r of (r', None) \<Rightarrow> h r' | (r', Some a) \<Rightarrow> (r', Some a))"

definition io_finally :: "('r, 'a) io \<Rightarrow> ('r, 'b) io \<Rightarrow> ('r, 'a) io" where
  "io_finally m h r =
     (case m r of (r', a) \<Rightarrow> (case h r' of (r'', None) \<Rightarrow> (r'', None) | (r'', Some b) \<Rightarrow> (r'', a)))"

lemma io_bind_Some:
  "io_bind m f r = (r', Some b) \<longleftrightarrow> (\<exists>r1 a. m r = (r1, Some a) \<and> f a r1 = (r', Some b))"
  by (auto simp: io_bind_def split: prod.splits option.splits)

lemma io_finally_Some:
  "io_finally m h r = (r', Some a) \<longleftrightarrow> (\<exists>r1 b. m r = (r1, Some a) \<and> h r1 = (r', Some b))"
  by (auto simp: io_finally_def split: prod.splits option.splits)

lemma io_return_Some [simp]: "io_return a r = (r', Some b) \<longleftrightarrow> r' = r \<and> b = a"
  by (auto simp: io_return_def)

lemma io_throw_Some [simp]: "io_throw r \<noteq> (r', Some b)"
  by (simp add: io_throw_def)

section \<open>The surface and its adapters\<close>

record kv_set_options =
  so_ttlSeconds :: "int option"
  so_ifNotExists :: "bool option"

record 'r redis_kv =
  kv_get :: "string \<Rightarrow> ('r, string option) io"
  kv_set :: "string \<Rightarrow> string \<Rightarrow> kv_set_options \<Rightarrow> ('r, bool) io"
  kv_del :: "string \<Rightarrow> ('r, nat) io"
  kv_incr :: "string \<Rightarrow> int option \<Rightarrow> ('r, int) io"
  kv_incrby :: "string \<Rightarrow> int \<Rightarrow> int option \<Rightarrow> ('r, int) io"
  kv_mget :: "string list \<Rightarrow> ('r, string option list) io"
  kv_sadd :: "string \<Rightarrow> string list \<Rightarrow> ('r, nat) io"
  kv_srem :: "string \<Rightarrow> string list \<Rightarrow> ('r, nat) io"
  kv_smembers :: "string \<Rightarrow> ('r, string list) io"

datatype set_mode = Mode_EX

datatype set_flag = Flag_NX

text \<open>A client: the commands both libraries name alike, and the library's own \<^verbatim>\<open>set\<close>.\<close>

record 'r redis_client =
  rc_get :: "string \<Rightarrow> ('r, string option) io"
  rc_del :: "string \<Rightarrow> ('r, nat) io"
  rc_incr :: "string \<Rightarrow> ('r, int) io"
  rc_incrby :: "string \<Rightarrow> int \<Rightarrow> ('r, int) io"
  rc_expire :: "string \<Rightarrow> int \<Rightarrow> ('r, nat) io"
  rc_mget :: "string list \<Rightarrow> ('r, string option list) io"
  rc_sadd :: "string \<Rightarrow> string list \<Rightarrow> ('r, nat) io"
  rc_srem :: "string \<Rightarrow> string list \<Rightarrow> ('r, nat) io"
  rc_smembers :: "string \<Rightarrow> ('r, string list) io"

record 'r ioredis_client = "'r redis_client" +
  ic_set :: "string \<Rightarrow> string \<Rightarrow> set_mode option \<Rightarrow> int option \<Rightarrow> set_flag option \<Rightarrow> ('r, string option) io"

record node_set_options =
  no_EX :: "int option"
  no_NX :: "bool option"

record 'r node_redis_client = "'r redis_client" +
  nc_set :: "string \<Rightarrow> string \<Rightarrow> node_set_options option \<Rightarrow> ('r, string option) io"

definition truthy_num :: "int option \<Rightarrow> bool" where
  "truthy_num n \<longleftrightarrow> n \<noteq> None \<and> n \<noteq> Some 0"

definition expire_when_new ::
  "('r, 'a) redis_client_scheme \<Rightarrow> string \<Rightarrow> int option \<Rightarrow> bool \<Rightarrow> int \<Rightarrow> ('r, int) io" where
  "expire_when_new c key ttl isNew result =
     (if truthy_num ttl \<and> isNew then io_bind (rc_expire c key (the ttl)) (\<lambda>_. io_return result)
      else io_return result)"

definition client_incr :: "('r, 'a) redis_client_scheme \<Rightarrow> string \<Rightarrow> int option \<Rightarrow> ('r, int) io" where
  "client_incr c key ttl = io_bind (rc_incr c key) (\<lambda>result. expire_when_new c key ttl (result = 1) result)"

definition client_incrby :: "('r, 'a) redis_client_scheme \<Rightarrow> string \<Rightarrow> int \<Rightarrow> int option \<Rightarrow> ('r, int) io" where
  "client_incrby c key amount ttl =
     io_bind (rc_incrby c key amount) (\<lambda>result. expire_when_new c key ttl (result = amount) result)"

definition ioredis_set ::
  "'r ioredis_client \<Rightarrow> string \<Rightarrow> string \<Rightarrow> kv_set_options \<Rightarrow> ('r, bool) io" where
  "ioredis_set c key value options =
     (let ttlSeconds = so_ttlSeconds options;
          ifNotExists = (so_ifNotExists options = Some True);
          ok = (\<lambda>reply. io_return (reply = Some ''OK''))
      in if truthy_num ttlSeconds \<and> ifNotExists then io_bind (ic_set c key value (Some Mode_EX) ttlSeconds (Some Flag_NX)) ok
         else if truthy_num ttlSeconds then io_bind (ic_set c key value (Some Mode_EX) ttlSeconds None) ok
         else if ifNotExists then io_bind (ic_set c key value None None (Some Flag_NX)) ok
         else io_bind (ic_set c key value None None None) ok)"

definition createIoredisKv :: "'r ioredis_client \<Rightarrow> 'r redis_kv" where
  "createIoredisKv c =
     \<lparr> kv_get = rc_get c, kv_set = ioredis_set c, kv_del = rc_del c, kv_incr = client_incr c,
       kv_incrby = client_incrby c, kv_mget = rc_mget c, kv_sadd = rc_sadd c, kv_srem = rc_srem c,
       kv_smembers = rc_smembers c \<rparr>"

definition node_redis_set ::
  "'r node_redis_client \<Rightarrow> string \<Rightarrow> string \<Rightarrow> kv_set_options \<Rightarrow> ('r, bool) io" where
  "node_redis_set c key value options =
     (let redisOptions = \<lparr> no_EX = (if truthy_num (so_ttlSeconds options) then so_ttlSeconds options else None),
                           no_NX = (if so_ifNotExists options = Some True then Some True else None) \<rparr>
      in io_bind (nc_set c key value
                    (if no_EX redisOptions \<noteq> None \<or> no_NX redisOptions \<noteq> None then Some redisOptions else None))
           (\<lambda>reply. io_return (reply = Some ''OK'')))"

definition createNodeRedisKv :: "'r node_redis_client \<Rightarrow> 'r redis_kv" where
  "createNodeRedisKv c =
     \<lparr> kv_get = rc_get c, kv_set = node_redis_set c, kv_del = rc_del c, kv_incr = client_incr c,
       kv_incrby = client_incrby c, kv_mget = rc_mget c, kv_sadd = rc_sadd c, kv_srem = rc_srem c,
       kv_smembers = rc_smembers c \<rparr>"

section \<open>TTL\<close>

definition TTL_session :: int where "TTL_session = 24 * 60 * 60"
definition TTL_cacheMin :: int where "TTL_cacheMin = 5 * 60"
definition TTL_cacheMax :: int where "TTL_cacheMax = 15 * 60"
definition TTL_lockMin :: int where "TTL_lockMin = 30"
definition TTL_lockMax :: int where "TTL_lockMax = 2 * 60"

text \<open>\<open>random\<close> is the drawn number of \<^verbatim>\<open>[0, 1)\<close>; \<^verbatim>\<open>Math.round\<close> rounds halves up.\<close>

definition js_round :: "rat \<Rightarrow> int" where
  "js_round x = \<lfloor>x + 1/2\<rfloor>"

definition applyTtlJitter :: "rat \<Rightarrow> rat option \<Rightarrow> int \<Rightarrow> int" where
  "applyTtlJitter random jitter ttlSeconds =
     (if ttlSeconds \<le> 0 then ttlSeconds
      else
        (let jitterFraction = (case jitter of None \<Rightarrow> 1/10 | Some j \<Rightarrow> j) in
         if jitterFraction < 0 \<or> 1 \<le> jitterFraction then ttlSeconds
         else
           (let span = of_int ttlSeconds * jitterFraction;
                delta = (random * 2 - 1) * span;
                jittered = js_round (of_int ttlSeconds + delta)
            in max 1 jittered)))"

section \<open>Epochs\<close>

definition epochKey :: "string \<Rightarrow> key_error + string" where
  "epochKey tenantId = buildRedisKey
     \<lparr> rk_namespace = ''horizon'', rk_version = Some 1, rk_tenantId = tenantId, rk_dataType = ''auth-epoch'',
       rk_id = [KStr ''current''] \<rparr>"

text \<open>\<open>None\<close> is the \<^verbatim>\<open>EpochLookupError\<close>.\<close>

definition getEpochForTenant :: "'r redis_kv \<Rightarrow> string \<Rightarrow> ('r, int) io" where
  "getEpochForTenant kv tenantId =
     (case epochKey tenantId of
        Inl e \<Rightarrow> io_throw
      | Inr key \<Rightarrow>
          io_bind (kv_get kv key) (\<lambda>raw.
            case raw of
              None \<Rightarrow> io_return 0
            | Some s \<Rightarrow> io_return (case parseInt s of None \<Rightarrow> 0 | Some n \<Rightarrow> n)))"

definition incrementEpochForTenant :: "'r redis_kv \<Rightarrow> string \<Rightarrow> ('r, int) io" where
  "incrementEpochForTenant kv tenantId =
     (case epochKey tenantId of Inl e \<Rightarrow> io_throw | Inr key \<Rightarrow> kv_incr kv key None)"

section \<open>What the code relies on of Redis\<close>

text \<open>
  \<open>clock r\<close> is the server's clock, \<open>holds r k v T\<close> says that key \<open>k\<close> has the value \<open>v\<close> and does not
  expire up to time \<open>T\<close>, \<open>absent r k\<close> that it has none. Commands leave other keys alone, reads leave all
  keys alone, and \<^verbatim>\<open>SET ... EX\<close> keeps its value for the given time.
\<close>

text \<open>The epoch of a tenant, when its counter is intact.\<close>

definition epoch_is ::
  "('r \<Rightarrow> string \<Rightarrow> string \<Rightarrow> int \<Rightarrow> bool) \<Rightarrow> ('r \<Rightarrow> string \<Rightarrow> bool) \<Rightarrow> 'r \<Rightarrow> string \<Rightarrow> int \<Rightarrow> bool" where
  "epoch_is holds absent r key n \<longleftrightarrow> (if n = 0 then absent r key \<or> (\<forall>T. holds r key (show_int 0) T)
     else \<forall>T. holds r key (show_int n) T)"

locale redis =
  fixes kv :: "'r redis_kv"
    and clock :: "'r \<Rightarrow> int"
    and holds :: "'r \<Rightarrow> string \<Rightarrow> string \<Rightarrow> int \<Rightarrow> bool"
    and absent :: "'r \<Rightarrow> string \<Rightarrow> bool"
  assumes get_frame: "kv_get kv k r = (r', rep) \<Longrightarrow>
      clock r \<le> clock r' \<and> (holds r k' v T \<longrightarrow> holds r' k' v T) \<and> (absent r k' \<longrightarrow> absent r' k')"
    and get_hit: "kv_get kv k r = (r', Some a) \<Longrightarrow> holds r k v T \<Longrightarrow> clock r' \<le> T \<Longrightarrow> a = Some v"
    and get_miss: "kv_get kv k r = (r', Some a) \<Longrightarrow> absent r k \<Longrightarrow> a = None"
    and mget_frame: "kv_mget kv ks r = (r', mrep) \<Longrightarrow>
      clock r \<le> clock r' \<and> (holds r k' v T \<longrightarrow> holds r' k' v T) \<and> (absent r k' \<longrightarrow> absent r' k')"
    and mget_length: "kv_mget kv ks r = (r', Some vs) \<Longrightarrow> length vs = length ks"
    and mget_hit: "kv_mget kv ks r = (r', Some vs) \<Longrightarrow> i < length ks \<Longrightarrow> holds r (ks ! i) v T \<Longrightarrow>
      clock r' \<le> T \<Longrightarrow> vs ! i = Some v"
    and mget_miss: "kv_mget kv ks r = (r', Some vs) \<Longrightarrow> i < length ks \<Longrightarrow> absent r (ks ! i) \<Longrightarrow> vs ! i = None"
    and set_frame: "kv_set kv k w opts r = (r', srep) \<Longrightarrow> k' \<noteq> k \<Longrightarrow>
      (holds r k' v T \<longrightarrow> holds r' k' v T) \<and> (absent r k' \<longrightarrow> absent r' k')"
    and set_clock: "kv_set kv k w opts r = (r', srep) \<Longrightarrow> clock r \<le> clock r'"
    and set_stores: "kv_set kv k w \<lparr> so_ttlSeconds = Some t, so_ifNotExists = None \<rparr> r = (r', Some c) \<Longrightarrow> 0 < t \<Longrightarrow>
      T < clock r + 1000 * t \<Longrightarrow> holds r' k w T"
    and del_frame: "kv_del kv k r = (r', drep) \<Longrightarrow> k' \<noteq> k \<Longrightarrow>
      (holds r k' v T \<longrightarrow> holds r' k' v T) \<and> (absent r k' \<longrightarrow> absent r' k')"
    and del_clock: "kv_del kv k r = (r', drep) \<Longrightarrow> clock r \<le> clock r'"
    and del_removes: "kv_del kv k r = (r', Some dn) \<Longrightarrow> absent r' k"
    and incr_counts: "kv_incr kv k None r = (r', Some n) \<Longrightarrow> \<forall>T. holds r k (show_int m) T \<Longrightarrow>
      n = m + 1 \<and> (\<forall>T. holds r' k (show_int n) T)"
    and incr_starts: "kv_incr kv k None r = (r', Some n) \<Longrightarrow> absent r k \<Longrightarrow>
      n = 1 \<and> (\<forall>T. holds r' k (show_int 1) T)"
    and incr_frame: "kv_incr kv k None r = (r', irep) \<Longrightarrow> k' \<noteq> k \<Longrightarrow>
      (holds r k' v T \<longrightarrow> holds r' k' v T) \<and> (absent r k' \<longrightarrow> absent r' k')"
begin

lemma epoch_read:
  assumes "epochKey tenant = Inr key" and "epoch_is holds absent r key n" and "getEpochForTenant kv tenant r = (r', Some m)"
  shows "m = n \<and> epoch_is holds absent r' key n"
proof -
  obtain raw where raw: "kv_get kv key r = (r', Some raw)"
      "m = (case raw of None \<Rightarrow> 0 | Some s \<Rightarrow> (case parseInt s of None \<Rightarrow> 0 | Some i \<Rightarrow> i))"
    using assms(1,3) by (auto simp: getEpochForTenant_def io_bind_Some split: option.splits)
  have keep: "epoch_is holds absent r' key n"
    using assms(2) get_frame [OF raw(1)] unfolding epoch_is_def by metis
  have "(absent r key \<and> n = 0) \<or> (\<forall>T. holds r key (show_int n) T)"
    using assms(2) unfolding epoch_is_def by metis
  then have "raw = None \<and> n = 0 \<or> raw = Some (show_int n)"
    using get_miss [OF raw(1)] get_hit [OF raw(1)] by blast
  with raw(2) keep show ?thesis by (auto simp: parseInt_show_int)
qed

lemma epoch_increment:
  assumes "epochKey tenant = Inr key" and "epoch_is holds absent r key n" and "0 \<le> n"
    and "incrementEpochForTenant kv tenant r = (r', Some m)"
  shows "m = n + 1 \<and> epoch_is holds absent r' key m"
proof -
  have inc: "kv_incr kv key None r = (r', Some m)"
    using assms(1,4) by (simp add: incrementEpochForTenant_def)
  have "(absent r key \<and> n = 0) \<or> (\<forall>T. holds r key (show_int n) T)"
    using assms(2) unfolding epoch_is_def by metis
  then show ?thesis
    using incr_counts [OF inc] incr_starts [OF inc] assms(3) unfolding epoch_is_def by fastforce
qed

end

section \<open>A reference server\<close>

text \<open>A table with expiry times that satisfies the laws, behind the ioredis adapter.\<close>

record ref_db =
  rf_clock :: int
  rf_data :: "string \<Rightarrow> (string \<times> int option) option"

definition ref_live :: "ref_db \<Rightarrow> string \<Rightarrow> string option" where
  "ref_live r k = (case rf_data r k of
     None \<Rightarrow> None | Some (v, e) \<Rightarrow> if e = None \<or> rf_clock r < the e then Some v else None)"

definition ref_incrby :: "string \<Rightarrow> int \<Rightarrow> (ref_db, int) io" where
  "ref_incrby k amount r =
     (let n = (case ref_live r k of None \<Rightarrow> 0 | Some s \<Rightarrow> (case parseInt s of None \<Rightarrow> 0 | Some i \<Rightarrow> i)) + amount;
          e = (case rf_data r k of Some (v, e) \<Rightarrow> if ref_live r k = None then None else e | None \<Rightarrow> None)
      in (r\<lparr> rf_data := (rf_data r)(k := Some (show_int n, e)) \<rparr>, Some n))"

definition ref_client :: "ref_db ioredis_client" where
  "ref_client =
     \<lparr> rc_get = (\<lambda>k r. (r, Some (ref_live r k))),
       rc_del = (\<lambda>k r. (r\<lparr> rf_data := (rf_data r)(k := None) \<rparr>, Some (if ref_live r k = None then 0 else 1))),
       rc_incr = (\<lambda>k. ref_incrby k 1),
       rc_incrby = ref_incrby,
       rc_expire = (\<lambda>k t r. (r\<lparr> rf_data := (rf_data r)(k := map_option (\<lambda>(v, e). (v, Some (rf_clock r + 1000 * t))) (rf_data r k)) \<rparr>, Some 1)),
       rc_mget = (\<lambda>ks r. (r, Some (map (ref_live r) ks))),
       rc_sadd = (\<lambda>k ms r. (r, Some 0)), rc_srem = (\<lambda>k ms r. (r, Some 0)), rc_smembers = (\<lambda>k r. (r, Some [])),
       ic_set = (\<lambda>k v mode ttl flag r.
          if flag = Some Flag_NX \<and> ref_live r k \<noteq> None then (r, Some None)
          else (r\<lparr> rf_data := (rf_data r)(k := Some (v, map_option (\<lambda>t. rf_clock r + 1000 * t) ttl)) \<rparr>, Some (Some ''OK''))) \<rparr>"

definition ref_holds :: "ref_db \<Rightarrow> string \<Rightarrow> string \<Rightarrow> int \<Rightarrow> bool" where
  "ref_holds r k v T \<longleftrightarrow> (\<exists>e. rf_data r k = Some (v, e) \<and> (e = None \<or> T < the e))"

definition ref_absent :: "ref_db \<Rightarrow> string \<Rightarrow> bool" where
  "ref_absent r k \<longleftrightarrow> rf_data r k = None"

lemma ref_live_holds: "ref_holds r k v T \<Longrightarrow> rf_clock r \<le> T \<Longrightarrow> ref_live r k = Some v"
  by (auto simp: ref_holds_def ref_live_def)

lemma ref_live_absent: "ref_absent r k \<Longrightarrow> ref_live r k = None"
  by (simp add: ref_absent_def ref_live_def)

lemma ref_holds_forever: "\<forall>T. ref_holds r k v T \<Longrightarrow> rf_data r k = Some (v, None)"
proof -
  assume all: "\<forall>T. ref_holds r k v T"
  then obtain e where e: "rf_data r k = Some (v, e)" by (auto simp: ref_holds_def)
  have "e = None"
  proof (rule ccontr)
    assume "e \<noteq> None"
    with spec [OF all, of "the e"] e show False by (simp add: ref_holds_def)
  qed
  with e show ?thesis by simp
qed

lemma ref_set_eq:
  "ioredis_set ref_client k w opts r = (r', c) \<Longrightarrow> rf_clock r' = rf_clock r \<and>
     (\<forall>k'. k' \<noteq> k \<longrightarrow> rf_data r' k' = rf_data r k')"
  by (auto simp: ioredis_set_def ref_client_def Let_def io_bind_def io_return_def split: if_splits)

interpretation ref: redis "createIoredisKv ref_client" rf_clock ref_holds ref_absent
proof (unfold_locales, goal_cases)
  case (2 k r r' a v T)
  then show ?case by (auto simp: createIoredisKv_def ref_client_def ref_live_holds)
next
  case (3 k r r' a)
  then show ?case by (auto simp: createIoredisKv_def ref_client_def ref_live_absent)
next
  case (6 ks r r' vs i v T)
  then show ?case by (auto simp: createIoredisKv_def ref_client_def ref_live_holds)
next
  case (7 ks r r' vs i)
  then show ?case by (auto simp: createIoredisKv_def ref_client_def ref_live_absent)
next
  case (8 k w opts r r' c k' v T)
  then show ?case using ref_set_eq [of k w opts r r' c]
    by (simp add: createIoredisKv_def ref_holds_def ref_absent_def)
next
  case (9 k w opts r r' c)
  then show ?case using ref_set_eq [of k w opts r r' c] by (simp add: createIoredisKv_def)
next
  case (10 k w t r r' c T)
  then show ?case
    by (auto simp: createIoredisKv_def ioredis_set_def ref_client_def Let_def io_bind_def io_return_def
        truthy_num_def ref_holds_def)
next
  case (14 k r r' n m)
  then have "rf_data r k = Some (show_int m, None)" by (simp add: ref_holds_forever)
  with 14(1) show ?case
    by (auto simp: createIoredisKv_def client_incr_def io_bind_def ref_client_def ref_incrby_def ref_live_def
        expire_when_new_def truthy_num_def io_return_def Let_def parseInt_show_int ref_holds_def)
next
  case (15 k r r' n)
  then show ?case
    by (auto simp: createIoredisKv_def client_incr_def io_bind_def ref_client_def ref_incrby_def ref_live_def
        expire_when_new_def truthy_num_def io_return_def Let_def ref_holds_def ref_absent_def)
next
  case (16 k r r' e k' v T)
  then show ?case
    by (auto simp: createIoredisKv_def client_incr_def io_bind_def ref_client_def ref_incrby_def
        expire_when_new_def truthy_num_def io_return_def Let_def ref_holds_def ref_absent_def)
qed (auto simp: createIoredisKv_def ref_client_def ref_holds_def ref_absent_def)

section \<open>Properties\<close>

text \<open>
  Bumping a tenant's epoch takes effect exactly once and at once: the increment returns the next number,
  and every later successful lookup returns it, so each token issued under an earlier epoch is older than
  the current one.
\<close>

theorem epoch_increment_is_read_back:
  assumes "redis kv clock holds absent" and "epochKey tenant = Inr key"
    and "epoch_is holds absent r key n" and "0 \<le> n"
    and "incrementEpochForTenant kv tenant r = (r1, Some m)"
    and "getEpochForTenant kv tenant r1 = (r2, Some c)"
  shows "m = n + 1 \<and> c = m \<and> (\<forall>epoch. epoch \<le> n \<longrightarrow> epoch < c)"
  using redis.epoch_increment [OF assms(1-5)] redis.epoch_read [OF assms(1,2) _ assms(6)] by auto

definition ref_empty :: ref_db where
  "ref_empty = \<lparr> rf_clock = 0, rf_data = (\<lambda>k. None) \<rparr>"

theorem epoch_increment_is_read_back_witness:
  "\<exists>r1 r2. incrementEpochForTenant (createIoredisKv ref_client) ''t'' ref_empty = (r1, Some 1) \<and>
     getEpochForTenant (createIoredisKv ref_client) ''t'' r1 = (r2, Some 1)"
proof -
  obtain key where key: "epochKey ''t'' = Inr key" by (simp add: epochKey_def buildRedisKey_def)
  have zero: "epoch_is ref_holds ref_absent ref_empty key 0" by (simp add: epoch_is_def ref_absent_def ref_empty_def)
  obtain r1 m where inc: "incrementEpochForTenant (createIoredisKv ref_client) ''t'' ref_empty = (r1, Some m)"
    by (simp add: incrementEpochForTenant_def key createIoredisKv_def client_incr_def io_bind_def ref_client_def
        ref_incrby_def Let_def expire_when_new_def truthy_num_def io_return_def)
  obtain r2 c where get: "getEpochForTenant (createIoredisKv ref_client) ''t'' r1 = (r2, Some c)"
    by (cases "ref_live r1 key")
      (auto simp: getEpochForTenant_def key createIoredisKv_def ref_client_def io_bind_def io_return_def)
  from epoch_increment_is_read_back [OF ref.redis_axioms key zero _ inc get] inc get show ?thesis by simp
qed

text \<open>
  The jittered TTL stays within the fraction: for a positive TTL and a fraction below one it is at least
  one second and, up to rounding, between \<^verbatim>\<open>ttl * (1 - fraction)\<close> and \<^verbatim>\<open>ttl * (1 + fraction)\<close>.
\<close>

lemma js_round_bounds: "x - 1/2 < of_int (js_round x) \<and> of_int (js_round x) \<le> x + (1/2 :: rat)"
  unfolding js_round_def by linarith

lemma jitter_delta:
  fixes random j t :: rat
  assumes "0 \<le> random" "random < 1" "0 \<le> j" "0 < t"
  shows "- (t * j) \<le> (random * 2 - 1) * (t * j) \<and> (random * 2 - 1) * (t * j) \<le> t * j"
proof -
  have "0 \<le> t * j" using assms by simp
  moreover have "- 1 \<le> random * 2 - 1" "random * 2 - 1 \<le> 1" using assms by simp_all
  ultimately show ?thesis
    using mult_right_mono [of "- 1" "random * 2 - 1" "t * j"] mult_right_mono [of "random * 2 - 1" 1 "t * j"] by simp
qed

theorem applyTtlJitter_bounds:
  assumes "0 < ttl" and "0 \<le> random" and "random < 1" and "0 \<le> j" and "j < 1"
  shows "1 \<le> applyTtlJitter random (Some j) ttl \<and>
    of_int ttl * (1 - j) - 1/2 < of_int (applyTtlJitter random (Some j) ttl) \<and>
    of_int (applyTtlJitter random (Some j) ttl) \<le> max 1 (of_int ttl * (1 + j) + 1/2)"
proof -
  define x where "x = of_int ttl + (random * 2 - 1) * (of_int ttl * j)"
  have eq: "applyTtlJitter random (Some j) ttl = max 1 (js_round x)"
    using assms by (simp add: applyTtlJitter_def Let_def x_def)
  have x: "of_int ttl * (1 - j) \<le> x" "x \<le> of_int ttl * (1 + j)"
    using jitter_delta [of random j "of_int ttl"] assms by (simp_all add: x_def algebra_simps)
  show ?thesis
    unfolding eq using js_round_bounds [of x] x by (auto simp: max_def)
qed

theorem applyTtlJitter_bounds_witness: "1 \<le> applyTtlJitter 0 (Some (1/10)) 900"
  using applyTtlJitter_bounds [of 900 0 "1/10"] by simp

text \<open>
  The two client libraries are interchangeable: when both clients implement the same \<^verbatim>\<open>SET\<close> command
  with its optional \<^verbatim>\<open>EX\<close> and \<^verbatim>\<open>NX\<close> arguments and agree on the other commands, the adapters
  expose the same key/value store, for every combination of options, a TTL of zero included.
\<close>

theorem redis_adapters_agree:
  assumes "redis_client.truncate ic = redis_client.truncate nc"
    and "\<forall>k v ttl nx. ic_set ic k v (map_option (\<lambda>_. Mode_EX) ttl) ttl (if nx then Some Flag_NX else None) =
      nc_set nc k v (if ttl = None \<and> \<not> nx then None
        else Some \<lparr> no_EX = ttl, no_NX = (if nx then Some True else None) \<rparr>)"
  shows "createIoredisKv ic = createNodeRedisKv nc"
proof -
  have same: "rc_get ic = rc_get nc" "rc_del ic = rc_del nc" "rc_incr ic = rc_incr nc" "rc_incrby ic = rc_incrby nc"
      "rc_expire ic = rc_expire nc" "rc_mget ic = rc_mget nc" "rc_sadd ic = rc_sadd nc" "rc_srem ic = rc_srem nc"
      "rc_smembers ic = rc_smembers nc"
    using assms(1) by (simp_all add: redis_client.defs)
  have "ioredis_set ic k v opts = node_redis_set nc k v opts" for k v opts
  proof -
    note set = assms(2) [rule_format]
    show ?thesis
      using set [of k v "so_ttlSeconds opts" True] set [of k v "so_ttlSeconds opts" False]
        set [of k v None True] set [of k v None False]
      by (cases "so_ttlSeconds opts")
        (auto simp: ioredis_set_def node_redis_set_def Let_def truthy_num_def)
  qed
  then have "ioredis_set ic = node_redis_set nc" by (intro ext) simp
  moreover have ex: "expire_when_new ic k ttl b n = expire_when_new nc k ttl b n" for k ttl b n
    by (simp add: expire_when_new_def same cong del: if_weak_cong)
  have "client_incr ic k ttl = client_incr nc k ttl" "client_incrby ic k n ttl = client_incrby nc k n ttl" for k n ttl
    unfolding client_incr_def client_incrby_def same ex by simp_all
  then have "client_incr ic = client_incr nc" "client_incrby ic = client_incrby nc"
    by (simp_all add: fun_eq_iff)
  ultimately show ?thesis
    by (simp add: createIoredisKv_def createNodeRedisKv_def same)
qed

definition node_client :: "ref_db node_redis_client" where
  "node_client = redis_client.extend (redis_client.truncate ref_client)
     \<lparr> nc_set = (\<lambda>k v opts. case opts of
          None \<Rightarrow> ic_set ref_client k v None None None
        | Some os \<Rightarrow> ic_set ref_client k v (map_option (\<lambda>_. Mode_EX) (no_EX os)) (no_EX os)
                      (if no_NX os = Some True then Some Flag_NX else None)) \<rparr>"

theorem redis_adapters_agree_witness: "createIoredisKv ref_client = createNodeRedisKv node_client"
  by (rule redis_adapters_agree) (auto simp: node_client_def redis_client.defs)

end
