(* ===== verification/Client_Ip.thy ===== *)
theory Client_Ip
  imports Js_Text Fixed_Window "HOL-Library.Word"
begin

text \<open>
  The address of a client behind proxies (\<^verbatim>\<open>api/src/middleware/rate-limiter.ts\<close>, from
  \<^verbatim>\<open>getClientIpForAuth\<close> and \<^verbatim>\<open>ipMatchesCIDR\<close> on). \<^verbatim>\<open>NaN\<close> is \<open>None\<close>. \<^verbatim>\<open>Number\<close> is modelled
  on the strings that can be octets: blanks, signs and decimal digits, the empty string being 0; every other
  text is \<^verbatim>\<open>NaN\<close>.
\<close>

unbundle bit_operations_syntax

section \<open>Numbers\<close>

definition all_digits :: "string \<Rightarrow> bool" where
  "all_digits s \<longleftrightarrow> s \<noteq> [] \<and> list_all (\<lambda>c. char_digit c \<noteq> None) s"

definition js_Number :: "string \<Rightarrow> int option" where
  "js_Number s =
     (case js_trim s of
        [] \<Rightarrow> Some 0
      | c # cs \<Rightarrow>
          if all_digits (c # cs) then map_option int (parse_digits None (c # cs))
          else if c = CHR ''-'' \<and> all_digits cs then map_option (\<lambda>n. - int n) (parse_digits None cs)
          else if c = CHR ''+'' \<and> all_digits cs then map_option int (parse_digits None cs)
          else None)"

text \<open>\<^verbatim>\<open>a !== b\<close> on numbers or \<^verbatim>\<open>NaN\<close>, and the 32-bit view that \<^verbatim>\<open>&\<close> takes.\<close>

definition num_differs :: "int option \<Rightarrow> int option \<Rightarrow> bool" where
  "num_differs a b \<longleftrightarrow> a = None \<or> b = None \<or> a \<noteq> b"

definition to_int32 :: "int option \<Rightarrow> int" where
  "to_int32 a = (case a of None \<Rightarrow> 0 | Some n \<Rightarrow> signed_take_bit 31 n)"

section \<open>CIDR matching\<close>

definition normalize_mapped :: "string \<Rightarrow> string" where
  "normalize_mapped ip = (if prefix ''::ffff:'' ip then drop 7 ip else ip)"

definition cidr_octets_match :: "int option \<Rightarrow> int option list \<Rightarrow> int option list \<Rightarrow> bool" where
  "cidr_octets_match p ipParts networkParts =
     (case p of
        None \<Rightarrow> True
      | Some n \<Rightarrow>
          (let octetsToCheck = n div 8;
               remainingBits = (if n < 0 then - ((- n) mod 8) else n mod 8)
           in if list_ex (\<lambda>i. i < 4 \<and> num_differs (ipParts ! i) (networkParts ! i)) [0..<nat octetsToCheck] then False
              else if 0 < remainingBits \<and> octetsToCheck < 4
              then (let m = push_bit (nat (8 - remainingBits)) 255 in
                    to_int32 (ipParts ! nat octetsToCheck) AND m = to_int32 (networkParts ! nat octetsToCheck) AND m)
              else True))"

definition ipMatchesCIDR :: "string \<Rightarrow> string \<Rightarrow> bool" where
  "ipMatchesCIDR ip cidr =
     (let normalizedIp = normalize_mapped ip in
      if normalizedIp = cidr \<or> ip = cidr then True
      else if CHR ''/'' \<in> set cidr then
        (case js_split CHR ''/'' cidr of
           network # prefixStr # _ \<Rightarrow>
             (let p = parseInt prefixStr;
                  ipParts = map js_Number (js_split CHR ''.'' normalizedIp);
                  networkParts = map js_Number (js_split CHR ''.'' network)
              in if length ipParts \<noteq> 4 \<or> length networkParts \<noteq> 4 then False
                 else cidr_octets_match p ipParts networkParts)
         | _ \<Rightarrow> False)
      else False)"

section \<open>Proxies\<close>

datatype trust_proxy = TrustBool bool | TrustUndefined | TrustList "string list"

definition isTrustedProxy :: "string option \<Rightarrow> trust_proxy \<Rightarrow> bool" where
  "isTrustedProxy socketIp trustProxy =
     (case trustProxy of
        TrustBool b \<Rightarrow> b
      | TrustUndefined \<Rightarrow> False
      | TrustList ts \<Rightarrow>
          (case socketIp of
             None \<Rightarrow> False
           | Some ip \<Rightarrow> if ip = [] then False else list_ex (\<lambda>trusted. ipMatchesCIDR ip trusted) ts))"

text \<open>A request: the address of the socket and the headers with a single value.\<close>

record ip_request =
  ir_remoteAddress :: "string option"
  ir_headers :: "(string, string) jsmap"

definition socket_address :: "ip_request \<Rightarrow> string" where
  "socket_address req =
     (case ir_remoteAddress req of None \<Rightarrow> ''unknown'' | Some ip \<Rightarrow> normalize_mapped ip)"

definition forwarded_client :: "ip_request \<Rightarrow> string option" where
  "forwarded_client req =
     (case jm_get (ir_headers req) ''x-forwarded-for'' of
        None \<Rightarrow> None
      | Some f \<Rightarrow> (let ip = js_trim (split_first CHR '','' f) in if ip = [] then None else Some ip))"

definition header_trimmed :: "string \<Rightarrow> ip_request \<Rightarrow> string option" where
  "header_trimmed name req =
     (case jm_get (ir_headers req) name of
        None \<Rightarrow> None | Some v \<Rightarrow> if js_trim v = [] then None else Some (js_trim v))"

definition getClientIp :: "ip_request \<Rightarrow> trust_proxy \<Rightarrow> string" where
  "getClientIp req trustProxy =
     (if isTrustedProxy (ir_remoteAddress req) trustProxy
      then (case forwarded_client req of
              Some ip \<Rightarrow> ip
            | None \<Rightarrow> (case header_trimmed ''x-real-ip'' req of
                        Some ip \<Rightarrow> ip
                      | None \<Rightarrow> (case header_trimmed ''cf-connecting-ip'' req of
                                  Some ip \<Rightarrow> ip | None \<Rightarrow> socket_address req)))
      else socket_address req)"

definition getTrustedProxies :: "string option \<Rightarrow> trust_proxy" where
  "getTrustedProxies envValue =
     (case envValue of
        None \<Rightarrow> TrustBool False
      | Some v \<Rightarrow> if v = [] then TrustBool False
                  else TrustList (filter (\<lambda>p. p \<noteq> []) (map js_trim (js_split CHR '','' v))))"

definition getClientIpForAuth :: "string option \<Rightarrow> ip_request \<Rightarrow> string" where
  "getClientIpForAuth env_TRUSTED_PROXIES req =
     (if isTrustedProxy (ir_remoteAddress req) (getTrustedProxies env_TRUSTED_PROXIES)
      then (case forwarded_client req of Some ip \<Rightarrow> ip | None \<Rightarrow> socket_address req)
      else socket_address req)"

section \<open>The preset limiters\<close>

definition preset :: "int \<Rightarrow> int \<Rightarrow> string \<Rightarrow> rate_limiter_options" where
  "preset maxRequests windowMs message = \<lparr> rl_maxRequests = maxRequests, rl_windowMs = windowMs, rl_message = Some message \<rparr>"

definition rateLimiters :: "string option \<Rightarrow> (string, rate_limiter_options) jsmap" where
  "rateLimiters NODE_ENV =
     [(''hunt'', preset 100 (60 * 1000) ''Hunt query rate limit exceeded. Please wait before trying again.''),
      (''savedQueries'', preset 30 (60 * 1000) ''Saved query rate limit exceeded. Please wait before trying again.''),
      (''aggregations'', preset 10 (60 * 1000) ''Aggregation rate limit exceeded. These queries are resource-intensive.''),
      (''connectivityTest'', preset 10 (60 * 1000)
         ''Connectivity test rate limit exceeded. These operations are resource-intensive.''),
      (''authAttempt'', preset 5 (15 * 60 * 1000)
         ''Too many authentication attempts. Please wait 15 minutes before trying again.''),
      (''configMutation'', preset 10 (60 * 1000)
         ''Configuration update rate limit exceeded. Please wait before making more changes.''),
      (''fleetCommand'', preset 20 (60 * 1000) ''Fleet command rate limit exceeded. Please wait before issuing more commands.''),
      (''onboarding'', preset 5 (60 * 1000) ''Onboarding rate limit exceeded. Please wait before creating more tokens.''),
      (''userAuth'', preset 5 (60 * 1000) ''Too many login attempts. Please wait 1 minute before trying again.''),
      (''global'', preset (if NODE_ENV = Some ''production'' then 1000 else 50000) (60 * 1000)
         ''Global API rate limit exceeded. Please reduce request frequency.'')]"

text \<open>The handler of a limiter with the default key: the address of the client.\<close>

definition limitRequest ::
  "rate_limiter_options \<Rightarrow> string option \<Rightarrow> int \<Rightarrow> ip_request \<Rightarrow> rate_limit_store \<Rightarrow> rate_limit_outcome \<times> rate_limit_store" where
  "limitRequest opts env_TRUSTED_PROXIES now req store =
     rateLimiterHandler opts now (getClientIp req (getTrustedProxies env_TRUSTED_PROXIES)) store"

section \<open>Octets as bits\<close>

definition octet_bits :: "int \<Rightarrow> bool list" where
  "octet_bits x = map (\<lambda>i. bit x (7 - i)) [0..<8]"

definition address_bits :: "int list \<Rightarrow> bool list" where
  "address_bits xs = concat (map octet_bits xs)"

lemma length_octet_bits [simp]: "length (octet_bits x) = 8"
  by (simp add: octet_bits_def)

lemma octet_high_bits: "0 \<le> x \<Longrightarrow> x < 256 \<Longrightarrow> bit (x::int) n \<Longrightarrow> n < 8"
proof (rule ccontr)
  assume "0 \<le> x" "x < 256" "bit x n" "\<not> n < 8"
  then have "2 ^ 8 \<le> (2 ^ n :: int)" by (intro power_increasing) auto
  with \<open>0 \<le> x\<close> \<open>x < 256\<close> have "x div 2 ^ n = 0" by simp
  with \<open>bit x n\<close> show False by (simp add: bit_iff_odd)
qed

lemma take_octet_bits:
  assumes "0 \<le> a" "a < 256" "0 \<le> b" "b < 256" and "r \<le> 8"
  shows "take r (octet_bits a) = take r (octet_bits b) \<longleftrightarrow> drop_bit (8 - r) a = drop_bit (8 - r) b"
proof -
  have "take r (octet_bits a) = take r (octet_bits b) \<longleftrightarrow> (\<forall>i < r. bit a (7 - i) = bit b (7 - i))"
    using assms(5) by (auto simp: octet_bits_def list_eq_iff_nth_eq)
  also have "\<dots> \<longleftrightarrow> (\<forall>n. bit a (8 - r + n) = bit b (8 - r + n))"
  proof (rule iffI; intro allI impI)
    fix n assume h: "\<forall>i < r. bit a (7 - i) = bit b (7 - i)"
    show "bit a (8 - r + n) = bit b (8 - r + n)"
    proof (cases "n < r")
      case True
      then have "7 - (r - 1 - n) = 8 - r + n" "r - 1 - n < r" using assms(5) by simp_all
      with h show ?thesis by metis
    next
      case False
      then have "\<not> 8 - r + n < 8" using assms(5) by simp
      then show ?thesis using octet_high_bits assms(1-4) by blast
    qed
  next
    fix i assume h: "\<forall>n. bit a (8 - r + n) = bit b (8 - r + n)" and "i < r"
    then have "8 - r + (r - 1 - i) = 7 - i" using assms(5) by simp
    with h show "bit a (7 - i) = bit b (7 - i)" by metis
  qed
  also have "\<dots> \<longleftrightarrow> drop_bit (8 - r) a = drop_bit (8 - r) b"
    by (auto simp: bit_eq_iff bit_drop_bit_eq)
  finally show ?thesis .
qed

lemma octet_bits_inj: "0 \<le> a \<Longrightarrow> a < 256 \<Longrightarrow> 0 \<le> b \<Longrightarrow> b < 256 \<Longrightarrow> octet_bits a = octet_bits b \<longleftrightarrow> a = b"
  using take_octet_bits [of a b 8] by simp

lemma mask_octet:
  fixes a :: int
  assumes "0 \<le> a" "a < 256" "k \<le> 8"
  shows "a AND push_bit k 255 = push_bit k (drop_bit k a)"
proof (rule bit_eqI)
  fix n
  have m: "(255::int) = mask 8" by (simp add: mask_eq_exp_minus_1)
  have "n < 8" if "bit a n" using octet_high_bits [OF assms(1,2) that] .
  then show "bit (a AND push_bit k 255) n \<longleftrightarrow> bit (push_bit k (drop_bit k a)) n"
    unfolding m bit_and_iff bit_push_bit_iff bit_drop_bit_eq bit_mask_iff by (cases "bit a n") auto
qed

lemma mask_octet_eq:
  fixes a b :: int
  assumes "0 \<le> a" "a < 256" "0 \<le> b" "b < 256" "k \<le> 8"
  shows "a AND push_bit k 255 = b AND push_bit k 255 \<longleftrightarrow> drop_bit k a = drop_bit k b"
  unfolding mask_octet [OF assms(1,2,5)] mask_octet [OF assms(3,4,5)] by (simp add: push_bit_eq_mult)

definition octets :: "int list \<Rightarrow> bool" where
  "octets xs \<longleftrightarrow> (\<forall>x \<in> set xs. 0 \<le> x \<and> x < 256)"

lemma address_take:
  assumes "length a = length n" and "octets a" and "octets n" and "r < 8"
  shows "take (8 * q + r) (address_bits a) = take (8 * q + r) (address_bits n) \<longleftrightarrow>
    (\<forall>i < q. i < length a \<longrightarrow> a ! i = n ! i) \<and>
    (q < length a \<longrightarrow> take r (octet_bits (a ! q)) = take r (octet_bits (n ! q)))"
  using assms(1-3)
proof (induction a n arbitrary: q rule: list_induct2)
  case Nil
  then show ?case by (simp add: address_bits_def)
next
  case (Cons x xs y ys)
  have bits: "address_bits (z # zs) = octet_bits z @ address_bits zs" for z zs
    by (simp add: address_bits_def)
  have o: "octets xs" "octets ys" "0 \<le> x" "x < 256" "0 \<le> y" "y < 256"
    using Cons.prems by (simp_all add: octets_def)
  show ?case
  proof (cases q)
    case 0
    with assms(4) show ?thesis by (simp add: bits)
  next
    case (Suc q')
    then have "take (8 * q + r) (address_bits (z # zs)) = octet_bits z @ take (8 * q' + r) (address_bits zs)" for z zs
      by (simp add: bits)
    then have "take (8 * q + r) (address_bits (x # xs)) = take (8 * q + r) (address_bits (y # ys)) \<longleftrightarrow>
        x = y \<and> take (8 * q' + r) (address_bits xs) = take (8 * q' + r) (address_bits ys)"
      using octet_bits_inj [of x y] o by simp
    then have one: "take (8 * q + r) (address_bits (x # xs)) = take (8 * q + r) (address_bits (y # ys)) \<longleftrightarrow>
        x = y \<and> (\<forall>i < q'. i < length xs \<longrightarrow> xs ! i = ys ! i) \<and>
        (q' < length xs \<longrightarrow> take r (octet_bits (xs ! q')) = take r (octet_bits (ys ! q')))"
      using Cons.IH [OF o(1,2), of q'] by simp
    have two: "(\<forall>i < q. i < length (x # xs) \<longrightarrow> (x # xs) ! i = (y # ys) ! i) \<longleftrightarrow>
        x = y \<and> (\<forall>i < q'. i < length xs \<longrightarrow> xs ! i = ys ! i)"
      unfolding Suc by (auto simp: less_Suc_eq_0_disj)
    show ?thesis unfolding one two using Suc by simp
  qed
qed

lemma to_int32_octet: "0 \<le> x \<Longrightarrow> x < 256 \<Longrightarrow> to_int32 (Some x) = x"
  by (simp add: to_int32_def signed_take_bit_int_eq_self)

lemma cidr_octets_match_bits:
  assumes "length a = 4" and "length n = 4" and "octets a" and "octets n" and "p \<le> 32"
  shows "cidr_octets_match (Some (int p)) (map Some a) (map Some n) \<longleftrightarrow>
    take p (address_bits a) = take p (address_bits n)"
proof -
  define q r where "q = p div 8" and "r = p mod 8"
  have p: "p = 8 * q + r" and r: "r < 8" and q: "q \<le> 4" "q = 4 \<Longrightarrow> r = 0"
    using assms(5) unfolding q_def r_def by presburger+
  have int: "int p div 8 = int q" "int p mod 8 = int r"
    by (simp_all add: q_def r_def zdiv_int zmod_int)
  have len: "length a = length n" using assms(1,2) by simp
  have first: "list_ex (\<lambda>i. i < 4 \<and> num_differs (map Some a ! i) (map Some n ! i)) [0..<q] \<longleftrightarrow> \<not> (\<forall>i < q. a ! i = n ! i)"
    using q(1) assms(1,2) by (auto simp: list_ex_iff num_differs_def)
  have last: "to_int32 (map Some a ! q) AND push_bit (8 - r) 255 = to_int32 (map Some n ! q) AND push_bit (8 - r) 255 \<longleftrightarrow>
      take r (octet_bits (a ! q)) = take r (octet_bits (n ! q))" if "q < 4"
  proof -
    have o: "0 \<le> a ! q" "a ! q < 256" "0 \<le> n ! q" "n ! q < 256"
      using that assms(1-4) by (auto simp: octets_def)
    then show ?thesis
      using that assms(1,2) r by (simp add: to_int32_octet mask_octet_eq take_octet_bits)
  qed
  have "cidr_octets_match (Some (int p)) (map Some a) (map Some n) \<longleftrightarrow>
      (\<forall>i < q. a ! i = n ! i) \<and> (0 < r \<and> q < 4 \<longrightarrow> take r (octet_bits (a ! q)) = take r (octet_bits (n ! q)))"
  proof -
    have n8: "nat (8 - int r) = 8 - r" using r by simp
    show ?thesis
      unfolding cidr_octets_match_def Let_def option.simps int nat_int first
      using last n8 by auto
  qed
  also have "\<dots> \<longleftrightarrow> take p (address_bits a) = take p (address_bits n)"
    unfolding p address_take [OF len assms(3,4) r] using assms(1) q by auto
  finally show ?thesis .
qed


section \<open>Addresses in dotted form\<close>

definition dotted :: "nat list \<Rightarrow> string" where
  "dotted xs = js_join CHR ''.'' (map show_nat xs)"

lemma js_trim_id: "\<forall>c \<in> set s. \<not> js_space c \<Longrightarrow> js_trim s = s"
proof -
  assume s: "\<forall>c \<in> set s. \<not> js_space c"
  have "dropWhile js_space t = t" if "set t \<subseteq> set s" for t
    using s that by (cases t) auto
  then show ?thesis by (simp add: js_trim_def)
qed

lemma show_nat_char: "c \<in> set (show_nat n) \<Longrightarrow> 48 \<le> (of_char c :: nat) \<and> (of_char c :: nat) \<le> 57"
  using show_nat_digits [of c n] by (auto simp: char_digit_def split: if_splits)

lemma js_Number_show_nat [simp]: "js_Number (show_nat n) = Some (int n)"
proof -
  obtain c cs where c: "show_nat n = c # cs" by (cases "show_nat n") auto
  have "js_trim (show_nat n) = show_nat n"
    using show_nat_digits char_digit_not_special by (intro js_trim_id) blast
  moreover have "all_digits (show_nat n)"
    using show_nat_digits by (auto simp: all_digits_def list_all_iff)
  ultimately show ?thesis using parse_show_nat [of n] c by (simp add: js_Number_def)
qed

lemma parseInt_show_nat [simp]: "parseInt (show_nat n) = Some (int n)"
  using parseInt_show_int [of "int n"] by (simp add: show_int_def)

lemma show_nat_no_mark: "CHR ''.'' \<notin> set (show_nat n)" "CHR ''/'' \<notin> set (show_nat n)" "CHR '':'' \<notin> set (show_nat n)"
  using show_nat_char [of _ n] by fastforce+

lemma js_join_chars: "set (js_join sep xs) \<subseteq> insert sep (\<Union>x \<in> set xs. set x)"
  by (induction sep xs rule: js_join.induct) auto

lemma dotted_no_mark: "CHR ''/'' \<notin> set (dotted xs)" "CHR '':'' \<notin> set (dotted xs)"
  using js_join_chars [of "CHR ''.''" "map show_nat xs"] show_nat_no_mark unfolding dotted_def by fastforce+

lemma dotted_split: "xs \<noteq> [] \<Longrightarrow> js_split CHR ''.'' (dotted xs) = map show_nat xs"
  unfolding dotted_def using show_nat_no_mark(1) by (intro js_split_join) auto

lemma normalize_dotted [simp]: "normalize_mapped (dotted xs) = dotted xs"
  using dotted_no_mark(2) [of xs] by (auto simp: normalize_mapped_def prefix_def)

lemma ipMatchesCIDR_dotted:
  assumes "length a = 4" and "length n = 4" and "CHR ''/'' \<notin> set s"
  shows "ipMatchesCIDR (dotted a) (dotted n @ CHR ''/'' # s) \<longleftrightarrow>
    cidr_octets_match (parseInt s) (map (Some \<circ> int) a) (map (Some \<circ> int) n)"
proof -
  have ne: "a \<noteq> []" "n \<noteq> []" using assms(1,2) by auto
  have "dotted a \<noteq> dotted n @ CHR ''/'' # s"
    using dotted_no_mark(1) [of a] by (metis in_set_conv_decomp)
  moreover have "js_split CHR ''/'' (dotted n @ CHR ''/'' # s) = [dotted n, s]"
    using js_split_append [OF dotted_no_mark(1) [of n]] js_split_no_sep [OF assms(3)] by simp
  ultimately show ?thesis
    using assms(1,2) by (simp add: ipMatchesCIDR_def Let_def dotted_split [OF ne(1)] dotted_split [OF ne(2)] comp_def)
qed


text \<open>
  C32: For two IPv4 addresses in dotted form and a prefix length of at most 32, \<^verbatim>\<open>ipMatchesCIDR\<close> is the
  definition of a CIDR block: the first bits of the two addresses, as many as the prefix says, are equal.
\<close>

theorem ipMatchesCIDR_is_prefix_match:
  assumes "length a = 4" and "length n = 4" and "\<forall>x \<in> set (a @ n). x < 256" and "p \<le> 32"
  shows "ipMatchesCIDR (dotted a) (dotted n @ ''/'' @ show_nat p) \<longleftrightarrow>
    take p (address_bits (map int a)) = take p (address_bits (map int n))"
proof -
  have "octets (map int a)" "octets (map int n)" using assms(3) by (auto simp: octets_def)
  then have "cidr_octets_match (Some (int p)) (map Some (map int a)) (map Some (map int n)) \<longleftrightarrow>
      take p (address_bits (map int a)) = take p (address_bits (map int n))"
    using assms by (intro cidr_octets_match_bits) auto
  then show ?thesis
    using ipMatchesCIDR_dotted [OF assms(1,2) show_nat_no_mark(2) [of p]] by (simp add: comp_def)
qed

theorem ipMatchesCIDR_is_prefix_match_witness:
  "ipMatchesCIDR (dotted [10, 20, 255, 1]) (dotted [10, 16, 0, 0] @ ''/'' @ show_nat 12)"
  using ipMatchesCIDR_is_prefix_match [of "[10, 20, 255, 1]" "[10, 16, 0, 0]" 12]
  by (simp add: address_bits_def octet_bits_def upt_rec bit_iff_odd)

text \<open>
  An entry of the trusted proxies whose prefix is missing or not a number trusts every IPv4 address: the
  prefix parses to \<^verbatim>\<open>NaN\<close>, no octet is compared, and \<^verbatim>\<open>ipMatchesCIDR\<close> returns \<^verbatim>\<open>true\<close>.
\<close>

theorem malformed_prefix_trusts_everyone:
  assumes "length a = 4" and "length n = 4" and "parseInt s = None" and "CHR ''/'' \<notin> set s"
  shows "isTrustedProxy (Some (dotted a)) (TrustList [dotted n @ ''/'' @ s])"
proof -
  have "dotted a \<noteq> []"
    using dotted_split [of a] assms(1) by (cases a) (auto simp: dotted_def)
  moreover have "ipMatchesCIDR (dotted a) (dotted n @ ''/'' @ s)"
    using ipMatchesCIDR_dotted [OF assms(1,2,4)] assms(3) by (simp add: cidr_octets_match_def)
  ultimately show ?thesis by (simp add: isTrustedProxy_def)
qed

theorem malformed_prefix_trusts_everyone_witness:
  "isTrustedProxy (Some (dotted [203, 0, 113, 9])) (TrustList [dotted [10, 0, 0, 0] @ ''/'' @ ''x''])"
proof -
  have "parseInt ''x'' = None" by code_simp
  then show ?thesis
    by (intro malformed_prefix_trusts_everyone) simp_all
qed

section \<open>Headers and the limiters\<close>

lemma untrusted_client:
  "\<not> isTrustedProxy (ir_remoteAddress req) (getTrustedProxies env) \<Longrightarrow> getClientIp req (getTrustedProxies env) = socket_address req"
  by (simp add: getClientIp_def)

text \<open>How many of a sequence of timed requests pass a limiter.\<close>

fun passed :: "rate_limiter_options \<Rightarrow> string option \<Rightarrow> rate_limit_store \<Rightarrow> (int \<times> ip_request) list \<Rightarrow> nat" where
  "passed opts env store [] = 0"
| "passed opts env store ((now, req) # reqs) =
     (case limitRequest opts env now req store of
        (out, store') \<Rightarrow> (if rl_passed out then 1 else 0) + passed opts env store' reqs)"

lemma passed_run:
  assumes "\<forall>(t, req) \<in> set reqs. getClientIp req (getTrustedProxies env) = key"
  shows "passed opts env store reqs = fst (rl_run opts key store (map (\<lambda>(t, _). (t, key)) reqs))"
  using assms
proof (induction reqs arbitrary: store)
  case (Cons a reqs)
  obtain t req where a: "a = (t, req)" by (cases a)
  obtain out store' where h: "rateLimiterHandler opts t key store = (out, store')" by fastforce
  have "fst (rl_run opts key store ((t, key) # map (\<lambda>(t, _). (t, key)) reqs)) =
      fst (rl_run opts key store [(t, key)]) + fst (rl_run opts key (snd (rl_run opts key store [(t, key)])) (map (\<lambda>(t, _). (t, key)) reqs))"
    using rl_run_append [of opts key store "[(t, key)]" "map (\<lambda>(t, _). (t, key)) reqs"] by simp
  moreover have "rl_run opts key store [(t, key)] = (if rl_passed out then 1 else 0, store')"
    using h by (simp add: rl_run_def)
  moreover have "passed opts env store' reqs = fst (rl_run opts key store' (map (\<lambda>(t, _). (t, key)) reqs))"
    by (rule Cons.IH) (use Cons.prems in simp)
  moreover have "limitRequest opts env t req store = (out, store')"
    using Cons.prems a h by (simp add: limitRequest_def)
  ultimately show ?case unfolding a passed.simps list.map prod.case by simp
qed (simp add: rl_run_def)

text \<open>
  C33: Forged headers do not buy requests: on a socket that is no trusted proxy, whatever \<^verbatim>\<open>X-Forwarded-For\<close>,
  \<^verbatim>\<open>X-Real-IP\<close> or \<^verbatim>\<open>CF-Connecting-IP\<close> a client sends with each request, exactly the first
  \<^verbatim>\<open>maxRequests\<close> of its requests in a window pass the limiter.
\<close>

theorem forged_headers_do_not_buy_requests:
  assumes "\<forall>(t, req) \<in> set reqs. ir_remoteAddress req = socket \<and> t0 \<le> t \<and> t \<le> t0 + rl_windowMs opts"
    and "\<not> isTrustedProxy socket (getTrustedProxies env)"
    and "\<forall>e. jm_get store (socket_address \<lparr> ir_remoteAddress = socket, ir_headers = [] \<rparr>) = Some e \<longrightarrow> rl_resetAt e < t0"
    and "0 \<le> rl_maxRequests opts"
  shows "int (passed opts env store reqs) = min (rl_maxRequests opts) (int (length reqs))"
proof -
  define key where "key = socket_address \<lparr> ir_remoteAddress = socket, ir_headers = [] \<rparr>"
  have "\<forall>(t, req) \<in> set reqs. getClientIp req (getTrustedProxies env) = key"
    using assms(1,2) untrusted_client by (fastforce simp: key_def socket_address_def)
  from passed_run [OF this] have p: "passed opts env store reqs = fst (rl_run opts key store (map (\<lambda>(t, _). (t, key)) reqs))" .
  have "int (fst (rl_run opts key store (map (\<lambda>(t, _). (t, key)) reqs))) =
      min (rl_maxRequests opts) (int (hits_of key (map (\<lambda>(t, _). (t, key)) reqs)))"
    by (rule rl_run_quota [where tstart = t0]) (use assms in \<open>auto simp: key_def\<close>)
  moreover have "hits_of key (map (\<lambda>(t, _). (t, key)) reqs) = length reqs"
    by (simp add: filter_map comp_def case_prod_unfold)
  ultimately show ?thesis using p by simp
qed

definition forged :: "string \<Rightarrow> ip_request" where
  "forged a = \<lparr> ir_remoteAddress = Some ''203.0.113.9'', ir_headers = [(''x-forwarded-for'', a)] \<rparr>"

theorem forged_headers_do_not_buy_requests_witness:
  "passed (preset 2 1000 ''no'') (Some ''10.0.0.0/8'') [] [(0, forged ''10.1.1.1''), (1, forged ''10.1.1.2''), (2, forged ''10.1.1.3'')] = 2"
proof -
  have "\<not> isTrustedProxy (Some ''203.0.113.9'') (getTrustedProxies (Some ''10.0.0.0/8''))" by code_simp
  then have "int (passed (preset 2 1000 ''no'') (Some ''10.0.0.0/8'') []
      [(0, forged ''10.1.1.1''), (1, forged ''10.1.1.2''), (2, forged ''10.1.1.3'')]) = min 2 3"
    using forged_headers_do_not_buy_requests [where ?t0.0 = 0 and socket = "Some ''203.0.113.9''" and env = "Some ''10.0.0.0/8''"
        and store = "[]" and opts = "preset 2 1000 ''no''"
        and reqs = "[(0, forged ''10.1.1.1''), (1, forged ''10.1.1.2''), (2, forged ''10.1.1.3'')]"]
    by (simp add: forged_def preset_def)
  then show ?thesis by simp
qed

lemma split_first_self: "sep \<notin> set a \<Longrightarrow> split_first sep (a @ sep # b) = a"
  unfolding split_first_def by (metis (mono_tags, lifting) append_Cons append_Nil2 takeWhile.simps(2) takeWhile_append2)

text \<open>
  Behind a trusted proxy the client chooses its own address. The first entry of \<^verbatim>\<open>X-Forwarded-For\<close>
  is what the client itself sent, as a proxy appends the address it saw: for every text without blanks and
  commas there is a request that is counted and locked out under that text, whatever the proxy appended.
\<close>

theorem forwarded_client_is_chosen_by_sender:
  assumes "isTrustedProxy (ir_remoteAddress req) (getTrustedProxies env)"
    and "jm_get (ir_headers req) ''x-forwarded-for'' = Some (chosen @ '','' @ appended)"
    and "chosen \<noteq> []" and "\<forall>c \<in> set chosen. \<not> js_space c \<and> c \<noteq> CHR '',''"
  shows "getClientIp req (getTrustedProxies env) = chosen \<and> getClientIpForAuth env req = chosen"
proof -
  have "split_first CHR '','' (chosen @ '','' @ appended) = chosen" using assms(4) split_first_self [of "CHR '',''" chosen] by auto
  moreover have "js_trim chosen = chosen" using assms(4) by (intro js_trim_id) blast
  ultimately have "forwarded_client req = Some chosen" using assms(2,3) by (simp add: forwarded_client_def Let_def)
  with assms(1) show ?thesis by (simp add: getClientIp_def getClientIpForAuth_def)
qed

theorem forwarded_client_is_chosen_by_sender_witness:
  "getClientIpForAuth (Some ''10.0.0.0/8'') \<lparr> ir_remoteAddress = Some ''10.0.0.7'',
     ir_headers = [(''x-forwarded-for'', ''1.2.3.4'' @ '','' @ ''203.0.113.9'')] \<rparr> = ''1.2.3.4''"
proof -
  have "isTrustedProxy (Some ''10.0.0.7'') (getTrustedProxies (Some ''10.0.0.0/8''))" by code_simp
  then show ?thesis
    by (intro conjunct2 [OF forwarded_client_is_chosen_by_sender [where appended = "''203.0.113.9''"]])
      (auto simp: js_space_def)
qed

end
