(* ===== verification/Auth.thy ===== *)
theory Auth
  imports Fixed_Window Scopes Jwt Redis_Kv Client_Ip
begin

text \<open>
  The API's authentication and authorization middleware (\<^verbatim>\<open>api/src/api/middleware/auth.ts\<close>): bearer tokens
  and API keys, the lockout of failing clients, epoch revocation, scopes, roles and tenant isolation.
  The middleware is the sequence the source has around its awaits: \<open>authEntry\<close> (synchronous: lockout and
  token extraction), \<open>authenticate\<close> (the lookups, whose only effect on the lockout table is returned as an
  \<open>auth_effect\<close>) and \<open>auth_effect_on\<close>, which the source runs together with the answer. Databases, hashing
  and the JWT secret are parameters; a lookup that answers \<open>None\<close> is a rejected promise.
\<close>

section \<open>Requests, contexts and answers\<close>

record auth_context =
  ac_tenantId :: string
  ac_authId :: string
  ac_apiKeyId :: string
  ac_scopes :: "string list"
  ac_isFleetAdmin :: bool
  ac_userId :: "string option"

record auth_request = ip_request +
  au_cookies :: "(string, string) jsmap"

datatype auth_code =
    AUTH_RATE_LIMITED int | AUTH_REQUIRED | TOKEN_EPOCH_EXPIRED | EPOCH_SERVICE_UNAVAILABLE | INVALID_TOKEN
  | TOKEN_REVOKED | INVALID_API_KEY | API_KEY_REVOKED | API_KEY_EXPIRED | INVALID_TENANT_ASSOCIATION | AUTH_ERROR
  | INSUFFICIENT_SCOPE | INSUFFICIENT_ROLE | ACCESS_DENIED | TENANT_VALIDATION_ERROR

text \<open>The answer of a middleware: \<^verbatim>\<open>next()\<close>, or \<^verbatim>\<open>sendProblem\<close> with a status and a code.\<close>

datatype answer = Next | Problem nat auth_code

text \<open>
  What an outcome does to the lockout table; an accepted API key also gets its \<^verbatim>\<open>lastUsedAt\<close> updated in the
  database, a write whose result is ignored.
\<close>

datatype auth_effect = Failed_auth | Clear_auth "string option" | No_effect

record api_key =
  ak_id :: string
  ak_tenantId :: string
  ak_scopes :: "string list"
  ak_isRevoked :: bool
  ak_expiresAt :: "int option"
  ak_tenant :: bool

record 'r auth_services =
  au_env :: auth_env
  au_TRUSTED_PROXIES :: "string option"
  au_jwtSecret :: "string option"
  au_hmac :: hmac
  au_blacklist :: "string \<Rightarrow> string \<Rightarrow> bool option"
  au_kv :: "'r redis_kv option"
  au_sha256 :: "string \<Rightarrow> string"
  au_findKey :: "string \<Rightarrow> api_key option option"

section \<open>Authentication\<close>

definition bearer_token :: "auth_request \<Rightarrow> string option" where
  "bearer_token req =
     (let cookie = (\<lambda>n. jm_get (au_cookies req) n);
          authHeader = jm_get (ir_headers req) ''authorization''
      in if authHeader \<noteq> None \<and> prefix ''Bearer '' (the authHeader)
         then (case js_split CHR '' '' (the authHeader) of _ # t # _ \<Rightarrow> Some t | _ \<Rightarrow> None)
         else if str_truthy (cookie ''access_token'') then cookie ''access_token''
         else if str_truthy (cookie ''horizon_api_key'') then cookie ''horizon_api_key''
         else if str_truthy (cookie ''api_key'') then cookie ''api_key''
         else None)"

definition is_fleet_admin :: "string list \<Rightarrow> bool" where
  "is_fleet_admin scopes \<longleftrightarrow> ''fleet:admin'' \<in> set scopes \<or> ''*'' \<in> set scopes"

definition authEntry ::
  "('r, 'z) auth_services_scheme \<Rightarrow> int \<Rightarrow> auth_request \<Rightarrow> failed_auth_store
     \<Rightarrow> failed_auth_store \<times> (answer + string \<times> string)" where
  "authEntry svc now req store =
     (let clientIp = getClientIpForAuth (au_TRUSTED_PROXIES svc) (ip_request.truncate req)
      in case checkAuthLockout (au_env svc) now clientIp store of
           Locked retryAfterSeconds \<Rightarrow> (store, Inl (Problem 429 (AUTH_RATE_LIMITED retryAfterSeconds)))
         | NotLocked \<Rightarrow>
             if \<not> str_truthy (bearer_token req)
             then (recordFailedAuth (au_env svc) now clientIp store, Inl (Problem 401 AUTH_REQUIRED))
             else (store, Inr (clientIp, the (bearer_token req))))"

definition jwt_context :: "jwt_payload \<Rightarrow> string \<Rightarrow> string \<Rightarrow> auth_context" where
  "jwt_context payload tenantId jti =
     (let scopes = (case jp_scopes payload of None \<Rightarrow> [] | Some ss \<Rightarrow> ss)
      in \<lparr> ac_tenantId = tenantId, ac_authId = jti, ac_apiKeyId = jti, ac_scopes = scopes,
           ac_isFleetAdmin = is_fleet_admin scopes,
           ac_userId = (case jp_userId payload of Some u \<Rightarrow> Some u | None \<Rightarrow> jp_user_id payload) \<rparr>)"

definition key_context :: "api_key \<Rightarrow> auth_context" where
  "key_context k =
     \<lparr> ac_tenantId = ak_tenantId k, ac_authId = ak_id k, ac_apiKeyId = ak_id k, ac_scopes = ak_scopes k,
       ac_isFleetAdmin = is_fleet_admin (ak_scopes k), ac_userId = None \<rparr>"

type_synonym auth_outcome = "auth_effect \<times> answer \<times> auth_context option"

definition accept :: "string option \<Rightarrow> auth_context \<Rightarrow> auth_outcome" where
  "accept touched ctx = (Clear_auth touched, Next, Some ctx)"

definition reject :: "nat \<Rightarrow> auth_code \<Rightarrow> auth_outcome" where
  "reject status code = (Failed_auth, Problem status code, None)"

definition authenticateJwt ::
  "('r, 'z) auth_services_scheme \<Rightarrow> jwt_payload \<Rightarrow> string \<Rightarrow> string \<Rightarrow> 'r \<Rightarrow> 'r \<times> auth_outcome" where
  "authenticateJwt svc payload tenantId jti r =
     (case (au_kv svc, jp_epoch payload) of
        (Some kv, Some epoch) \<Rightarrow>
          (case getEpochForTenant kv tenantId r of
             (r', None) \<Rightarrow> (r', No_effect, Problem 503 EPOCH_SERVICE_UNAVAILABLE, None)
           | (r', Some currentEpoch) \<Rightarrow>
               (r', if epoch < currentEpoch then reject 401 TOKEN_EPOCH_EXPIRED
                    else accept None (jwt_context payload tenantId jti)))
      | _ \<Rightarrow> (r, accept None (jwt_context payload tenantId jti)))"

definition authenticateKey :: "('r, 'z) auth_services_scheme \<Rightarrow> int \<Rightarrow> string \<Rightarrow> auth_outcome" where
  "authenticateKey svc now token =
     (case au_findKey svc (au_sha256 svc token) of
        None \<Rightarrow> (No_effect, Problem 500 AUTH_ERROR, None)
      | Some None \<Rightarrow> reject 401 INVALID_API_KEY
      | Some (Some k) \<Rightarrow>
          if ak_isRevoked k then reject 401 API_KEY_REVOKED
          else if (case ak_expiresAt k of None \<Rightarrow> False | Some e \<Rightarrow> e < now) then reject 401 API_KEY_EXPIRED
          else if \<not> ak_tenant k then (No_effect, Problem 401 INVALID_TENANT_ASSOCIATION, None)
          else accept (Some (ak_id k)) (key_context k))"

definition authenticate ::
  "('r, 'z) auth_services_scheme \<Rightarrow> int \<Rightarrow> string \<Rightarrow> 'r \<Rightarrow> 'r \<times> auth_outcome" where
  "authenticate svc now token r =
     (let jwtResult =
        (if str_truthy (au_jwtSecret svc)
         then Some (verifyAndDecodeToken (au_hmac svc) (au_blacklist svc) now token (the (au_jwtSecret svc))
                      (Some ''signal-horizon''))
         else None)
      in case jwtResult of
           Some (Inr (payload, tenantId, jti)) \<Rightarrow> authenticateJwt svc payload tenantId jti r
         | Some (Inl Invalid_payload) \<Rightarrow> (r, reject 401 INVALID_TOKEN)
         | Some (Inl Token_revoked) \<Rightarrow> (r, reject 401 TOKEN_REVOKED)
         | _ \<Rightarrow> (r, authenticateKey svc now token))"

definition auth_effect_on :: "auth_env \<Rightarrow> int \<Rightarrow> string \<Rightarrow> auth_effect \<Rightarrow> failed_auth_store \<Rightarrow> failed_auth_store" where
  "auth_effect_on env now clientIp e store =
     (case e of Failed_auth \<Rightarrow> recordFailedAuth env now clientIp store
              | Clear_auth _ \<Rightarrow> clearFailedAuth clientIp store
              | No_effect \<Rightarrow> store)"

definition last_used_updates :: "auth_effect \<Rightarrow> string list" where
  "last_used_updates e = (case e of Clear_auth (Some keyId) \<Rightarrow> [keyId] | _ \<Rightarrow> [])"

text \<open>The middleware when nothing else runs during its awaits.\<close>

definition authMiddleware ::
  "('r, 'z) auth_services_scheme \<Rightarrow> int \<Rightarrow> auth_request \<Rightarrow> failed_auth_store \<times> 'r
     \<Rightarrow> (failed_auth_store \<times> 'r) \<times> answer \<times> auth_context option \<times> string list" where
  "authMiddleware svc now req s =
     (case s of (store, r) \<Rightarrow>
        (case authEntry svc now req store of
           (store', Inl a) \<Rightarrow> ((store', r), a, None, [])
         | (store', Inr (clientIp, token)) \<Rightarrow>
             (case authenticate svc now token r of
                (r', e, a, ctx) \<Rightarrow>
                  ((auth_effect_on (au_env svc) now clientIp e store', r'), a, ctx, last_used_updates e))))"

section \<open>Authorization\<close>

datatype role = Viewer | Operator | Admin

fun ROLE_HIERARCHY :: "role \<Rightarrow> nat" where
  "ROLE_HIERARCHY Viewer = 0"
| "ROLE_HIERARCHY Operator = 1"
| "ROLE_HIERARCHY Admin = 2"

definition operatorScopes :: "string list" where
  "operatorScopes = [''fleet:write'', ''config:write'', ''command:execute'', ''rules:write'']"

definition deriveRole :: "string list \<Rightarrow> role" where
  "deriveRole scopes =
     (if list_ex (\<lambda>s. s = ''fleet:admin'' \<or> suffix '':admin'' s) scopes then Admin
      else if list_ex (\<lambda>s. s \<in> set operatorScopes) scopes then Operator
      else Viewer)"

definition requireScope :: "string list \<Rightarrow> auth_context option \<Rightarrow> answer" where
  "requireScope requiredScopes ctx =
     (case ctx of
        None \<Rightarrow> Problem 401 AUTH_REQUIRED
      | Some c \<Rightarrow> if \<not> list_ex (hasScope (ac_scopes c)) requiredScopes then Problem 403 INSUFFICIENT_SCOPE else Next)"

definition requireRole :: "role \<Rightarrow> auth_context option \<Rightarrow> answer" where
  "requireRole minRole ctx =
     (case ctx of
        None \<Rightarrow> Problem 401 AUTH_REQUIRED
      | Some c \<Rightarrow> if ROLE_HIERARCHY (deriveRole (ac_scopes c)) < ROLE_HIERARCHY minRole
                  then Problem 403 INSUFFICIENT_ROLE else Next)"

datatype resource = Res_sensor | Res_policy | Res_template | Res_command

text \<open>
  The owner lookups: the tenant of a sensor, a policy template, a configuration template; for a command, of its
  sensor. \<open>None\<close> is a database error, \<open>Some None\<close> a missing record or one without tenant.
\<close>

record owner_db =
  od_sensor :: "string \<Rightarrow> string option option"
  od_policyTemplate :: "string \<Rightarrow> string option option"
  od_configTemplate :: "string \<Rightarrow> string option option"
  od_fleetCommand :: "string \<Rightarrow> string option option"

definition ownerId :: "owner_db \<Rightarrow> resource \<Rightarrow> string \<Rightarrow> string option option" where
  "ownerId db resource resourceId =
     map_option (\<lambda>t. if str_truthy t then t else None)
       (case resource of
          Res_sensor \<Rightarrow> od_sensor db resourceId
        | Res_policy \<Rightarrow> od_policyTemplate db resourceId
        | Res_template \<Rightarrow> od_configTemplate db resourceId
        | Res_command \<Rightarrow> od_fleetCommand db resourceId)"

definition requireTenant :: "owner_db \<Rightarrow> resource \<Rightarrow> string option \<Rightarrow> auth_context option \<Rightarrow> answer" where
  "requireTenant db resource resourceId ctx =
     (let tenantId = map_option ac_tenantId ctx;
          isFleetAdmin = (case ctx of None \<Rightarrow> False | Some c \<Rightarrow> ac_isFleetAdmin c)
      in if \<not> str_truthy tenantId then Problem 401 AUTH_REQUIRED
         else if isFleetAdmin then Next
         else if \<not> str_truthy resourceId then Next
         else (case ownerId db resource (the resourceId) of
                 None \<Rightarrow> Problem 500 TENANT_VALIDATION_ERROR
               | Some owner \<Rightarrow>
                   if str_truthy owner \<and> owner \<noteq> tenantId then Problem 403 ACCESS_DENIED
                   else if \<not> str_truthy owner then Problem 403 ACCESS_DENIED
                   else Next))"

record authorize_options =
  ao_scopes :: "string list option"
  ao_role :: "role option"
  ao_tenant :: "(resource \<times> string option) option"

text \<open>\<^verbatim>\<open>options.tenant\<close> is given with the value of the named request parameter.\<close>

definition authorize :: "owner_db \<Rightarrow> authorize_options \<Rightarrow> auth_context option \<Rightarrow> answer" where
  "authorize db opts ctx =
     (case ctx of
        None \<Rightarrow> Problem 401 AUTH_REQUIRED
      | Some c \<Rightarrow>
          if (case ao_scopes opts of None \<Rightarrow> False | Some required \<Rightarrow> \<not> list_ex (hasScope (ac_scopes c)) required)
          then Problem 403 INSUFFICIENT_SCOPE
          else if (case ao_role opts of None \<Rightarrow> False
                   | Some r \<Rightarrow> ROLE_HIERARCHY (deriveRole (ac_scopes c)) < ROLE_HIERARCHY r)
          then Problem 403 INSUFFICIENT_ROLE
          else (case ao_tenant opts of
                  None \<Rightarrow> Next
                | Some (resource, resourceId) \<Rightarrow>
                    if \<not> ac_isFleetAdmin c \<and> str_truthy resourceId
                    then (case ownerId db resource (the resourceId) of
                            None \<Rightarrow> Problem 500 TENANT_VALIDATION_ERROR
                          | Some owner \<Rightarrow>
                              if \<not> str_truthy owner \<or> owner \<noteq> Some (ac_tenantId c) then Problem 403 ACCESS_DENIED
                              else Next)
                    else Next))"


section \<open>Accepted requests\<close>

definition client_of :: "('r, 'z) auth_services_scheme \<Rightarrow> auth_request \<Rightarrow> string" where
  "client_of svc req = getClientIpForAuth (au_TRUSTED_PROXIES svc) (ip_request.truncate req)"

text \<open>A bearer token the service may accept: signed, current, for this audience, not on the blacklist.\<close>

definition valid_jwt :: "('r, 'z) auth_services_scheme \<Rightarrow> int \<Rightarrow> string \<Rightarrow> auth_context \<Rightarrow> jwt_payload \<Rightarrow> bool" where
  "valid_jwt svc now token ctx payload \<longleftrightarrow>
     (\<exists>secret. au_jwtSecret svc = Some secret \<and>
        parseJwt (au_hmac svc) now token secret (Some ''signal-horizon'') = Some payload) \<and>
     ctx = jwt_context payload (ac_tenantId ctx) (ac_authId ctx) \<and> jp_jti payload = Some (ac_authId ctx) \<and>
     au_blacklist svc (ac_authId ctx) (ac_tenantId ctx) \<noteq> Some True"

definition valid_key :: "('r, 'z) auth_services_scheme \<Rightarrow> int \<Rightarrow> string \<Rightarrow> auth_context \<Rightarrow> bool" where
  "valid_key svc now token ctx \<longleftrightarrow>
     (\<exists>k. au_findKey svc (au_sha256 svc token) = Some (Some k) \<and> \<not> ak_isRevoked k \<and>
        (\<forall>e. ak_expiresAt k = Some e \<longrightarrow> now \<le> e) \<and> ak_tenant k \<and> ctx = key_context k)"

lemma verifyAndDecodeToken_Inr:
  assumes "verifyAndDecodeToken hmac bl now token secret aud = Inr (p, t, j)"
  shows "parseJwt hmac now token secret aud = Some p \<and> jp_jti p = Some j \<and> bl j t \<noteq> Some True"
  using assms by (auto simp: verifyAndDecodeToken_def isTokenRevoked_def str_truthy_def Let_def
      split: option.splits if_splits)

lemma jwt_context_simps [simp]:
  "ac_tenantId (jwt_context p t j) = t" "ac_authId (jwt_context p t j) = j"
  by (simp_all add: jwt_context_def Let_def)

lemma authenticateKey_cases:
  assumes "authenticateKey svc now token = (e, a, ctx)"
  obtains (ok) c where "ctx = Some c" "a = Next" "\<exists>k. e = Clear_auth k" "valid_key svc now token c"
  | (bad) code where "ctx = None" "a = Problem 401 code" "e = Failed_auth" "code \<noteq> INVALID_TENANT_ASSOCIATION"
  | (other) "ctx = None" "e = No_effect" "a = Problem 500 AUTH_ERROR \<or> a = Problem 401 INVALID_TENANT_ASSOCIATION"
  using assms unfolding authenticateKey_def reject_def accept_def valid_key_def
  by (auto split: option.splits if_splits)

lemma authenticateJwt_cases:
  assumes "authenticateJwt svc p t j r = (r', e, a, ctx)"
  obtains (ok) "ctx = Some (jwt_context p t j)" "a = Next" "e = Clear_auth None"
    "\<forall>kv n. au_kv svc = Some kv \<longrightarrow> jp_epoch p = Some n \<longrightarrow>
       (\<exists>m. getEpochForTenant kv t r = (r', Some m) \<and> m \<le> n)"
  | (bad) "ctx = None" "a = Problem 401 TOKEN_EPOCH_EXPIRED" "e = Failed_auth"
  | (other) "ctx = None" "e = No_effect" "a = Problem 503 EPOCH_SERVICE_UNAVAILABLE"
proof (cases "au_kv svc = None \<or> jp_epoch p = None")
  case True
  with assms have "ctx = Some (jwt_context p t j)" "a = Next" "e = Clear_auth None"
    by (auto simp: authenticateJwt_def accept_def split: option.splits)
  with True that(1) show thesis by auto
next
  case False
  then obtain kv n where s: "au_kv svc = Some kv" "jp_epoch p = Some n" by auto
  obtain r1 m where g: "getEpochForTenant kv t r = (r1, m)" by fastforce
  with assms s that show thesis
    by (cases m) (auto simp: authenticateJwt_def accept_def reject_def split: if_splits)
qed

lemma authenticate_cases:
  assumes "authenticate svc now token r = (r', e, a, ctx)"
  obtains (jwt) p t j where "authenticateJwt svc p t j r = (r', e, a, ctx)"
      "\<forall>c. ctx = Some c \<longrightarrow> valid_jwt svc now token c p"
  | (key) "authenticateKey svc now token = (e, a, ctx)" "r' = r"
  | (bad) code where "ctx = None" "a = Problem 401 code" "e = Failed_auth" "code \<noteq> INVALID_TENANT_ASSOCIATION" "r' = r"
proof (cases "au_jwtSecret svc")
  case None
  with assms have "authenticateKey svc now token = (e, a, ctx)" "r' = r"
    by (auto simp: authenticate_def str_truthy_def)
  then show thesis by (rule that(2))
next
  case (Some secret)
  show thesis
  proof (cases "secret = []")
    case True
    with Some assms have "authenticateKey svc now token = (e, a, ctx)" "r' = r"
      by (auto simp: authenticate_def str_truthy_def)
    then show thesis by (rule that(2))
  next
    case False
    let ?v = "verifyAndDecodeToken (au_hmac svc) (au_blacklist svc) now token secret (Some ''signal-horizon'')"
    have eq: "authenticate svc now token r =
        (case ?v of Inr (p, t, j) \<Rightarrow> authenticateJwt svc p t j r
           | Inl Invalid_payload \<Rightarrow> (r, reject 401 INVALID_TOKEN)
           | Inl Token_revoked \<Rightarrow> (r, reject 401 TOKEN_REVOKED)
           | Inl Token_invalid \<Rightarrow> (r, authenticateKey svc now token))"
      using Some False by (simp add: authenticate_def str_truthy_def split: sum.split token_error.split)
    show thesis
    proof (cases ?v)
      case (Inl err)
      with eq assms that(2,3) show thesis by (cases err) (auto simp: reject_def)
    next
      case (Inr ptj)
      then obtain p t j where v: "?v = Inr (p, t, j)" by (cases ptj) auto
      with eq assms have jw: "authenticateJwt svc p t j r = (r', e, a, ctx)" by simp
      have "\<forall>c. ctx = Some c \<longrightarrow> valid_jwt svc now token c p"
        using jw by (rule authenticateJwt_cases)
          (use verifyAndDecodeToken_Inr [OF v] Some in \<open>auto simp: valid_jwt_def\<close>)
      with jw that(1) show thesis by blast
    qed
  qed
qed


lemma authMiddleware_steps:
  assumes "authMiddleware svc now req (store, r) = ((store', r'), a, ctx, u)"
  obtains (locked) n where "checkAuthLockout (au_env svc) now (client_of svc req) store = Locked n"
      "a = Problem 429 (AUTH_RATE_LIMITED n)" "ctx = None" "store' = store" "r' = r" "u = []"
  | (anonymous) "checkAuthLockout (au_env svc) now (client_of svc req) store = NotLocked"
      "\<not> str_truthy (bearer_token req)" "a = Problem 401 AUTH_REQUIRED" "ctx = None"
      "store' = recordFailedAuth (au_env svc) now (client_of svc req) store"
  | (checked) token e where "checkAuthLockout (au_env svc) now (client_of svc req) store = NotLocked"
      "bearer_token req = Some token" "token \<noteq> []" "authenticate svc now token r = (r', e, a, ctx)"
      "store' = auth_effect_on (au_env svc) now (client_of svc req) e store"
  using assms unfolding authMiddleware_def authEntry_def client_of_def [symmetric] Let_def
  by (auto simp: str_truthy_def split: auth_lockout.splits if_splits prod.splits)


definition sample_key :: api_key where
  "sample_key = \<lparr> ak_id = ''k1'', ak_tenantId = ''acme'', ak_scopes = [''sensor:read''], ak_isRevoked = False,
     ak_expiresAt = Some 5000, ak_tenant = True \<rparr>"

definition sample_auth :: "ref_db auth_services" where
  "sample_auth = \<lparr> au_env = \<lparr>env_NODE_ENV = Some ''production'', env_DISABLE_AUTH_LOCKOUT = None\<rparr>,
     au_TRUSTED_PROXIES = None, au_jwtSecret = None, au_hmac = sample_hmac, au_blacklist = (\<lambda>_ _. Some False),
     au_kv = Some (createIoredisKv ref_client), au_sha256 = (\<lambda>t. ''h'' @ t),
     au_findKey = (\<lambda>h. Some (if h = ''hsecret'' then Some sample_key else None)) \<rparr>"

definition sample_request :: "string \<Rightarrow> auth_request" where
  "sample_request t = \<lparr> ir_remoteAddress = Some ''10.0.0.1'', ir_headers = [(''authorization'', ''Bearer '' @ t)], au_cookies = [] \<rparr>"

lemma sample_accepted:
  "authMiddleware sample_auth 100 (sample_request ''secret'') ([], r) = (([], r), Next, Some (key_context sample_key), [''k1''])"
proof -
  have "bearer_token (sample_request ''secret'') = Some ''secret''" by code_simp
  then show ?thesis
    by (simp add: authMiddleware_def authEntry_def Let_def sample_auth_def checkAuthLockout_def authenticate_def
        str_truthy_def authenticateKey_def sample_key_def accept_def auth_effect_on_def clearFailedAuth_def
        last_used_updates_def)
qed



section \<open>Brute force\<close>

text \<open>A run of requests at their times, with the address and the answer of each.\<close>

fun auth_step ::
  "('r, 'z) auth_services_scheme \<Rightarrow> (failed_auth_store \<times> 'r) \<times> (string \<times> answer) list \<Rightarrow> int \<times> auth_request
     \<Rightarrow> (failed_auth_store \<times> 'r) \<times> (string \<times> answer) list" where
  "auth_step svc (s, hist) (now, req) =
     (case authMiddleware svc now req s of (s', a, _) \<Rightarrow> (s', hist @ [(client_of svc req, a)]))"

definition auth_run ::
  "('r, 'z) auth_services_scheme \<Rightarrow> failed_auth_store \<times> 'r \<Rightarrow> (int \<times> auth_request) list
     \<Rightarrow> (failed_auth_store \<times> 'r) \<times> (string \<times> answer) list" where
  "auth_run svc s es = foldl (auth_step svc) (s, []) es"

text \<open>The answer to a wrong credential.\<close>

fun wrong_credential :: "answer \<Rightarrow> bool" where
  "wrong_credential Next = False"
| "wrong_credential (Problem status code) = (status = 401 \<and> code \<noteq> INVALID_TENANT_ASSOCIATION)"

definition wrong_of :: "string \<Rightarrow> (string \<times> answer) list \<Rightarrow> nat" where
  "wrong_of ip hist = length (filter (\<lambda>(k, a). k = ip \<and> wrong_credential a) hist)"

lemma wrong_of_snoc [simp]:
  "wrong_of ip (hist @ [(k, a)]) = wrong_of ip hist + (if k = ip \<and> wrong_credential a then 1 else 0)"
  by (simp add: wrong_of_def)

lemma authMiddleware_store:
  assumes "authMiddleware svc now req (store, r) = ((store', r'), a, ctx, u)"
  shows "if wrong_credential a
    then checkAuthLockout (au_env svc) now (client_of svc req) store = NotLocked \<and>
         store' = recordFailedAuth (au_env svc) now (client_of svc req) store
    else if a = Next then store' = clearFailedAuth (client_of svc req) store
    else store' = store"
  using assms
proof (cases rule: authMiddleware_steps)
  case (checked token e)
  from checked(4) show ?thesis
  proof (cases rule: authenticate_cases)
    case (jwt p t j)
    from jwt(1) show ?thesis
      by (cases rule: authenticateJwt_cases) (use checked in \<open>auto simp: auth_effect_on_def\<close>)
  next
    case key
    from key(1) show ?thesis
      by (cases rule: authenticateKey_cases) (use checked in \<open>auto simp: auth_effect_on_def\<close>)
  qed (use checked in \<open>auto simp: auth_effect_on_def\<close>)
qed auto

text \<open>What the lockout table knows of an address after \<open>n\<close> wrong credentials since \<open>t0\<close>.\<close>

definition counted :: "int \<Rightarrow> string \<Rightarrow> nat \<Rightarrow> failed_auth_store \<Rightarrow> bool" where
  "counted t0 ip n store \<longleftrightarrow>
     (if n = 0 then \<forall>e. jm_get store ip = Some e \<longrightarrow> fa_resetAt e < t0
      else \<exists>e. jm_get store ip = Some e \<and> fa_count e = int n \<and> t0 + FAILED_AUTH_WINDOW_MS \<le> fa_resetAt e)"

lemma counted_other:
  assumes "k \<noteq> ip" and "counted t0 ip n store"
  shows "counted t0 ip n (recordFailedAuth env now k store)" and "counted t0 ip n (clearFailedAuth k store)"
  using assms auth.hit_other [of ip k now store] by (simp_all add: counted_def recordFailedAuth_def clearFailedAuth_def)

lemma counted_record:
  assumes "\<not> isAuthLockoutDisabled env" and "counted t0 ip n store" and "t0 \<le> now" "now \<le> t0 + FAILED_AUTH_WINDOW_MS"
  shows "counted t0 ip (Suc n) (recordFailedAuth env now ip store)"
proof (cases n)
  case 0
  with assms(2,3) have "\<forall>e. jm_get store ip = Some e \<longrightarrow> \<not> \<not> fa_resetAt e < now" by (force simp: counted_def)
  from auth.hit_fresh [OF this] obtain e where
    "jm_get (bumpFailedAuth now ip store) ip = Some e" "fa_count e = 1" "\<not> fa_resetAt e < now + FAILED_AUTH_WINDOW_MS"
    by auto
  with assms(1,3) 0 show ?thesis by (auto simp: counted_def recordFailedAuth_def)
next
  case (Suc m)
  with assms(2) obtain e where e: "jm_get store ip = Some e" "fa_count e = int n" "t0 + FAILED_AUTH_WINDOW_MS \<le> fa_resetAt e"
    by (auto simp: counted_def)
  with assms(4) have "\<not> fa_resetAt e < now" by simp
  from auth.hit_live [OF e(1) this] obtain e' where
    "jm_get (bumpFailedAuth now ip store) ip = Some e'" "fa_count e' = fa_count e + 1"
    "\<forall>t. (\<not> fa_resetAt e' < t) = (\<not> fa_resetAt e < t)" by blast
  moreover from this(3) have "fa_resetAt e' = fa_resetAt e" by (meson linorder_neqE_linordered_idom less_irrefl)
  ultimately show ?thesis using assms(1) e Suc by (simp add: counted_def recordFailedAuth_def)
qed

lemma counted_unlocked:
  assumes "\<not> isAuthLockoutDisabled env" and "counted t0 ip n store" and "now \<le> t0 + FAILED_AUTH_WINDOW_MS"
    and "checkAuthLockout env now ip store = NotLocked"
  shows "n < 5"
  using assms by (cases n) (auto simp: counted_def checkAuthLockout_def MAX_FAILED_AUTH_ATTEMPTS_def split: if_splits)

lemma auth_run_counted:
  assumes "\<not> isAuthLockoutDisabled (au_env svc)" and "counted t0 ip 0 store"
    and "\<forall>(t, req) \<in> set es. t0 \<le> t \<and> t \<le> t0 + FAILED_AUTH_WINDOW_MS"
    and "auth_run svc (store, r) es = ((store', r'), hist)" and "(ip, Next) \<notin> set hist"
  shows "counted t0 ip (wrong_of ip hist) store' \<and> wrong_of ip hist \<le> 5"
  using assms(3-5)
proof (induction es arbitrary: store' r' hist rule: rev_induct)
  case Nil
  with assms(2) show ?case by (simp add: auth_run_def wrong_of_def)
next
  case (snoc ev es)
  obtain t req where ev: "ev = (t, req)" by (cases ev)
  obtain store1 r1 hist1 where run: "auth_run svc (store, r) es = ((store1, r1), hist1)" by (metis surj_pair)
  obtain a ctx u where mw: "authMiddleware svc t req (store1, r1) = ((store', r'), a, ctx, u)"
      and hist: "hist = hist1 @ [(client_of svc req, a)]"
    using snoc.prems(2) run ev by (auto simp: auth_run_def split: prod.splits)
  have t: "t0 \<le> t" "t \<le> t0 + FAILED_AUTH_WINDOW_MS" using snoc.prems(1) ev by auto
  have IH: "counted t0 ip (wrong_of ip hist1) store1" "wrong_of ip hist1 \<le> 5"
    using snoc.IH [OF _ run] snoc.prems(1,3) hist by auto
  show ?case
  proof (cases "client_of svc req = ip")
    case False
    then have "counted t0 ip (wrong_of ip hist1) store'"
      using authMiddleware_store [OF mw] IH(1) counted_other by (auto split: if_splits)
    with False IH(2) hist show ?thesis by simp
  next
    case True
    show ?thesis
    proof (cases "wrong_credential a")
      case wrong: True
      then have "wrong_of ip hist1 < 5" "store' = recordFailedAuth (au_env svc) t ip store1"
        using authMiddleware_store [OF mw] True counted_unlocked [OF assms(1) IH(1) t(2)] by simp_all
      with counted_record [OF assms(1) IH(1) t] wrong True hist show ?thesis by simp
    next
      case right: False
      with snoc.prems(3) hist True have "store' = store1"
        using authMiddleware_store [OF mw] by (auto split: if_splits)
      with right IH hist show ?thesis by simp
    qed
  qed
qed



lemma sample_run:
  "snd (auth_run sample_auth ([], ref_empty) (replicate 5 (100, sample_request ''guess''))) =
     replicate 5 (''10.0.0.1'', Problem 401 INVALID_API_KEY)"
  by code_simp


section \<open>Revocation by epoch\<close>

text \<open>
  C20: Revoking all sessions of a tenant is effective: once \<^verbatim>\<open>incrementEpochForTenant\<close> has returned, no token
  that carries an older epoch passes, on any Redis that keeps its counters: it is answered 401, or 503 when
  the epoch cannot be read (the middleware fails closed).
\<close>

theorem epoch_revocation_is_effective:
  assumes "redis kv clock holds absent" and "epochKey tenant = Inr key" and "epoch_is holds absent r key n" and "0 \<le> n"
    and "incrementEpochForTenant kv tenant r = (r1, Some m)"
    and "au_kv svc = Some kv" and "jp_epoch payload = Some old" and "old \<le> n"
  shows "snd (authenticateJwt svc payload tenant jti r1) \<in>
    {reject 401 TOKEN_EPOCH_EXPIRED, (No_effect, Problem 503 EPOCH_SERVICE_UNAVAILABLE, None)}"
proof -
  have inc: "m = n + 1 \<and> epoch_is holds absent r1 key m"
    by (rule redis.epoch_increment [OF assms(1-5)])
  obtain r2 rep where g: "getEpochForTenant kv tenant r1 = (r2, rep)" by fastforce
  show ?thesis
  proof (cases rep)
    case None
    with g assms(6,7) show ?thesis by (simp add: authenticateJwt_def)
  next
    case (Some c)
    with redis.epoch_read [OF assms(1,2) conjunct2 [OF inc]] g inc have "c = n + 1" by simp
    with g Some assms(6-8) show ?thesis by (simp add: authenticateJwt_def)
  qed
qed


theorem epoch_revocation_is_effective_witness:
  "\<exists>r1. incrementEpochForTenant (createIoredisKv ref_client) ''t'' ref_empty = (r1, Some 1) \<and>
     snd (authenticateJwt sample_auth (sample_payload\<lparr> jp_epoch := Some 0 \<rparr>) ''t'' ''j'' r1) \<in>
       {reject 401 TOKEN_EPOCH_EXPIRED, (No_effect, Problem 503 EPOCH_SERVICE_UNAVAILABLE, None)}"
proof -
  obtain key where key: "epochKey ''t'' = Inr key" by (simp add: epochKey_def buildRedisKey_def)
  have zero: "epoch_is ref_holds ref_absent ref_empty key 0" by (simp add: epoch_is_def ref_absent_def ref_empty_def)
  obtain r1 m where inc: "incrementEpochForTenant (createIoredisKv ref_client) ''t'' ref_empty = (r1, Some m)"
    by (simp add: incrementEpochForTenant_def key createIoredisKv_def client_incr_def io_bind_def ref_client_def
        ref_incrby_def Let_def expire_when_new_def truthy_num_def io_return_def)
  moreover have "m = 1" using ref.epoch_increment [OF key zero _ inc] by simp
  ultimately show ?thesis
    using epoch_revocation_is_effective [OF ref.redis_axioms key zero _ inc, of sample_auth
        "sample_payload\<lparr> jp_epoch := Some 0 \<rparr>" 0 "''j''"] by (simp add: sample_auth_def)
qed

section \<open>Authorization\<close>

definition and_then :: "answer \<Rightarrow> answer \<Rightarrow> answer" where
  "and_then a b = (if a = Next then b else a)"

text \<open>
  C31: \<^verbatim>\<open>authorize\<close> is the composition of the three single checks, in that order: for a context with a tenant it
  answers what \<^verbatim>\<open>requireScope\<close>, then \<^verbatim>\<open>requireRole\<close>, then \<^verbatim>\<open>requireTenant\<close> would answer, each one
  only if it is asked for.
\<close>

theorem authorize_composes:
  assumes "\<forall>c. ctx = Some c \<longrightarrow> ac_tenantId c \<noteq> []"
  shows "authorize db opts ctx =
    and_then (if ctx = None then Problem 401 AUTH_REQUIRED else Next)
      (and_then (case ao_scopes opts of None \<Rightarrow> Next | Some ss \<Rightarrow> requireScope ss ctx)
        (and_then (case ao_role opts of None \<Rightarrow> Next | Some r \<Rightarrow> requireRole r ctx)
          (case ao_tenant opts of None \<Rightarrow> Next | Some (res, rid) \<Rightarrow> requireTenant db res rid ctx)))"
proof (cases ctx)
  case (Some c)
  have t: "(if \<not> ac_isFleetAdmin c \<and> str_truthy rid
      then (case ownerId db res (the rid) of None \<Rightarrow> Problem 500 TENANT_VALIDATION_ERROR
            | Some owner \<Rightarrow> if \<not> str_truthy owner \<or> owner \<noteq> Some (ac_tenantId c) then Problem 403 ACCESS_DENIED else Next)
      else Next) = requireTenant db res rid (Some c)" for res rid
    using assms Some by (auto simp: requireTenant_def Let_def str_truthy_def split: option.splits)
  show ?thesis
    unfolding authorize_def t Some option.case and_then_def requireScope_def requireRole_def
    by (auto split: option.splits)
qed (simp add: authorize_def and_then_def)

definition sample_owners :: owner_db where
  "sample_owners = \<lparr> od_sensor = (\<lambda>i. Some (if i = ''s1'' then Some ''acme'' else None)),
     od_policyTemplate = (\<lambda>_. None), od_configTemplate = (\<lambda>_. None), od_fleetCommand = (\<lambda>_. None) \<rparr>"

theorem authorize_composes_witness:
  "authorize sample_owners \<lparr> ao_scopes = Some [''sensor:read''], ao_role = Some Admin, ao_tenant = Some (Res_sensor, Some ''s1'') \<rparr>
     (Some (key_context sample_key)) = Problem 403 INSUFFICIENT_ROLE"
proof -
  have "requireScope [''sensor:read''] (Some (key_context sample_key)) = Next"
    "requireRole Admin (Some (key_context sample_key)) = Problem 403 INSUFFICIENT_ROLE" by code_simp+
  then show ?thesis
    by (subst authorize_composes) (simp_all add: and_then_def key_context_def sample_key_def)
qed

text \<open>
  C14: Tenant isolation: whatever else a route asks for, an ordinary caller reaches a resource named in the
  request only if the database says that the resource belongs to the caller's own tenant.
\<close>

theorem tenant_isolation:
  assumes "authorize db opts (Some c) = Next \<or> requireTenant db res (Some rid) (Some c) = Next"
    and "ao_tenant opts = Some (res, Some rid)" and "rid \<noteq> []" and "\<not> ac_isFleetAdmin c"
  shows "ownerId db res rid = Some (Some (ac_tenantId c))"
  using assms by (auto simp: authorize_def requireTenant_def Let_def str_truthy_def split: option.splits if_splits)

theorem tenant_isolation_witness:
  "ownerId sample_owners Res_sensor ''s1'' = Some (Some (ac_tenantId (key_context sample_key)))"
proof -
  have "requireTenant sample_owners Res_sensor (Some ''s1'') (Some (key_context sample_key)) = Next" by code_simp
  then show ?thesis
    using tenant_isolation [of sample_owners "\<lparr> ao_scopes = None, ao_role = None, ao_tenant = Some (Res_sensor, Some ''s1'') \<rparr>"
        "key_context sample_key" Res_sensor "''s1''"]
    by (simp add: key_context_def sample_key_def is_fleet_admin_def)
qed

text \<open>
  A super administrator fails every role check above viewer. The scopes of \<^verbatim>\<open>SUPER_ADMIN\<close> are \<^verbatim>\<open>['*']\<close>:
  they satisfy every required scope and make the context a fleet administrator, but \<^verbatim>\<open>deriveRole\<close>
  does not know \<^verbatim>\<open>'*'\<close> and yields the role viewer.
\<close>

theorem super_admin_fails_role_checks:
  "let c = key_context (k\<lparr> ak_scopes := SUPER_ADMIN_SCOPES \<rparr>)
   in ac_isFleetAdmin c \<and> requireScope [s] (Some c) = Next \<and>
      requireRole Operator (Some c) = Problem 403 INSUFFICIENT_ROLE \<and>
      requireRole Admin (Some c) = Problem 403 INSUFFICIENT_ROLE"
  by (simp add: Let_def key_context_def is_fleet_admin_def SUPER_ADMIN_SCOPES_def requireScope_def hasScope_def
      requireRole_def deriveRole_def operatorScopes_def suffix_def)

end
