(* ===== verification/Blocklist_Store.thy ===== *)
theory Blocklist_Store
  imports Redis_Kv Json_Text
begin

text \<open>
  The blocklist caches of \<^verbatim>\<open>api/src/services/broadcaster/blocklist-store.ts\<close>: in memory, in Redis under an
  index of keys, and the wrapper that falls back from the second to the first. A store is a record of
  operations on its state; a block read back from a store is the JSON object it is. The lock
  of the index is taken as the source takes it: three attempts, then on without it.
\<close>

section \<open>Blocks\<close>

record blocklist_update =
  bu_type :: string
  bu_blockType :: string
  bu_indicator :: string
  bu_reason :: "string option"
  bu_expiresAt :: "string option"
  bu_source :: string

text \<open>The object, its undefined fields left out; a date is its ISO text.\<close>

definition optional_field :: "string \<Rightarrow> string option \<Rightarrow> (string, json) jsmap" where
  "optional_field k v = (case v of None \<Rightarrow> [] | Some s \<Rightarrow> [(k, JStr s)])"

definition block_json :: "blocklist_update \<Rightarrow> json" where
  "block_json b = JObj
     ([(''type'', JStr (bu_type b)), (''blockType'', JStr (bu_blockType b)), (''indicator'', JStr (bu_indicator b))] @
      optional_field ''reason'' (bu_reason b) @ optional_field ''expiresAt'' (bu_expiresAt b) @
      [(''source'', JStr (bu_source b))])"

record 's blocklist_store =
  bs_get :: "string \<Rightarrow> string \<Rightarrow> ('s, json option) io"
  bs_set :: "blocklist_update \<Rightarrow> ('s, unit) io"
  bs_delete :: "string \<Rightarrow> string \<Rightarrow> ('s, unit) io"
  bs_getAll :: "('s, json list) io"
  bs_size :: "('s, nat) io"
  bs_clear :: "('s, unit) io"

section \<open>In memory\<close>

type_synonym block_cache = "(string, blocklist_update) jsmap"

definition cache_key :: "string \<Rightarrow> string \<Rightarrow> string" where
  "cache_key blockType indicator = blockType @ '':'' @ indicator"

definition InMemoryBlocklistStore :: "block_cache blocklist_store" where
  "InMemoryBlocklistStore =
     \<lparr> bs_get = (\<lambda>blockType indicator cache. (cache, Some (map_option block_json (jm_get cache (cache_key blockType indicator))))),
       bs_set = (\<lambda>block cache. (jm_set (cache_key (bu_blockType block) (bu_indicator block)) block cache, Some ())),
       bs_delete = (\<lambda>blockType indicator cache. (jm_delete (cache_key blockType indicator) cache, Some ())),
       bs_getAll = (\<lambda>cache. (cache, Some (map block_json (jm_values cache)))),
       bs_size = (\<lambda>cache. (cache, Some (length cache))),
       bs_clear = (\<lambda>cache. ([], Some ())) \<rparr>"

section \<open>In Redis\<close>

record 'r redis_blocklist =
  rb_kv :: "'r redis_kv"
  rb_random :: "('r, rat) io"
  rb_namespace :: string
  rb_version :: "int option"
  rb_dataType :: string
  rb_indexKeyName :: string
  rb_lockTtlSeconds :: int

record block_store_options =
  bo_namespace :: "string option"
  bo_version :: "int option"
  bo_dataType :: "string option"
  bo_lockTtlSeconds :: "int option"

definition default_or :: "'a \<Rightarrow> 'a option \<Rightarrow> 'a" where
  "default_or d v = (case v of None \<Rightarrow> d | Some x \<Rightarrow> x)"

definition newRedisBlocklistStore ::
  "'r redis_kv \<Rightarrow> ('r, rat) io \<Rightarrow> block_store_options \<Rightarrow> key_error + 'r redis_blocklist" where
  "newRedisBlocklistStore kv random options =
     (let ns = default_or ''horizon'' (bo_namespace options);
          version = default_or 1 (bo_version options)
      in case buildRedisKey \<lparr> rk_namespace = ns, rk_version = Some version, rk_tenantId = ''global'',
                rk_dataType = ''blocklist-index'', rk_id = [KStr ''all''] \<rparr> of
           Inl e \<Rightarrow> Inl e
         | Inr indexKey \<Rightarrow>
             Inr \<lparr> rb_kv = kv, rb_random = random, rb_namespace = ns, rb_version = Some version,
                   rb_dataType = default_or ''blocklist-cache'' (bo_dataType options), rb_indexKeyName = indexKey,
                   rb_lockTtlSeconds = default_or TTL_lockMin (bo_lockTtlSeconds options) \<rparr>)"

definition entryKey :: "'r redis_blocklist \<Rightarrow> string \<Rightarrow> string \<Rightarrow> key_error + string" where
  "entryKey st blockType indicator = buildRedisKey
     \<lparr> rk_namespace = rb_namespace st, rk_version = rb_version st, rk_tenantId = ''global'', rk_dataType = rb_dataType st,
       rk_id = [KStr blockType, KStr indicator] \<rparr>"

definition indexLockKey :: "'r redis_blocklist \<Rightarrow> key_error + string" where
  "indexLockKey st = buildRedisKey
     \<lparr> rk_namespace = rb_namespace st, rk_version = rb_version st, rk_tenantId = ''global'', rk_dataType = ''lock'',
       rk_id = [KStr ''blocklist-index'', KStr ''all''] \<rparr>"

definition io_key :: "key_error + 'a \<Rightarrow> ('r, 'a) io" where
  "io_key k = (case k of Inl e \<Rightarrow> io_throw | Inr x \<Rightarrow> io_return x)"

definition io_option :: "'a option \<Rightarrow> ('r, 'a) io" where
  "io_option v = (case v of None \<Rightarrow> io_throw | Some x \<Rightarrow> io_return x)"

definition MAX_BYTES :: int where
  "MAX_BYTES = 1024 * 1024"

definition json_strings :: "json \<Rightarrow> string list option" where
  "json_strings v = (case v of
     JArr vs \<Rightarrow> if list_all (\<lambda>x. case x of JStr _ \<Rightarrow> True | _ \<Rightarrow> False) vs
                then Some (map (\<lambda>x. case x of JStr s \<Rightarrow> s | _ \<Rightarrow> []) vs) else None
   | _ \<Rightarrow> None)"

text \<open>The stored index, \<open>None\<close> when there is none; a text that is no list of keys is an exception.\<close>

definition readIndex :: "'r redis_blocklist \<Rightarrow> ('r, string list option) io" where
  "readIndex st =
     io_bind (kv_get (rb_kv st) (rb_indexKeyName st)) (\<lambda>raw.
       if str_truthy raw
       then io_bind (io_option (Option.bind (jsonDecode (Some MAX_BYTES) (the raw)) json_strings)) (\<lambda>index. io_return (Some index))
       else io_return None)"

definition setWithTtl :: "'r redis_blocklist \<Rightarrow> string \<Rightarrow> string \<Rightarrow> ('r, unit) io" where
  "setWithTtl st key value =
     io_bind (rb_random st) (\<lambda>random.
       io_bind (kv_set (rb_kv st) key value
         \<lparr> so_ttlSeconds = Some (applyTtlJitter random None TTL_cacheMax), so_ifNotExists = None \<rparr>) (\<lambda>_. io_return ()))"

definition writeIndex :: "'r redis_blocklist \<Rightarrow> string list \<Rightarrow> ('r, unit) io" where
  "writeIndex st index = setWithTtl st (rb_indexKeyName st) (jsonEncode (JArr (map JStr index)))"

fun acquireLock :: "'r redis_blocklist \<Rightarrow> string \<Rightarrow> nat \<Rightarrow> ('r, bool) io" where
  "acquireLock st lockKey 0 = io_return False"
| "acquireLock st lockKey (Suc attempts) =
     io_bind (kv_set (rb_kv st) lockKey ''1'' \<lparr> so_ttlSeconds = Some (rb_lockTtlSeconds st), so_ifNotExists = Some True \<rparr>)
       (\<lambda>lockAcquired. if lockAcquired then io_return True else acquireLock st lockKey attempts)"

definition withIndexLock :: "'r redis_blocklist \<Rightarrow> ('r, 'a) io \<Rightarrow> ('r, 'a) io" where
  "withIndexLock st fn =
     io_bind (io_key (indexLockKey st)) (\<lambda>lockKey.
       io_bind (acquireLock st lockKey 3) (\<lambda>lockAcquired.
         io_finally fn (if lockAcquired then kv_del (rb_kv st) lockKey else io_return 0)))"

definition redis_get :: "'r redis_blocklist \<Rightarrow> string \<Rightarrow> string \<Rightarrow> ('r, json option) io" where
  "redis_get st blockType indicator =
     io_bind (io_key (entryKey st blockType indicator)) (\<lambda>key.
       io_bind (kv_get (rb_kv st) key) (\<lambda>raw.
         if str_truthy raw
         then io_bind (io_option (jsonDecode (Some MAX_BYTES) (the raw))) (\<lambda>v. io_return (Some v))
         else io_return None))"

definition redis_set :: "'r redis_blocklist \<Rightarrow> blocklist_update \<Rightarrow> ('r, unit) io" where
  "redis_set st block =
     io_bind (io_key (entryKey st (bu_blockType block) (bu_indicator block))) (\<lambda>key.
       io_bind (setWithTtl st key (jsonEncode (block_json block))) (\<lambda>_.
         withIndexLock st
           (io_bind (readIndex st) (\<lambda>found.
             let index = default_or [] found
             in writeIndex st (if key \<in> set index then index else index @ [key])))))"

definition redis_delete :: "'r redis_blocklist \<Rightarrow> string \<Rightarrow> string \<Rightarrow> ('r, unit) io" where
  "redis_delete st blockType indicator =
     io_bind (io_key (entryKey st blockType indicator)) (\<lambda>key.
       io_bind (kv_del (rb_kv st) key) (\<lambda>_.
         withIndexLock st
           (io_bind (readIndex st) (\<lambda>found.
             case found of None \<Rightarrow> io_return () | Some index \<Rightarrow> writeIndex st (filter (\<lambda>k. k \<noteq> key) index)))))"

fun collectBlocks :: "string list \<Rightarrow> string option list \<Rightarrow> (json list \<times> string list) option" where
  "collectBlocks [] vs = Some ([], [])"
| "collectBlocks (k # ks) [] = collectBlocks ks []"
| "collectBlocks (k # ks) (raw # vs) =
     (if str_truthy raw
      then (case jsonDecode (Some MAX_BYTES) (the raw) of
              None \<Rightarrow> None
            | Some v \<Rightarrow> map_option (\<lambda>(results, stillPresent). (v # results, k # stillPresent)) (collectBlocks ks vs))
      else collectBlocks ks vs)"

text \<open>\<^verbatim>\<open>getAll\<close> reads the blocks of the index, then rewrites the index without the expired keys, with no lock.\<close>

definition getAll_read :: "'r redis_blocklist \<Rightarrow> ('r, json list \<times> string list \<times> string list) io" where
  "getAll_read st =
     io_bind (readIndex st) (\<lambda>found.
       let index = default_or [] found in
       if index = [] then io_return ([], [], [])
       else io_bind (kv_mget (rb_kv st) index) (\<lambda>values.
              io_bind (io_option (collectBlocks index values)) (\<lambda>(results, stillPresent).
                io_return (results, stillPresent, index))))"

definition getAll_cleanup :: "'r redis_blocklist \<Rightarrow> string list \<Rightarrow> string list \<Rightarrow> ('r, unit) io" where
  "getAll_cleanup st stillPresent index =
     (if length stillPresent \<noteq> length index then writeIndex st stillPresent else io_return ())"

definition redis_getAll :: "'r redis_blocklist \<Rightarrow> ('r, json list) io" where
  "redis_getAll st =
     io_bind (getAll_read st) (\<lambda>(results, stillPresent, index).
       io_bind (getAll_cleanup st stillPresent index) (\<lambda>_. io_return results))"

definition redis_size :: "'r redis_blocklist \<Rightarrow> ('r, nat) io" where
  "redis_size st = io_bind (readIndex st) (\<lambda>found. io_return (length (default_or [] found)))"

fun delAll :: "'r redis_blocklist \<Rightarrow> string list \<Rightarrow> ('r, unit) io" where
  "delAll st [] = io_return ()"
| "delAll st (k # ks) = io_bind (kv_del (rb_kv st) k) (\<lambda>_. delAll st ks)"

definition redis_clear :: "'r redis_blocklist \<Rightarrow> ('r, unit) io" where
  "redis_clear st =
     io_bind (readIndex st) (\<lambda>found.
       case found of
         None \<Rightarrow> io_return ()
       | Some index \<Rightarrow> io_bind (delAll st index) (\<lambda>_. io_bind (kv_del (rb_kv st) (rb_indexKeyName st)) (\<lambda>_. io_return ())))"

definition RedisBlocklistStore :: "'r redis_blocklist \<Rightarrow> 'r blocklist_store" where
  "RedisBlocklistStore st =
     \<lparr> bs_get = redis_get st, bs_set = redis_set st, bs_delete = redis_delete st, bs_getAll = redis_getAll st,
       bs_size = redis_size st, bs_clear = redis_clear st \<rparr>"

section \<open>With a fallback\<close>

record ('p, 'f) resilient =
  rs_primary :: 'p
  rs_fallback :: 'f
  rs_lastWarnAtMs :: int
  rs_warnings :: "string list"

definition rs_warn :: "int \<Rightarrow> string \<Rightarrow> ('p, 'f) resilient \<Rightarrow> ('p, 'f) resilient" where
  "rs_warn now operation s =
     (if now - rs_lastWarnAtMs s < 30000 then s
      else s\<lparr> rs_lastWarnAtMs := now, rs_warnings := rs_warnings s @ [operation] \<rparr>)"

definition on_primary :: "('p, 'a) io \<Rightarrow> (('p, 'f) resilient, 'a) io" where
  "on_primary m s = (case m (rs_primary s) of (p, rep) \<Rightarrow> (s\<lparr> rs_primary := p \<rparr>, rep))"

definition on_fallback :: "('f, 'a) io \<Rightarrow> (('p, 'f) resilient, 'a) io" where
  "on_fallback m s = (case m (rs_fallback s) of (f, rep) \<Rightarrow> (s\<lparr> rs_fallback := f \<rparr>, rep))"

text \<open>Reads go to the primary and, when it fails, to the fallback; writes go to the fallback, then to the primary.\<close>

definition read_resilient :: "int \<Rightarrow> string \<Rightarrow> ('p, 'a) io \<Rightarrow> ('f, 'a) io \<Rightarrow> (('p, 'f) resilient, 'a) io" where
  "read_resilient now operation p f = io_catch (on_primary p) (\<lambda>s. on_fallback f (rs_warn now operation s))"

definition write_resilient :: "int \<Rightarrow> string \<Rightarrow> ('p, unit) io \<Rightarrow> ('f, unit) io \<Rightarrow> (('p, 'f) resilient, unit) io" where
  "write_resilient now operation p f =
     io_bind (on_fallback f) (\<lambda>_. io_catch (on_primary p) (\<lambda>s. (rs_warn now operation s, Some ())))"

definition ResilientBlocklistStore ::
  "int \<Rightarrow> 'p blocklist_store \<Rightarrow> 'f blocklist_store \<Rightarrow> ('p, 'f) resilient blocklist_store" where
  "ResilientBlocklistStore now primary fallback =
     \<lparr> bs_get = (\<lambda>t i. read_resilient now ''get'' (bs_get primary t i) (bs_get fallback t i)),
       bs_set = (\<lambda>b. write_resilient now ''set'' (bs_set primary b) (bs_set fallback b)),
       bs_delete = (\<lambda>t i. write_resilient now ''delete'' (bs_delete primary t i) (bs_delete fallback t i)),
       bs_getAll = read_resilient now ''getAll'' (bs_getAll primary) (bs_getAll fallback),
       bs_size = read_resilient now ''size'' (bs_size primary) (bs_size fallback),
       bs_clear = write_resilient now ''clear'' (bs_clear primary) (bs_clear fallback) \<rparr>"


section \<open>Keys and texts\<close>

text \<open>A store whose constructor succeeded and whose entries do not live among the locks.\<close>

definition store_ok :: "'r redis_blocklist \<Rightarrow> bool" where
  "store_ok st \<longleftrightarrow>
     buildRedisKey \<lparr> rk_namespace = rb_namespace st, rk_version = rb_version st, rk_tenantId = ''global'',
       rk_dataType = ''blocklist-index'', rk_id = [KStr ''all''] \<rparr> = Inr (rb_indexKeyName st) \<and>
     rb_dataType st \<noteq> [] \<and> rb_dataType st \<noteq> ''lock''"

definition entry_key :: "'r redis_blocklist \<Rightarrow> string \<Rightarrow> string \<Rightarrow> string" where
  "entry_key st t i = (case entryKey st t i of Inr k \<Rightarrow> k | Inl _ \<Rightarrow> [])"

definition lock_key :: "'r redis_blocklist \<Rightarrow> string" where
  "lock_key st = (case indexLockKey st of Inr k \<Rightarrow> k | Inl _ \<Rightarrow> [])"

lemma newRedisBlocklistStore_ok:
  "newRedisBlocklistStore kv rand options = Inr st \<Longrightarrow> bo_dataType options = None \<Longrightarrow> store_ok st"
  by (auto simp: newRedisBlocklistStore_def store_ok_def default_or_def Let_def split: sum.splits)

lemma store_keys:
  assumes "store_ok st"
  shows "entryKey st t i = Inr (entry_key st t i)" and "indexLockKey st = Inr (lock_key st)"
  using assms unfolding store_ok_def entry_key_def lock_key_def entryKey_def indexLockKey_def buildRedisKey_def
  by (auto split: option.splits if_splits)

lemma key_parts:
  assumes "store_ok st"
  shows "parseRedisKey (entry_key st t i) = Some (rb_namespace st, rb_version st, ''global'', rb_dataType st, [t, i])"
    and "parseRedisKey (lock_key st) = Some (rb_namespace st, rb_version st, ''global'', ''lock'', [''blocklist-index'', ''all''])"
    and "parseRedisKey (rb_indexKeyName st) = Some (rb_namespace st, rb_version st, ''global'', ''blocklist-index'', [''all''])"
  using buildRedisKey_parse [OF store_keys(1) [OF assms, unfolded entryKey_def]]
    buildRedisKey_parse [OF store_keys(2) [OF assms, unfolded indexLockKey_def]]
    buildRedisKey_parse [OF conjunct1 [OF assms [unfolded store_ok_def]]]
  by simp_all

lemma keys_distinct:
  assumes "store_ok st"
  shows "entry_key st t i = entry_key st t' i' \<longleftrightarrow> t = t' \<and> i = i'"
    and "entry_key st t i \<noteq> lock_key st" and "entry_key st t i \<noteq> rb_indexKeyName st"
    and "rb_indexKeyName st \<noteq> lock_key st"
proof -
  note p = key_parts [OF assms]
  show "entry_key st t i = entry_key st t' i' \<longleftrightarrow> t = t' \<and> i = i'"
  proof
    assume "entry_key st t i = entry_key st t' i'"
    then have "Some (rb_namespace st, rb_version st, ''global'', rb_dataType st, [t, i]) =
        Some (rb_namespace st, rb_version st, ''global'', rb_dataType st, [t', i'])"
      using p(1) by metis
    then show "t = t' \<and> i = i'" by simp
  qed simp
  show "entry_key st t i \<noteq> lock_key st"
  proof
    assume "entry_key st t i = lock_key st"
    with p(1) [of t i] p(2) have "rb_dataType st = ''lock''" by simp
    with assms show False by (simp add: store_ok_def)
  qed
  show "entry_key st t i \<noteq> rb_indexKeyName st"
  proof
    assume "entry_key st t i = rb_indexKeyName st"
    with p(1) [of t i] p(3) show False by simp
  qed
  show "rb_indexKeyName st \<noteq> lock_key st"
  proof
    assume "rb_indexKeyName st = lock_key st"
    with p(2,3) show False by simp
  qed
qed

abbreviation index_text :: "string list \<Rightarrow> string" where
  "index_text ks \<equiv> jsonEncode (JArr (map JStr ks))"

lemma index_decode: "jsonDecode mx (index_text ks) = Some v \<Longrightarrow> json_strings v = Some ks"
  using JSON_parse_stringify [of "JArr (map JStr ks)"]
  by (auto simp: jsonDecode_def jsonEncode_def json_strings_def list_all_iff comp_def split: if_splits)

lemma block_decode: "jsonDecode mx (jsonEncode (block_json b)) = Some v \<Longrightarrow> v = block_json b"
  using JSON_parse_stringify [of "block_json b"]
  by (auto simp: jsonDecode_def jsonEncode_def block_json_def optional_field_def split: if_splits option.splits)

lemma texts_truthy [simp]: "str_truthy (Some (index_text ks))" "str_truthy (Some (jsonEncode (block_json b)))"
  by (simp_all add: str_truthy_def jsonEncode_def block_json_def)

lemma cacheMax_jitter: "0 \<le> x \<Longrightarrow> x < 1 \<Longrightarrow> 810 \<le> applyTtlJitter x None TTL_cacheMax"
proof -
  assume x: "0 \<le> x" "x < 1"
  have "\<lfloor>900 + (x * 2 - 1) * 90 + 1 / 2\<rfloor> \<ge> 810" using x by (simp add: le_floor_iff)
  then show ?thesis by (simp add: applyTtlJitter_def TTL_cacheMax_def Let_def js_round_def)
qed

section \<open>The store over Redis\<close>

locale redis_blocklist_world = redis "rb_kv st" clock holds absent
  for st :: "'r redis_blocklist" and clock holds absent +
  assumes ok: "store_ok st"
    and random_range: "rb_random st r = (r', Some x) \<Longrightarrow> 0 \<le> x \<and> x < 1"
    and random_frame: "rb_random st r = (r', xrep) \<Longrightarrow>
      clock r \<le> clock r' \<and> (holds r k v T \<longrightarrow> holds r' k v T) \<and> (absent r k \<longrightarrow> absent r' k)"
begin

text \<open>Going from \<open>r\<close> to \<open>r'\<close> touches no key outside \<open>S\<close>.\<close>

definition keeps :: "string set \<Rightarrow> 'r \<Rightarrow> 'r \<Rightarrow> bool" where
  "keeps S r r' \<longleftrightarrow> clock r \<le> clock r' \<and>
     (\<forall>k v T. k \<notin> S \<longrightarrow> (holds r k v T \<longrightarrow> holds r' k v T) \<and> (absent r k \<longrightarrow> absent r' k))"

lemma keeps_trans: "keeps S r r1 \<Longrightarrow> keeps S' r1 r2 \<Longrightarrow> S \<union> S' \<subseteq> S'' \<Longrightarrow> keeps S'' r r2"
  unfolding keeps_def by (meson UnI1 UnI2 order_trans subsetD)

lemma keeps_clock: "keeps S r r' \<Longrightarrow> clock r \<le> clock r'"
  by (simp add: keeps_def)

lemma keeps_holds: "keeps S r r' \<Longrightarrow> k \<notin> S \<Longrightarrow> holds r k v T \<Longrightarrow> holds r' k v T"
  by (simp add: keeps_def)

lemma keeps_absent: "keeps S r r' \<Longrightarrow> k \<notin> S \<Longrightarrow> absent r k \<Longrightarrow> absent r' k"
  by (simp add: keeps_def)

lemma keeps_refl [simp]: "keeps S r r"
  by (simp add: keeps_def)

lemma keeps_get: "kv_get (rb_kv st) k r = (r', rep) \<Longrightarrow> keeps {} r r'"
  unfolding keeps_def using get_frame [of k r r' rep] by blast

lemma keeps_mget: "kv_mget (rb_kv st) ks r = (r', mrep) \<Longrightarrow> keeps {} r r'"
  unfolding keeps_def using mget_frame [of ks r r' mrep] by blast

lemma keeps_set: "kv_set (rb_kv st) k w opts r = (r', srep) \<Longrightarrow> keeps {k} r r'"
  unfolding keeps_def using set_frame [of k w opts r r' srep] set_clock [of k w opts r r' srep] by blast

lemma keeps_del: "kv_del (rb_kv st) k r = (r', drep) \<Longrightarrow> keeps {k} r r'"
  unfolding keeps_def using del_frame [of k r r' drep] del_clock [of k r r' drep] by blast

lemma keeps_random: "rb_random st r = (r', xrep) \<Longrightarrow> keeps {} r r'"
  unfolding keeps_def using random_frame [of r r' xrep] by blast

lemma setWithTtl_stores:
  assumes "setWithTtl st k w r = (r', Some u)"
  shows "keeps {k} r r'" and "T < clock r + 810000 \<Longrightarrow> holds r' k w T"
proof -
  obtain r1 x c where x: "rb_random st r = (r1, Some x)"
      and s: "kv_set (rb_kv st) k w \<lparr> so_ttlSeconds = Some (applyTtlJitter x None TTL_cacheMax), so_ifNotExists = None \<rparr> r1 =
        (r', Some c)"
    using assms unfolding setWithTtl_def io_bind_Some by auto
  show "keeps {k} r r'" by (rule keeps_trans [OF keeps_random [OF x] keeps_set [OF s]]) simp
  assume "T < clock r + 810000"
  moreover have "810 \<le> applyTtlJitter x None TTL_cacheMax" using random_range [OF x] by (intro cacheMax_jitter) auto
  ultimately show "holds r' k w T"
    using keeps_clock [OF keeps_random [OF x]] by (intro set_stores [OF s]) auto
qed

lemma acquireLock_keeps: "acquireLock st lk n r = (r', Some b) \<Longrightarrow> keeps {lk} r r'"
proof (induction n arbitrary: r)
  case (Suc n)
  obtain r1 a where "kv_set (rb_kv st) lk ''1'' \<lparr> so_ttlSeconds = Some (rb_lockTtlSeconds st), so_ifNotExists = Some True \<rparr> r =
        (r1, Some a)" "(if a then io_return True else acquireLock st lk n) r1 = (r', Some b)"
    using Suc.prems by (auto simp: io_bind_Some)
  then show ?case
    using Suc.IH [of r1] keeps_set keeps_trans [of "{lk}" r r1 "{lk}" r' "{lk}"]
    by (cases a) auto
qed simp

lemma withIndexLock_runs:
  assumes "withIndexLock st fn r = (r', Some a)"
  obtains r1 r2 where "keeps {lock_key st} r r1" "fn r1 = (r2, Some a)" "keeps {lock_key st} r2 r'"
proof -
  obtain r1 b r2 c where "acquireLock st (lock_key st) 3 r = (r1, Some b)" "fn r1 = (r2, Some a)"
      "(if b then kv_del (rb_kv st) (lock_key st) else io_return 0) r2 = (r', Some c)"
    using assms unfolding withIndexLock_def io_key_def store_keys(2) [OF ok]
    by (auto simp: io_bind_Some io_finally_Some)
  then have "keeps {lock_key st} r r1" "fn r1 = (r2, Some a)" "keeps {lock_key st} r2 r'"
    using acquireLock_keeps keeps_del [of "lock_key st" r2 r'] by (auto split: if_splits)
  then show thesis by (rule that)
qed

definition index_is :: "int \<Rightarrow> 'r \<Rightarrow> string list \<Rightarrow> bool" where
  "index_is T r ks \<longleftrightarrow> ks = [] \<and> absent r (rb_indexKeyName st) \<or> holds r (rb_indexKeyName st) (index_text ks) T"

lemma index_keeps: "keeps S r r' \<Longrightarrow> rb_indexKeyName st \<notin> S \<Longrightarrow> index_is T r ks \<Longrightarrow> index_is T r' ks"
  unfolding index_is_def using keeps_holds keeps_absent by blast

lemma readIndex_reads:
  assumes "readIndex st r = (r', Some found)"
  shows "keeps {} r r'" and "index_is T r ks \<Longrightarrow> clock r' \<le> T \<Longrightarrow> default_or [] found = ks \<and> (found = None \<longrightarrow> ks = [])"
proof -
  obtain raw where g: "kv_get (rb_kv st) (rb_indexKeyName st) r = (r', Some raw)"
      "found = (if str_truthy raw then Option.bind (jsonDecode (Some MAX_BYTES) (the raw)) json_strings else None)"
    using assms unfolding readIndex_def
    by (auto simp: io_bind_Some io_option_def split: if_splits option.splits)
  show "keeps {} r r'" by (rule keeps_get [OF g(1)])
  assume i: "index_is T r ks" and t: "clock r' \<le> T"
  then show "default_or [] found = ks \<and> (found = None \<longrightarrow> ks = [])"
  proof (cases "raw = None")
    case True
    then have "ks = []" using i get_hit [OF g(1) _ t] by (auto simp: index_is_def)
    then show ?thesis using True g(2) by (simp add: default_or_def str_truthy_def)
  next
    case False
    then have raw: "raw = Some (index_text ks)"
      using i get_hit [OF g(1) _ t] get_miss [OF g(1)] by (auto simp: index_is_def)
    with g(2) assms have "found \<noteq> None"
      unfolding readIndex_def using g(1)
      by (auto simp: io_bind_Some io_option_def split: if_splits option.splits)
    with raw g(2) index_decode show ?thesis
      by (cases "jsonDecode (Some MAX_BYTES) (index_text ks)") (auto simp: default_or_def)
  qed
qed

end


section \<open>Refinement of the cache in memory\<close>

text \<open>Block types contain no colon, so a cache key determines the type and the indicator.\<close>

definition plain_type :: "string \<Rightarrow> bool" where
  "plain_type t \<longleftrightarrow> CHR '':'' \<notin> set t"

lemma cache_key_inj: "plain_type t \<Longrightarrow> plain_type t' \<Longrightarrow> cache_key t i = cache_key t' i' \<longleftrightarrow> t = t' \<and> i = i'"
  using append_sep_inj [of t "CHR '':''" i t' i'] by (auto simp: cache_key_def plain_type_def)

definition cache_ok :: "block_cache \<Rightarrow> bool" where
  "cache_ok m \<longleftrightarrow> jm_wf m \<and> (\<forall>(k, b) \<in> set m. k = cache_key (bu_blockType b) (bu_indicator b) \<and> plain_type (bu_blockType b))"

abbreviation block_key :: "'r redis_blocklist \<Rightarrow> blocklist_update \<Rightarrow> string" where
  "block_key st b \<equiv> entry_key st (bu_blockType b) (bu_indicator b)"

abbreviation cache_index :: "'r redis_blocklist \<Rightarrow> block_cache \<Rightarrow> string list" where
  "cache_index st m \<equiv> map (block_key st) (jm_values m)"

lemma cache_ok_get: "cache_ok m \<Longrightarrow> jm_get m k = Some b \<Longrightarrow> k = cache_key (bu_blockType b) (bu_indicator b) \<and> plain_type (bu_blockType b)"
  unfolding cache_ok_def by (auto dest: jm_get_in_set)

lemma in_cache_index:
  assumes "store_ok st" "cache_ok m" "plain_type t"
  shows "entry_key st t i \<in> set (cache_index st m) \<longleftrightarrow> jm_has m (cache_key t i)"
proof
  assume "entry_key st t i \<in> set (cache_index st m)"
  then obtain k b where kb: "(k, b) \<in> set m" "entry_key st t i = block_key st b" by auto
  then have "t = bu_blockType b \<and> i = bu_indicator b" using keys_distinct(1) [OF assms(1)] by simp
  with kb(1) assms(2) have "k = cache_key t i" by (auto simp: cache_ok_def)
  with kb show "jm_has m (cache_key t i)" by force
next
  assume "jm_has m (cache_key t i)"
  then obtain b where b: "(cache_key t i, b) \<in> set m" by auto
  with assms have "cache_key t i = cache_key (bu_blockType b) (bu_indicator b)" "plain_type (bu_blockType b)"
    by (auto simp: cache_ok_def)
  with assms(3) have "entry_key st t i = block_key st b" by (simp add: cache_key_inj)
  with b show "entry_key st t i \<in> set (cache_index st m)" by force
qed

lemma cache_ok_set: "cache_ok m \<Longrightarrow> plain_type (bu_blockType b) \<Longrightarrow> cache_ok (jm_set (cache_key (bu_blockType b) (bu_indicator b)) b m)"
  unfolding cache_ok_def by (auto simp: set_jm_set)

lemma cache_ok_delete: "cache_ok m \<Longrightarrow> cache_ok (jm_delete k m)"
  by (auto simp: cache_ok_def set_jm_delete)


lemma cache_index_set:
  assumes "cache_ok m" and "plain_type (bu_blockType b)"
  defines "k \<equiv> cache_key (bu_blockType b) (bu_indicator b)"
  shows "cache_index st (jm_set k b m) = (if jm_has m k then cache_index st m else cache_index st m @ [block_key st b])"
  using assms(1)
proof (induction m)
  case (Cons p m)
  obtain k' b' where p: "p = (k', b')" by (cases p)
  have m: "cache_ok m" and k': "k' = cache_key (bu_blockType b') (bu_indicator b')" "plain_type (bu_blockType b')"
    using Cons.prems p by (auto simp: cache_ok_def)
  show ?case
  proof (cases "k' = k")
    case True
    then have "block_key st b' = block_key st b" using k' assms(2) cache_key_inj by (simp add: k_def)
    with True p show ?thesis by simp
  qed (use Cons.IH [OF m] p in auto)
qed (simp add: k_def)

lemma cache_index_delete:
  assumes "store_ok st" and "cache_ok m" and "plain_type t"
  shows "filter (\<lambda>k. k \<noteq> entry_key st t i) (cache_index st m) = cache_index st (jm_delete (cache_key t i) m)"
  using assms(2)
proof (induction m)
  case (Cons p m)
  obtain k' b' where p: "p = (k', b')" by (cases p)
  have m: "cache_ok m" and k': "k' = cache_key (bu_blockType b') (bu_indicator b')" "plain_type (bu_blockType b')"
    using Cons.prems p by (auto simp: cache_ok_def)
  have "k' = cache_key t i \<longleftrightarrow> block_key st b' = entry_key st t i"
    using k' assms(3) by (simp add: cache_key_inj keys_distinct(1) [OF assms(1)])
  with Cons.IH [OF m] p show ?case by (auto simp: AList.delete_eq)
qed (simp add: AList.delete_eq)

text \<open>
  \<open>represents\<close> says that up to time \<open>T\<close> the database holds the cache \<open>m\<close>: its blocks, the index of their
  keys in the cache's order, and no other block.
\<close>

context redis_blocklist_world
begin

definition entry_is :: "int \<Rightarrow> 'r \<Rightarrow> string \<Rightarrow> blocklist_update option \<Rightarrow> bool" where
  "entry_is T r k v = (case v of None \<Rightarrow> absent r k | Some b \<Rightarrow> holds r k (jsonEncode (block_json b)) T)"

lemma entry_keeps: "keeps S r r' \<Longrightarrow> k \<notin> S \<Longrightarrow> entry_is T r k v \<Longrightarrow> entry_is T r' k v"
  by (cases v) (auto simp: entry_is_def keeps_holds keeps_absent)

definition represents :: "int \<Rightarrow> 'r \<Rightarrow> block_cache \<Rightarrow> bool" where
  "represents T r m \<longleftrightarrow> cache_ok m \<and> index_is T r (cache_index st m) \<and>
     (\<forall>t i. plain_type t \<longrightarrow> entry_is T r (entry_key st t i) (jm_get m (cache_key t i)))"

text \<open>A step that rewrites one entry and the index.\<close>

lemma represents_change:
  assumes "represents T r m" and "keeps {entry_key st t i, lock_key st, rb_indexKeyName st} r r'" and "plain_type t"
    and "cache_ok m'" and "index_is T r' (cache_index st m')"
    and "\<forall>k. k \<noteq> cache_key t i \<longrightarrow> jm_get m' k = jm_get m k"
    and "entry_is T r' (entry_key st t i) (jm_get m' (cache_key t i))"
  shows "represents T r' m'"
proof -
  have "entry_is T r' (entry_key st t' i') (jm_get m' (cache_key t' i'))" if p: "plain_type t'" for t' i'
  proof (cases "t' = t \<and> i' = i")
    case False
    then have "cache_key t' i' \<noteq> cache_key t i" "entry_key st t' i' \<noteq> entry_key st t i"
      using cache_key_inj [OF p assms(3)] keys_distinct(1) [OF ok] by blast+
    moreover have "entry_is T r (entry_key st t' i') (jm_get m (cache_key t' i'))"
      using assms(1) p unfolding represents_def by blast
    ultimately show ?thesis using entry_keeps [OF assms(2)] assms(6) keys_distinct(2,3) [OF ok] by simp
  qed (use assms(7) in blast)
  with assms(4,5) show ?thesis unfolding represents_def by blast
qed

lemma represents_keeps:
  assumes "keeps S r r'" and "S \<subseteq> {lock_key st}" and "represents T r m"
  shows "represents T r' m"
proof -
  have "rb_indexKeyName st \<notin> S" "\<And>t i. entry_key st t i \<notin> S" using assms(2) keys_distinct [OF ok] by blast+
  with assms(3) entry_keeps [OF assms(1)] index_keeps [OF assms(1)] show ?thesis unfolding represents_def by blast
qed

lemma represents_get:
  assumes "represents T r m" and "plain_type t" and "redis_get st t i r = (r', Some rep)"
  shows "keeps {} r r'" and "clock r' \<le> T \<Longrightarrow> rep = map_option block_json (jm_get m (cache_key t i))"
proof -
  obtain raw where g: "kv_get (rb_kv st) (entry_key st t i) r = (r', Some raw)"
      "if str_truthy raw then rep \<noteq> None \<and> jsonDecode (Some MAX_BYTES) (the raw) = rep else rep = None"
    using assms(3) unfolding redis_get_def io_key_def store_keys(1) [OF ok]
    by (auto simp: io_bind_Some io_option_def split: if_splits option.splits)
  show "keeps {} r r'" by (rule keeps_get [OF g(1)])
  assume t: "clock r' \<le> T"
  have e: "entry_is T r (entry_key st t i) (jm_get m (cache_key t i))" using assms(1,2) unfolding represents_def by blast
  show "rep = map_option block_json (jm_get m (cache_key t i))"
  proof (cases "jm_get m (cache_key t i)")
    case None
    with e get_miss [OF g(1)] g(2) show ?thesis by (simp add: str_truthy_def entry_is_def)
  next
    case (Some b)
    with e have "holds r (entry_key st t i) (jsonEncode (block_json b)) T" by (simp add: entry_is_def)
    from get_hit [OF g(1) this t] g(2) have "jsonDecode (Some MAX_BYTES) (jsonEncode (block_json b)) = rep \<and> rep \<noteq> None"
      by simp
    with block_decode Some show ?thesis by fastforce
  qed
qed

end


context redis_blocklist_world
begin

text \<open>Rewriting the index under the lock changes the index and nothing else.\<close>

lemma locked_update:
  assumes "withIndexLock st (io_bind (readIndex st) (\<lambda>found. writeIndex st (f (default_or [] found)))) r = (r', Some u)"
  shows "keeps {lock_key st, rb_indexKeyName st} r r'"
    and "index_is T r ks \<Longrightarrow> clock r' \<le> T \<Longrightarrow> T < clock r + 810000 \<Longrightarrow> index_is T r' (f ks)"
proof -
  obtain r1 r2 where l: "keeps {lock_key st} r r1" "keeps {lock_key st} r2 r'"
      and b: "io_bind (readIndex st) (\<lambda>found. writeIndex st (f (default_or [] found))) r1 = (r2, Some u)"
    using withIndexLock_runs [OF assms] by blast
  obtain ra found where ra: "readIndex st r1 = (ra, Some found)" "writeIndex st (f (default_or [] found)) ra = (r2, Some u)"
    using b by (auto simp: io_bind_Some)
  note rd = readIndex_reads [OF ra(1)] and wr = setWithTtl_stores [OF ra(2) [unfolded writeIndex_def]]
  have "keeps {lock_key st} r ra" by (rule keeps_trans [OF l(1) rd(1)]) simp
  then have "keeps {lock_key st, rb_indexKeyName st} r r2" by (rule keeps_trans [OF _ wr(1)]) auto
  then show "keeps {lock_key st, rb_indexKeyName st} r r'" by (rule keeps_trans [OF _ l(2)]) auto
  assume i: "index_is T r ks" and t: "clock r' \<le> T" "T < clock r + 810000"
  have clocks: "clock ra \<le> T" "T < clock ra + 810000"
    using keeps_clock [OF l(1)] keeps_clock [OF rd(1)] keeps_clock [OF wr(1)] keeps_clock [OF l(2)] t by linarith+
  have "index_is T r1 ks" using index_keeps [OF l(1) _ i] keys_distinct(4) [OF ok] by blast
  from rd(2) [OF this clocks(1)] wr(2) [OF clocks(2)] have "index_is T r2 (f ks)" by (simp add: index_is_def)
  then show "index_is T r' (f ks)" using index_keeps [OF l(2)] keys_distinct(4) [OF ok] by blast
qed

lemma represents_set:
  assumes "represents T r m" and "plain_type (bu_blockType b)" and "redis_set st b r = (r', Some u)"
  shows "clock r \<le> clock r'"
    and "clock r' \<le> T \<Longrightarrow> T < clock r + 810000 \<Longrightarrow>
      represents T r' (jm_set (cache_key (bu_blockType b) (bu_indicator b)) b m)"
proof -
  let ?k = "cache_key (bu_blockType b) (bu_indicator b)" and ?e = "block_key st b" and ?S = "{lock_key st, rb_indexKeyName st}"
  let ?f = "\<lambda>index. if ?e \<in> set index then index else index @ [?e]"
  obtain r1 where s: "setWithTtl st ?e (jsonEncode (block_json b)) r = (r1, Some ())"
      and l: "withIndexLock st (io_bind (readIndex st) (\<lambda>found. writeIndex st (?f (default_or [] found)))) r1 = (r', Some u)"
    using assms(3) unfolding redis_set_def io_key_def store_keys(1) [OF ok] Let_def by (auto simp: io_bind_Some)
  note st1 = setWithTtl_stores [OF s] and up = locked_update [where f = ?f, OF l]
  have clk: "clock r \<le> clock r1" "clock r1 \<le> clock r'" using keeps_clock [OF st1(1)] keeps_clock [OF up(1)] .
  then show "clock r \<le> clock r'" by simp
  assume t: "clock r' \<le> T" "T < clock r + 810000"
  have all: "keeps (insert ?e ?S) r r'" by (rule keeps_trans [OF st1(1) up(1)]) simp
  have co: "cache_ok m" using assms(1) unfolding represents_def by blast
  have "index_is T r1 (cache_index st m)"
    using assms(1) index_keeps [OF st1(1)] not_sym [OF keys_distinct(3) [OF ok]] unfolding represents_def by blast
  moreover have "T < clock r1 + 810000" using t clk by simp
  ultimately have "index_is T r' (?f (cache_index st m))" by (rule up(2) [OF _ t(1)])
  then have idx: "index_is T r' (cache_index st (jm_set ?k b m))"
    unfolding cache_index_set [OF co assms(2)] in_cache_index [OF ok co assms(2)] .
  have "holds r1 ?e (jsonEncode (block_json b)) T" using st1(2) t clk by simp
  then have "holds r' ?e (jsonEncode (block_json b)) T"
    using keeps_holds [OF up(1)] keys_distinct(2,3) [OF ok] by simp
  then show "represents T r' (jm_set ?k b m)"
    using represents_change [OF assms(1) all assms(2) cache_ok_set [OF co assms(2)] idx] by (simp add: entry_is_def)
qed

end


context redis_blocklist_world
begin

lemma index_written:
  assumes "(case found of None \<Rightarrow> io_return () | Some index \<Rightarrow> writeIndex st (f index)) r = (r', Some u)"
    and "index_is T r ks" and "default_or [] found = ks" and "found = None \<Longrightarrow> f ks = ks" and "T < clock r + 810000"
  shows "index_is T r' (f ks)"
proof (cases found)
  case None
  with assms show ?thesis by simp
next
  case (Some index)
  with assms setWithTtl_stores(2) [of "rb_indexKeyName st" "index_text (f index)" r r' u T] show ?thesis
    by (simp add: writeIndex_def index_is_def default_or_def)
qed

lemma represents_delete:
  assumes "represents T r m" and "plain_type t" and "redis_delete st t i r = (r', Some u)"
  shows "clock r \<le> clock r'"
    and "clock r' \<le> T \<Longrightarrow> T < clock r + 810000 \<Longrightarrow> represents T r' (jm_delete (cache_key t i) m)"
proof -
  let ?e = "entry_key st t i" and ?m = "jm_delete (cache_key t i) m"
  obtain r1 dn where d: "kv_del (rb_kv st) ?e r = (r1, Some dn)"
      and l: "withIndexLock st (io_bind (readIndex st) (\<lambda>found.
        case found of None \<Rightarrow> io_return () | Some index \<Rightarrow> writeIndex st (filter (\<lambda>k. k \<noteq> ?e) index))) r1 = (r', Some u)"
    using assms(3) unfolding redis_delete_def io_key_def store_keys(1) [OF ok] by (auto simp: io_bind_Some)
  obtain r2 r3 where k: "keeps {lock_key st} r1 r2" "keeps {lock_key st} r3 r'"
      and b: "io_bind (readIndex st) (\<lambda>found.
        case found of None \<Rightarrow> io_return () | Some index \<Rightarrow> writeIndex st (filter (\<lambda>k. k \<noteq> ?e) index)) r2 = (r3, Some u)"
    using withIndexLock_runs [OF l] by blast
  obtain r4 found where f: "readIndex st r2 = (r4, Some found)"
      "(case found of None \<Rightarrow> io_return () | Some index \<Rightarrow> writeIndex st (filter (\<lambda>k. k \<noteq> ?e) index)) r4 = (r3, Some u)"
    using b by (auto simp: io_bind_Some)
  note rd = readIndex_reads [OF f(1)] and kd = keeps_del [OF d]
  have to4: "keeps {?e, lock_key st} r r4"
    by (rule keeps_trans [OF keeps_trans [OF kd k(1) order.refl] rd(1)]) simp
  have k43: "keeps {rb_indexKeyName st} r4 r3"
    using f(2) setWithTtl_stores(1) by (cases found) (auto simp: writeIndex_def)
  have "keeps {lock_key st, rb_indexKeyName st} r4 r'" by (rule keeps_trans [OF k43 k(2)]) simp
  from keeps_trans [OF to4 this, of "{?e, lock_key st, rb_indexKeyName st}"]
  have all: "keeps {?e, lock_key st, rb_indexKeyName st} r r'" by simp
  then show "clock r \<le> clock r'" by (rule keeps_clock)
  assume t: "clock r' \<le> T" "T < clock r + 810000"
  have clk: "clock r4 \<le> T" "T < clock r4 + 810000"
    using keeps_clock [OF to4] keeps_clock [OF k43] keeps_clock [OF k(2)] t by linarith+
  have co: "cache_ok m" and i0: "index_is T r (cache_index st m)" using assms(1) unfolding represents_def by blast+
  have "index_is T r2 (cache_index st m)"
    using index_keeps [OF k(1)] index_keeps [OF kd _ i0] keys_distinct(3,4) [OF ok] by (metis singletonD)
  from rd(2) [OF this clk(1)] have found: "default_or [] found = cache_index st m" "found = None \<Longrightarrow> cache_index st m = []" by blast+
  have "index_is T r3 (filter (\<lambda>k. k \<noteq> ?e) (cache_index st m))"
  proof (rule index_written [where f = "filter (\<lambda>k. k \<noteq> ?e)", OF f(2)])
    show "index_is T r4 (cache_index st m)"
      by (rule index_keeps [OF rd(1) _ \<open>index_is T r2 (cache_index st m)\<close>]) simp
  qed (use found clk in auto)
  then have idx: "index_is T r' (cache_index st ?m)"
    unfolding cache_index_delete [OF ok co assms(2)] using index_keeps [OF k(2)] keys_distinct(4) [OF ok] by blast
  have "absent r1 ?e" by (rule del_removes [OF d])
  then have "absent r4 ?e" using keeps_absent [OF keeps_trans [OF k(1) rd(1) order.refl]] keys_distinct(2) [OF ok] by simp
  then have "absent r' ?e"
    using keeps_absent [OF \<open>keeps {lock_key st, rb_indexKeyName st} r4 r'\<close>] keys_distinct(2,3) [OF ok] by simp
  then show "represents T r' ?m"
    by (intro represents_change [OF assms(1) all assms(2) cache_ok_delete [OF co] idx]) (simp_all add: entry_is_def)
qed

end


lemma collect_all:
  "length ks = length bs \<Longrightarrow> collectBlocks ks (map (\<lambda>b. Some (jsonEncode (block_json b))) bs) = Some x \<Longrightarrow>
     x = (map block_json bs, ks)"
proof (induction ks bs arbitrary: x rule: list_induct2)
  case (Cons k ks b bs)
  then show ?case
    by (auto split: option.splits if_splits dest: block_decode)
qed simp

context redis_blocklist_world
begin

lemma represents_entry:
  assumes "represents T r m" and "b \<in> set (jm_values m)"
  shows "holds r (block_key st b) (jsonEncode (block_json b)) T"
proof -
  obtain k where k: "(k, b) \<in> set m" using assms(2) by auto
  then have "k = cache_key (bu_blockType b) (bu_indicator b)" "plain_type (bu_blockType b)" "jm_get m k = Some b"
    using assms(1) by (auto simp: represents_def cache_ok_def in_set_jm_get)
  moreover have "entry_is T r (entry_key st t i) (jm_get m (cache_key t i))" if "plain_type t" for t i
    using assms(1) that unfolding represents_def by blast
  ultimately have "entry_is T r (block_key st b) (Some b)" by metis
  then show ?thesis by (simp add: entry_is_def)
qed

lemma represents_mget:
  assumes "represents T r m" and "kv_mget (rb_kv st) (cache_index st m) r = (r', Some vs)" and "clock r' \<le> T"
  shows "vs = map (\<lambda>b. Some (jsonEncode (block_json b))) (jm_values m)"
proof (rule nth_equalityI)
  show len: "length vs = length (map (\<lambda>b. Some (jsonEncode (block_json b))) (jm_values m))"
    using mget_length [OF assms(2)] by simp
  fix n assume "n < length vs"
  then have n: "n < length (jm_values m)" using len by simp
  then have "holds r (cache_index st m ! n) (jsonEncode (block_json (jm_values m ! n))) T"
    using represents_entry [OF assms(1) nth_mem [OF n]] by simp
  from mget_hit [OF assms(2) _ this assms(3)] n show "vs ! n = map (\<lambda>b. Some (jsonEncode (block_json b))) (jm_values m) ! n"
    by simp
qed

lemma represents_read:
  assumes "represents T r m" and "readIndex st r = (r', Some found)"
  shows "clock r \<le> clock r'" and "represents T r' m" and "clock r' \<le> T \<Longrightarrow> default_or [] found = cache_index st m"
proof -
  note rd = readIndex_reads [OF assms(2)]
  show "clock r \<le> clock r'" by (rule keeps_clock [OF rd(1)])
  show "represents T r' m" by (rule represents_keeps [OF rd(1) _ assms(1)]) simp
  have "index_is T r (cache_index st m)" using assms(1) unfolding represents_def by blast
  then show "default_or [] found = cache_index st m" if "clock r' \<le> T" using rd(2) that by blast
qed

lemma represents_size:
  assumes "represents T r m" and "redis_size st r = (r', Some n)"
  shows "clock r \<le> clock r'" and "clock r' \<le> T \<Longrightarrow> n = length m \<and> represents T r' m"
proof -
  obtain found where f: "readIndex st r = (r', Some found)" "n = length (default_or [] found)"
    using assms(2) by (auto simp: redis_size_def io_bind_Some)
  note rd = represents_read [OF assms(1) f(1)]
  show "clock r \<le> clock r'" by (rule rd(1))
  show "n = length m \<and> represents T r' m" if "clock r' \<le> T" using rd(2) rd(3) [OF that] f(2) by simp
qed

lemma represents_getAll:
  assumes "represents T r m" and "redis_getAll st r = (r', Some res)"
  shows "clock r \<le> clock r'" and "clock r' \<le> T \<Longrightarrow> res = map block_json (jm_values m) \<and> represents T r' m"
proof -
  obtain r1 still index where rd: "getAll_read st r = (r1, Some (res, still, index))"
      and cl: "getAll_cleanup st still index r1 = (r', Some ())"
    using assms(2) by (auto simp: redis_getAll_def io_bind_Some)
  obtain r0 found where f: "readIndex st r = (r0, Some found)"
      "(let index = default_or [] found in
        if index = [] then io_return ([], [], [])
        else io_bind (kv_mget (rb_kv st) index) (\<lambda>values.
          io_bind (io_option (collectBlocks index values)) (\<lambda>(results, stillPresent).
            io_return (results, stillPresent, index)))) r0 = (r1, Some (res, still, index))"
    using rd by (auto simp: getAll_read_def io_bind_Some)
  note read = represents_read [OF assms(1) f(1)]
  have k1: "keeps {} r0 r1"
    using f(2) keeps_mget by (auto simp: Let_def io_bind_Some io_option_def split: if_splits option.splits)
  have k2: "keeps {rb_indexKeyName st} r1 r'"
    using cl setWithTtl_stores(1) by (auto simp: getAll_cleanup_def writeIndex_def split: if_splits)
  show "clock r \<le> clock r'" using read(1) keeps_clock [OF k1] keeps_clock [OF k2] by simp
  assume t: "clock r' \<le> T"
  then have t01: "clock r0 \<le> T" "clock r1 \<le> T" using keeps_clock [OF k1] keeps_clock [OF k2] by simp_all
  have r1: "represents T r1 m" by (rule represents_keeps [OF k1 _ read(2)]) simp
  have "res = map block_json (jm_values m) \<and> still = index"
  proof (cases "m = []")
    case True
    with f(2) read(3) [OF t01(1)] show ?thesis by (simp add: Let_def)
  next
    case False
    with f(2) read(3) [OF t01(1)] obtain vs where vs: "kv_mget (rb_kv st) (cache_index st m) r0 = (r1, Some vs)"
        "collectBlocks (cache_index st m) vs = Some (res, still)" "index = cache_index st m"
      by (auto simp: Let_def io_bind_Some io_option_def split: option.splits)
    have "(res, still) = (map block_json (jm_values m), cache_index st m)"
      by (rule collect_all [OF _ vs(2) [unfolded represents_mget [OF read(2) vs(1) t01(2)]]]) simp
    with vs(3) show ?thesis by simp
  qed
  with cl r1 show "res = map block_json (jm_values m) \<and> represents T r' m" by (simp add: getAll_cleanup_def)
qed

lemma delAll_removes:
  "delAll st ks r = (r', Some u) \<Longrightarrow> keeps (set ks) r r' \<and> (\<forall>k \<in> set ks. absent r' k)"
proof (induction ks arbitrary: r)
  case (Cons k ks)
  obtain r1 dn where d: "kv_del (rb_kv st) k r = (r1, Some dn)" "delAll st ks r1 = (r', Some u)"
    using Cons.prems by (auto simp: io_bind_Some)
  from Cons.IH [OF d(2)] have IH: "keeps (set ks) r1 r'" "\<forall>k \<in> set ks. absent r' k" by blast+
  have "keeps (set (k # ks)) r r'" by (rule keeps_trans [OF keeps_del [OF d(1)] IH(1)]) auto
  moreover have "absent r' k"
    using IH keeps_absent [OF IH(1) _ del_removes [OF d(1)]] by (cases "k \<in> set ks") auto
  ultimately show ?case using IH(2) by auto
qed simp

lemma represents_clear:
  assumes "represents T r m" and "redis_clear st r = (r', Some u)"
  shows "clock r \<le> clock r'" and "clock r' \<le> T \<Longrightarrow> represents T r' []"
proof -
  obtain r0 found where f: "readIndex st r = (r0, Some found)"
      "(case found of None \<Rightarrow> io_return ()
        | Some index \<Rightarrow> io_bind (delAll st index) (\<lambda>_. io_bind (kv_del (rb_kv st) (rb_indexKeyName st)) (\<lambda>_. io_return ()))) r0 =
       (r', Some u)"
    using assms(2) by (auto simp: redis_clear_def io_bind_Some)
  note read = represents_read [OF assms(1) f(1)]
  consider (none) "found = None" "r' = r0"
    | (some) index r1 v dn where "found = Some index" "delAll st index r0 = (r1, Some v)"
        "kv_del (rb_kv st) (rb_indexKeyName st) r1 = (r', Some dn)"
    using f(2) by (auto simp: io_bind_Some split: option.splits)
  then have "clock r \<le> clock r' \<and> (clock r' \<le> T \<longrightarrow> represents T r' [])"
  proof cases
    case none
    then show ?thesis using read by (auto simp: default_or_def)
  next
    case some
    note da = delAll_removes [OF some(2)] and kd = keeps_del [OF some(3)]
    have clk: "clock r \<le> clock r0" "clock r0 \<le> clock r1" "clock r1 \<le> clock r'"
      using read(1) keeps_clock [OF conjunct1 [OF da]] keeps_clock [OF kd] by simp_all
    have "represents T r' []" if t: "clock r' \<le> T"
    proof -
      have index: "index = cache_index st m" using read(3) clk t some(1) by (simp add: default_or_def)
      have co: "cache_ok m" using assms(1) by (simp add: represents_def)
      have "absent r' (entry_key st t i)" if "plain_type t" for t i
      proof -
        have "absent r1 (entry_key st t i)"
        proof (cases "entry_key st t i \<in> set index")
          case False
          then have "jm_get m (cache_key t i) = None"
            using in_cache_index [OF ok co that] unfolding index jm_has_get by blast
          moreover have "entry_is T r0 (entry_key st t i) (jm_get m (cache_key t i))"
            using read(2) that unfolding represents_def by blast
          ultimately show ?thesis using keeps_absent [OF conjunct1 [OF da] False] by (simp add: entry_is_def)
        qed (use da in blast)
        then show ?thesis using keeps_absent [OF kd] keys_distinct(3) [OF ok] by simp
      qed
      moreover have "absent r' (rb_indexKeyName st)" by (rule del_removes [OF some(3)])
      ultimately show ?thesis by (simp add: represents_def cache_ok_def index_is_def entry_is_def)
    qed
    with clk show ?thesis by simp
  qed
  then show "clock r \<le> clock r'" "clock r' \<le> T \<Longrightarrow> represents T r' []" by blast+
qed

end


section \<open>Sequences of operations\<close>

datatype block_op =
    Op_get string string | Op_set blocklist_update | Op_delete string string | Op_getAll | Op_size | Op_clear

datatype block_reply = Reply_block "json option" | Reply_done | Reply_blocks "json list" | Reply_size nat

fun run_op :: "'s blocklist_store \<Rightarrow> block_op \<Rightarrow> ('s, block_reply) io" where
  "run_op store (Op_get t i) = io_bind (bs_get store t i) (\<lambda>b. io_return (Reply_block b))"
| "run_op store (Op_set b) = io_bind (bs_set store b) (\<lambda>_. io_return Reply_done)"
| "run_op store (Op_delete t i) = io_bind (bs_delete store t i) (\<lambda>_. io_return Reply_done)"
| "run_op store Op_getAll = io_bind (bs_getAll store) (\<lambda>bs. io_return (Reply_blocks bs))"
| "run_op store Op_size = io_bind (bs_size store) (\<lambda>n. io_return (Reply_size n))"
| "run_op store Op_clear = io_bind (bs_clear store) (\<lambda>_. io_return Reply_done)"

fun run_ops :: "'s blocklist_store \<Rightarrow> block_op list \<Rightarrow> ('s, block_reply list) io" where
  "run_ops store [] = io_return []"
| "run_ops store (op # ops) = io_bind (run_op store op) (\<lambda>x. io_bind (run_ops store ops) (\<lambda>xs. io_return (x # xs)))"

fun op_ok :: "block_op \<Rightarrow> bool" where
  "op_ok (Op_get t i) = plain_type t"
| "op_ok (Op_set b) = plain_type (bu_blockType b)"
| "op_ok (Op_delete t i) = plain_type t"
| "op_ok op = True"

context redis_blocklist_world
begin

lemma run_op_simulates:
  assumes "represents T r m" and "op_ok op" and "run_op (RedisBlocklistStore st) op r = (r', Some x)"
  shows "clock r \<le> clock r' \<and> (clock r' \<le> T \<longrightarrow> T < clock r + 810000 \<longrightarrow>
    (\<exists>m'. run_op InMemoryBlocklistStore op m = (m', Some x) \<and> represents T r' m'))"
proof (cases op)
  case (Op_get t i)
  then obtain rep where g: "redis_get st t i r = (r', Some rep)" "x = Reply_block rep"
    using assms(3) by (auto simp: RedisBlocklistStore_def io_bind_Some)
  note get = represents_get [OF assms(1) _ g(1)]
  from Op_get assms(2) have t: "plain_type t" by simp
  have "represents T r' m" by (rule represents_keeps [OF get(1) [OF t] _ assms(1)]) simp
  with get(2) [OF t] g(2) Op_get keeps_clock [OF get(1) [OF t]] show ?thesis
    by (auto simp: InMemoryBlocklistStore_def io_bind_def io_return_def)
next
  case (Op_set b)
  then obtain u where g: "redis_set st b r = (r', Some u)" "x = Reply_done"
    using assms(3) by (auto simp: RedisBlocklistStore_def io_bind_Some)
  with represents_set [OF assms(1) _ g(1)] assms(2) Op_set show ?thesis
    by (auto simp: InMemoryBlocklistStore_def io_bind_def io_return_def)
next
  case (Op_delete t i)
  then obtain u where g: "redis_delete st t i r = (r', Some u)" "x = Reply_done"
    using assms(3) by (auto simp: RedisBlocklistStore_def io_bind_Some)
  with represents_delete [OF assms(1) _ g(1)] assms(2) Op_delete show ?thesis
    by (auto simp: InMemoryBlocklistStore_def io_bind_def io_return_def)
next
  case Op_getAll
  then obtain res where g: "redis_getAll st r = (r', Some res)" "x = Reply_blocks res"
    using assms(3) by (auto simp: RedisBlocklistStore_def io_bind_Some)
  with represents_getAll [OF assms(1) g(1)] Op_getAll show ?thesis
    by (auto simp: InMemoryBlocklistStore_def io_bind_def io_return_def)
next
  case Op_size
  then obtain n where g: "redis_size st r = (r', Some n)" "x = Reply_size n"
    using assms(3) by (auto simp: RedisBlocklistStore_def io_bind_Some)
  with represents_size [OF assms(1) g(1)] Op_size show ?thesis
    by (auto simp: InMemoryBlocklistStore_def io_bind_def io_return_def)
next
  case Op_clear
  then obtain u where g: "redis_clear st r = (r', Some u)" "x = Reply_done"
    using assms(3) by (auto simp: RedisBlocklistStore_def io_bind_Some)
  with represents_clear [OF assms(1) g(1)] Op_clear show ?thesis
    by (auto simp: InMemoryBlocklistStore_def io_bind_def io_return_def)
qed

text \<open>Time passes: no operation sets the clock back.\<close>

definition forward :: "('r, 'a) io \<Rightarrow> bool" where
  "forward f \<longleftrightarrow> (\<forall>r r' a. f r = (r', Some a) \<longrightarrow> clock r \<le> clock r')"

lemma forwardD: "forward f \<Longrightarrow> f r = (r', Some a) \<Longrightarrow> clock r \<le> clock r'"
  by (auto simp: forward_def)

lemma forward_basic:
  "forward (io_return a)" "forward io_throw" "forward (kv_get (rb_kv st) k)" "forward (kv_mget (rb_kv st) ks)"
  "forward (kv_set (rb_kv st) k v opts)" "forward (kv_del (rb_kv st) k)" "forward (rb_random st)"
  by (auto simp: forward_def dest!: keeps_get keeps_mget keeps_set keeps_del keeps_random intro: keeps_clock)

lemma forward_bind: "forward m \<Longrightarrow> (\<And>a. forward (f a)) \<Longrightarrow> forward (io_bind m f)"
  unfolding forward_def io_bind_Some by (meson order_trans)

lemma forward_finally: "forward m \<Longrightarrow> forward h \<Longrightarrow> forward (io_finally m h)"
  unfolding forward_def io_finally_Some by (meson order_trans)

lemma forward_if: "(b \<Longrightarrow> forward f) \<Longrightarrow> (\<not> b \<Longrightarrow> forward g) \<Longrightarrow> forward (if b then f else g)"
  by simp

lemma forward_option: "(v = None \<Longrightarrow> forward f) \<Longrightarrow> (\<And>x. v = Some x \<Longrightarrow> forward (g x)) \<Longrightarrow> forward (case v of None \<Rightarrow> f | Some x \<Rightarrow> g x)"
  by (cases v) auto

lemma forward_sum: "(\<And>e. v = Inl e \<Longrightarrow> forward (f e)) \<Longrightarrow> (\<And>x. v = Inr x \<Longrightarrow> forward (g x)) \<Longrightarrow> forward (case v of Inl e \<Rightarrow> f e | Inr x \<Rightarrow> g x)"
  by (cases v) auto

lemma forward_prod: "(\<And>x y. v = (x, y) \<Longrightarrow> forward (g x y)) \<Longrightarrow> forward (case v of (x, y) \<Rightarrow> g x y)"
  by (cases v) auto

lemmas forward_intros = forward_basic forward_bind forward_finally forward_if forward_option forward_sum forward_prod

lemma forward_lock: "forward (acquireLock st lk n)"
  by (induction n) (auto intro!: forward_intros)

lemma forward_delAll: "forward (delAll st ks)"
  by (induction ks) (auto intro!: forward_intros)

lemma forward_parts:
  "forward (readIndex st)" "forward (setWithTtl st k v)" "forward (writeIndex st ks)" "forward m \<Longrightarrow> forward (withIndexLock st m)"
  unfolding readIndex_def setWithTtl_def writeIndex_def withIndexLock_def io_option_def io_key_def
  by (intro forward_intros forward_lock | assumption)+

lemma forward_store:
  "forward (redis_get st t i)" "forward (redis_set st b)" "forward (redis_delete st t i)" "forward (redis_getAll st)"
  "forward (redis_size st)" "forward (redis_clear st)"
  unfolding redis_get_def redis_set_def redis_delete_def redis_getAll_def getAll_read_def getAll_cleanup_def redis_size_def
    redis_clear_def io_option_def io_key_def Let_def
  by (intro forward_intros forward_parts forward_delAll)+

lemma forward_read: "forward (getAll_read st)"
  unfolding getAll_read_def io_option_def Let_def by (intro forward_intros forward_parts)+

lemma forward_ops: "forward (run_op (RedisBlocklistStore st) op)"
  by (cases op) (auto simp: RedisBlocklistStore_def intro!: forward_basic forward_bind forward_store)

lemma run_ops_forward: "forward (run_ops (RedisBlocklistStore st) ops)"
  by (induction ops) (auto intro!: forward_intros forward_ops)

lemma run_ops_simulates:
  assumes "represents T r m" and "\<forall>op \<in> set ops. op_ok op" and "run_ops (RedisBlocklistStore st) ops r = (r', Some xs)"
    and "clock r' \<le> T" and "T < clock r + 810000"
  shows "\<exists>m'. run_ops InMemoryBlocklistStore ops m = (m', Some xs) \<and> represents T r' m'"
  using assms
proof (induction ops arbitrary: r m xs)
  case (Cons op ops)
  obtain r1 x ys where s: "run_op (RedisBlocklistStore st) op r = (r1, Some x)" "run_ops (RedisBlocklistStore st) ops r1 = (r', Some ys)"
      "xs = x # ys"
    using Cons.prems(3) by (auto simp: io_bind_Some)
  have clk: "clock r \<le> clock r1" "clock r1 \<le> clock r'"
    using forwardD [OF forward_ops s(1)] forwardD [OF run_ops_forward s(2)] .
  then obtain m1 where m1: "run_op InMemoryBlocklistStore op m = (m1, Some x)" "represents T r1 m1"
    using run_op_simulates [OF Cons.prems(1) _ s(1)] Cons.prems(2,4,5) by auto
  then obtain m' where "run_ops InMemoryBlocklistStore ops m1 = (m', Some ys)" "represents T r' m'"
    using Cons.IH [OF m1(2) _ s(2)] Cons.prems(2,4,5) clk by auto
  with m1 s(3) show ?case by (auto simp: io_bind_def io_return_def)
qed (auto simp: io_return_def)

lemma run_from_empty:
  assumes "absent r (rb_indexKeyName st)" and "\<forall>t i. absent r (entry_key st t i)"
    and "\<forall>op \<in> set ops. op_ok op"
    and "run_ops (RedisBlocklistStore st) ops r = (r', Some replies)" and "clock r' < clock r + 810000"
  shows "\<exists>m. run_ops InMemoryBlocklistStore ops [] = (m, Some replies)"
proof -
  have "represents (clock r') r []"
    using assms(1,2) by (simp add: represents_def cache_ok_def index_is_def entry_is_def)
  from run_ops_simulates [OF this assms(3,4) order.refl assms(5)] show ?thesis by blast
qed

end

section \<open>The store on the reference server\<close>

definition default_options :: block_store_options where
  "default_options = \<lparr> bo_namespace = None, bo_version = None, bo_dataType = None, bo_lockTtlSeconds = None \<rparr>"

definition ref_blocklist :: "ref_db redis_blocklist" where
  "ref_blocklist =
     \<lparr> rb_kv = createIoredisKv ref_client, rb_random = io_return (1/2), rb_namespace = ''horizon'', rb_version = Some 1,
       rb_dataType = ''blocklist-cache'', rb_indexKeyName = ''horizon:v1:global:blocklist-index:all'',
       rb_lockTtlSeconds = 30 \<rparr>"

lemma ref_index_key:
  "buildRedisKey \<lparr> rk_namespace = ''horizon'', rk_version = Some 1, rk_tenantId = ''global'',
     rk_dataType = ''blocklist-index'', rk_id = [KStr ''all''] \<rparr> = Inr ''horizon:v1:global:blocklist-index:all''"
  by code_simp

lemma new_ref_blocklist:
  "newRedisBlocklistStore (createIoredisKv ref_client) (io_return (1/2)) default_options = Inr ref_blocklist"
  by (simp add: newRedisBlocklistStore_def default_options_def default_or_def ref_index_key ref_blocklist_def TTL_lockMin_def)

interpretation refb: redis_blocklist_world ref_blocklist rf_clock ref_holds ref_absent
proof -
  have kv: "rb_kv ref_blocklist = createIoredisKv ref_client" by (simp add: ref_blocklist_def)
  show "redis_blocklist_world ref_blocklist rf_clock ref_holds ref_absent"
  proof (intro redis_blocklist_world.intro redis_blocklist_world_axioms.intro)
    show "redis (rb_kv ref_blocklist) rf_clock ref_holds ref_absent" unfolding kv by (rule ref.redis_axioms)
    show "store_ok ref_blocklist"
      by (rule newRedisBlocklistStore_ok [OF new_ref_blocklist]) (simp add: default_options_def)
  qed (auto simp: ref_blocklist_def io_return_def)
qed

text \<open>
  C4: The Redis store refines the store in memory. On any Redis that keeps what is written for its time to live, for
  any sequence of operations that all succeed and end within 810 seconds (nine tenths of the TTL, the most
  the jitter takes away), starting with no blocks, every answer is the one the in-memory store gives to the
  same sequence: the same blocks in the same order, the same sizes.
\<close>

theorem redis_blocklist_refines_memory:
  assumes "redis_blocklist_world st clock holds absent"
    and "absent r (rb_indexKeyName st)" and "\<forall>t i. absent r (entry_key st t i)"
    and "\<forall>op \<in> set ops. op_ok op"
    and "run_ops (RedisBlocklistStore st) ops r = (r', Some replies)" and "clock r' < clock r + 810000"
  shows "\<exists>m. run_ops InMemoryBlocklistStore ops [] = (m, Some replies)"
  by (rule redis_blocklist_world.run_from_empty [OF assms])


definition sample_block :: blocklist_update where
  "sample_block = \<lparr> bu_type = ''add'', bu_blockType = ''IP'', bu_indicator = ''10.0.0.1'', bu_reason = Some ''Campaign: x'',
     bu_expiresAt = None, bu_source = ''FLEET_INTEL'' \<rparr>"

lemma sample_ops_run:
  "snd (run_ops (RedisBlocklistStore ref_blocklist) [Op_set sample_block, Op_size] ref_empty) =
     Some [Reply_done, Reply_size 1]"
  "rf_clock (fst (run_ops (RedisBlocklistStore ref_blocklist) [Op_set sample_block, Op_size] ref_empty)) = 0"
  by code_simp+

theorem redis_blocklist_refines_memory_witness:
  "\<exists>m. run_ops InMemoryBlocklistStore [Op_set sample_block, Op_size] [] =
     (m, Some [Reply_done, Reply_size 1])"
proof -
  obtain r' where run: "run_ops (RedisBlocklistStore ref_blocklist) [Op_set sample_block, Op_size] ref_empty =
      (r', Some [Reply_done, Reply_size 1])" "rf_clock r' = 0"
    using sample_ops_run by (metis prod.collapse)
  have "rf_clock r' < rf_clock ref_empty + 810000" using run(2) by (simp add: ref_empty_def)
  then show ?thesis
    by (intro redis_blocklist_refines_memory [OF refb.redis_blocklist_world_axioms _ _ _ run(1)])
      (auto simp: ref_absent_def ref_empty_def sample_block_def plain_type_def)
qed


section \<open>A race\<close>

context redis_blocklist_world
begin

lemma cleanup_overwrites:
  assumes "redis_set st b r1 = (r2, Some u)" and "plain_type (bu_blockType b)"
    and "getAll_cleanup st still index r2 = (r3, Some w)" and "length still \<noteq> length index"
    and "T < clock r1 + 810000"
  shows "holds r3 (block_key st b) (jsonEncode (block_json b)) T" and "index_is T r3 still"
proof -
  let ?e = "block_key st b"
  obtain r1' where s: "setWithTtl st ?e (jsonEncode (block_json b)) r1 = (r1', Some ())"
      and l: "withIndexLock st (io_bind (readIndex st) (\<lambda>found.
        writeIndex st (if ?e \<in> set (default_or [] found) then default_or [] found else default_or [] found @ [?e]))) r1' = (r2, Some u)"
    using assms(1) unfolding redis_set_def io_key_def store_keys(1) [OF ok] Let_def by (auto simp: io_bind_Some)
  note st1 = setWithTtl_stores [OF s]
    and up = locked_update [where f = "\<lambda>index. if ?e \<in> set index then index else index @ [?e]", OF l]
  have w: "setWithTtl st (rb_indexKeyName st) (index_text still) r2 = (r3, Some w)"
    using assms(3,4) by (simp add: getAll_cleanup_def writeIndex_def)
  note wr = setWithTtl_stores [OF w]
  have "holds r1' ?e (jsonEncode (block_json b)) T" using st1(2) assms(5) by simp
  then have "holds r2 ?e (jsonEncode (block_json b)) T"
    using keeps_holds [OF up(1)] keys_distinct(2,3) [OF ok] by simp
  then show "holds r3 ?e (jsonEncode (block_json b)) T"
    using keeps_holds [OF wr(1)] keys_distinct(3) [OF ok] by simp
  have "clock r1 \<le> clock r2" using keeps_clock [OF st1(1)] keeps_clock [OF up(1)] by simp
  then have "holds r3 (rb_indexKeyName st) (index_text still) T" using wr(2) assms(5) by simp
  then show "index_is T r3 still" by (simp add: index_is_def)
qed

lemma held_block_read:
  assumes "holds r (entry_key st t i) (jsonEncode (block_json b)) T" and "redis_get st t i r = (r', Some rep)" and "clock r' \<le> T"
  shows "rep = Some (block_json b)"
proof -
  obtain raw where g: "kv_get (rb_kv st) (entry_key st t i) r = (r', Some raw)"
      "if str_truthy raw then rep \<noteq> None \<and> jsonDecode (Some MAX_BYTES) (the raw) = rep else rep = None"
    using assms(2) unfolding redis_get_def io_key_def store_keys(1) [OF ok]
    by (auto simp: io_bind_Some io_option_def split: if_splits option.splits)
  from get_hit [OF g(1) assms(1,3)] g(2) block_decode show ?thesis by fastforce
qed

lemma lost_block:
  assumes "redis_set st b r1 = (r2, Some u)" and "plain_type (bu_blockType b)"
    and "getAll_cleanup st still index r2 = (r3, Some w)" and "length still \<noteq> length index"
    and "redis_get st (bu_blockType b) (bu_indicator b) r3 = (r4, Some rep)" and "redis_size st r4 = (r5, Some n)"
    and "clock r5 < clock r1 + 810000"
  shows "rep = Some (block_json b) \<and> n = length still"
proof -
  note co = cleanup_overwrites [OF assms(1-4) assms(7)]
  have clk: "clock r4 \<le> clock r5" by (rule forwardD [OF forward_store(5) assms(6)])
  have rep: "rep = Some (block_json b)" by (rule held_block_read [OF co(1) assms(5) clk])
  obtain raw where "kv_get (rb_kv st) (block_key st b) r3 = (r4, Some raw)"
    using assms(5) unfolding redis_get_def io_key_def store_keys(1) [OF ok]
    by (auto simp: io_bind_Some io_option_def split: if_splits option.splits)
  then have "index_is (clock r5) r4 still" using index_keeps [OF keeps_get _ co(2)] by blast
  moreover obtain found where "readIndex st r4 = (r5, Some found)" "n = length (default_or [] found)"
    using assms(6) by (auto simp: redis_size_def io_bind_Some)
  ultimately show ?thesis using rep readIndex_reads(2) by blast
qed

end


definition stale_db :: ref_db where
  "stale_db = \<lparr> rf_clock = 0, rf_data = (\<lambda>_. None)(''horizon:v1:global:blocklist-index:all'' := Some (index_text [''k''], None)) \<rparr>"

text \<open>The interleaving: one caller's \<^verbatim>\<open>getAll\<close> with another caller's \<^verbatim>\<open>set\<close> between its read and its rewrite.\<close>

definition race :: "'r redis_blocklist \<Rightarrow> blocklist_update \<Rightarrow> ('r, (string list \<times> string list) \<times> json option \<times> nat) io" where
  "race st b =
     io_bind (getAll_read st) (\<lambda>(results, still, index).
       io_bind (redis_set st b) (\<lambda>_.
         io_bind (getAll_cleanup st still index) (\<lambda>_.
           io_bind (redis_get st (bu_blockType b) (bu_indicator b)) (\<lambda>rep.
             io_bind (redis_size st) (\<lambda>n. io_return ((still, index), rep, n))))))"

lemma race_run:
  "map_option fst (snd (race ref_blocklist sample_block stale_db)) = Some ([], [''k''])"
  "rf_clock (fst (race ref_blocklist sample_block stale_db)) = 0"
  by code_simp+



section \<open>Falling back\<close>

fun run_timed ::
  "'p blocklist_store \<Rightarrow> 'f blocklist_store \<Rightarrow> (int \<times> block_op) list \<Rightarrow> (('p, 'f) resilient, block_reply list) io" where
  "run_timed p f [] = io_return []"
| "run_timed p f ((now, op) # ops) =
     io_bind (run_op (ResilientBlocklistStore now p f) op) (\<lambda>x. io_bind (run_timed p f ops) (\<lambda>xs. io_return (x # xs)))"

lemma rs_warn_simps [simp]:
  "rs_fallback (rs_warn now operation s) = rs_fallback s" "rs_primary (rs_warn now operation s) = rs_primary s"
  by (simp_all add: rs_warn_def)

lemma memory_total: "\<exists>m' x. run_op InMemoryBlocklistStore op m = (m', Some x)"
  by (cases op) (auto simp: InMemoryBlocklistStore_def io_bind_def io_return_def)

lemma read_resilient_cases:
  assumes "f (rs_fallback s) = (rs_fallback s, Some y)" and "p (rs_primary s) = (q, rep)"
  shows "\<exists>s'. read_resilient now operation p f s = (s', Some (case rep of None \<Rightarrow> y | Some x \<Rightarrow> x)) \<and>
    rs_primary s' = q \<and> rs_fallback s' = rs_fallback s"
  using assms by (cases rep) (auto simp: read_resilient_def io_catch_def on_primary_def on_fallback_def)

lemma write_resilient_cases:
  assumes "f (rs_fallback s) = (f', Some ())" and "p (rs_primary s) = (q, rep)"
  shows "\<exists>s'. write_resilient now operation p f s = (s', Some ()) \<and> rs_primary s' = q \<and> rs_fallback s' = f'"
  using assms by (cases rep) (auto simp: write_resilient_def io_catch_def io_bind_def on_primary_def on_fallback_def)

text \<open>
  One operation: the fallback does it too, and the reply is the primary's when the primary succeeds, else
  the one of the store in memory.
\<close>

lemma resilient_step:
  "\<exists>s'. run_op (ResilientBlocklistStore now p InMemoryBlocklistStore) op s =
      (s', Some (case snd (run_op p op (rs_primary s)) of
                   None \<Rightarrow> the (snd (run_op InMemoryBlocklistStore op (rs_fallback s))) | Some x \<Rightarrow> x)) \<and>
    rs_primary s' = fst (run_op p op (rs_primary s)) \<and>
    rs_fallback s' = fst (run_op InMemoryBlocklistStore op (rs_fallback s))"
proof (cases op)
  case (Op_get t i)
  obtain q rep where q: "bs_get p t i (rs_primary s) = (q, rep)" by fastforce
  from read_resilient_cases [of "bs_get InMemoryBlocklistStore t i" s _ "bs_get p t i", OF _ this, of _ now "''get''"] Op_get q
  show ?thesis
    by (cases rep) (auto simp: ResilientBlocklistStore_def InMemoryBlocklistStore_def io_bind_def io_return_def)
next
  case (Op_set b)
  obtain q rep where q: "bs_set p b (rs_primary s) = (q, rep)" by fastforce
  from write_resilient_cases [of "bs_set InMemoryBlocklistStore b" s _ "bs_set p b", OF _ this, of _ now "''set''"] Op_set q
  show ?thesis
    by (cases rep) (auto simp: ResilientBlocklistStore_def InMemoryBlocklistStore_def io_bind_def io_return_def)
next
  case (Op_delete t i)
  obtain q rep where q: "bs_delete p t i (rs_primary s) = (q, rep)" by fastforce
  from write_resilient_cases [of "bs_delete InMemoryBlocklistStore t i" s _ "bs_delete p t i", OF _ this, of _ now "''delete''"]
    Op_delete q show ?thesis
    by (cases rep) (auto simp: ResilientBlocklistStore_def InMemoryBlocklistStore_def io_bind_def io_return_def)
next
  case Op_getAll
  obtain q rep where q: "bs_getAll p (rs_primary s) = (q, rep)" by fastforce
  from read_resilient_cases [of "bs_getAll InMemoryBlocklistStore" s _ "bs_getAll p", OF _ this, of _ now "''getAll''"] Op_getAll q
  show ?thesis
    by (cases rep) (auto simp: ResilientBlocklistStore_def InMemoryBlocklistStore_def io_bind_def io_return_def)
next
  case Op_size
  obtain q rep where q: "bs_size p (rs_primary s) = (q, rep)" by fastforce
  from read_resilient_cases [of "bs_size InMemoryBlocklistStore" s _ "bs_size p", OF _ this, of _ now "''size''"] Op_size q
  show ?thesis
    by (cases rep) (auto simp: ResilientBlocklistStore_def InMemoryBlocklistStore_def io_bind_def io_return_def)
next
  case Op_clear
  obtain q rep where q: "bs_clear p (rs_primary s) = (q, rep)" by fastforce
  from write_resilient_cases [of "bs_clear InMemoryBlocklistStore" s _ "bs_clear p", OF _ this, of _ now "''clear''"] Op_clear q
  show ?thesis
    by (cases rep) (auto simp: ResilientBlocklistStore_def InMemoryBlocklistStore_def io_bind_def io_return_def)
qed

definition down :: "'p blocklist_store \<Rightarrow> bool" where
  "down p \<longleftrightarrow> (\<forall>op s. snd (run_op p op s) = None)"

text \<open>
  C26: The wrapper never fails, whatever the primary does: every operation returns, the fallback has then seen all
  the writes, and while the primary is down the replies are exactly those of a store in memory that was
  given the same operations from the start.
\<close>

theorem resilient_blocklist_survives_outage:
  "\<exists>s' xs. run_timed p InMemoryBlocklistStore ops s = (s', Some xs) \<and>
     rs_fallback s' = fst (run_ops InMemoryBlocklistStore (map snd ops) (rs_fallback s)) \<and>
     (down p \<longrightarrow> Some xs = snd (run_ops InMemoryBlocklistStore (map snd ops) (rs_fallback s)))"
proof (induction ops arbitrary: s)
  case Nil
  show ?case by (simp add: io_return_def)
next
  case (Cons a ops)
  obtain now op where a: "a = (now, op)" by (cases a)
  obtain m x where m: "run_op InMemoryBlocklistStore op (rs_fallback s) = (m, Some x)" using memory_total by blast
  obtain s1 y where s1: "run_op (ResilientBlocklistStore now p InMemoryBlocklistStore) op s = (s1, Some y)"
      "rs_fallback s1 = m" "down p \<longrightarrow> y = x"
    using resilient_step [of now p op s] m unfolding down_def by fastforce
  obtain s' xs where s': "run_timed p InMemoryBlocklistStore ops s1 = (s', Some xs)"
      "rs_fallback s' = fst (run_ops InMemoryBlocklistStore (map snd ops) m)"
      "down p \<longrightarrow> Some xs = snd (run_ops InMemoryBlocklistStore (map snd ops) m)"
    using Cons.IH [of s1] s1(2) by blast
  obtain m' rep where m': "run_ops InMemoryBlocklistStore (map snd ops) m = (m', rep)" by fastforce
  show ?case
    using a s1 s' m m' by (cases rep) (auto simp: io_bind_def io_return_def)
qed

definition dead_store :: "unit blocklist_store" where
  "dead_store = \<lparr> bs_get = (\<lambda>_ _. io_throw), bs_set = (\<lambda>_. io_throw), bs_delete = (\<lambda>_ _. io_throw), bs_getAll = io_throw,
     bs_size = io_throw, bs_clear = io_throw \<rparr>"

theorem resilient_blocklist_survives_outage_witness:
  "snd (run_timed dead_store InMemoryBlocklistStore [(0, Op_set sample_block), (5, Op_size)]
     \<lparr> rs_primary = (), rs_fallback = [], rs_lastWarnAtMs = 0, rs_warnings = [] \<rparr>) = Some [Reply_done, Reply_size 1]"
proof -
  have "down dead_store"
    unfolding down_def
  proof (intro allI)
    fix op s show "snd (run_op dead_store op s) = None"
      by (cases op) (simp_all add: dead_store_def io_bind_def io_throw_def)
  qed
  moreover have "snd (run_ops InMemoryBlocklistStore [Op_set sample_block, Op_size] []) = Some [Reply_done, Reply_size 1]"
    by code_simp
  ultimately show ?thesis
    using resilient_blocklist_survives_outage [of dead_store "[(0, Op_set sample_block), (5, Op_size)]"
        "\<lparr> rs_primary = (), rs_fallback = [], rs_lastWarnAtMs = 0, rs_warnings = [] \<rparr>"] by auto
qed

end
