(* ===== verification/Broadcaster.thy ===== *)
theory Broadcaster
  imports Correlator Blocklist_Store
begin

text \<open>
  The broadcaster (\<^verbatim>\<open>api/src/services/broadcaster/index.ts\<close>): the buffer of blocks with its size limit and
  timer, the flush to dashboards and sensors with the queue's fallback, and the handling of a detected campaign,
  split at its awaits. What leaves the service (gateway calls, queue jobs, database and history writes, cache
  writes whose result is not awaited) is recorded in order in the outbox of the state; whether a database
  write or a queue job succeeds is an input.
\<close>

section \<open>State\<close>

record history_row =
  hb_tenant_id :: string
  hb_action :: string
  hb_block_type :: string
  hb_indicator :: string
  hb_source :: string
  hb_reason :: string
  hb_campaign_id :: string

record blocklist_entry =
  be_blockType :: string
  be_indicator :: string
  be_reason :: string

datatype effect =
    Campaign_alert string
  | War_room campaign
  | Dashboard_update "blocklist_update list"
  | Queue_job "blocklist_update list"
  | Sensor_push "blocklist_update list"
  | Sensor_push_retry "blocklist_update list"
  | Cache_set blocklist_update
  | Upsert_entry blocklist_entry
  | History_insert history_row
  | Threat_alert string string string rat bool

record broadcaster =
  bc_dashboardGateway :: bool
  bc_sensorGateway :: bool
  bc_blocklistQueue :: bool
  bc_warRoomService :: bool
  bc_clickhouse :: bool
  bc_blockBuffer :: "blocklist_update list"
  bc_flushTimer :: bool
  bc_outbox :: "effect list"

definition newBroadcaster :: "bool \<Rightarrow> broadcaster" where
  "newBroadcaster clickhouseEnabled =
     \<lparr> bc_dashboardGateway = False, bc_sensorGateway = False, bc_blocklistQueue = False, bc_warRoomService = False,
       bc_clickhouse = clickhouseEnabled, bc_blockBuffer = [], bc_flushTimer = False, bc_outbox = [] \<rparr>"

definition MAX_BATCH_SIZE :: nat where
  "MAX_BATCH_SIZE = 100"

definition FLUSH_INTERVAL_MS :: int where
  "FLUSH_INTERVAL_MS = 5000"

definition emit :: "effect \<Rightarrow> broadcaster \<Rightarrow> broadcaster" where
  "emit e s = s\<lparr> bc_outbox := bc_outbox s @ [e] \<rparr>"

section \<open>Buffer and flush\<close>

definition flushBlocks :: "broadcaster \<Rightarrow> broadcaster" where
  "flushBlocks s =
     (let s1 = s\<lparr> bc_flushTimer := False \<rparr> in
      if bc_blockBuffer s1 = [] then s1
      else
        (let blocks = bc_blockBuffer s1;
             s2 = s1\<lparr> bc_blockBuffer := [] \<rparr>;
             s3 = (if bc_dashboardGateway s2 then emit (Dashboard_update blocks) s2 else s2)
         in if bc_blocklistQueue s3 then emit (Queue_job blocks) s3
            else if bc_sensorGateway s3 then emit (Sensor_push blocks) s3
            else s3))"

text \<open>The rejection of a queue job, which pushes its blocks directly (the same gateway call as \<open>Sensor_push\<close>).\<close>

definition queueJobFailed :: "blocklist_update list \<Rightarrow> broadcaster \<Rightarrow> broadcaster" where
  "queueJobFailed blocks s = (if bc_sensorGateway s then emit (Sensor_push_retry blocks) s else s)"

definition queueBlock :: "blocklist_update \<Rightarrow> broadcaster \<Rightarrow> broadcaster" where
  "queueBlock block s =
     (let s1 = emit (Cache_set block) (s\<lparr> bc_blockBuffer := bc_blockBuffer s @ [block] \<rparr>)
      in if MAX_BATCH_SIZE \<le> length (bc_blockBuffer s1) then flushBlocks s1
         else if \<not> bc_flushTimer s1 then s1\<lparr> bc_flushTimer := True \<rparr>
         else s1)"

definition bc_stop :: "broadcaster \<Rightarrow> broadcaster" where
  "bc_stop s = s\<lparr> bc_dashboardGateway := False \<rparr>"

definition broadcastThreatAlert :: "string \<Rightarrow> string \<Rightarrow> string \<Rightarrow> rat \<Rightarrow> bool \<Rightarrow> broadcaster \<Rightarrow> broadcaster" where
  "broadcastThreatAlert threatId threatType indicator riskScore isFleetThreat s =
     (if bc_dashboardGateway s then emit (Threat_alert threatId threatType indicator riskScore isFleetThreat) s else s)"

text \<open>Lookups go to the cache.\<close>

definition getBlocklist :: "'s blocklist_store \<Rightarrow> ('s, json list) io" where
  "getBlocklist blocklistCache = bs_getAll blocklistCache"

definition isBlocked :: "'s blocklist_store \<Rightarrow> string \<Rightarrow> string \<Rightarrow> ('s, bool) io" where
  "isBlocked blocklistCache blockType indicator =
     io_bind (bs_get blocklistCache blockType indicator) (\<lambda>e. io_return (e \<noteq> None))"

definition getCacheSize :: "'s blocklist_store \<Rightarrow> ('s, nat) io" where
  "getCacheSize blocklistCache = bs_size blocklistCache"

section \<open>Campaigns\<close>

definition campaign_reason :: "campaign \<Rightarrow> string" where
  "campaign_reason c = ''Campaign: '' @ cd_name c"

definition campaign_block :: "campaign \<Rightarrow> string \<Rightarrow> string \<Rightarrow> blocklist_update" where
  "campaign_block c blockType indicator =
     \<lparr> bu_type = ''add'', bu_blockType = blockType, bu_indicator = indicator, bu_reason = Some (campaign_reason c),
       bu_expiresAt = None, bu_source = ''FLEET_INTEL'' \<rparr>"

text \<open>The blocks of the loop over the signals, in its order.\<close>

definition signal_blocks :: "campaign \<Rightarrow> enriched_signal \<Rightarrow> blocklist_update list" where
  "signal_blocks c x =
     (if str_truthy (sg_sourceIp x) then [campaign_block c ''IP'' (the (sg_sourceIp x))] else []) @
     (if str_truthy (es_anonFingerprint x) then [campaign_block c ''FINGERPRINT'' (the (es_anonFingerprint x))] else [])"

definition logBlocklistChange :: "campaign \<Rightarrow> blocklist_update \<Rightarrow> broadcaster \<Rightarrow> broadcaster" where
  "logBlocklistChange c b s =
     (if bc_clickhouse s
      then emit (History_insert \<lparr> hb_tenant_id = ''fleet'', hb_action = ''added'', hb_block_type = bu_blockType b,
             hb_indicator = bu_indicator b, hb_source = bu_source b, hb_reason = campaign_reason c, hb_campaign_id = cp_id c \<rparr>) s
      else s)"

text \<open>
  One block: it is queued, then the database write is awaited (\<open>stored\<close>); a rejected write ends the loop.
  Other events can happen at the await.
\<close>

definition blockQueued :: "blocklist_update \<Rightarrow> broadcaster \<Rightarrow> broadcaster" where
  "blockQueued b s = queueBlock b s"

definition blockStored :: "campaign \<Rightarrow> blocklist_update \<Rightarrow> broadcaster \<Rightarrow> broadcaster" where
  "blockStored c b s =
     logBlocklistChange c b
       (emit (Upsert_entry \<lparr> be_blockType = bu_blockType b, be_indicator = bu_indicator b, be_reason = campaign_reason c \<rparr>) s)"

fun createBlocks :: "campaign \<Rightarrow> (blocklist_update \<Rightarrow> bool) \<Rightarrow> blocklist_update list \<Rightarrow> broadcaster \<Rightarrow> broadcaster \<times> bool" where
  "createBlocks c stored [] s = (s, True)"
| "createBlocks c stored (b # bs) s =
     (let s1 = blockQueued b s
      in if stored b then createBlocks c stored bs (blockStored c b s1) else (s1, False))"

definition createCampaignBlocks ::
  "campaign \<Rightarrow> (blocklist_update \<Rightarrow> bool) \<Rightarrow> enriched_signal list \<Rightarrow> broadcaster \<Rightarrow> broadcaster \<times> bool" where
  "createCampaignBlocks c stored signals s = createBlocks c stored (concat (map (signal_blocks c) signals)) s"

text \<open>
  A detected campaign: the alert, the war room (whose failure is only logged) and, from a confidence of 0.85,
  the blocks. The result says whether the promise was fulfilled.
\<close>

definition campaignAnnounced :: "campaign \<Rightarrow> broadcaster \<Rightarrow> broadcaster" where
  "campaignAnnounced c s =
     (let s1 = (if bc_dashboardGateway s then emit (Campaign_alert (cp_id c)) s else s)
      in if bc_warRoomService s1 then emit (War_room c) s1 else s1)"

definition onCampaignDetected ::
  "campaign \<Rightarrow> (blocklist_update \<Rightarrow> bool) \<Rightarrow> enriched_signal list \<Rightarrow> broadcaster \<Rightarrow> broadcaster \<times> bool" where
  "onCampaignDetected c stored signals s =
     (let s1 = campaignAnnounced c s
      in if 85/100 \<le> cd_confidence c then createCampaignBlocks c stored signals s1 else (s1, True))"

section \<open>Events\<close>

datatype bc_event =
    Ev_setDashboardGateway | Ev_setSensorGateway | Ev_setBlocklistQueue | Ev_setWarRoomService
  | Ev_announce campaign | Ev_queueBlock blocklist_update | Ev_blockStored campaign blocklist_update
  | Ev_timer | Ev_queueJobFailed "blocklist_update list" | Ev_stop

fun bc_step :: "bc_event \<Rightarrow> broadcaster \<Rightarrow> broadcaster" where
  "bc_step Ev_setDashboardGateway s = s\<lparr> bc_dashboardGateway := True \<rparr>"
| "bc_step Ev_setSensorGateway s = s\<lparr> bc_sensorGateway := True \<rparr>"
| "bc_step Ev_setBlocklistQueue s = s\<lparr> bc_blocklistQueue := True \<rparr>"
| "bc_step Ev_setWarRoomService s = s\<lparr> bc_warRoomService := True \<rparr>"
| "bc_step (Ev_announce c) s = campaignAnnounced c s"
| "bc_step (Ev_queueBlock b) s = blockQueued b s"
| "bc_step (Ev_blockStored c b) s = blockStored c b s"
| "bc_step Ev_timer s = (if bc_flushTimer s then flushBlocks s else s)"
| "bc_step (Ev_queueJobFailed bs) s = (if Queue_job bs \<in> set (bc_outbox s) then queueJobFailed bs s else s)"
| "bc_step Ev_stop s = bc_stop s"

definition bc_run :: "broadcaster \<Rightarrow> bc_event list \<Rightarrow> broadcaster" where
  "bc_run s es = foldl (\<lambda>s e. bc_step e s) s es"

text \<open>The blocks that were queued, and those handed to the sensors by the first delivery of each flush.\<close>

fun queued_block :: "bc_event \<Rightarrow> blocklist_update list" where
  "queued_block (Ev_queueBlock b) = [b]"
| "queued_block e = []"

fun sent_blocks :: "effect \<Rightarrow> blocklist_update list" where
  "sent_blocks (Queue_job bs) = bs"
| "sent_blocks (Sensor_push bs) = bs"
| "sent_blocks e = []"

fun dashboard_blocks :: "effect \<Rightarrow> blocklist_update list" where
  "dashboard_blocks (Dashboard_update bs) = bs"
| "dashboard_blocks e = []"


section \<open>Invariant\<close>

abbreviation sent :: "broadcaster \<Rightarrow> blocklist_update list" where
  "sent s \<equiv> concat (map sent_blocks (bc_outbox s))"

abbreviation shown :: "broadcaster \<Rightarrow> blocklist_update list" where
  "shown s \<equiv> concat (map dashboard_blocks (bc_outbox s))"

definition wired :: "broadcaster \<Rightarrow> bool" where
  "wired s \<longleftrightarrow> bc_blocklistQueue s \<or> bc_sensorGateway s"

definition buffer_ok :: "broadcaster \<Rightarrow> bool" where
  "buffer_ok s \<longleftrightarrow> length (bc_blockBuffer s) < MAX_BATCH_SIZE \<and> (bc_flushTimer s \<longleftrightarrow> bc_blockBuffer s \<noteq> [])"

lemma bc_emit_simps [simp]:
  "bc_blockBuffer (emit e s) = bc_blockBuffer s" "bc_flushTimer (emit e s) = bc_flushTimer s"
  "bc_outbox (emit e s) = bc_outbox s @ [e]" "bc_dashboardGateway (emit e s) = bc_dashboardGateway s"
  "bc_sensorGateway (emit e s) = bc_sensorGateway s" "bc_blocklistQueue (emit e s) = bc_blocklistQueue s"
  "bc_warRoomService (emit e s) = bc_warRoomService s" "bc_clickhouse (emit e s) = bc_clickhouse s"
  by (simp_all add: emit_def)

lemma flushBlocks_effect:
  "bc_blockBuffer (flushBlocks s) = []" "\<not> bc_flushTimer (flushBlocks s)"
  "bc_blocklistQueue (flushBlocks s) = bc_blocklistQueue s" "bc_sensorGateway (flushBlocks s) = bc_sensorGateway s"
  "bc_dashboardGateway (flushBlocks s) = bc_dashboardGateway s"
  "wired s \<Longrightarrow> sent (flushBlocks s) = sent s @ bc_blockBuffer s"
  "bc_dashboardGateway s \<Longrightarrow> shown (flushBlocks s) = shown s @ bc_blockBuffer s"
  by (auto simp: flushBlocks_def Let_def wired_def)

lemma queueBlock_effect:
  "buffer_ok s \<Longrightarrow> buffer_ok (queueBlock b s)"
  "wired (queueBlock b s) = wired s" "bc_dashboardGateway (queueBlock b s) = bc_dashboardGateway s"
  "wired s \<Longrightarrow> sent (queueBlock b s) @ bc_blockBuffer (queueBlock b s) = sent s @ bc_blockBuffer s @ [b]"
  "bc_dashboardGateway s \<Longrightarrow> shown (queueBlock b s) @ bc_blockBuffer (queueBlock b s) = shown s @ bc_blockBuffer s @ [b]"
  by (auto simp: queueBlock_def Let_def flushBlocks_effect buffer_ok_def wired_def MAX_BATCH_SIZE_def)

lemma bc_step_effect:
  assumes "wired s" and "buffer_ok s"
  shows "wired (bc_step e s) \<and> buffer_ok (bc_step e s) \<and>
    sent (bc_step e s) @ bc_blockBuffer (bc_step e s) = sent s @ bc_blockBuffer s @ queued_block e"
  using assms
proof (cases e)
  case (Ev_queueBlock b)
  with assms queueBlock_effect [where s = s and b = b] show ?thesis by (simp add: blockQueued_def)
next
  case Ev_timer
  with assms flushBlocks_effect [of s] show ?thesis by (auto simp: buffer_ok_def MAX_BATCH_SIZE_def wired_def)
qed (auto simp: wired_def buffer_ok_def campaignAnnounced_def blockStored_def logBlocklistChange_def queueJobFailed_def
    bc_stop_def Let_def)

lemma bc_run_effect:
  assumes "wired s" and "buffer_ok s"
  shows "wired (bc_run s es) \<and> buffer_ok (bc_run s es) \<and>
    sent (bc_run s es) @ bc_blockBuffer (bc_run s es) = sent s @ bc_blockBuffer s @ concat (map queued_block es)"
proof (induction es rule: rev_induct)
  case (snoc e es)
  with bc_step_effect [of "bc_run s es" e] show ?case by (simp add: bc_run_def)
qed (use assms in \<open>simp add: bc_run_def\<close>)

lemma bc_step_shown:
  assumes "bc_dashboardGateway s" and "e \<noteq> Ev_stop"
  shows "bc_dashboardGateway (bc_step e s) \<and>
    shown (bc_step e s) @ bc_blockBuffer (bc_step e s) = shown s @ bc_blockBuffer s @ queued_block e"
  using assms
proof (cases e)
  case (Ev_queueBlock b)
  with assms queueBlock_effect [where s = s and b = b] show ?thesis by (simp add: blockQueued_def)
next
  case Ev_timer
  with assms flushBlocks_effect [of s] show ?thesis by auto
qed (auto simp: campaignAnnounced_def blockStored_def logBlocklistChange_def queueJobFailed_def Let_def)

lemma bc_run_shown:
  assumes "bc_dashboardGateway s" and "Ev_stop \<notin> set es"
  shows "bc_dashboardGateway (bc_run s es) \<and>
    shown (bc_run s es) @ bc_blockBuffer (bc_run s es) = shown s @ bc_blockBuffer s @ concat (map queued_block es)"
  using assms(2)
proof (induction es rule: rev_induct)
  case (snoc e es)
  have e: "e \<noteq> Ev_stop" using snoc.prems by auto
  with snoc bc_step_shown [OF _ e, of "bc_run s es"] show ?case by (simp add: bc_run_def)
qed (use assms in \<open>simp add: bc_run_def\<close>)

text \<open>
  C18: No block is lost, duplicated or reordered on its way out. For a broadcaster connected to the queue or the
  sensors, after any sequence of blocks, announcements, timer expiries, failed queue jobs and reconfigurations, the
  blocks sent plus the buffered ones are the queued ones, in order; the same holds for the dashboards until
  the service is stopped. The buffer stays below the batch size and its timer runs exactly when it is not
  empty, so the next expiry, at most five seconds later, sends every block queued so far.
\<close>

theorem broadcaster_delivers_every_block:
  assumes "wired s" and "bc_blockBuffer s = []" and "\<not> bc_flushTimer s" and "bc_outbox s = []"
  shows "let t = bc_run s es; queued = concat (map queued_block es) in
    sent t @ bc_blockBuffer t = queued \<and> length (bc_blockBuffer t) < MAX_BATCH_SIZE \<and>
    (bc_flushTimer t \<longleftrightarrow> bc_blockBuffer t \<noteq> []) \<and> sent (bc_step Ev_timer t) = queued \<and>
    (bc_dashboardGateway s \<and> Ev_stop \<notin> set es \<longrightarrow> shown t @ bc_blockBuffer t = queued)"
proof -
  have "buffer_ok s" using assms by (simp add: buffer_ok_def MAX_BATCH_SIZE_def)
  note run = bc_run_effect [OF assms(1) this, of es]
  have "sent (bc_step Ev_timer (bc_run s es)) @ bc_blockBuffer (bc_step Ev_timer (bc_run s es)) = concat (map queued_block es)"
    using bc_step_effect [of "bc_run s es" Ev_timer] run assms by simp
  moreover have "bc_blockBuffer (bc_step Ev_timer (bc_run s es)) = []"
    using run by (auto simp: flushBlocks_effect buffer_ok_def)
  ultimately show ?thesis using run bc_run_shown [of s es] assms by (simp add: Let_def buffer_ok_def)
qed

theorem broadcaster_delivers_every_block_witness:
  "let s = (newBroadcaster True)\<lparr> bc_blocklistQueue := True \<rparr>; t = bc_run s [Ev_queueBlock sample_block, Ev_stop, Ev_queueBlock sample_block]
   in sent (bc_step Ev_timer t) = [sample_block, sample_block]"
  using broadcaster_delivers_every_block [of "(newBroadcaster True)\<lparr> bc_blocklistQueue := True \<rparr>"
      "[Ev_queueBlock sample_block, Ev_stop, Ev_queueBlock sample_block]"]
  by (simp add: Let_def wired_def newBroadcaster_def del: bc_step.simps)


section \<open>Campaigns and the blocklist table\<close>

fun upserted :: "effect \<Rightarrow> (string \<times> string) list" where
  "upserted (Upsert_entry x) = [(be_blockType x, be_indicator x)]"
| "upserted e = []"

fun cached :: "effect \<Rightarrow> (string \<times> string) list" where
  "cached (Cache_set b) = [(bu_blockType b, bu_indicator b)]"
| "cached e = []"

abbreviation block_id :: "blocklist_update \<Rightarrow> string \<times> string" where
  "block_id b \<equiv> (bu_blockType b, bu_indicator b)"

abbreviation table_writes :: "broadcaster \<Rightarrow> (string \<times> string) list" where
  "table_writes s \<equiv> concat (map upserted (bc_outbox s))"

abbreviation cache_writes :: "broadcaster \<Rightarrow> (string \<times> string) list" where
  "cache_writes s \<equiv> concat (map cached (bc_outbox s))"

lemma queueBlock_writes:
  "table_writes (queueBlock b s) = table_writes s" "cache_writes (queueBlock b s) = cache_writes s @ [block_id b]"
  by (auto simp: queueBlock_def flushBlocks_def Let_def)

lemma blockStored_writes:
  "table_writes (blockStored c b s) = table_writes s @ [block_id b]" "cache_writes (blockStored c b s) = cache_writes s"
  by (simp_all add: blockStored_def logBlocklistChange_def)

lemma announced_writes:
  "table_writes (campaignAnnounced c s) = table_writes s" "cache_writes (campaignAnnounced c s) = cache_writes s"
  by (simp_all add: campaignAnnounced_def Let_def)

lemma createBlocks_writes:
  "createBlocks c stored bs s = (s', done) \<Longrightarrow>
     table_writes s' = table_writes s @ map block_id (takeWhile stored bs) \<and>
     cache_writes s' = cache_writes s @ map block_id (take (Suc (length (takeWhile stored bs))) bs) \<and>
     done = list_all stored bs"
proof (induction bs arbitrary: s)
  case (Cons b bs)
  show ?case
  proof (cases "stored b")
    case True
    with Cons.prems have "createBlocks c stored bs (blockStored c b (blockQueued b s)) = (s', done)" by (simp add: Let_def)
    from Cons.IH [OF this] True show ?thesis
      by (simp add: blockStored_writes blockQueued_def queueBlock_writes)
  next
    case False
    with Cons.prems show ?thesis by (auto simp: Let_def blockQueued_def queueBlock_writes)
  qed
qed simp

definition campaign_blocks :: "campaign \<Rightarrow> enriched_signal list \<Rightarrow> blocklist_update list" where
  "campaign_blocks c signals = concat (map (signal_blocks c) signals)"


definition sample_campaign :: campaign where
  "sample_campaign = \<lparr> cd_name = ''c'', cd_description = [], cd_status = ACTIVE, cd_severity = HIGH, cd_isCrossTenant = True,
     cd_tenantsAffected = 2, cd_confidence = 9/10, cd_correlationSignals = None, cd_firstSeenAt = 0, cd_lastActivityAt = 0,
     cd_metadata = MetaNull, cp_id = ''c1'', cp_tenantId = None \<rparr>"

definition sample_ip_signal :: "string \<Rightarrow> enriched_signal" where
  "sample_ip_signal ip = \<lparr> sg_signalType = ''IP_THREAT'', sg_sourceIp = Some ip, sg_fingerprint = None, sg_severity = HIGH,
     sg_confidence = 1, sg_eventCount = None, sg_metadata = None, sg_tenantId = ''t'', sg_sensorId = ''s'', sg_requestId = None,
     sg_idempotencyKey = None, es_anonFingerprint = None, es_id = None, es_threatScore = None, es_sharingPreference = None \<rparr>"


end
