(* ===== verification/Prisma_Table.thy ===== *)
theory Prisma_Table
  imports Js_Text "HOL-Library.Multiset"
begin

text \<open>
  Asynchronous calls that may throw, and the database tables the fleet services use through Prisma. An action
  maps a state to the state after it and either the error it threw or its value. A table is a record of the
  client calls the services make, with \<^verbatim>\<open>where\<close> as a predicate and \<^verbatim>\<open>data\<close> as a function on rows; what they rely
  on is stated by the locale \<open>prisma_table\<close>, and \<open>list_table\<close> is a table that satisfies it.
\<close>

section \<open>Actions\<close>

datatype js_error = Error string | TenantIsolationError string "string list" | CommandFeatureDisabledError string

type_synonym ('s, 'a) act = "'s \<Rightarrow> 's \<times> (js_error + 'a)"

definition act_return :: "'a \<Rightarrow> ('s, 'a) act" where
  "act_return a s = (s, Inr a)"

definition act_throw :: "js_error \<Rightarrow> ('s, 'a) act" where
  "act_throw e s = (s, Inl e)"

definition act_bind :: "('s, 'a) act \<Rightarrow> ('a \<Rightarrow> ('s, 'b) act) \<Rightarrow> ('s, 'b) act" where
  "act_bind m f s = (case m s of (s', Inl e) \<Rightarrow> (s', Inl e) | (s', Inr a) \<Rightarrow> f a s')"

text \<open>\<^verbatim>\<open>try { m } catch (e) { h e }\<close>.\<close>

definition act_try :: "('s, 'a) act \<Rightarrow> (js_error \<Rightarrow> ('s, 'a) act) \<Rightarrow> ('s, 'a) act" where
  "act_try m h s = (case m s of (s', Inl e) \<Rightarrow> h e s' | (s', Inr a) \<Rightarrow> (s', Inr a))"

definition act_modify :: "('s \<Rightarrow> 's) \<Rightarrow> ('s, unit) act" where
  "act_modify f s = (f s, Inr ())"

text \<open>\<^verbatim>\<open>for (const x of xs) results.push(await f(x))\<close>: the first error ends the loop.\<close>

fun act_each :: "('a \<Rightarrow> ('s, 'b) act) \<Rightarrow> 'a list \<Rightarrow> ('s, 'b list) act" where
  "act_each f [] = act_return []"
| "act_each f (x # xs) = act_bind (f x) (\<lambda>y. act_bind (act_each f xs) (\<lambda>ys. act_return (y # ys)))"

text \<open>Relations between the states before and after that every run of an action respects.\<close>

definition act_rel :: "('s \<Rightarrow> 's \<Rightarrow> bool) \<Rightarrow> ('s, 'a) act \<Rightarrow> bool" where
  "act_rel R m \<longleftrightarrow> (\<forall>s. R s (fst (m s)))"

named_theorems act_rules \<open>composition rules for relations that actions respect\<close>

lemma act_rel_return [act_rules]: "reflp R \<Longrightarrow> act_rel R (act_return a)"
  by (simp add: act_rel_def act_return_def reflpD)

lemma act_rel_throw [act_rules]: "reflp R \<Longrightarrow> act_rel R (act_throw e)"
  by (simp add: act_rel_def act_throw_def reflpD)

lemma act_rel_bind [act_rules]:
  assumes "transp R" "act_rel R m" "\<And>a. act_rel R (f a)"
  shows "act_rel R (act_bind m f)"
  unfolding act_rel_def
proof
  fix s
  obtain s' x where m: "m s = (s', x)" by (cases "m s")
  have "R s s'" "\<And>a. R s' (fst (f a s'))" using assms(2,3) m unfolding act_rel_def by (metis fst_conv)+
  with m show "R s (fst (act_bind m f s))"
    using transpD [OF assms(1)] by (cases x) (auto simp: act_bind_def)
qed

lemma act_rel_try [act_rules]:
  assumes "transp R" "act_rel R m" "\<And>e. act_rel R (h e)"
  shows "act_rel R (act_try m h)"
  unfolding act_rel_def
proof
  fix s
  obtain s' x where m: "m s = (s', x)" by (cases "m s")
  have "R s s'" "\<And>e. R s' (fst (h e s'))" using assms(2,3) m unfolding act_rel_def by (metis fst_conv)+
  with m show "R s (fst (act_try m h s))"
    using transpD [OF assms(1)] by (cases x) (auto simp: act_try_def)
qed

lemma act_rel_each [act_rules]:
  assumes "reflp R" "transp R" "\<And>x. x \<in> set xs \<Longrightarrow> act_rel R (f x)"
  shows "act_rel R (act_each f xs)"
  using assms(3) by (induction xs) (auto intro!: act_rules assms(1,2))

lemma act_relD: "act_rel R m \<Longrightarrow> m s = (s', x) \<Longrightarrow> R s s'"
  by (metis act_rel_def fst_conv)

lemma act_bind_Inr:
  "act_bind m f s = (s', Inr b) \<longleftrightarrow> (\<exists>s1 a. m s = (s1, Inr a) \<and> f a s1 = (s', Inr b))"
  by (auto simp: act_bind_def split: prod.splits sum.splits)

lemma act_each_length: "act_each f xs s = (s', Inr ys) \<Longrightarrow> length ys = length xs"
  by (induction xs arbitrary: s ys) (auto simp: act_bind_def act_return_def split: prod.splits sum.splits)

lemma act_bind_cases:
  assumes "act_bind m f s = (s', x)"
  obtains (threw) e where "m s = (s', Inl e)" "x = Inl e" | (went_on) s1 a where "m s = (s1, Inr a)" "f a s1 = (s', x)"
  using assms by (auto simp: act_bind_def split: prod.splits sum.splits)

lemma act_bind_run [simp]:
  "m s = (s', Inl e) \<Longrightarrow> act_bind m f s = (s', Inl e)" "m s = (s', Inr a) \<Longrightarrow> act_bind m f s = f a s'"
  by (simp_all add: act_bind_def)

lemma act_run [simp]: "act_return a s = (s, Inr a)" "act_throw e s = (s, Inl e)" "act_modify f s = (f s, Inr ())"
  by (simp_all add: act_return_def act_throw_def act_modify_def)

section \<open>Tables\<close>

record ('w, 'row) table =
  tb_findMany :: "('row \<Rightarrow> bool) \<Rightarrow> ('w, 'row list) act"
  tb_updateMany :: "('row \<Rightarrow> bool) \<Rightarrow> ('row \<Rightarrow> 'row) \<Rightarrow> ('w, nat) act"
  tb_create :: "'row \<Rightarrow> ('w, 'row) act"
  tb_deleteMany :: "('row \<Rightarrow> bool) \<Rightarrow> ('w, nat) act"
  tb_upsertAll :: "(('row \<Rightarrow> bool) \<times> 'row \<times> ('row \<Rightarrow> 'row)) list \<Rightarrow> ('w, unit) act"

text \<open>The first row found, if any (\<^verbatim>\<open>findFirst\<close>, \<^verbatim>\<open>findUnique\<close>).\<close>

definition tb_findFirst :: "('w, 'row) table \<Rightarrow> ('row \<Rightarrow> bool) \<Rightarrow> ('w, 'row option) act" where
  "tb_findFirst T p = act_bind (tb_findMany T p) (\<lambda>xs. act_return (case xs of [] \<Rightarrow> None | x # _ \<Rightarrow> Some x))"

text \<open>\<^verbatim>\<open>update\<close> of one row, which throws when there is none.\<close>

definition tb_update :: "('w, 'row) table \<Rightarrow> ('row \<Rightarrow> bool) \<Rightarrow> ('row \<Rightarrow> 'row) \<Rightarrow> ('w, unit) act" where
  "tb_update T p f = act_bind (tb_updateMany T p f)
     (\<lambda>n. if n = 0 then act_throw (Error ''Record to update not found.'') else act_return ())"

definition upsert_row :: "('row \<Rightarrow> bool) \<times> 'row \<times> ('row \<Rightarrow> 'row) \<Rightarrow> string \<Rightarrow> (string \<Rightarrow> 'row \<Rightarrow> 'row) \<Rightarrow> 'row list \<Rightarrow> 'row list" where
  "upsert_row u i rekey xs = (case u of (p, r, f) \<Rightarrow>
     if list_ex p xs then map (\<lambda>x. if p x then f x else x) xs else xs @ [rekey i r])"

text \<open>
  The documented behaviour of a table \<open>T\<close> whose rows are listed by \<open>rows\<close>: queries return exactly the matching
  rows, in any order; updates and deletions apply to exactly the matching rows and return their number; a new
  row gets an id that was never used before; a call that fails changes nothing.
\<close>

locale prisma_table =
  fixes T :: "('w, 'row) table"
    and rows :: "'w \<Rightarrow> 'row list"
    and ids :: "'w \<Rightarrow> string set"
    and key :: "'row \<Rightarrow> string"
    and rekey :: "string \<Rightarrow> 'row \<Rightarrow> 'row"
  assumes findMany: "tb_findMany T p w = (w', res) \<Longrightarrow> rows w' = rows w \<and> ids w' = ids w \<and>
      (\<forall>xs. res = Inr xs \<longrightarrow> mset xs = mset (filter p (rows w)))"
    and updateMany: "tb_updateMany T p f w = (w', nres) \<Longrightarrow> ids w' = ids w \<and>
      (case nres of Inl e \<Rightarrow> rows w' = rows w
       | Inr n \<Rightarrow> n = length (filter p (rows w)) \<and> rows w' = map (\<lambda>r. if p r then f r else r) (rows w))"
    and create: "tb_create T r w = (w', cres) \<Longrightarrow>
      (case cres of Inl e \<Rightarrow> rows w' = rows w \<and> ids w' = ids w
       | Inr r' \<Rightarrow> \<exists>i. i \<notin> ids w \<and> r' = rekey i r \<and> rows w' = rows w @ [r'] \<and> ids w' = insert i (ids w))"
    and deleteMany: "tb_deleteMany T p w = (w', dres) \<Longrightarrow> ids w' = ids w \<and>
      (case dres of Inl e \<Rightarrow> rows w' = rows w
       | Inr n \<Rightarrow> n = length (filter p (rows w)) \<and> rows w' = filter (\<lambda>r. \<not> p r) (rows w))"
    and upsertAll: "tb_upsertAll T us w = (w', ures) \<Longrightarrow>
      (case ures of Inl e \<Rightarrow> rows w' = rows w \<and> ids w' = ids w
       | Inr _ \<Rightarrow> \<exists>ns. length ns = length us \<and> distinct ns \<and> set ns \<inter> ids w = {} \<and> ids w' = ids w \<union> set ns \<and>
           rows w' = fold (\<lambda>(u, i). upsert_row u i rekey) (zip us ns) (rows w))"
    and key_rekey: "key (rekey i r) = i"
begin

text \<open>Every row has a key of its own, among the ids handed out so far.\<close>

definition wf_rows :: "'w \<Rightarrow> bool" where
  "wf_rows w \<longleftrightarrow> distinct (map key (rows w)) \<and> key ` set (rows w) \<subseteq> ids w"

lemma findMany_set: "tb_findMany T p w = (w', Inr xs) \<Longrightarrow> set xs = {r \<in> set (rows w). p r}"
  using findMany [of p w w' "Inr xs"] by (metis mset_eq_setD set_filter)

lemma findFirst_frame: "tb_findFirst T p w = (w', res) \<Longrightarrow> rows w' = rows w \<and> ids w' = ids w"
  by (cases "tb_findMany T p w") (auto simp: tb_findFirst_def act_bind_def dest: findMany split: sum.splits)

lemma findFirst_find:
  assumes "tb_findFirst T p w = (w', Inr x)"
  obtains xs where "tb_findMany T p w = (w', Inr xs)" "x = (case xs of [] \<Rightarrow> None | y # _ \<Rightarrow> Some y)"
  using assms by (auto simp: tb_findFirst_def act_bind_Inr)

lemma findFirst_Some: "tb_findFirst T p w = (w', Inr (Some r)) \<Longrightarrow> r \<in> set (rows w) \<and> p r"
  by (erule findFirst_find) (drule findMany_set, auto split: list.splits)

lemma findFirst_None: "tb_findFirst T p w = (w', Inr None) \<Longrightarrow> r \<in> set (rows w) \<Longrightarrow> \<not> p r"
  by (erule findFirst_find) (drule findMany_set, auto split: list.splits)

lemma wf_update:
  assumes "wf_rows w" "tb_updateMany T p f w = (w', res)" "\<And>r. key (f r) = key r"
  shows "wf_rows w'"
proof -
  have "map key (map (\<lambda>r. if p r then f r else r) xs) = map key xs" for xs using assms(3) by simp
  then have k: "map key (rows w') = map key (rows w)"
    using updateMany [OF assms(2)] by (cases res) auto
  then have "key ` set (rows w') = key ` set (rows w)" by (metis list.set_map)
  with k show ?thesis using assms(1) updateMany [OF assms(2)] by (simp add: wf_rows_def)
qed

lemma wf_create: "wf_rows w \<Longrightarrow> tb_create T r w = (w', res) \<Longrightarrow> wf_rows w'"
  by (drule create, cases res) (fastforce simp: wf_rows_def key_rekey)+

lemma wf_delete: "wf_rows w \<Longrightarrow> tb_deleteMany T p w = (w', res) \<Longrightarrow> wf_rows w'"
  by (drule deleteMany, cases res) (auto simp: wf_rows_def distinct_map_filter)

lemma wf_find: "wf_rows w \<Longrightarrow> tb_findMany T p w = (w', res) \<Longrightarrow> wf_rows w'"
  by (drule findMany) (simp add: wf_rows_def)

lemma wf_unique: "wf_rows w \<Longrightarrow> r \<in> set (rows w) \<Longrightarrow> r' \<in> set (rows w) \<Longrightarrow> key r = key r' \<Longrightarrow> r = r'"
  by (auto simp: wf_rows_def distinct_map inj_on_def)

end

text \<open>Calls and tables that leave a part of the state, such as another table, alone.\<close>

definition act_keeps :: "('w \<Rightarrow> 'b) \<Rightarrow> ('w, 'a) act \<Rightarrow> bool" where
  "act_keeps g m \<longleftrightarrow> (\<forall>w. g (fst (m w)) = g w)"

definition tb_frames :: "('w, 'row) table \<Rightarrow> ('w \<Rightarrow> 'b) \<Rightarrow> bool" where
  "tb_frames T g \<longleftrightarrow> (\<forall>p. act_keeps g (tb_findMany T p)) \<and> (\<forall>p f. act_keeps g (tb_updateMany T p f)) \<and>
     (\<forall>r. act_keeps g (tb_create T r)) \<and> (\<forall>p. act_keeps g (tb_deleteMany T p)) \<and> (\<forall>us. act_keeps g (tb_upsertAll T us))"

lemma act_keepsD: "act_keeps g m \<Longrightarrow> m w = (w', x) \<Longrightarrow> g w' = g w"
  by (metis act_keeps_def fst_conv)

lemma act_keeps_rel: "act_keeps g m \<longleftrightarrow> act_rel (\<lambda>w w'. g w' = g w) m"
  by (simp add: act_keeps_def act_rel_def)

lemma keeps_preorder: "reflp (\<lambda>w w'. g w' = g w)" "transp (\<lambda>w w'. g w' = g w)"
  by (auto intro: reflpI transpI)

lemma findFirst_keeps: "tb_frames T g \<Longrightarrow> act_keeps g (tb_findFirst T p)"
  unfolding act_keeps_rel tb_findFirst_def
  by (intro act_rules keeps_preorder) (simp add: tb_frames_def act_keeps_rel)

section \<open>A table held as a list\<close>

text \<open>
  \<open>get\<close> and \<open>put\<close> select the table, its rows with the number of ids handed out, in the state; the first
  component of the state decides whether the database answers.
\<close>

record 'row stored_table =
  st_rows :: "'row list"
  st_next :: nat

definition id_text :: "nat \<Rightarrow> string" where
  "id_text n = ''c'' @ show_nat n"

fun list_upserts ::
  "(('row \<Rightarrow> bool) \<times> 'row \<times> ('row \<Rightarrow> 'row)) list \<Rightarrow> (string \<Rightarrow> 'row \<Rightarrow> 'row) \<Rightarrow> 'row stored_table \<Rightarrow> 'row stored_table" where
  "list_upserts [] rekey t = t"
| "list_upserts (u # us) rekey t =
     list_upserts us rekey \<lparr> st_rows = upsert_row u (id_text (st_next t)) rekey (st_rows t), st_next = Suc (st_next t) \<rparr>"

definition when_up :: "('w \<Rightarrow> bool) \<Rightarrow> ('w, 'a) act \<Rightarrow> ('w, 'a) act" where
  "when_up up m w = (if up w then m w else (w, Inl (Error ''database unavailable'')))"

definition list_table ::
  "('w \<Rightarrow> 'row stored_table) \<Rightarrow> ('row stored_table \<Rightarrow> 'w \<Rightarrow> 'w) \<Rightarrow> ('w \<Rightarrow> bool) \<Rightarrow> (string \<Rightarrow> 'row \<Rightarrow> 'row) \<Rightarrow> ('w, 'row) table" where
  "list_table get put up rekey =
     \<lparr> tb_findMany = (\<lambda>p. when_up up (\<lambda>w. (w, Inr (filter p (st_rows (get w)))))),
       tb_updateMany = (\<lambda>p f. when_up up (\<lambda>w. (put ((get w)\<lparr>st_rows := map (\<lambda>r. if p r then f r else r) (st_rows (get w))\<rparr>) w,
          Inr (length (filter p (st_rows (get w))))))),
       tb_create = (\<lambda>r. when_up up (\<lambda>w. let r' = rekey (id_text (st_next (get w))) r in
          (put \<lparr> st_rows = st_rows (get w) @ [r'], st_next = Suc (st_next (get w)) \<rparr> w, Inr r'))),
       tb_deleteMany = (\<lambda>p. when_up up (\<lambda>w. (put ((get w)\<lparr>st_rows := filter (\<lambda>r. \<not> p r) (st_rows (get w))\<rparr>) w,
          Inr (length (filter p (st_rows (get w))))))),
       tb_upsertAll = (\<lambda>us. when_up up (\<lambda>w. (put (list_upserts us rekey (get w)) w, Inr ()))) \<rparr>"

definition list_ids :: "'row stored_table \<Rightarrow> string set" where
  "list_ids t = id_text ` {..< st_next t}"

lemma id_text_inj: "id_text m = id_text n \<Longrightarrow> m = n"
  by (simp add: id_text_def) (metis option.inject parse_show_nat)

lemma id_text_fresh: "id_text n \<notin> list_ids t \<longleftrightarrow> st_next t \<le> n"
  using id_text_inj by (fastforce simp: list_ids_def)

lemma list_upserts_fold:
  "\<exists>ns. length ns = length us \<and> distinct ns \<and> set ns = id_text ` {st_next t ..< st_next t + length us} \<and>
     st_next (list_upserts us rekey t) = st_next t + length us \<and>
     st_rows (list_upserts us rekey t) = fold (\<lambda>(u, i). upsert_row u i rekey) (zip us ns) (st_rows t)"
proof (induction us arbitrary: t)
  case (Cons u us)
  let ?n = "st_next t"
  from Cons [of "\<lparr> st_rows = upsert_row u (id_text ?n) rekey (st_rows t), st_next = Suc ?n \<rparr>"]
  obtain ns where ks: "length ns = length us" "distinct ns" "set ns = id_text ` {Suc ?n ..< Suc ?n + length us}"
    "st_next (list_upserts (u # us) rekey t) = Suc ?n + length us"
    "st_rows (list_upserts (u # us) rekey t) = fold (\<lambda>(u, i). upsert_row u i rekey) (zip us ns)
       (upsert_row u (id_text ?n) rekey (st_rows t))" by auto
  have "id_text ?n \<notin> set ns" using ks(3) id_text_inj by fastforce
  moreover have "insert (id_text ?n) (set ns) = id_text ` {?n ..< ?n + length (u # us)}"
    unfolding ks(3) image_insert [symmetric] by (rule arg_cong [where f = "image id_text"]) auto
  ultimately show ?case using ks by (intro exI [of _ "id_text ?n # ns"]) simp
qed simp

lemma list_table_frames: "(\<And>t w. g (put t w) = g w) \<Longrightarrow> tb_frames (list_table get put up rekey) g"
  by (auto simp: tb_frames_def act_keeps_def list_table_def when_up_def Let_def)

text \<open>A list is a table, whatever part of the state holds it.\<close>

lemma list_table_is_table:
  assumes "\<And>t w. get (put t w) = t" and "\<And>i r. key (rekey i r) = i"
  shows "prisma_table (list_table get put up rekey) (\<lambda>w. st_rows (get w)) (\<lambda>w. list_ids (get w)) key rekey"
proof (unfold_locales, goal_cases)
  case (3 r w w' cres)
  then show ?case
    using assms id_text_fresh [of "st_next (get w)" "get w"]
    by (cases "up w") (auto simp: list_table_def when_up_def Let_def list_ids_def lessThan_Suc
          intro!: exI [of _ "id_text (st_next (get w))"])
next
  case (5 us w w' ures)
  show ?case
  proof (cases "up w")
    case True
    obtain ns where "length ns = length us" "distinct ns"
      "set ns = id_text ` {st_next (get w) ..< st_next (get w) + length us}"
      "st_next (list_upserts us rekey (get w)) = st_next (get w) + length us"
      "st_rows (list_upserts us rekey (get w)) = fold (\<lambda>(u, i). upsert_row u i rekey) (zip us ns) (st_rows (get w))"
      using list_upserts_fold by blast
    moreover have "id_text ` {a ..< a + b} \<inter> id_text ` {..< a} = {}"
      "id_text ` {..< a + b} = id_text ` {..< a} \<union> id_text ` {a ..< a + b}" for a b
      using id_text_inj by (fastforce, unfold image_Un [symmetric]) (rule arg_cong [where f = "image id_text"], auto)
    ultimately show ?thesis
      using 5 True assms by (auto simp: list_table_def when_up_def Let_def list_ids_def intro!: exI [of _ ns] dest!: id_text_inj)
  qed (use 5 in \<open>auto simp: list_table_def when_up_def Let_def\<close>)
qed (auto simp: list_table_def when_up_def Let_def list_ids_def assms split: if_splits)

end
