(* ===== verification/Fleet_Commander.thy ===== *)
theory Fleet_Commander
  imports Prisma_Table Json_Text
begin

text \<open>
  Tracking of the commands sent to the fleet (\<^verbatim>\<open>api/src/services/fleet/fleet-commander.ts\<close>, types of
  \<^verbatim>\<open>services/fleet/types.ts\<close>): creation under tenant isolation, hand-over to the protocol layer, the status
  updates its events cause, timeouts, cancellation and cleanup. The database tables, the sensor metrics and the
  protocol layer are parameters; \<open>fc_events\<close> and \<open>fc_sends\<close> log the events emitted and the commands handed over.
  A handler that awaits between a read and a write is split there, so that other handlers can run in between.
\<close>

section \<open>Data\<close>

datatype fc_status = Fc_pending | Fc_sent | Fc_success | Fc_failed | Fc_timeout

record sensor_entry =
  sn_id :: string
  sn_tenantId :: string
  sn_connectionState :: string
  sn_lastHeartbeat :: "int option"

record fleet_command =
  fk_id :: string
  fk_sensorId :: string
  fk_commandType :: string
  fk_payload :: json
  fk_status :: fc_status
  fk_result :: "json option"
  fk_error :: "string option"
  fk_queuedAt :: int
  fk_sentAt :: "int option"
  fk_completedAt :: "int option"
  fk_attempts :: nat
  fk_timeoutAt :: int
  fk_createdAt :: int

record sensor_command =
  sc_type :: string
  sc_payload :: json
  sc_timeout :: "rat option"

record fleet_config =
  ft_defaultTimeoutMs :: rat
  ft_enableAdaptiveTimeout :: bool
  ft_maxAdaptiveTimeoutMs :: rat
  ft_minAdaptiveTimeoutMs :: rat
  ft_maxRetries :: nat
  ft_toggleChaos :: bool
  ft_toggleMtd :: bool

record fleet_options =
  fo_defaultTimeoutMs :: "rat option"
  fo_enableAdaptiveTimeout :: "bool option"
  fo_maxAdaptiveTimeoutMs :: "rat option"
  fo_minAdaptiveTimeoutMs :: "rat option"
  fo_maxRetries :: "nat option"
  fo_toggleChaos :: "bool option"
  fo_toggleMtd :: "bool option"

definition or_default :: "'a option \<Rightarrow> 'a \<Rightarrow> 'a" where
  "or_default v d = (case v of None \<Rightarrow> d | Some x \<Rightarrow> x)"

definition newFleetConfig :: "fleet_options \<Rightarrow> fleet_config" where
  "newFleetConfig c = \<lparr> ft_defaultTimeoutMs = or_default (fo_defaultTimeoutMs c) 30000,
     ft_enableAdaptiveTimeout = or_default (fo_enableAdaptiveTimeout c) False,
     ft_maxAdaptiveTimeoutMs = or_default (fo_maxAdaptiveTimeoutMs c) 120000,
     ft_minAdaptiveTimeoutMs = or_default (fo_minAdaptiveTimeoutMs c) 5000,
     ft_maxRetries = or_default (fo_maxRetries c) 3,
     ft_toggleChaos = or_default (fo_toggleChaos c) False, ft_toggleMtd = or_default (fo_toggleMtd c) False \<rparr>"

datatype fc_event =
  Ev_sent string string string
| Ev_success string string string "json option"
| Ev_failed string string string string
| Ev_timeout string string string

text \<open>
  The services the commander calls: the two tables, the latency of a sensor where a fleet aggregator is
  configured, and \<^verbatim>\<open>CommandSender.sendCommand\<close> where a sender is wired.
\<close>

record 'w fleet_env =
  fe_sensors :: "('w, sensor_entry) table"
  fe_commands :: "('w, fleet_command) table"
  fe_metrics :: "(string \<Rightarrow> ('w, rat option) act) option"
  fe_sender :: "(string \<Rightarrow> string \<Rightarrow> json \<Rightarrow> string \<Rightarrow> ('w, unit) act) option"

record 'w commander =
  fc_db :: 'w
  fc_events :: "fc_event list"
  fc_sends :: "(string \<times> string \<times> json \<times> string) list"

definition in_db :: "('w, 'a) act \<Rightarrow> ('w commander, 'a) act" where
  "in_db m s = (case m (fc_db s) of (w, x) \<Rightarrow> (s\<lparr>fc_db := w\<rparr>, x))"

lemma in_db_run:
  assumes "in_db m s = (s', x)"
  shows "m (fc_db s) = (fc_db s', x)" "fc_sends s' = fc_sends s" "fc_events s' = fc_events s"
  using assms by (auto simp: in_db_def split: prod.splits)

definition fc_emit :: "fc_event \<Rightarrow> ('w commander, unit) act" where
  "fc_emit e = act_modify (\<lambda>s. s\<lparr>fc_events := fc_events s @ [e]\<rparr>)"

definition fc_open :: "fleet_command \<Rightarrow> bool" where
  "fc_open r \<longleftrightarrow> fk_status r = Fc_pending \<or> fk_status r = Fc_sent"

section \<open>Status updates\<close>

definition update_open ::
  "'w fleet_env \<Rightarrow> string \<Rightarrow> (fleet_command \<Rightarrow> bool) \<Rightarrow> (fleet_command \<Rightarrow> fleet_command) \<Rightarrow> ('w commander, nat) act" where
  "update_open env i p f = in_db (tb_updateMany (fe_commands env) (\<lambda>r. fk_id r = i \<and> fc_open r \<and> p r) f)"

definition markCommandSent :: "'w fleet_env \<Rightarrow> int \<Rightarrow> string \<Rightarrow> ('w commander, unit) act" where
  "markCommandSent env now commandId =
     act_bind (update_open env commandId (\<lambda>_. True)
       (\<lambda>r. r\<lparr>fk_status := Fc_sent, fk_sentAt := Some now, fk_attempts := Suc (fk_attempts r)\<rparr>)) (\<lambda>_. act_return ())"

definition success_update :: "'w fleet_env \<Rightarrow> int \<Rightarrow> string \<Rightarrow> json option \<Rightarrow> ('w commander, nat) act" where
  "success_update env now commandId result =
     update_open env commandId (\<lambda>_. True)
       (\<lambda>r. r\<lparr>fk_status := Fc_success, fk_result := (case result of None \<Rightarrow> fk_result r | Some v \<Rightarrow> Some v),
              fk_completedAt := Some now\<rparr>)"

text \<open>The rest of \<^verbatim>\<open>markCommandSuccess\<close> after its update: the duration metric reads \<^verbatim>\<open>command.sentAt!.getTime()\<close>.\<close>

definition success_finish :: "'w fleet_env \<Rightarrow> string \<Rightarrow> json option \<Rightarrow> ('w commander, unit) act" where
  "success_finish env commandId result =
     act_bind (in_db (tb_findFirst (fe_commands env) (\<lambda>r. fk_id r = commandId))) (\<lambda>command.
       case command of
         None \<Rightarrow> act_return ()
       | Some c \<Rightarrow>
           (case fk_sentAt c of
              None \<Rightarrow> act_throw (Error ''Cannot read properties of null'')
            | Some sentAt \<Rightarrow> fc_emit (Ev_success commandId (fk_sensorId c) (fk_commandType c) result)))"

definition markCommandSuccess :: "'w fleet_env \<Rightarrow> int \<Rightarrow> string \<Rightarrow> json option \<Rightarrow> ('w commander, unit) act" where
  "markCommandSuccess env now commandId result =
     act_bind (success_update env now commandId result) (\<lambda>updated.
       if updated = 0 then act_return () else success_finish env commandId result)"

text \<open>\<^verbatim>\<open>markCommandFailed\<close>: the read, and the write for the row that was read.\<close>

definition failed_read :: "'w fleet_env \<Rightarrow> string \<Rightarrow> ('w commander, fleet_command option) act" where
  "failed_read env commandId = in_db (tb_findFirst (fe_commands env) (\<lambda>r. fk_id r = commandId))"

definition failed_write :: "'w fleet_env \<Rightarrow> fleet_config \<Rightarrow> int \<Rightarrow> fleet_command \<Rightarrow> string \<Rightarrow> ('w commander, unit) act" where
  "failed_write env cfg now command err =
     (if \<not> fc_open command then act_return ()
      else if fk_attempts command < ft_maxRetries cfg
      then act_bind (update_open env (fk_id command) (\<lambda>r. fk_attempts r < ft_maxRetries cfg)
             (\<lambda>r. r\<lparr>fk_status := Fc_pending, fk_error := Some err\<rparr>)) (\<lambda>_. act_return ())
      else act_bind (update_open env (fk_id command) (\<lambda>_. True)
             (\<lambda>r. r\<lparr>fk_status := Fc_failed, fk_error := Some err, fk_completedAt := Some now\<rparr>)) (\<lambda>updated.
           if updated = 0 then act_return ()
           else fc_emit (Ev_failed (fk_id command) (fk_sensorId command) (fk_commandType command) err)))"

definition markCommandFailed :: "'w fleet_env \<Rightarrow> fleet_config \<Rightarrow> int \<Rightarrow> string \<Rightarrow> string \<Rightarrow> ('w commander, unit) act" where
  "markCommandFailed env cfg now commandId err =
     act_bind (failed_read env commandId) (\<lambda>command.
       case command of None \<Rightarrow> act_return () | Some c \<Rightarrow> failed_write env cfg now c err)"

definition fleet_cancelCommand :: "'w fleet_env \<Rightarrow> int \<Rightarrow> string \<Rightarrow> ('w commander, bool) act" where
  "fleet_cancelCommand env now commandId =
     act_try
       (act_bind (update_open env commandId (\<lambda>_. True)
          (\<lambda>r. r\<lparr>fk_status := Fc_failed, fk_error := Some ''Cancelled by user'', fk_completedAt := Some now\<rparr>))
          (\<lambda>updated. act_return (updated \<noteq> 0)))
       (\<lambda>_. act_return False)"

text \<open>One iteration of \<^verbatim>\<open>checkTimeouts\<close>, and the whole check.\<close>

definition timeout_one :: "'w fleet_env \<Rightarrow> int \<Rightarrow> fleet_command \<Rightarrow> ('w commander, unit) act" where
  "timeout_one env now command =
     act_bind (update_open env (fk_id command) (\<lambda>_. True)
       (\<lambda>r. r\<lparr>fk_status := Fc_timeout, fk_error := Some ''Command timed out'', fk_completedAt := Some now\<rparr>)) (\<lambda>updated.
       if updated = 0 then act_return ()
       else fc_emit (Ev_timeout (fk_id command) (fk_sensorId command) (fk_commandType command)))"

definition checkTimeouts :: "'w fleet_env \<Rightarrow> int \<Rightarrow> ('w commander, unit) act" where
  "checkTimeouts env now =
     act_try
       (act_bind (in_db (tb_findMany (fe_commands env) (\<lambda>r. fc_open r \<and> fk_timeoutAt r \<le> now))) (\<lambda>timedOutCommands.
          act_bind (act_each (timeout_one env now) timedOutCommands) (\<lambda>_. act_return ())))
       (\<lambda>_. act_return ())"

text \<open>\<^verbatim>\<open>retentionDays\<close> are days of 24 hours: the clock of the server has no daylight saving time.\<close>

definition cleanupOldCommands :: "'w fleet_env \<Rightarrow> int \<Rightarrow> int \<Rightarrow> ('w commander, nat) act" where
  "cleanupOldCommands env now retentionDays =
     in_db (tb_deleteMany (fe_commands env)
       (\<lambda>r. \<not> fc_open r \<and> (case fk_completedAt r of None \<Rightarrow> False | Some t \<Rightarrow> t \<le> now - retentionDays * 86400000)))"

section \<open>Sending\<close>

definition ensureCommandEnabled :: "fleet_config \<Rightarrow> string \<Rightarrow> ('s, unit) act" where
  "ensureCommandEnabled cfg commandType =
     (if commandType = ''toggle_chaos'' \<and> \<not> ft_toggleChaos cfg then act_throw (CommandFeatureDisabledError commandType)
      else if commandType = ''toggle_mtd'' \<and> \<not> ft_toggleMtd cfg then act_throw (CommandFeatureDisabledError commandType)
      else act_return ())"

definition command_timeout :: "'w fleet_env \<Rightarrow> fleet_config \<Rightarrow> string \<Rightarrow> sensor_command \<Rightarrow> ('w commander, rat) act" where
  "command_timeout env cfg sensorId command =
     (let timeout = or_default (sc_timeout command) (ft_defaultTimeoutMs cfg) in
      case fe_metrics env of
        Some getSensorMetrics \<Rightarrow>
          if ft_enableAdaptiveTimeout cfg
          then act_bind (in_db (getSensorMetrics sensorId)) (\<lambda>latency. act_return
                 (case latency of
                    None \<Rightarrow> timeout
                  | Some l \<Rightarrow>
                      if 0 < l then max (ft_minAdaptiveTimeoutMs cfg) (min (l + 10000) (ft_maxAdaptiveTimeoutMs cfg))
                      else timeout))
          else act_return timeout
      | None \<Rightarrow> act_return timeout)"

text \<open>The transaction: its only write is its last call, so there is nothing to roll back when it throws.\<close>

definition create_command ::
  "'w fleet_env \<Rightarrow> int \<Rightarrow> string \<Rightarrow> string \<Rightarrow> sensor_command \<Rightarrow> int \<Rightarrow> ('w commander, fleet_command) act" where
  "create_command env now tenantId sensorId command timeoutAt =
     act_bind (in_db (tb_findFirst (fe_sensors env) (\<lambda>s. sn_id s = sensorId))) (\<lambda>sensor.
       case sensor of
         None \<Rightarrow> act_throw (Error (''Sensor not found: '' @ sensorId))
       | Some sn \<Rightarrow>
           if sn_tenantId sn \<noteq> tenantId
           then act_throw (Error (''Sensor '' @ sensorId @ '' does not belong to tenant '' @ tenantId))
           else
             act_bind (in_db (tb_findFirst (fe_commands env) (\<lambda>r. fk_sensorId r = sensorId \<and>
                 fk_commandType r = sc_type command \<and> fk_status r = Fc_pending \<and> now - 5000 \<le> fk_createdAt r)))
               (\<lambda>existingPending. case existingPending of
                  Some e \<Rightarrow> act_return e
                | None \<Rightarrow> in_db (tb_create (fe_commands env)
                    \<lparr> fk_id = [], fk_sensorId = sensorId, fk_commandType = sc_type command, fk_payload = sc_payload command,
                      fk_status = Fc_pending, fk_result = None, fk_error = None, fk_queuedAt = now, fk_sentAt = None,
                      fk_completedAt = None, fk_attempts = 0, fk_timeoutAt = timeoutAt, fk_createdAt = now \<rparr>)))"

text \<open>The hand-over to the protocol layer.\<close>

definition hand_over :: "'w fleet_env \<Rightarrow> fleet_config \<Rightarrow> int \<Rightarrow> string \<Rightarrow> sensor_command \<Rightarrow> string \<Rightarrow> ('w commander, unit) act" where
  "hand_over env cfg now sensorId command commandId =
     (case fe_sender env of
        None \<Rightarrow> act_return ()
      | Some send \<Rightarrow>
          act_try
            (act_bind (act_modify (\<lambda>s. s\<lparr>fc_sends := fc_sends s @ [(sensorId, sc_type command, sc_payload command, commandId)]\<rparr>))
               (\<lambda>_. in_db (send sensorId (sc_type command) (sc_payload command) commandId)))
            (\<lambda>_. markCommandFailed env cfg now commandId ''Failed to initiate send''))"

definition fleet_sendCommand ::
  "'w fleet_env \<Rightarrow> fleet_config \<Rightarrow> int \<Rightarrow> string \<Rightarrow> string \<Rightarrow> sensor_command \<Rightarrow> ('w commander, string) act" where
  "fleet_sendCommand env cfg now tenantId sensorId command =
     act_bind (ensureCommandEnabled cfg (sc_type command)) (\<lambda>_.
     act_bind (command_timeout env cfg sensorId command) (\<lambda>timeout.
     act_bind (create_command env now tenantId sensorId command (now + \<lfloor>timeout\<rfloor>)) (\<lambda>created.
     act_bind (fc_emit (Ev_sent (fk_id created) sensorId (sc_type command))) (\<lambda>_.
     act_bind (hand_over env cfg now sensorId command (fk_id created)) (\<lambda>_.
     act_return (fk_id created))))))"

definition sendCommandToMultiple ::
  "'w fleet_env \<Rightarrow> fleet_config \<Rightarrow> int \<Rightarrow> string \<Rightarrow> string list \<Rightarrow> sensor_command \<Rightarrow> ('w commander, string list) act" where
  "sendCommandToMultiple env cfg now tenantId sensorIds command =
     act_each (\<lambda>sensorId. fleet_sendCommand env cfg now tenantId sensorId command) sensorIds"

definition broadcastCommand ::
  "'w fleet_env \<Rightarrow> fleet_config \<Rightarrow> int \<Rightarrow> string \<Rightarrow> sensor_command \<Rightarrow> ('w commander, string list) act" where
  "broadcastCommand env cfg now tenantId command =
     act_bind (in_db (tb_findMany (fe_sensors env) (\<lambda>s. sn_tenantId s = tenantId \<and> sn_connectionState s = ''CONNECTED'')))
       (\<lambda>sensors. sendCommandToMultiple env cfg now tenantId (map sn_id sensors) command)"

section \<open>Queries\<close>

definition getCommandStatus :: "'w fleet_env \<Rightarrow> string \<Rightarrow> ('w commander, fleet_command option) act" where
  "getCommandStatus env commandId = in_db (tb_findFirst (fe_commands env) (\<lambda>r. fk_id r = commandId))"

definition fleet_getPendingCommands :: "'w fleet_env \<Rightarrow> string \<Rightarrow> ('w commander, fleet_command list) act" where
  "fleet_getPendingCommands env sensorId =
     act_bind (in_db (tb_findMany (fe_commands env) (\<lambda>r. fk_sensorId r = sensorId \<and> fc_open r)))
       (\<lambda>commands. act_return (sort_key fk_queuedAt commands))"

definition getCommandHistory :: "'w fleet_env \<Rightarrow> string \<Rightarrow> nat \<Rightarrow> ('w commander, fleet_command list) act" where
  "getCommandHistory env sensorId limit =
     act_bind (in_db (tb_findMany (fe_commands env) (\<lambda>r. fk_sensorId r = sensorId)))
       (\<lambda>commands. act_return (take limit (sort_key (\<lambda>r. - fk_queuedAt r) commands)))"

section \<open>Interleaved handlers\<close>

text \<open>
  The handlers the commander registers on the protocol layer and its periodic check, as they interleave: a
  handler waiting for the database leaves the rest of its work as a task, which resumes later.
\<close>

datatype fc_task = Finish_success string "json option" | Write_failure fleet_command string

datatype fc_op =
  Op_send int string string sensor_command
| Op_sent int string
| Op_complete int string "json option"
| Op_failed string string
| Op_resume int nat
| Op_timeouts int
| Op_timeout_one int fleet_command
| Op_cancel int string
| Op_cleanup int int

fun fc_resume :: "'w fleet_env \<Rightarrow> fleet_config \<Rightarrow> int \<Rightarrow> fc_task \<Rightarrow> ('w commander, unit) act" where
  "fc_resume env cfg now (Finish_success i result) = success_finish env i result"
| "fc_resume env cfg now (Write_failure c err) = failed_write env cfg now c err"

fun fc_step :: "'w fleet_env \<Rightarrow> fleet_config \<Rightarrow> fc_op \<Rightarrow> 'w commander \<times> fc_task list \<Rightarrow> 'w commander \<times> fc_task list" where
  "fc_step env cfg (Op_send now tenantId sensorId command) (s, ts) =
     (fst (fleet_sendCommand env cfg now tenantId sensorId command s), ts)"
| "fc_step env cfg (Op_sent now i) (s, ts) = (fst (markCommandSent env now i s), ts)"
| "fc_step env cfg (Op_complete now i result) (s, ts) =
     (case success_update env now i result s of
        (s', Inr updated) \<Rightarrow> (s', if updated = 0 then ts else ts @ [Finish_success i result])
      | (s', Inl e) \<Rightarrow> (s', ts))"
| "fc_step env cfg (Op_failed i err) (s, ts) =
     (case failed_read env i s of
        (s', Inr (Some c)) \<Rightarrow> (s', ts @ [Write_failure c err])
      | (s', _) \<Rightarrow> (s', ts))"
| "fc_step env cfg (Op_resume now n) (s, ts) =
     (if n < length ts then (fst (fc_resume env cfg now (ts ! n) s), take n ts @ drop (Suc n) ts) else (s, ts))"
| "fc_step env cfg (Op_timeouts now) (s, ts) = (fst (checkTimeouts env now s), ts)"
| "fc_step env cfg (Op_timeout_one now c) (s, ts) = (fst (timeout_one env now c s), ts)"
| "fc_step env cfg (Op_cancel now i) (s, ts) = (fst (fleet_cancelCommand env now i s), ts)"
| "fc_step env cfg (Op_cleanup now days) (s, ts) = (fst (cleanupOldCommands env now days s), ts)"

definition fc_run :: "'w fleet_env \<Rightarrow> fleet_config \<Rightarrow> fc_op list \<Rightarrow> 'w commander \<times> fc_task list \<Rightarrow> 'w commander \<times> fc_task list" where
  "fc_run env cfg ops = fold (fc_step env cfg) ops"

section \<open>Life of a command\<close>

text \<open>Events that end a command, and the tasks that will emit one.\<close>

fun completes :: "string \<Rightarrow> fc_event \<Rightarrow> bool" where
  "completes k (Ev_sent i sid t) = False"
| "completes k (Ev_success i sid t res) = (i = k)"
| "completes k (Ev_failed i sid t err) = (i = k)"
| "completes k (Ev_timeout i sid t) = (i = k)"

definition completions :: "string \<Rightarrow> fc_event list \<Rightarrow> nat" where
  "completions k es = length (filter (completes k) es)"

fun finishes :: "string \<Rightarrow> fc_task \<Rightarrow> bool" where
  "finishes k (Finish_success i res) = (i = k)"
| "finishes k (Write_failure c err) = False"

locale fleet_tables =
  c: prisma_table "fe_commands env" crows cids fk_id "\<lambda>i r. r\<lparr>fk_id := i\<rparr>" +
  s: prisma_table "fe_sensors env" srows sids sn_id "\<lambda>i r. r\<lparr>sn_id := i\<rparr>"
  for env :: "'w fleet_env" and crows cids srows sids +
  assumes sensors_frame: "tb_frames (fe_sensors env) crows" "tb_frames (fe_sensors env) cids"
    and commands_frame: "tb_frames (fe_commands env) srows"
    and metrics_frame: "fe_metrics env = Some g \<Longrightarrow> act_keeps crows (g i) \<and> act_keeps cids (g i) \<and> act_keeps srows (g i)"
    and sender_frame: "fe_sender env = Some send \<Longrightarrow>
      act_keeps crows (send i t p k) \<and> act_keeps cids (send i t p k) \<and> act_keeps srows (send i t p k)"
begin

text \<open>Finished rows never change and ids are not reused, over a change of the database.\<close>

definition settled :: "'w \<Rightarrow> 'w \<Rightarrow> bool" where
  "settled w w' \<longleftrightarrow> (c.wf_rows w \<longrightarrow> c.wf_rows w' \<and> cids w \<subseteq> cids w' \<and>
     (\<forall>k \<in> cids w. (\<forall>r \<in> set (crows w). fk_id r \<noteq> k) \<longrightarrow> (\<forall>r \<in> set (crows w'). fk_id r \<noteq> k)) \<and>
     (\<forall>r \<in> set (crows w). \<not> fc_open r \<longrightarrow> r \<in> set (crows w') \<or> (\<forall>r' \<in> set (crows w'). fk_id r' \<noteq> fk_id r)))"

definition live :: "string \<Rightarrow> 'w \<Rightarrow> bool" where
  "live k w \<longleftrightarrow> k \<notin> cids w \<or> (\<exists>r \<in> set (crows w). fk_id r = k \<and> fc_open r)"

definition credit :: "string \<Rightarrow> 'w commander \<Rightarrow> nat" where
  "credit k s = completions k (fc_events s) + (if live k (fc_db s) then 1 else 0)"

text \<open>What every action respects: rows settle, and the events still due for a command only decrease.\<close>

definition evolves :: "'w commander \<Rightarrow> 'w commander \<Rightarrow> bool" where
  "evolves s s' \<longleftrightarrow> settled (fc_db s) (fc_db s') \<and> (c.wf_rows (fc_db s) \<longrightarrow> (\<forall>k. credit k s' \<le> credit k s))"

lemma settled_refl: "settled w w"
  by (simp add: settled_def)

lemma settledD:
  assumes "settled w w'" "c.wf_rows w"
  shows "c.wf_rows w'" "cids w \<subseteq> cids w'"
    "k \<in> cids w \<Longrightarrow> \<forall>r \<in> set (crows w). fk_id r \<noteq> k \<Longrightarrow> \<forall>r \<in> set (crows w'). fk_id r \<noteq> k"
    "r \<in> set (crows w) \<Longrightarrow> \<not> fc_open r \<Longrightarrow> r \<in> set (crows w') \<or> (\<forall>r' \<in> set (crows w'). fk_id r' \<noteq> fk_id r)"
  using assms unfolding settled_def by simp_all

lemma settled_trans:
  assumes 1: "settled a b" and 2: "settled b d"
  shows "settled a d"
  unfolding settled_def
proof (intro impI conjI ballI)
  assume wf: "c.wf_rows a"
  note b = settledD [OF 1 wf]
  note d = settledD [OF 2 b(1)]
  show "c.wf_rows d" "cids a \<subseteq> cids d" using b(2) d(1,2) by auto
  show "fk_id r \<noteq> k" if "k \<in> cids a" "\<forall>r \<in> set (crows a). fk_id r \<noteq> k" "r \<in> set (crows d)" for k r
    using d(3) [OF _ b(3) [OF that(1,2)]] b(2) that(1,3) by blast
  show "r \<in> set (crows d) \<or> (\<forall>r' \<in> set (crows d). fk_id r' \<noteq> fk_id r)" if "r \<in> set (crows a)" "\<not> fc_open r" for r
    using b(4) [OF that]
  proof
    assume "\<forall>r' \<in> set (crows b). fk_id r' \<noteq> fk_id r"
    moreover have "fk_id r \<in> cids b" using wf that(1) b(2) by (auto simp: c.wf_rows_def)
    ultimately show ?thesis using d(3) by blast
  qed (use d(4) that(2) in blast)
qed

lemma evolves_preorder: "reflp evolves" "transp evolves"
proof -
  show "reflp evolves" by (intro reflpI) (simp add: evolves_def settled_refl)
  have "evolves a d" if "evolves a b" "evolves b d" for a b d
  proof -
    have "settled (fc_db a) (fc_db d)" using that settled_trans by (auto simp: evolves_def)
    moreover have "\<forall>k. credit k d \<le> credit k a" if "c.wf_rows (fc_db a)"
      using \<open>evolves a b\<close> \<open>evolves b d\<close> that unfolding evolves_def settled_def by (meson order_trans)
    ultimately show ?thesis by (simp add: evolves_def)
  qed
  then show "transp evolves" by (intro transpI)
qed

lemmas evolves_rules = act_rel_return [OF evolves_preorder(1)] act_rel_throw [OF evolves_preorder(1)]
  act_rel_bind [OF evolves_preorder(2)] act_rel_try [OF evolves_preorder(2)] act_rel_each [OF evolves_preorder]

lemma same_evolves:
  assumes "crows (fc_db s') = crows (fc_db s)" "cids (fc_db s') = cids (fc_db s)"
    and "\<And>k. completions k (fc_events s') = completions k (fc_events s)"
  shows "evolves s s'"
  using assms by (auto simp: evolves_def settled_def credit_def live_def c.wf_rows_def)

lemma in_db_evolves:
  assumes "act_keeps crows m" "act_keeps cids m"
  shows "act_rel evolves (in_db m)"
  unfolding act_rel_def
proof
  fix s
  show "evolves s (fst (in_db m s))"
    using assms by (cases "m (fc_db s)") (auto intro!: same_evolves simp: in_db_def dest: act_keepsD)
qed

lemma find_keeps: "act_keeps crows (tb_findMany (fe_commands env) p)" "act_keeps cids (tb_findMany (fe_commands env) p)"
  "act_keeps crows (tb_findFirst (fe_commands env) p)" "act_keeps cids (tb_findFirst (fe_commands env) p)"
  using c.findMany [of p] c.findFirst_frame [of p] unfolding act_keeps_def by (metis fst_conv surj_pair)+

lemma update_cases:
  assumes "update_open env i p f s = (s', x)"
  obtains w where "s' = s\<lparr>fc_db := w\<rparr>"
    "tb_updateMany (fe_commands env) (\<lambda>r. fk_id r = i \<and> fc_open r \<and> p r) f (fc_db s) = (w, x)"
  using assms by (cases "tb_updateMany (fe_commands env) (\<lambda>r. fk_id r = i \<and> fc_open r \<and> p r) f (fc_db s)")
    (auto simp: update_open_def in_db_def)

text \<open>The rows after an update: some matching rows changed, all of them when the update reports a number.\<close>

lemma update_rows:
  assumes "update_open env i p f s = (s', x)"
  obtains g where "crows (fc_db s') = map g (crows (fc_db s))" "cids (fc_db s') = cids (fc_db s)"
    "fc_events s' = fc_events s" "\<And>r. g r = r \<or> (fk_id r = i \<and> fc_open r \<and> p r \<and> g r = f r)"
    "\<And>n. x = Inr n \<Longrightarrow> (\<forall>r. fk_id r = i \<and> fc_open r \<and> p r \<longrightarrow> g r = f r) \<and>
       n = length (filter (\<lambda>r. fk_id r = i \<and> fc_open r \<and> p r) (crows (fc_db s)))"
proof -
  let ?q = "\<lambda>r. fk_id r = i \<and> fc_open r \<and> p r"
  obtain w where w: "s' = s\<lparr>fc_db := w\<rparr>" "tb_updateMany (fe_commands env) ?q f (fc_db s) = (w, x)"
    using assms by (rule update_cases)
  note u = c.updateMany [OF w(2)]
  show thesis
  proof (cases x)
    case (Inl e)
    with u w(1) show thesis by (intro that [of "\<lambda>r. r"]) auto
  next
    case (Inr n)
    with u w(1) show thesis by (intro that [of "\<lambda>r. if ?q r then f r else r"]) auto
  qed
qed

lemma update_settled:
  assumes u: "update_open env i p f s = (s', x)" and f: "\<And>r. fk_id (f r) = fk_id r"
  shows "settled (fc_db s) (fc_db s')"
proof -
  obtain g where g: "crows (fc_db s') = map g (crows (fc_db s))" "cids (fc_db s') = cids (fc_db s)"
    "\<And>r. g r = r \<or> (fk_id r = i \<and> fc_open r \<and> p r \<and> g r = f r)" using u by (rule update_rows) blast
  have id: "fk_id (g r) = fk_id r" for r using g(3) [of r] f by auto
  then have "map fk_id (crows (fc_db s')) = map fk_id (crows (fc_db s))" by (simp add: g(1))
  then have "c.wf_rows (fc_db s) \<longrightarrow> c.wf_rows (fc_db s')"
    unfolding c.wf_rows_def g(2) by (metis list.set_map)
  moreover have "g r = r" if "\<not> fc_open r" for r using g(3) [of r] that by blast
  ultimately show ?thesis using id g(1,2) by (force simp: settled_def)
qed

text \<open>An update that keeps the command open changes nothing that counts; one that closes it uses up its credit.\<close>

lemma update_keep_open:
  assumes f: "\<And>r. fk_id (f r) = fk_id r" "\<And>r. fc_open (f r)"
  shows "act_rel evolves (update_open env i p f)"
  unfolding act_rel_def
proof
  fix s
  obtain s' x where u: "update_open env i p f s = (s', x)" by fastforce
  obtain g where g: "crows (fc_db s') = map g (crows (fc_db s))" "cids (fc_db s') = cids (fc_db s)"
    "fc_events s' = fc_events s" "\<And>r. g r = r \<or> (fk_id r = i \<and> fc_open r \<and> p r \<and> g r = f r)"
    using u by (rule update_rows) blast
  have "fk_id (g r) = fk_id r \<and> fc_open (g r) = fc_open r" for r using g(4) [of r] f by auto
  then have "live k (fc_db s') = live k (fc_db s)" for k by (simp add: live_def g(1,2))
  with u g(3) update_settled [OF u f(1)] show "evolves s (fst (update_open env i p f s))"
    by (simp add: evolves_def credit_def)
qed

lemma update_close:
  assumes u: "update_open env i p f s = (s', x)" and f: "\<And>r. fk_id (f r) = fk_id r" "\<And>r. \<not> fc_open (f r)"
  shows "evolves s s' \<and> (c.wf_rows (fc_db s) \<longrightarrow> (\<forall>n. x = Inr n \<longrightarrow> n \<noteq> 0 \<longrightarrow> Suc (credit i s') \<le> credit i s))"
proof -
  let ?q = "\<lambda>r. fk_id r = i \<and> fc_open r \<and> p r"
  obtain g where g: "crows (fc_db s') = map g (crows (fc_db s))" "cids (fc_db s') = cids (fc_db s)"
    "fc_events s' = fc_events s" "\<And>r. g r = r \<or> (fk_id r = i \<and> fc_open r \<and> p r \<and> g r = f r)"
    "\<And>n. x = Inr n \<Longrightarrow> (\<forall>r. ?q r \<longrightarrow> g r = f r) \<and> n = length (filter ?q (crows (fc_db s)))"
    using u by (rule update_rows) blast
  have id: "fk_id (g r) = fk_id r" "fc_open (g r) \<longrightarrow> fc_open r" for r using g(4) [of r] f by auto
  then have "live k (fc_db s') \<longrightarrow> live k (fc_db s)" for k by (auto simp: live_def g(1,2))
  then have "evolves s s'" using g(3) update_settled [OF u f(1)] by (auto simp: evolves_def credit_def)
  moreover have "Suc (credit i s') \<le> credit i s" if wf: "c.wf_rows (fc_db s)" and n: "x = Inr n" "n \<noteq> 0" for n
  proof -
    from g(5) [OF n(1)] n(2) obtain r0 where r0: "r0 \<in> set (crows (fc_db s))" "?q r0"
      by (auto simp: filter_empty_conv)
    then have "live i (fc_db s)" "i \<in> cids (fc_db s')" using wf g(2) by (auto simp: live_def c.wf_rows_def)
    moreover have "\<not> fc_open (g r)" if "r \<in> set (crows (fc_db s))" "fk_id r = i" for r
    proof -
      have "r = r0" using c.wf_unique [OF wf that(1) r0(1)] that(2) r0(2) by simp
      then show ?thesis using g(5) [OF n(1)] r0(2) f(2) by simp
    qed
    then have "\<not> live i (fc_db s')" using \<open>i \<in> cids (fc_db s')\<close> id by (auto simp: live_def g(1))
    ultimately show ?thesis by (simp add: credit_def g(3))
  qed
  ultimately show ?thesis by blast
qed

lemma emit_credit: "fc_emit e s = (s', x) \<Longrightarrow> fc_db s' = fc_db s \<and> credit k s' = credit k s + (if completes k e then 1 else 0)"
  by (auto simp: fc_emit_def credit_def completions_def)

text \<open>Closing a command and reporting it, as the failure and the timeout handlers do.\<close>

lemma close_and_report:
  assumes f: "\<And>r. fk_id (f r) = fk_id r" "\<And>r. \<not> fc_open (f r)" and e: "\<And>k. completes k e \<longleftrightarrow> i = k"
  shows "act_rel evolves (act_bind (update_open env i p f) (\<lambda>n. if n = 0 then act_return () else fc_emit e))"
  unfolding act_rel_def
proof
  fix s
  obtain s' x where u: "update_open env i p f s = (s', x)" by fastforce
  note close = update_close [OF u f]
  show "evolves s (fst (act_bind (update_open env i p f) (\<lambda>n. if n = 0 then act_return () else fc_emit e) s))"
  proof (cases "\<exists>n. x = Inr n \<and> n \<noteq> 0")
    case True
    obtain s2 y where em: "fc_emit e s' = (s2, y)" by fastforce
    have "credit k s2 \<le> credit k s" if "c.wf_rows (fc_db s)" for k
    proof (cases "k = i")
      case True
      with emit_credit [OF em, of k] close e \<open>\<exists>n. x = Inr n \<and> n \<noteq> 0\<close> that show ?thesis by auto
    next
      case False
      with emit_credit [OF em, of k] close e that show ?thesis by (auto simp: evolves_def)
    qed
    with close emit_credit [OF em] have "evolves s s2" by (auto simp: evolves_def)
    with u em True show ?thesis by auto
  next
    case False
    with u close show ?thesis by (cases x) auto
  qed
qed

lemma opened [simp]: "fc_open (r\<lparr>fk_status := Fc_pending\<rparr>)" "fc_open (r\<lparr>fk_status := Fc_sent\<rparr>)"
  "\<not> fc_open (r\<lparr>fk_status := Fc_failed\<rparr>)" "\<not> fc_open (r\<lparr>fk_status := Fc_success\<rparr>)" "\<not> fc_open (r\<lparr>fk_status := Fc_timeout\<rparr>)"
  by (simp_all add: fc_open_def)

lemma open_frame [simp]: "fc_open (r\<lparr>fk_error := e\<rparr>) = fc_open r" "fc_open (r\<lparr>fk_completedAt := t\<rparr>) = fc_open r"
  "fc_open (r\<lparr>fk_sentAt := t\<rparr>) = fc_open r" "fc_open (r\<lparr>fk_attempts := n\<rparr>) = fc_open r" "fc_open (r\<lparr>fk_result := v\<rparr>) = fc_open r"
  "fc_open (r\<lparr>fk_id := i\<rparr>) = fc_open r"
  by (simp_all add: fc_open_def)

lemma close_evolves:
  assumes "\<And>r. fk_id (f r) = fk_id r" "\<And>r. \<not> fc_open (f r)"
  shows "act_rel evolves (update_open env i p f)"
  unfolding act_rel_def using update_close [OF _ assms] by (metis eq_fst_iff)

lemma markCommandSent_evolves: "act_rel evolves (markCommandSent env now i)"
  unfolding markCommandSent_def by (intro evolves_rules update_keep_open) simp_all

lemma failed_read_evolves: "act_rel evolves (failed_read env i)"
  unfolding failed_read_def by (intro in_db_evolves find_keeps)

lemma failed_write_evolves: "act_rel evolves (failed_write env cfg now c err)"
proof -
  have "act_rel evolves (act_bind (update_open env (fk_id c) p (\<lambda>r. r\<lparr>fk_status := Fc_failed, fk_error := Some err, fk_completedAt := Some now\<rparr>))
      (\<lambda>n. if n = 0 then act_return () else fc_emit (Ev_failed (fk_id c) (fk_sensorId c) (fk_commandType c) err)))" for p
    by (intro close_and_report) simp_all
  moreover have "act_rel evolves (update_open env (fk_id c) p (\<lambda>r. r\<lparr>fk_status := Fc_pending, fk_error := Some err\<rparr>))" for p
    by (intro update_keep_open) simp_all
  ultimately show ?thesis unfolding failed_write_def by (simp add: evolves_rules)
qed

lemma markCommandFailed_evolves: "act_rel evolves (markCommandFailed env cfg now i err)"
  unfolding markCommandFailed_def
  by (intro evolves_rules failed_read_evolves) (auto split: option.split intro!: evolves_rules failed_write_evolves)

lemma cancel_evolves: "act_rel evolves (fleet_cancelCommand env now i)"
  unfolding fleet_cancelCommand_def by (intro evolves_rules close_evolves) simp_all

lemma timeout_one_evolves: "act_rel evolves (timeout_one env now c)"
  unfolding timeout_one_def by (intro close_and_report) simp_all

lemma checkTimeouts_evolves: "act_rel evolves (checkTimeouts env now)"
  unfolding checkTimeouts_def by (intro evolves_rules in_db_evolves find_keeps timeout_one_evolves)

lemma cleanup_evolves: "act_rel evolves (cleanupOldCommands env now days)"
  unfolding act_rel_def
proof
  fix s :: "'w commander"
  let ?p = "\<lambda>r. \<not> fc_open r \<and> (case fk_completedAt r of None \<Rightarrow> False | Some t \<Rightarrow> t \<le> now - days * 86400000)"
  obtain w x where d: "tb_deleteMany (fe_commands env) ?p (fc_db s) = (w, x)" by fastforce
  have r: "crows w = crows (fc_db s) \<or> crows w = filter (\<lambda>r. \<not> ?p r) (crows (fc_db s))" "cids w = cids (fc_db s)"
    using c.deleteMany [OF d] by (cases x; simp)+
  then have "live k w = live k (fc_db s)" for k by (auto simp: live_def)
  moreover have "settled (fc_db s) w"
  proof -
    have "c.wf_rows (fc_db s) \<longrightarrow> c.wf_rows w" using c.wf_delete [OF _ d] by blast
    moreover have "r \<in> set (crows w) \<or> (\<forall>r' \<in> set (crows w). fk_id r' \<noteq> fk_id r)"
      if "c.wf_rows (fc_db s)" "r \<in> set (crows (fc_db s))" for r
    proof (rule disjCI)
      assume "\<not> (\<forall>r' \<in> set (crows w). fk_id r' \<noteq> fk_id r)"
      then obtain r' where "r' \<in> set (crows w)" "fk_id r' = fk_id r" by blast
      moreover from this have "r' = r" using r(1) c.wf_unique [OF that(1), of r' r] that(2) by auto
      ultimately show "r \<in> set (crows w)" by simp
    qed
    ultimately show ?thesis using r by (auto simp: settled_def)
  qed
  ultimately show "evolves s (fst (cleanupOldCommands env now days s))"
    using d by (simp add: cleanupOldCommands_def in_db_def evolves_def credit_def)
qed

lemma create_evolves:
  assumes r: "fc_open r"
  shows "act_rel evolves (in_db (tb_create (fe_commands env) r))"
  unfolding act_rel_def
proof
  fix s :: "'w commander"
  obtain w x where c: "tb_create (fe_commands env) r (fc_db s) = (w, x)" by fastforce
  show "evolves s (fst (in_db (tb_create (fe_commands env) r) s))"
  proof (cases x)
    case (Inl e)
    then have "crows w = crows (fc_db s)" "cids w = cids (fc_db s)" using c.create [OF c] by simp_all
    with c show ?thesis by (simp add: in_db_def same_evolves)
  next
    case (Inr r')
    obtain i where i: "i \<notin> cids (fc_db s)" "crows w = crows (fc_db s) @ [r\<lparr>fk_id := i\<rparr>]"
      "cids w = insert i (cids (fc_db s))" using c.create [OF c] by (simp only: Inr sum.case) blast
    have "live k w = live k (fc_db s)" for k
      using i(1) r by (cases "k = i") (simp_all add: live_def i(2,3))
    moreover have "settled (fc_db s) w"
      unfolding settled_def using c.wf_create [OF _ c] i(1) by (simp add: i(2,3) ball_Un) auto
    ultimately show ?thesis using c by (simp add: in_db_def evolves_def credit_def)
  qed
qed

lemma emit_sent_evolves: "act_rel evolves (fc_emit (Ev_sent i sid t))"
  unfolding act_rel_def by (auto simp: fc_emit_def completions_def intro!: same_evolves)

lemma create_command_evolves: "act_rel evolves (create_command env now tenantId sensorId cmd t)"
  unfolding create_command_def
  using sensors_frame findFirst_keeps [OF sensors_frame(1)] findFirst_keeps [OF sensors_frame(2)]
  by (auto intro!: evolves_rules in_db_evolves find_keeps create_evolves simp: fc_open_def split: option.split)

lemma hand_over_evolves: "act_rel evolves (hand_over env cfg now sensorId cmd i)"
proof -
  have "act_rel evolves (act_modify (\<lambda>s. s\<lparr>fc_sends := g s\<rparr>))" for g
    unfolding act_rel_def by (auto intro!: same_evolves)
  then show ?thesis
    unfolding hand_over_def
    by (auto intro!: evolves_rules markCommandFailed_evolves in_db_evolves dest: sender_frame split: option.split)
qed

lemma sendCommand_evolves: "act_rel evolves (fleet_sendCommand env cfg now tenantId sensorId cmd)"
proof -
  have "act_rel evolves (command_timeout env cfg sensorId cmd)"
    unfolding command_timeout_def Let_def
    by (auto intro!: evolves_rules in_db_evolves dest: metrics_frame split: option.split)
  moreover have "act_rel evolves (ensureCommandEnabled cfg t)" for t
    unfolding ensureCommandEnabled_def by (auto intro!: evolves_rules)
  ultimately show ?thesis
    unfolding fleet_sendCommand_def
    by (intro evolves_rules create_command_evolves emit_sent_evolves hand_over_evolves)
qed

lemma success_finish_credit:
  assumes "success_finish env i res s = (s', x)"
  shows "crows (fc_db s') = crows (fc_db s) \<and> cids (fc_db s') = cids (fc_db s) \<and>
    credit k s' \<le> credit k s + (if k = i then 1 else 0)"
proof -
  obtain w y where f: "tb_findFirst (fe_commands env) (\<lambda>r. fk_id r = i) (fc_db s) = (w, y)" by fastforce
  have "crows w = crows (fc_db s)" "cids w = cids (fc_db s)" using c.findFirst_frame [OF f] by auto
  moreover have "fc_db s' = w \<and> (fc_events s' = fc_events s \<or> (\<exists>sid t. fc_events s' = fc_events s @ [Ev_success i sid t res]))"
  proof (cases y)
    case (Inr command)
    then show ?thesis using assms f
      by (cases command) (auto simp: success_finish_def act_bind_def in_db_def fc_emit_def split: option.splits)
  qed (use assms f in \<open>auto simp: success_finish_def act_bind_def in_db_def\<close>)
  ultimately show ?thesis by (auto simp: credit_def live_def completions_def)
qed

text \<open>At most one completion is emitted or due for each command, and only once it is closed.\<close>

definition fc_inv :: "'w commander \<times> fc_task list \<Rightarrow> bool" where
  "fc_inv st \<longleftrightarrow> c.wf_rows (fc_db (fst st)) \<and>
     (\<forall>k. credit k (fst st) + length (filter (finishes k) (snd st)) \<le> 1)"

lemma evolves_inv: "evolves s s' \<Longrightarrow> fc_inv (s, ts) \<Longrightarrow> fc_inv (s', ts)"
  unfolding fc_inv_def evolves_def fst_conv snd_conv
  by (metis settledD(1) add_le_mono1 order_trans)

lemma run_evolves: "act_rel evolves m \<Longrightarrow> evolves s (fst (m s))"
  by (simp add: act_rel_def)

lemma resume_ok:
  assumes "fc_inv (s, ts)" "n < length ts"
  shows "fc_inv (fst (fc_resume env cfg now (ts ! n) s), take n ts @ drop (Suc n) ts)
    \<and> settled (fc_db s) (fc_db (fst (fc_resume env cfg now (ts ! n) s)))"
proof -
  have len: "length (filter (finishes k) ts) =
      length (filter (finishes k) (take n ts @ drop (Suc n) ts)) + (if finishes k (ts ! n) then 1 else 0)" for k
    using arg_cong [OF id_take_nth_drop [OF assms(2)], of "\<lambda>xs. length (filter (finishes k) xs)"] by simp
  show ?thesis
  proof (cases "ts ! n")
    case (Finish_success i res)
    obtain s' x where f: "success_finish env i res s = (s', x)" by fastforce
    have cr: "credit k s' \<le> credit k s + (if k = i then 1 else 0)" for k using success_finish_credit [OF f] by blast
    have "credit k s' + length (filter (finishes k) (take n ts @ drop (Suc n) ts))
        \<le> credit k s + length (filter (finishes k) ts)" for k
      using len [of k] cr [of k] Finish_success by (cases "k = i") (simp_all del: filter_append)
    then have "\<forall>k. credit k s' + length (filter (finishes k) (take n ts @ drop (Suc n) ts)) \<le> 1"
      using assms(1) order_trans unfolding fc_inv_def fst_conv snd_conv by blast
    with success_finish_credit [OF f] f Finish_success assms(1) show ?thesis
      by (auto simp: fc_inv_def c.wf_rows_def settled_def)
  next
    case (Write_failure c err)
    then have "length (filter (finishes k) (take n ts @ drop (Suc n) ts)) = length (filter (finishes k) ts)" for k
      using len [of k] by simp
    with Write_failure assms(1) evolves_inv [OF run_evolves [OF failed_write_evolves], of s ts cfg now c err]
      run_evolves [OF failed_write_evolves, of s cfg now c err]
    show ?thesis by (auto simp: fc_inv_def evolves_def simp del: filter_append)
  qed
qed

lemma complete_ok:
  assumes "fc_inv (s, ts)" and "success_update env now i res s = (s', x)"
  shows "fc_inv (s', case x of Inr n \<Rightarrow> if n = 0 then ts else ts @ [Finish_success i res] | Inl e \<Rightarrow> ts)
    \<and> settled (fc_db s) (fc_db s')"
proof -
  have u: "evolves s s' \<and> (c.wf_rows (fc_db s) \<longrightarrow> (\<forall>n. x = Inr n \<longrightarrow> n \<noteq> 0 \<longrightarrow> Suc (credit i s') \<le> credit i s))"
    using assms(2) unfolding success_update_def by (rule update_close) simp_all
  show ?thesis
  proof (cases "\<exists>n. x = Inr n \<and> n \<noteq> 0")
    case True
    have "credit k s' + length (filter (finishes k) (ts @ [Finish_success i res]))
        \<le> credit k s + length (filter (finishes k) ts)" for k
      using u True assms(1) unfolding fc_inv_def evolves_def by (cases "k = i") auto
    then have "\<forall>k. credit k s' + length (filter (finishes k) (ts @ [Finish_success i res])) \<le> 1"
      using assms(1) order_trans unfolding fc_inv_def fst_conv snd_conv by blast
    with True u evolves_inv [OF _ assms(1), of s'] show ?thesis
      by (auto simp: fc_inv_def evolves_def simp del: filter_append)
  next
    case False
    with u evolves_inv [OF _ assms(1)] show ?thesis by (auto simp: evolves_def split: sum.splits)
  qed
qed

lemma fc_step_ok:
  assumes "fc_inv (s, ts)"
  shows "fc_inv (fc_step env cfg op (s, ts)) \<and> settled (fc_db s) (fc_db (fst (fc_step env cfg op (s, ts))))"
proof -
  have ev: "fc_inv (fst (m s), ts) \<and> settled (fc_db s) (fc_db (fst (m s)))" if "act_rel evolves m"
    for m :: "('w commander, 'x) act"
    using evolves_inv [OF run_evolves [OF that] assms] run_evolves [OF that, of s] by (auto simp: evolves_def)
  show ?thesis
  proof (cases op)
    case (Op_complete now i res)
    obtain s' x where "success_update env now i res s = (s', x)" by fastforce
    with complete_ok [OF assms this] Op_complete show ?thesis by (cases x) auto
  next
    case (Op_failed i err)
    obtain s' x where r: "failed_read env i s = (s', x)" by fastforce
    with ev [OF failed_read_evolves, of i] have "fc_inv (s', ts)" "settled (fc_db s) (fc_db s')" by auto
    with r Op_failed show ?thesis by (auto simp: fc_inv_def split: sum.split option.split)
  next
    case (Op_resume now n)
    with assms resume_ok [OF assms, of n] settled_refl show ?thesis by simp
  qed (use ev [OF sendCommand_evolves] ev [OF markCommandSent_evolves] ev [OF checkTimeouts_evolves]
      ev [OF timeout_one_evolves] ev [OF cancel_evolves] ev [OF cleanup_evolves] in \<open>auto\<close>)
qed

lemma fc_run_ok:
  assumes "fc_inv st"
  shows "fc_inv (fc_run env cfg ops st) \<and> settled (fc_db (fst st)) (fc_db (fst (fc_run env cfg ops st)))"
  using assms
proof (induction ops arbitrary: st)
  case (Cons op ops)
  obtain s ts where st: "st = (s, ts)" by fastforce
  note step = fc_step_ok [OF Cons.prems [unfolded st], of cfg op]
  with Cons.IH [of "fc_step env cfg op st"] st show ?case
    by (auto simp: fc_run_def intro: settled_trans)
qed (simp add: fc_run_def settled_refl)

text \<open>Effects confined to the sensors in \<open>A\<close>: commands handed over, and rows created or changed.\<close>

definition confined :: "string set \<Rightarrow> 'w commander \<Rightarrow> 'w commander \<Rightarrow> bool" where
  "confined A s s' \<longleftrightarrow> srows (fc_db s') = srows (fc_db s) \<and>
     (\<exists>new. fc_sends s' = fc_sends s @ new \<and> fst ` set new \<subseteq> A) \<and>
     (c.wf_rows (fc_db s) \<longrightarrow> c.wf_rows (fc_db s') \<and>
        (\<forall>r \<in> set (crows (fc_db s')). r \<in> set (crows (fc_db s)) \<or> fk_sensorId r \<in> A))"

lemma confined_refl [simp]: "confined A s s"
  by (simp add: confined_def)

lemma confined_trans:
  assumes "confined A a b" "confined A b d"
  shows "confined A a d"
proof -
  obtain n m where "fc_sends b = fc_sends a @ n" "fst ` set n \<subseteq> A" "fc_sends d = fc_sends b @ m" "fst ` set m \<subseteq> A"
    using assms by (auto simp: confined_def)
  then have "\<exists>new. fc_sends d = fc_sends a @ new \<and> fst ` set new \<subseteq> A" by (intro exI [of _ "n @ m"]) auto
  with assms show ?thesis unfolding confined_def by fastforce
qed

lemma confined_quiet:
  assumes "crows (fc_db s') = crows (fc_db s)" "cids (fc_db s') = cids (fc_db s)" "srows (fc_db s') = srows (fc_db s)"
    "fc_sends s' = fc_sends s"
  shows "confined A s s'"
  using assms by (simp add: confined_def c.wf_rows_def)

lemma in_db_quiet:
  assumes "act_keeps crows m" "act_keeps cids m" "act_keeps srows m" "in_db m s = (s', x)"
  shows "confined A s s'" "fc_events s' = fc_events s"
  using assms by (auto simp: in_db_def split: prod.splits dest: act_keepsD intro!: confined_quiet)

lemma update_confined:
  assumes u: "update_open env i p f s = (s', x)"
    and f: "\<And>r. fk_id (f r) = fk_id r" "\<And>r. fk_sensorId (f r) = fk_sensorId r"
    and i: "\<And>r. c.wf_rows (fc_db s) \<Longrightarrow> r \<in> set (crows (fc_db s)) \<Longrightarrow> fk_id r = i \<Longrightarrow> fk_sensorId r \<in> A"
  shows "confined A s s'"
proof -
  obtain g where g: "crows (fc_db s') = map g (crows (fc_db s))"
    "\<And>r. g r = r \<or> (fk_id r = i \<and> fc_open r \<and> p r \<and> g r = f r)" using u by (rule update_rows) blast
  have "fc_sends s' = fc_sends s \<and> srows (fc_db s') = srows (fc_db s)"
    using u commands_frame by (auto simp: update_open_def in_db_def tb_frames_def act_keeps_def split: prod.splits) (metis fst_conv)
  moreover have "c.wf_rows (fc_db s) \<longrightarrow> c.wf_rows (fc_db s')"
    using update_settled [OF u f(1)] by (simp add: settled_def)
  moreover have "g r = r \<or> fk_sensorId (g r) \<in> A" if "c.wf_rows (fc_db s)" "r \<in> set (crows (fc_db s))" for r
    using g(2) [of r] i [OF that] f(2) by auto
  ultimately show ?thesis by (fastforce simp: confined_def g(1))
qed

lemma markCommandFailed_confined:
  assumes "markCommandFailed env cfg now i err s = (s', x)"
    and i: "\<And>r. c.wf_rows (fc_db s) \<Longrightarrow> r \<in> set (crows (fc_db s)) \<Longrightarrow> fk_id r = i \<Longrightarrow> fk_sensorId r \<in> A"
  shows "confined A s s'"
proof -
  obtain s1 y where r: "failed_read env i s = (s1, y)" by fastforce
  have keeps: "act_keeps srows (tb_findFirst (fe_commands env) p)" for p by (rule findFirst_keeps [OF commands_frame])
  note q = in_db_quiet(1) [OF find_keeps(3,4) keeps r [unfolded failed_read_def], of A]
  have rows: "crows (fc_db s1) = crows (fc_db s)" "cids (fc_db s1) = cids (fc_db s)"
    using act_keepsD [OF find_keeps(3)] act_keepsD [OF find_keeps(4)] r by (auto simp: failed_read_def in_db_def split: prod.splits)
  show ?thesis
  proof (cases "\<exists>c. y = Inr (Some c)")
    case True
    then obtain c where y: "y = Inr (Some c)" by blast
    then have "fk_id c = i" using r by (auto simp: failed_read_def in_db_def split: prod.splits dest: c.findFirst_Some)
    with y assms r have w: "failed_write env cfg now c err s1 = (s', x)" by (simp add: markCommandFailed_def)
    have upd: "confined A s1 s2" if "update_open env i p f s1 = (s2, z)" "\<And>r. fk_id (f r) = fk_id r"
        "\<And>r. fk_sensorId (f r) = fk_sensorId r" for p f s2 z
      using that(1) by (rule update_confined) (use that i rows in \<open>auto simp: c.wf_rows_def\<close>)
    have "confined A s1 s'"
    proof (cases "fc_open c")
      case open': True
      show ?thesis
      proof (cases "fk_attempts c < ft_maxRetries cfg")
        case True
        obtain s2 z where "update_open env i (\<lambda>r. fk_attempts r < ft_maxRetries cfg)
            (\<lambda>r. r\<lparr>fk_status := Fc_pending, fk_error := Some err\<rparr>) s1 = (s2, z)" by fastforce
        moreover from upd [OF this] have "confined A s1 s2" by simp
        ultimately show ?thesis using w open' True \<open>fk_id c = i\<close> by (cases z) (auto simp: failed_write_def)
      next
        case False
        obtain s2 z where z: "update_open env i (\<lambda>_. True)
            (\<lambda>r. r\<lparr>fk_status := Fc_failed, fk_error := Some err, fk_completedAt := Some now\<rparr>) s1 = (s2, z)" by fastforce
        moreover from upd [OF this] have "confined A s1 s2" by simp
        moreover have "confined A s2 (s2\<lparr>fc_events := es\<rparr>)" for es by (rule confined_quiet) simp_all
        moreover have "s' = s2 \<or> (\<exists>es. s' = s2\<lparr>fc_events := es\<rparr>)"
          using w open' False \<open>fk_id c = i\<close> z by (cases z) (auto simp: failed_write_def fc_emit_def split: if_splits)
        ultimately show ?thesis using confined_trans by blast
      qed
    qed (use w in \<open>simp add: failed_write_def\<close>)
    with q show ?thesis by (rule confined_trans)
  next
    case False
    with assms r have "s' = s1" by (cases y) (auto simp: markCommandFailed_def split: option.splits)
    with q show ?thesis by simp
  qed
qed

lemma sensor_find_keeps:
  "act_keeps crows (tb_findFirst (fe_sensors env) p)" "act_keeps cids (tb_findFirst (fe_sensors env) p)"
  "act_keeps srows (tb_findFirst (fe_sensors env) p)"
  using findFirst_keeps sensors_frame s.findFirst_frame unfolding act_keeps_def by (blast, blast, metis fst_conv surj_pair)

lemma command_find_srows: "act_keeps srows (tb_findFirst (fe_commands env) p)"
  by (rule findFirst_keeps [OF commands_frame])

text \<open>Creation succeeds only for a sensor of the tenant, and returns a row of that sensor.\<close>

lemma create_command_confined:
  assumes "create_command env now tenantId sensorId cmd t s = (s', x)"
    and A: "\<And>sn. sn \<in> set (srows (fc_db s)) \<Longrightarrow> sn_id sn = sensorId \<Longrightarrow> sn_tenantId sn = tenantId \<Longrightarrow> sensorId \<in> A"
  shows "confined A s s' \<and> (\<forall>r. x = Inr r \<longrightarrow> sensorId \<in> A \<and> r \<in> set (crows (fc_db s')) \<and> fk_sensorId r = sensorId)"
  using assms(1) unfolding create_command_def
proof (cases rule: act_bind_cases)
  case (threw e)
  then show ?thesis using in_db_quiet(1) [OF sensor_find_keeps threw(1)] by simp
next
  case (went_on s1 sensor)
  note q1 = in_db_quiet(1) [OF sensor_find_keeps went_on(1)]
  show ?thesis
  proof (cases "\<exists>sn. sensor = Some sn \<and> sn_tenantId sn = tenantId")
    case False
    with went_on(2) q1 show ?thesis by (cases sensor) auto
  next
    case True
    then obtain sn where sn: "sensor = Some sn" "sn_tenantId sn = tenantId" by blast
    then have own: "sensorId \<in> A"
      using went_on(1) A s.findFirst_Some [of "\<lambda>s. sn_id s = sensorId" "fc_db s"] by (auto simp: in_db_def split: prod.splits)
    from went_on(2) sn have "act_bind (in_db (tb_findFirst (fe_commands env) (\<lambda>r. fk_sensorId r = sensorId \<and>
          fk_commandType r = sc_type cmd \<and> fk_status r = Fc_pending \<and> now - 5000 \<le> fk_createdAt r)))
        (\<lambda>existing. case existing of Some e \<Rightarrow> act_return e
          | None \<Rightarrow> in_db (tb_create (fe_commands env)
              \<lparr> fk_id = [], fk_sensorId = sensorId, fk_commandType = sc_type cmd, fk_payload = sc_payload cmd,
                fk_status = Fc_pending, fk_result = None, fk_error = None, fk_queuedAt = now, fk_sentAt = None,
                fk_completedAt = None, fk_attempts = 0, fk_timeoutAt = t, fk_createdAt = now \<rparr>)) s1 = (s', x)"
      by simp
    then show ?thesis
    proof (cases rule: act_bind_cases)
      case (threw e)
      then show ?thesis using confined_trans [OF q1 in_db_quiet(1) [OF find_keeps(3,4) command_find_srows threw(1)]] by simp
    next
      case (went_on s2 existing)
      note q2 = confined_trans [OF q1 in_db_quiet(1) [OF find_keeps(3,4) command_find_srows went_on(1)]]
      show ?thesis
      proof (cases existing)
        case (Some e)
        have "e \<in> set (crows (fc_db s2)) \<and> fk_sensorId e = sensorId"
          using c.findFirst_Some [OF in_db_run(1) [OF went_on(1) [unfolded Some]]]
            c.findFirst_frame [OF in_db_run(1) [OF went_on(1)]] by simp
        with q2 own Some went_on(2) show ?thesis by auto
      next
        case None
        let ?r = "\<lparr> fk_id = [], fk_sensorId = sensorId, fk_commandType = sc_type cmd, fk_payload = sc_payload cmd,
                fk_status = Fc_pending, fk_result = None, fk_error = None, fk_queuedAt = now, fk_sentAt = None,
                fk_completedAt = None, fk_attempts = 0, fk_timeoutAt = t, fk_createdAt = now \<rparr>"
        obtain w where w: "tb_create (fe_commands env) ?r (fc_db s2) = (w, x)" "s' = s2\<lparr>fc_db := w\<rparr>"
          using went_on(2) None by (auto simp: in_db_def split: prod.splits)
        have "crows w = crows (fc_db s2) \<or> (\<exists>i. crows w = crows (fc_db s2) @ [?r\<lparr>fk_id := i\<rparr>])"
          using c.create [OF w(1)] by (cases x) auto
        moreover have "\<forall>r. x = Inr r \<longrightarrow> r \<in> set (crows w) \<and> fk_sensorId r = sensorId" using c.create [OF w(1)] by auto
        moreover have "srows w = srows (fc_db s2)"
          using commands_frame w(1) unfolding tb_frames_def act_keeps_def by (metis fst_conv)
        ultimately have "confined A s2 s' \<and> (\<forall>r. x = Inr r \<longrightarrow> r \<in> set (crows (fc_db s')) \<and> fk_sensorId r = sensorId)"
          using w(2) own c.wf_create [OF _ w(1)] by (auto simp: confined_def)
        with confined_trans [OF q2] own show ?thesis by simp
      qed
    qed
  qed
qed

lemma hand_over_confined:
  assumes "hand_over env cfg now sensorId cmd i s = (s', x)" "sensorId \<in> A"
    and i: "\<And>r. c.wf_rows (fc_db s) \<Longrightarrow> r \<in> set (crows (fc_db s)) \<Longrightarrow> fk_id r = i \<Longrightarrow> fk_sensorId r \<in> A"
  shows "confined A s s'"
proof (cases "fe_sender env")
  case (Some send)
  let ?s1 = "s\<lparr>fc_sends := fc_sends s @ [(sensorId, sc_type cmd, sc_payload cmd, i)]\<rparr>"
  obtain w y where w: "send sensorId (sc_type cmd) (sc_payload cmd) i (fc_db s) = (w, y)" by fastforce
  have keep: "crows w = crows (fc_db s)" "cids w = cids (fc_db s)" "srows w = srows (fc_db s)"
    using sender_frame [OF Some, of sensorId "sc_type cmd" "sc_payload cmd" i] w unfolding act_keeps_def by (metis fst_conv)+
  have 1: "confined A s (?s1\<lparr>fc_db := w\<rparr>)" using assms(2) keep by (auto simp: confined_def c.wf_rows_def)
  show ?thesis
  proof (cases y)
    case (Inl e)
    with assms(1) Some w have "markCommandFailed env cfg now i ''Failed to initiate send'' (?s1\<lparr>fc_db := w\<rparr>) = (s', x)"
      by (simp add: hand_over_def act_try_def in_db_def)
    then have "confined A (?s1\<lparr>fc_db := w\<rparr>) s'"
      by (rule markCommandFailed_confined) (use i keep in \<open>auto simp: c.wf_rows_def\<close>)
    with 1 show ?thesis by (rule confined_trans)
  next
    case (Inr u)
    with assms(1) Some w 1 show ?thesis by (simp add: hand_over_def act_try_def in_db_def)
  qed
qed (use assms(1) in \<open>simp add: hand_over_def\<close>)

lemma command_timeout_confined:
  assumes "command_timeout env cfg sensorId cmd s = (s', x)"
  shows "confined A s s'"
proof (cases "fe_metrics env")
  case (Some g)
  have q: "confined A s s1" if "in_db (g sensorId) s = (s1, y)" for s1 y
    using in_db_quiet(1) [OF _ _ _ that] metrics_frame [OF Some, of sensorId] by blast
  show ?thesis
  proof (cases "ft_enableAdaptiveTimeout cfg")
    case True
    obtain s1 y where y: "in_db (g sensorId) s = (s1, y)" by fastforce
    then have "s1 = s'" using assms Some True by (cases y) (auto simp: command_timeout_def Let_def)
    with q [OF y] show ?thesis by simp
  qed (use assms Some in \<open>simp add: command_timeout_def Let_def\<close>)
qed (use assms in \<open>simp add: command_timeout_def Let_def\<close>)

lemma sendCommand_confined:
  assumes "fleet_sendCommand env cfg now tenantId sensorId cmd s = (s', x)"
    and A: "\<And>sn. sn \<in> set (srows (fc_db s)) \<Longrightarrow> sn_id sn = sensorId \<Longrightarrow> sn_tenantId sn = tenantId \<Longrightarrow> sensorId \<in> A"
  shows "confined A s s'" "x = Inr i \<Longrightarrow> sensorId \<in> A"
proof -
  have "confined A s s' \<and> (\<forall>i. x = Inr i \<longrightarrow> sensorId \<in> A)"
    using assms(1) unfolding fleet_sendCommand_def
  proof (cases rule: act_bind_cases)
    case (threw e)
    then show ?thesis by (auto simp: ensureCommandEnabled_def split: if_splits)
  next
    case (went_on s1 u)
    then have "s1 = s" by (auto simp: ensureCommandEnabled_def split: if_splits)
    note went_on(2) [unfolded this]
    then show ?thesis
    proof (cases rule: act_bind_cases)
      case (threw e)
      then show ?thesis using command_timeout_confined by blast
    next
      case (went_on s2 timeout)
      then have q: "confined A s s2" using command_timeout_confined by blast
      then have "srows (fc_db s2) = srows (fc_db s)" by (simp add: confined_def)
      from went_on(2) show ?thesis
      proof (cases rule: act_bind_cases)
        case (threw e)
        then show ?thesis
          using create_command_confined [OF threw(1), of A] A \<open>srows (fc_db s2) = _\<close> q confined_trans by auto
      next
        case (went_on s3 created)
        then have c: "confined A s2 s3" "sensorId \<in> A" "created \<in> set (crows (fc_db s3))" "fk_sensorId created = sensorId"
          using create_command_confined [OF went_on(1), of A] A \<open>srows (fc_db s2) = _\<close> by auto
        let ?s4 = "s3\<lparr>fc_events := fc_events s3 @ [Ev_sent (fk_id created) sensorId (sc_type cmd)]\<rparr>"
        from went_on(2) have "act_bind (hand_over env cfg now sensorId cmd (fk_id created)) (\<lambda>_. act_return (fk_id created)) ?s4 = (s', x)"
          by (simp add: fc_emit_def)
        then obtain z where "hand_over env cfg now sensorId cmd (fk_id created) ?s4 = (s', z)"
          by (cases rule: act_bind_cases) auto
        then have "confined A ?s4 s'"
          by (rule hand_over_confined) (use c c.wf_unique in auto)
        moreover have "confined A s3 ?s4" by (rule confined_quiet) simp_all
        ultimately show ?thesis using q c(1,2) confined_trans by blast
      qed
    qed
  qed
  then show "confined A s s'" "x = Inr i \<Longrightarrow> sensorId \<in> A" by blast+
qed

lemma sendMultiple_confined:
  assumes "sendCommandToMultiple env cfg now tenantId sensorIds cmd s = (s', x)"
    and A: "\<And>i sn. i \<in> set sensorIds \<Longrightarrow> sn \<in> set (srows (fc_db s)) \<Longrightarrow> sn_id sn = i \<Longrightarrow> sn_tenantId sn = tenantId \<Longrightarrow> i \<in> A"
  shows "confined A s s' \<and> (\<forall>ks. x = Inr ks \<longrightarrow> set sensorIds \<subseteq> A \<and> length ks = length sensorIds)"
  using assms
proof (induction sensorIds arbitrary: s s' x)
  case (Cons i is')
  from Cons.prems(1) have b: "act_bind (fleet_sendCommand env cfg now tenantId i cmd)
      (\<lambda>y. act_bind (sendCommandToMultiple env cfg now tenantId is' cmd) (\<lambda>ys. act_return (y # ys))) s = (s', x)"
    by (simp add: sendCommandToMultiple_def)
  then show ?case
  proof (cases rule: act_bind_cases)
    case (threw e)
    then show ?thesis using sendCommand_confined(1) [OF threw(1), of A] Cons.prems(2) by auto
  next
    case (went_on s1 k)
    then have 1: "confined A s s1" "i \<in> A" using sendCommand_confined [OF went_on(1), of A] Cons.prems(2) by auto
    then have sr: "srows (fc_db s1) = srows (fc_db s)" by (simp add: confined_def)
    obtain s2 y where m: "sendCommandToMultiple env cfg now tenantId is' cmd s1 = (s2, y)" by fastforce
    then have "confined A s1 s2 \<and> (\<forall>ks. y = Inr ks \<longrightarrow> set is' \<subseteq> A \<and> length ks = length is')"
      by (rule Cons.IH) (use Cons.prems(2) sr in auto)
    with m 1 went_on(2) confined_trans show ?thesis by (cases y) auto
  qed
qed (simp add: sendCommandToMultiple_def)

lemma run_summary:
  assumes "distinct (map fk_id (crows w))" "fk_id ` set (crows w) \<subseteq> cids w"
  shows "case fc_run env cfg ops (\<lparr> fc_db = w, fc_events = [], fc_sends = sn \<rparr>, []) of (s, tasks) \<Rightarrow>
    completions k (fc_events s) \<le> 1 \<and>
    (completions k (fc_events s) = 1 \<longrightarrow> (\<forall>r \<in> set (crows (fc_db s)). fk_id r = k \<longrightarrow> \<not> fc_open r)) \<and>
    (\<forall>r \<in> set (crows w). \<not> fc_open r \<longrightarrow>
       r \<in> set (crows (fc_db s)) \<or> (\<forall>r' \<in> set (crows (fc_db s)). fk_id r' \<noteq> fk_id r))"
proof -
  let ?s0 = "\<lparr> fc_db = w, fc_events = [], fc_sends = sn \<rparr>"
  obtain s ts where r: "fc_run env cfg ops (?s0, []) = (s, ts)" by fastforce
  have wf: "c.wf_rows w" using assms by (simp add: c.wf_rows_def)
  then have "fc_inv (?s0, [])" by (simp add: fc_inv_def credit_def completions_def)
  from fc_run_ok [OF this, of cfg ops] r have inv: "fc_inv (s, ts)" "settled w (fc_db s)" by auto
  then have c: "credit k s \<le> 1" unfolding fc_inv_def fst_conv snd_conv using le_trans le_add1 by blast
  then have "completions k (fc_events s) \<le> 1" by (simp add: credit_def split: if_splits)
  moreover have "\<not> live k (fc_db s)" if "completions k (fc_events s) = 1" using c that by (auto simp: credit_def split: if_splits)
  ultimately show ?thesis using r settledD(4) [OF inv(2) wf] by (auto simp: live_def)
qed

lemma broadcast_confined:
  assumes "broadcastCommand env cfg now tenantId cmd s = (s', x)"
  shows "confined (sn_id ` {sn \<in> set (srows (fc_db s)). sn_tenantId sn = tenantId \<and> sn_connectionState sn = ''CONNECTED''}) s s'"
    (is "confined ?A s s'")
  using assms unfolding broadcastCommand_def
proof (cases rule: act_bind_cases)
  case (threw e)
  have "act_keeps srows (tb_findMany (fe_sensors env) p)" for p
    using s.findMany [of p] unfolding act_keeps_def by (metis fst_conv surj_pair)
  then show ?thesis using in_db_quiet(1) [OF _ _ _ threw(1)] sensors_frame by (auto simp: tb_frames_def)
next
  case (went_on s1 sensors)
  have "act_keeps srows (tb_findMany (fe_sensors env) p)" for p
    using s.findMany [of p] unfolding act_keeps_def by (metis fst_conv surj_pair)
  then have q: "confined ?A s s1" using in_db_quiet(1) [OF _ _ _ went_on(1)] sensors_frame by (auto simp: tb_frames_def)
  have "set sensors = {sn \<in> set (srows (fc_db s)). sn_tenantId sn = tenantId \<and> sn_connectionState sn = ''CONNECTED''}"
    using s.findMany_set [OF in_db_run(1) [OF went_on(1)]] .
  then have "confined ?A s1 s'" using sendMultiple_confined [OF went_on(2), of ?A] by auto
  with q show ?thesis by (rule confined_trans)
qed

text \<open>A failed command that has attempts left goes back to pending; nothing is reported.\<close>

lemma markCommandFailed_retry:
  assumes wf: "c.wf_rows (fc_db s)" and r: "r \<in> set (crows (fc_db s))" "fc_open r" "fk_attempts r < ft_maxRetries cfg"
    and run: "markCommandFailed env cfg now (fk_id r) err s = (s', Inr ())"
  shows "r\<lparr>fk_status := Fc_pending, fk_error := Some err\<rparr> \<in> set (crows (fc_db s')) \<and> fc_events s' = fc_events s"
proof -
  obtain s1 command where f: "failed_read env (fk_id r) s = (s1, Inr command)"
    and w: "(case command of None \<Rightarrow> act_return () | Some c \<Rightarrow> failed_write env cfg now c err) s1 = (s', Inr ())"
    using run by (auto simp: markCommandFailed_def elim: act_bind_cases)
  note f' = in_db_run [OF f [unfolded failed_read_def]]
  have rows: "crows (fc_db s1) = crows (fc_db s)" using c.findFirst_frame [OF f'(1)] by simp
  note ev = f'(3)
  have "command = Some r"
  proof (cases command)
    case None
    then show ?thesis using c.findFirst_None [OF f'(1) [unfolded None] r(1)] by simp
  next
    case (Some c)
    then show ?thesis using c.findFirst_Some [OF f'(1) [unfolded Some]] c.wf_unique [OF wf _ r(1)] by auto
  qed
  with w r have "act_bind (update_open env (fk_id r) (\<lambda>r. fk_attempts r < ft_maxRetries cfg)
      (\<lambda>r. r\<lparr>fk_status := Fc_pending, fk_error := Some err\<rparr>)) (\<lambda>_. act_return ()) s1 = (s', Inr ())"
    by (simp add: failed_write_def)
  then obtain n where u: "update_open env (fk_id r) (\<lambda>r. fk_attempts r < ft_maxRetries cfg)
      (\<lambda>r. r\<lparr>fk_status := Fc_pending, fk_error := Some err\<rparr>) s1 = (s', Inr n)" by (auto elim: act_bind_cases)
  obtain g where g: "crows (fc_db s') = map g (crows (fc_db s1))" "fc_events s' = fc_events s1"
    "\<And>r'. fk_id r' = fk_id r \<and> fc_open r' \<and> fk_attempts r' < ft_maxRetries cfg \<Longrightarrow>
       g r' = r'\<lparr>fk_status := Fc_pending, fk_error := Some err\<rparr>" using u by (rule update_rows) blast
  then show ?thesis using rows r ev by (metis image_eqI list.set_map)
qed

text \<open>A command equal in sensor and type to one created less than five seconds ago gets that command's id.\<close>

lemma sendCommand_duplicate:
  assumes run: "fleet_sendCommand env cfg now tenantId sensorId cmd s = (s', Inr k)"
    and e: "e \<in> set (crows (fc_db s))" "fk_sensorId e = sensorId" "fk_commandType e = sc_type cmd" "fk_status e = Fc_pending"
      "now - 5000 \<le> fk_createdAt e"
    and send: "fe_sender env = Some send" "\<And>i t p k w. snd (send i t p k w) = Inr ()"
    and metrics: "fe_metrics env = None"
  shows "k \<in> fk_id ` {r \<in> set (crows (fc_db s)). fk_sensorId r = sensorId \<and> fk_commandType r = sc_type cmd \<and> fk_status r = Fc_pending} \<and>
    crows (fc_db s') = crows (fc_db s) \<and> fc_sends s' = fc_sends s @ [(sensorId, sc_type cmd, sc_payload cmd, k)]"
proof -
  let ?p = "\<lambda>r. fk_sensorId r = sensorId \<and> fk_commandType r = sc_type cmd \<and> fk_status r = Fc_pending \<and> now - 5000 \<le> fk_createdAt r"
  obtain t s1 created where c: "create_command env now tenantId sensorId cmd t s = (s1, Inr created)" "k = fk_id created"
    and h: "hand_over env cfg now sensorId cmd k (s1\<lparr>fc_events := fc_events s1 @ [Ev_sent k sensorId (sc_type cmd)]\<rparr>) = (s', Inr ())"
    using run metrics by (auto simp: fleet_sendCommand_def command_timeout_def ensureCommandEnabled_def fc_emit_def Let_def
        split: if_splits elim!: act_bind_cases)
  obtain s2 sn where sn: "in_db (tb_findFirst (fe_sensors env) (\<lambda>s. sn_id s = sensorId)) s = (s2, Inr (Some sn))" "sn_tenantId sn = tenantId"
    and rest: "act_bind (in_db (tb_findFirst (fe_commands env) ?p)) (\<lambda>existing. case existing of Some e \<Rightarrow> act_return e
       | None \<Rightarrow> in_db (tb_create (fe_commands env)
          \<lparr> fk_id = [], fk_sensorId = sensorId, fk_commandType = sc_type cmd, fk_payload = sc_payload cmd,
            fk_status = Fc_pending, fk_result = None, fk_error = None, fk_queuedAt = now, fk_sentAt = None,
            fk_completedAt = None, fk_attempts = 0, fk_timeoutAt = t, fk_createdAt = now \<rparr>)) s2 = (s1, Inr created)"
    using c(1) unfolding create_command_def by (elim act_bind_cases) (auto split: option.splits if_splits)
  have s2: "crows (fc_db s2) = crows (fc_db s)" "fc_sends s2 = fc_sends s"
    using act_keepsD [OF sensor_find_keeps(1) in_db_run(1) [OF sn(1)]] in_db_run(2) [OF sn(1)] by simp_all
  from rest obtain s3 existing where ex: "in_db (tb_findFirst (fe_commands env) ?p) s2 = (s3, Inr existing)"
    and then': "(case existing of Some e \<Rightarrow> act_return e
       | None \<Rightarrow> in_db (tb_create (fe_commands env)
          \<lparr> fk_id = [], fk_sensorId = sensorId, fk_commandType = sc_type cmd, fk_payload = sc_payload cmd,
            fk_status = Fc_pending, fk_result = None, fk_error = None, fk_queuedAt = now, fk_sentAt = None,
            fk_completedAt = None, fk_attempts = 0, fk_timeoutAt = t, fk_createdAt = now \<rparr>)) s3 = (s1, Inr created)"
    by (auto elim: act_bind_cases)
  have "existing \<noteq> None" using c.findFirst_None [of ?p "fc_db s2" "fc_db s3" e] in_db_run(1) [OF ex] e s2(1) by auto
  then obtain old where old: "existing = Some old" by blast
  with then' have "s3 = s1" "old = created" by simp_all
  have "old \<in> set (crows (fc_db s2)) \<and> ?p old" using c.findFirst_Some [OF in_db_run(1) [OF ex [unfolded old]]] .
  moreover have "crows (fc_db s1) = crows (fc_db s2)" "fc_sends s1 = fc_sends s2"
    using c.findFirst_frame [OF in_db_run(1) [OF ex]] in_db_run(2) [OF ex] \<open>s3 = s1\<close> by simp_all
  moreover have "crows (fc_db s') = crows (fc_db s1) \<and> fc_sends s' = fc_sends s1 @ [(sensorId, sc_type cmd, sc_payload cmd, k)]"
    using h send(1) sender_frame [OF send(1)] send(2) [of sensorId "sc_type cmd" "sc_payload cmd" k "fc_db s1"]
    by (cases "send sensorId (sc_type cmd) (sc_payload cmd) k (fc_db s1)")
      (auto simp: hand_over_def act_try_def in_db_def act_keeps_def split: prod.splits sum.splits, metis fst_conv)
  ultimately show ?thesis using s2 c(2) \<open>old = created\<close> by auto
qed

end

section \<open>A database held in memory\<close>

record fleet_world =
  fw_up :: bool
  fw_sensors :: "sensor_entry stored_table"
  fw_commands :: "fleet_command stored_table"

definition ref_fleet :: "('z fleet_world_scheme) fleet_env" where
  "ref_fleet =
     \<lparr> fe_sensors = list_table fw_sensors (\<lambda>t w. w\<lparr>fw_sensors := t\<rparr>) fw_up (\<lambda>i r. r\<lparr>sn_id := i\<rparr>),
       fe_commands = list_table fw_commands (\<lambda>t w. w\<lparr>fw_commands := t\<rparr>) fw_up (\<lambda>i r. r\<lparr>fk_id := i\<rparr>),
       fe_metrics = None, fe_sender = Some (\<lambda>sensorId t p i. act_return ()) \<rparr>"

interpretation refc: prisma_table "fe_commands ref_fleet" "\<lambda>w. st_rows (fw_commands w)" "\<lambda>w. list_ids (fw_commands w)"
  fk_id "\<lambda>i r. r\<lparr>fk_id := i\<rparr>"
  unfolding ref_fleet_def fleet_env.simps by (rule list_table_is_table) simp_all

interpretation reff: fleet_tables ref_fleet "\<lambda>w. st_rows (fw_commands w)" "\<lambda>w. list_ids (fw_commands w)"
  "\<lambda>w. st_rows (fw_sensors w)" "\<lambda>w. list_ids (fw_sensors w)"
proof (intro fleet_tables.intro fleet_tables_axioms.intro)
  show "prisma_table (fe_commands ref_fleet) (\<lambda>w. st_rows (fw_commands w)) (\<lambda>w. list_ids (fw_commands w)) fk_id (\<lambda>i r. r\<lparr>fk_id := i\<rparr>)"
    by unfold_locales
  show "prisma_table (fe_sensors ref_fleet) (\<lambda>w. st_rows (fw_sensors w)) (\<lambda>w. list_ids (fw_sensors w)) sn_id (\<lambda>i r. r\<lparr>sn_id := i\<rparr>)"
    unfolding ref_fleet_def fleet_env.simps by (rule list_table_is_table) simp_all
  show "tb_frames (fe_sensors ref_fleet) (\<lambda>w. st_rows (fw_commands w))"
    "tb_frames (fe_sensors ref_fleet) (\<lambda>w. list_ids (fw_commands w))"
    "tb_frames (fe_commands ref_fleet) (\<lambda>w. st_rows (fw_sensors w))"
    unfolding ref_fleet_def fleet_env.simps by (rule list_table_frames, simp)+
qed (auto simp: ref_fleet_def act_keeps_def)

definition new_commander :: "'w \<Rightarrow> 'w commander" where
  "new_commander w = \<lparr> fc_db = w, fc_events = [], fc_sends = [] \<rparr>"

definition default_fleet :: fleet_config where
  "default_fleet = newFleetConfig \<lparr> fo_defaultTimeoutMs = None, fo_enableAdaptiveTimeout = None,
     fo_maxAdaptiveTimeoutMs = None, fo_minAdaptiveTimeoutMs = None, fo_maxRetries = None, fo_toggleChaos = None,
     fo_toggleMtd = None \<rparr>"

definition sample_fleet :: fleet_world where
  "sample_fleet = \<lparr> fw_up = True,
     fw_sensors = \<lparr> st_rows = [\<lparr> sn_id = ''s1'', sn_tenantId = ''a'', sn_connectionState = ''CONNECTED'', sn_lastHeartbeat = None \<rparr>,
                               \<lparr> sn_id = ''s2'', sn_tenantId = ''b'', sn_connectionState = ''CONNECTED'', sn_lastHeartbeat = None \<rparr>],
                    st_next = 0 \<rparr>,
     fw_commands = \<lparr> st_rows = [], st_next = 0 \<rparr> \<rparr>"

definition push_rules :: "json \<Rightarrow> sensor_command" where
  "push_rules p = \<lparr> sc_type = ''push_rules'', sc_payload = p, sc_timeout = None \<rparr>"

section \<open>Properties\<close>

text \<open>
  C5: Every command ends at most once. Whatever sends, acknowledgements, failures, timeout checks, cancellations
  and cleanups happen, in any interleaving of their database calls and with any of those calls failing: for
  each command id at most one of the events success, failed and timeout is emitted, and only when its row is no
  longer pending or sent; a row that has reached a final status is never changed again, only deleted as a whole.
\<close>

theorem fleet_command_completes_once:
  assumes "fleet_tables env crows cids srows sids"
    and "distinct (map fk_id (crows w))" and "fk_id ` set (crows w) \<subseteq> cids w"
    and "fc_run env cfg ops (new_commander w, []) = (s, tasks)"
  shows "completions k (fc_events s) \<le> 1 \<and>
    (completions k (fc_events s) = 1 \<longrightarrow> (\<forall>r \<in> set (crows (fc_db s)). fk_id r = k \<longrightarrow> \<not> fc_open r)) \<and>
    (\<forall>r \<in> set (crows w). \<not> fc_open r \<longrightarrow>
       r \<in> set (crows (fc_db s)) \<or> (\<forall>r' \<in> set (crows (fc_db s)). fk_id r' \<noteq> fk_id r))"
  using fleet_tables.run_summary [OF assms(1-3), where cfg = cfg and ops = ops and k = k and sn = "[]"] assms(4)
  by (simp add: new_commander_def)

text \<open>A command is pushed, sent and acknowledged; the acknowledgement arrives twice and a late timeout check follows.\<close>

definition sample_life :: "fc_op list" where
  "sample_life = [Op_send 1000 ''a'' ''s1'' (push_rules JNull), Op_sent 1001 ''c0'', Op_complete 1002 ''c0'' None,
     Op_complete 1003 ''c0'' None, Op_resume 1004 0, Op_timeouts 99999]"

theorem fleet_command_completes_once_witness:
  "(case fc_run ref_fleet default_fleet sample_life (new_commander sample_fleet, []) of
      (s, tasks) \<Rightarrow> completions ''c0'' (fc_events s) \<le> 1 \<and> completions ''c0'' (fc_events s) = 1)"
proof -
  obtain s tasks where r: "fc_run ref_fleet default_fleet sample_life (new_commander sample_fleet, []) = (s, tasks)" by fastforce
  have "completions ''c0'' (fc_events s) \<le> 1"
    using fleet_command_completes_once [OF reff.fleet_tables_axioms _ _ r, of "''c0''"]
    by (simp add: sample_fleet_def list_ids_def)
  moreover have "completions ''c0'' (fc_events (fst (fc_run ref_fleet default_fleet sample_life (new_commander sample_fleet, [])))) = 1"
    by code_simp
  ultimately show ?thesis using r by simp
qed

text \<open>
  Commands stay within the tenant. A command sent to several sensors, or broadcast, is handed over only to
  sensors that the database lists for the calling tenant, for a broadcast only to those connected, and every row
  that is new or changed afterwards belongs to such a sensor; a call that names a foreign or unknown sensor
  ends with an error instead of a list of ids.
\<close>

theorem fleet_commands_stay_in_tenant:
  assumes "fleet_tables env crows cids srows sids"
    and "distinct (map fk_id (crows (fc_db s)))" and "fk_id ` set (crows (fc_db s)) \<subseteq> cids (fc_db s)"
    and "sendCommandToMultiple env cfg now tenantId sensorIds cmd s = (s1, x)"
    and "broadcastCommand env cfg now tenantId cmd s = (s2, y)"
  defines "own \<equiv> {sn \<in> set (srows (fc_db s)). sn_tenantId sn = tenantId}"
  shows "(\<exists>new. fc_sends s1 = fc_sends s @ new \<and> fst ` set new \<subseteq> sn_id ` own \<inter> set sensorIds) \<and>
    (\<forall>r \<in> set (crows (fc_db s1)). r \<in> set (crows (fc_db s)) \<or> fk_sensorId r \<in> sn_id ` own \<inter> set sensorIds) \<and>
    (\<forall>ids. x = Inr ids \<longrightarrow> set sensorIds \<subseteq> sn_id ` own \<and> length ids = length sensorIds) \<and>
    (\<exists>new. fc_sends s2 = fc_sends s @ new \<and> fst ` set new \<subseteq> sn_id ` {sn \<in> own. sn_connectionState sn = ''CONNECTED''}) \<and>
    (\<forall>r \<in> set (crows (fc_db s2)). r \<in> set (crows (fc_db s)) \<or>
       fk_sensorId r \<in> sn_id ` {sn \<in> own. sn_connectionState sn = ''CONNECTED''})"
proof -
  have wf: "prisma_table.wf_rows crows cids fk_id (fc_db s)"
    using assms(1-3) prisma_table.wf_rows_def [OF fleet_tables.axioms(1) [OF assms(1)]] by blast
  have c: "{sn \<in> own. sn_connectionState sn = ''CONNECTED''} =
      {sn \<in> set (srows (fc_db s)). sn_tenantId sn = tenantId \<and> sn_connectionState sn = ''CONNECTED''}"
    by (auto simp: own_def)
  have "fleet_tables.confined crows cids srows (sn_id ` own \<inter> set sensorIds) s s1 \<and>
      (\<forall>ids. x = Inr ids \<longrightarrow> set sensorIds \<subseteq> sn_id ` own \<inter> set sensorIds \<and> length ids = length sensorIds)"
    by (rule fleet_tables.sendMultiple_confined [OF assms(1,4)]) (auto simp: own_def)
  moreover have "fleet_tables.confined crows cids srows (sn_id ` {sn \<in> own. sn_connectionState sn = ''CONNECTED''}) s s2"
    unfolding c by (rule fleet_tables.broadcast_confined [OF assms(1,5)])
  ultimately show ?thesis
    unfolding fleet_tables.confined_def [OF assms(1)] using wf by (auto simp only: le_inf_iff simp_thms)
qed

theorem fleet_commands_stay_in_tenant_witness:
  "\<exists>s x. sendCommandToMultiple ref_fleet default_fleet 0 ''a'' [''s1'', ''s2''] (push_rules JNull) (new_commander sample_fleet) = (s, x) \<and>
     (\<exists>new. fc_sends s = new \<and> fst ` set new \<subseteq> {''s1''}) \<and> x = Inl (Error ''Sensor s2 does not belong to tenant a'')"
proof -
  let ?m = "sendCommandToMultiple ref_fleet default_fleet 0 ''a'' [''s1'', ''s2''] (push_rules JNull) (new_commander sample_fleet)"
  obtain s x where r: "?m = (s, x)" by fastforce
  obtain s2 y where b: "broadcastCommand ref_fleet default_fleet 0 ''a'' (push_rules JNull) (new_commander sample_fleet) = (s2, y)"
    by fastforce
  have "\<exists>new. fc_sends s = new \<and> fst ` set new \<subseteq> {''s1''}"
    using fleet_commands_stay_in_tenant [OF reff.fleet_tables_axioms _ _ r b]
    by (force simp: new_commander_def sample_fleet_def)
  moreover have "snd ?m = Inl (Error ''Sensor s2 does not belong to tenant a'')" by code_simp
  ultimately show ?thesis using r by auto
qed

text \<open>Only sending hands commands to the protocol layer; the handlers of its events never do.\<close>

fun is_send :: "fc_op \<Rightarrow> bool" where
  "is_send (Op_send now tenantId sensorId command) = True"
| "is_send _ = False"

abbreviation same_sends :: "'w commander \<Rightarrow> 'w commander \<Rightarrow> bool" where
  "same_sends s s' \<equiv> fc_sends s' = fc_sends s"

lemmas sends_rules = act_rel_return [OF keeps_preorder(1)] act_rel_throw [OF keeps_preorder(1)]
  act_rel_bind [OF keeps_preorder(2)] act_rel_try [OF keeps_preorder(2)] act_rel_each [OF keeps_preorder]

lemma in_db_sends: "act_rel same_sends (in_db m)"
  by (simp add: act_rel_def in_db_def split: prod.split)

lemma emit_sends: "act_rel same_sends (fc_emit e)"
  by (simp add: act_rel_def fc_emit_def)

lemma handler_sends:
  "act_rel same_sends (markCommandSent env now i)" "act_rel same_sends (success_update env now i res)"
  "act_rel same_sends (success_finish env i res)" "act_rel same_sends (failed_read env i)"
  "act_rel same_sends (failed_write env cfg now c err)" "act_rel same_sends (fleet_cancelCommand env now i)"
  "act_rel same_sends (timeout_one env now c)" "act_rel same_sends (checkTimeouts env now)"
  "act_rel same_sends (cleanupOldCommands env now days)" "act_rel same_sends (markCommandFailed env cfg now i err)"
  unfolding markCommandSent_def success_update_def success_finish_def failed_read_def failed_write_def
    fleet_cancelCommand_def timeout_one_def checkTimeouts_def cleanupOldCommands_def markCommandFailed_def update_open_def
  by (auto intro!: sends_rules in_db_sends emit_sends split: option.split)

lemmas handler_sends_run = handler_sends [unfolded act_rel_def, rule_format]

lemma step_sends:
  assumes "\<not> is_send op"
  shows "fc_sends (fst (fc_step env cfg op (s, ts))) = fc_sends s"
proof (cases op)
  case (Op_complete now i res)
  then show ?thesis using act_relD [OF handler_sends(2)] by (auto split: prod.split sum.split)
next
  case (Op_failed i err)
  then show ?thesis using act_relD [OF handler_sends(4)] by (auto split: prod.split sum.split option.split)
next
  case (Op_resume now n)
  then show ?thesis by (cases "ts ! n") (simp_all add: handler_sends_run)
qed (use assms in \<open>simp_all add: handler_sends_run\<close>)

lemma run_sends:
  "\<forall>op \<in> set ops. \<not> is_send op \<Longrightarrow> fc_sends (fst (fc_run env cfg ops st)) = fc_sends (fst st)"
proof (induction ops arbitrary: st)
  case (Cons op ops)
  then have "fc_sends (fst (fc_run env cfg ops (fc_step env cfg op st))) = fc_sends (fst (fc_step env cfg op st))" by simp
  with Cons.prems step_sends [of op env cfg "fst st" "snd st"] show ?case by (simp add: fc_run_def)
qed (simp add: fc_run_def)


definition pushed :: "fleet_world commander" where
  "pushed = fst (fleet_sendCommand ref_fleet default_fleet 0 ''a'' ''s1'' (push_rules JNull) (new_commander sample_fleet))"

definition pushed_row :: fleet_command where
  "pushed_row = \<lparr> fk_id = ''c0'', fk_sensorId = ''s1'', fk_commandType = ''push_rules'', fk_payload = JNull,
     fk_status = Fc_pending, fk_result = None, fk_error = None, fk_queuedAt = 0, fk_sentAt = None, fk_completedAt = None,
     fk_attempts = 0, fk_timeoutAt = 30000, fk_createdAt = 0 \<rparr>"

lemma pushed_rows: "st_rows (fw_commands (fc_db pushed)) = [pushed_row]" "list_ids (fw_commands (fc_db pushed)) = {''c0''}"
  by code_simp+


text \<open>
  A push shortly after another is not recorded. When a command of the same type for the same sensor was created
  less than five seconds ago and is still pending, a further command is given that command's id and its payload
  goes to the protocol layer under this id, but the stored row keeps the payload of the earlier command.
\<close>

theorem second_push_is_not_recorded:
  assumes "fleet_tables env crows cids srows sids"
    and "fleet_sendCommand env cfg now tenantId sensorId cmd s = (s', Inr k)"
    and "e \<in> set (crows (fc_db s))" "fk_sensorId e = sensorId" "fk_commandType e = sc_type cmd" "fk_status e = Fc_pending"
      "now - 5000 \<le> fk_createdAt e"
    and "fe_sender env = Some send" and "\<And>i t p k w. snd (send i t p k w) = Inr ()" and "fe_metrics env = None"
  shows "k \<in> fk_id ` set (crows (fc_db s)) \<and> crows (fc_db s') = crows (fc_db s) \<and>
    fc_sends s' = fc_sends s @ [(sensorId, sc_type cmd, sc_payload cmd, k)]"
  using fleet_tables.sendCommand_duplicate [OF assms] by blast

theorem second_push_is_not_recorded_witness:
  "\<exists>s'. fleet_sendCommand ref_fleet default_fleet 3000 ''a'' ''s1'' (push_rules (JStr ''new'')) pushed = (s', Inr ''c0'') \<and>
     map fk_payload (st_rows (fw_commands (fc_db s'))) = [JNull] \<and>
     fc_sends s' = [(''s1'', ''push_rules'', JNull, ''c0''), (''s1'', ''push_rules'', JStr ''new'', ''c0'')]"
proof -
  let ?m = "fleet_sendCommand ref_fleet default_fleet 3000 ''a'' ''s1'' (push_rules (JStr ''new'')) pushed"
  obtain s' where r: "?m = (s', snd ?m)" by (metis surj_pair snd_conv)
  have "snd ?m = Inr ''c0''" by code_simp
  with r have r': "?m = (s', Inr ''c0'')" by simp
  have "fc_sends pushed = [(''s1'', ''push_rules'', JNull, ''c0'')]" by code_simp
  then show ?thesis
    using second_push_is_not_recorded [OF reff.fleet_tables_axioms r', of pushed_row "\<lambda>sensorId t p i. act_return ()"] r'
    by (simp add: pushed_rows pushed_row_def push_rules_def) (simp add: ref_fleet_def)
qed

end
