(* ===== verification/Rule_Distributor.thy ===== *)
theory Rule_Distributor
  imports Fleet_Commander Rollout
begin

text \<open>
  Distribution of rules to the fleet (\<^verbatim>\<open>api/src/services/fleet/rule-distributor.ts\<close>, types of
  \<^verbatim>\<open>services/fleet/types.ts\<close>): tenant isolation, the immediate, canary, scheduled and rolling strategies with
  health checks and rollback, and the synchronisation state of rules. The commander is the one of
  \<open>Fleet_Commander\<close>. Rules are the JSON objects the callers pass, named by their id. The clock is an argument;
  a strategy that sleeps takes the clock of each stage, and a health check takes what each poll finds.
\<close>

section \<open>Data\<close>

type_synonym rule = json

definition rule_id :: "rule \<Rightarrow> string" where
  "rule_id r = (case json_field ''id'' r of Some (JStr s) \<Rightarrow> s | _ \<Rightarrow> [])"

datatype sync_status = Sync_pending | Sync_synced | Sync_failed

record sync_row =
  sy_id :: string
  sy_sensorId :: string
  sy_ruleId :: string
  sy_status :: sync_status
  sy_syncedAt :: "int option"
  sy_error :: "string option"
  sy_createdAt :: int

datatype scheduled_status = PENDING | EXECUTING | COMPLETED | FAILED | CANCELLED

record scheduled_row =
  sd_id :: string
  sd_tenantId :: string
  sd_sensorIds :: "string list"
  sd_rules :: "rule list"
  sd_scheduledAt :: int
  sd_status :: scheduled_status
  sd_executedAt :: "int option"
  sd_cancelledAt :: "int option"
  sd_error :: "string option"
  sd_result :: "(bool \<times> int \<times> int \<times> int) option"

record sensor_result =
  srs_sensorId :: string
  srs_success :: bool
  srs_error :: "string option"
  srs_commandId :: "string option"

record deployment_result =
  dr_success :: bool
  dr_totalTargets :: int
  dr_successCount :: int
  dr_failureCount :: int
  dr_pendingCount :: int
  dr_results :: "sensor_result list"
  dr_scheduledDeploymentId :: "string option"

datatype strategy = Immediate | Canary | Scheduled | Rolling | Blue_green

record rollout_config =
  rc_strategy :: strategy
  rc_canaryPercentages :: "rat list option"
  rc_scheduledTime :: "int option"
  rc_rollingBatchSize :: "int option"
  rc_healthCheckTimeout :: "int option"
  rc_rollbackOnFailure :: "bool option"
  rc_maxFailuresBeforeAbort :: "int option"
  rc_stagingTimeout :: "int option"
  rc_switchTimeout :: "int option"
  rc_requireAllSensorsStaged :: "bool option"
  rc_minStagedPercentage :: "rat option"

text \<open>
  The services: the commander's, whether a commander is set, the two further tables, SHA-256 of a text in
  hexadecimal, and the collation behind \<^verbatim>\<open>localeCompare\<close>.
\<close>

record 'w rules_env =
  re_fleet :: "'w fleet_env"
  re_config :: fleet_config
  re_commander :: bool
  re_sync :: "('w, sync_row) table"
  re_scheduled :: "('w, scheduled_row) table"
  re_sha256 :: "string \<Rightarrow> string"
  re_localeCompare :: "string \<Rightarrow> string \<Rightarrow> int"

text \<open>
  The state: the commander's, the live timers by handle with what they will run and when, and the map
  \<^verbatim>\<open>scheduledTimers\<close> from deployment ids to handles.
\<close>

record timer =
  tm_at :: int
  tm_tenantId :: string
  tm_deploymentId :: string
  tm_sensorIds :: "string list"
  tm_rules :: "rule list"

record 'w distributor =
  rd_commander :: "'w commander"
  rd_live :: "(nat, timer) jsmap"
  rd_nextHandle :: nat
  rd_scheduledTimers :: "(string, nat) jsmap"

definition in_fc :: "('w commander, 'a) act \<Rightarrow> ('w distributor, 'a) act" where
  "in_fc m s = (case m (rd_commander s) of (c, x) \<Rightarrow> (s\<lparr>rd_commander := c\<rparr>, x))"

fun comma_list :: "string list \<Rightarrow> string" where
  "comma_list [] = []"
| "comma_list [x] = x"
| "comma_list (x # y # xs) = x @ '', '' @ comma_list (y # xs)"

definition error_message :: "js_error \<Rightarrow> string" where
  "error_message e = (case e of
     Error m \<Rightarrow> m
   | TenantIsolationError t ids \<Rightarrow>
       ''Tenant '' @ t @ '' does not have access to sensors: '' @ comma_list ids
   | CommandFeatureDisabledError c \<Rightarrow> ''Command type '' @ c @ '' is disabled by feature flag'')"

section \<open>Tenant isolation\<close>

definition validateSensorOwnership :: "'w rules_env \<Rightarrow> string \<Rightarrow> string list \<Rightarrow> ('w distributor, unit) act" where
  "validateSensorOwnership env tenantId sensorIds =
     (if sensorIds = [] then act_return ()
      else act_bind (in_fc (in_db (tb_findMany (fe_sensors (re_fleet env)) (\<lambda>s. sn_id s \<in> set sensorIds)))) (\<lambda>sensors.
        let sensorMap = map_of (rev (map (\<lambda>s. (sn_id s, sn_tenantId s)) sensors));
            unauthorized = filter (\<lambda>i. \<not> str_truthy (sensorMap i) \<or> sensorMap i \<noteq> Some tenantId) sensorIds
        in if unauthorized \<noteq> [] then act_throw (TenantIsolationError tenantId unauthorized) else act_return ()))"

section \<open>Immediate deployment\<close>

text \<open>\<^verbatim>\<open>[...rules].sort((a, b) => a.id.localeCompare(b.id))\<close>: a stable sort.\<close>

fun insert_rule :: "(string \<Rightarrow> string \<Rightarrow> int) \<Rightarrow> rule \<Rightarrow> rule list \<Rightarrow> rule list" where
  "insert_rule cmp r [] = [r]"
| "insert_rule cmp r (q # qs) = (if cmp (rule_id r) (rule_id q) \<le> 0 then r # q # qs else q # insert_rule cmp r qs)"

definition computeRulesHash :: "'w rules_env \<Rightarrow> rule list \<Rightarrow> string" where
  "computeRulesHash env rules = re_sha256 env (JSON_stringify (JArr (foldr (insert_rule (re_localeCompare env)) rules [])))"

definition pending_upsert :: "int \<Rightarrow> string \<Rightarrow> rule \<Rightarrow> (sync_row \<Rightarrow> bool) \<times> sync_row \<times> (sync_row \<Rightarrow> sync_row)" where
  "pending_upsert now sensorId rule =
     ((\<lambda>r. sy_sensorId r = sensorId \<and> sy_ruleId r = rule_id rule),
      \<lparr> sy_id = [], sy_sensorId = sensorId, sy_ruleId = rule_id rule, sy_status = Sync_pending, sy_syncedAt = None,
        sy_error = None, sy_createdAt = now \<rparr>,
      (\<lambda>r. r\<lparr>sy_status := Sync_pending, sy_syncedAt := None, sy_error := None\<rparr>))"

definition rules_command :: "(string \<times> json) list \<Rightarrow> sensor_command" where
  "rules_command payload = \<lparr> sc_type = ''push_rules'', sc_payload = JObj payload, sc_timeout = None \<rparr>"

definition deployImmediate ::
  "'w rules_env \<Rightarrow> int \<Rightarrow> string \<Rightarrow> string list \<Rightarrow> rule list \<Rightarrow> ('w distributor, deployment_result) act" where
  "deployImmediate env now tenantId sensorIds rules =
     (if \<not> re_commander env then act_throw (Error ''FleetCommander not initialized'')
      else
        act_bind (in_fc (in_db (tb_upsertAll (re_sync env) (concat (map (\<lambda>i. map (pending_upsert now i) rules) sensorIds))))) (\<lambda>_.
        act_bind (in_fc (sendCommandToMultiple (re_fleet env) (re_config env) now tenantId sensorIds
            (rules_command [(''rules'', JArr rules), (''hash'', JStr (computeRulesHash env rules))]))) (\<lambda>commandIds.
        act_return \<lparr> dr_success = True, dr_totalTargets = int (length sensorIds), dr_successCount = 0, dr_failureCount = 0,
          dr_pendingCount = int (length sensorIds),
          dr_results = map (\<lambda>(i, k). \<lparr> srs_sensorId = i, srs_success = True, srs_error = None, srs_commandId = Some k \<rparr>)
            (zip sensorIds commandIds),
          dr_scheduledDeploymentId = None \<rparr>)))"

section \<open>Canary deployment\<close>

text \<open>The loop over the percentages; \<open>nows k\<close> is the clock when the \<open>k\<close>-th percentage is reached.\<close>

fun canary_loop ::
  "'w rules_env \<Rightarrow> (nat \<Rightarrow> int) \<Rightarrow> string \<Rightarrow> string list \<Rightarrow> rule list \<Rightarrow> nat \<Rightarrow> rat list \<Rightarrow> int
     \<Rightarrow> ('w distributor, sensor_result list) act" where
  "canary_loop env nows tenantId sensorIds rules k [] deployedCount = act_return []"
| "canary_loop env nows tenantId sensorIds rules k (percentage # ps) deployedCount =
     (let targetCount = \<lceil>of_nat (length sensorIds) * percentage / 100\<rceil>;
          batchSize = targetCount - deployedCount
      in if batchSize \<le> 0 then canary_loop env nows tenantId sensorIds rules (Suc k) ps deployedCount
         else act_bind (deployImmediate env (nows k) tenantId (js_slice sensorIds deployedCount (deployedCount + batchSize)) rules)
           (\<lambda>batchResult.
              act_bind (canary_loop env nows tenantId sensorIds rules (Suc k) ps (deployedCount + batchSize))
                (\<lambda>rest. act_return (dr_results batchResult @ rest))))"

definition deployCanary ::
  "'w rules_env \<Rightarrow> (nat \<Rightarrow> int) \<Rightarrow> string \<Rightarrow> string list \<Rightarrow> rule list \<Rightarrow> rollout_config \<Rightarrow> ('w distributor, deployment_result) act" where
  "deployCanary env nows tenantId sensorIds rules config =
     act_bind (canary_loop env nows tenantId sensorIds rules 0 (or_default (rc_canaryPercentages config) [10, 50, 100]) 0)
       (\<lambda>allResults. act_return
          \<lparr> dr_success = True, dr_totalTargets = int (length sensorIds), dr_successCount = 0, dr_failureCount = 0,
            dr_pendingCount = int (length sensorIds), dr_results = allResults, dr_scheduledDeploymentId = None \<rparr>)"

section \<open>Scheduled deployment\<close>

text \<open>\<^verbatim>\<open>setTimeout(f, delay)\<close>: Node runs a timer with a delay outside 1 to 2147483647 after one millisecond.\<close>

definition timer_delay :: "int \<Rightarrow> int" where
  "timer_delay delayMs = (if 1 \<le> delayMs \<and> delayMs \<le> 2147483647 then delayMs else 1)"

definition scheduleDeploymentTimer ::
  "int \<Rightarrow> string \<Rightarrow> string \<Rightarrow> string list \<Rightarrow> rule list \<Rightarrow> int \<Rightarrow> ('w distributor, unit) act" where
  "scheduleDeploymentTimer now tenantId deploymentId sensorIds rules delayMs =
     act_modify (\<lambda>s. s\<lparr>rd_live := jm_set (rd_nextHandle s)
           \<lparr> tm_at = now + timer_delay delayMs, tm_tenantId = tenantId, tm_deploymentId = deploymentId,
             tm_sensorIds = sensorIds, tm_rules = rules \<rparr> (rd_live s),
         rd_scheduledTimers := jm_set deploymentId (rd_nextHandle s) (rd_scheduledTimers s),
         rd_nextHandle := Suc (rd_nextHandle s)\<rparr>)"

definition deployScheduled ::
  "'w rules_env \<Rightarrow> int \<Rightarrow> string \<Rightarrow> string list \<Rightarrow> rule list \<Rightarrow> rollout_config \<Rightarrow> ('w distributor, deployment_result) act" where
  "deployScheduled env now tenantId sensorIds rules config =
     (case rc_scheduledTime config of
        None \<Rightarrow> act_throw (Error ''Scheduled deployment requires scheduledTime'')
      | Some scheduledTime \<Rightarrow>
          if scheduledTime \<le> now then deployImmediate env now tenantId sensorIds rules
          else
            act_bind (in_fc (in_db (tb_create (re_scheduled env)
              \<lparr> sd_id = [], sd_tenantId = tenantId, sd_sensorIds = sensorIds, sd_rules = rules, sd_scheduledAt = scheduledTime,
                sd_status = PENDING, sd_executedAt = None, sd_cancelledAt = None, sd_error = None, sd_result = None \<rparr>)))
              (\<lambda>scheduledDeployment.
            act_bind (scheduleDeploymentTimer now tenantId (sd_id scheduledDeployment) sensorIds rules (scheduledTime - now)) (\<lambda>_.
            act_return \<lparr> dr_success = True, dr_totalTargets = int (length sensorIds), dr_successCount = 0, dr_failureCount = 0,
              dr_pendingCount = int (length sensorIds),
              dr_results = map (\<lambda>i. \<lparr> srs_sensorId = i, srs_success = True, srs_error = None, srs_commandId = None \<rparr>) sensorIds,
              dr_scheduledDeploymentId = Some (sd_id scheduledDeployment) \<rparr>)))"

definition update_scheduled :: "'w rules_env \<Rightarrow> string \<Rightarrow> (scheduled_row \<Rightarrow> scheduled_row) \<Rightarrow> ('w distributor, unit) act" where
  "update_scheduled env deploymentId f = in_fc (in_db (tb_update (re_scheduled env) (\<lambda>r. sd_id r = deploymentId) f))"

definition executeScheduledDeployment ::
  "'w rules_env \<Rightarrow> int \<Rightarrow> string \<Rightarrow> string \<Rightarrow> string list \<Rightarrow> rule list \<Rightarrow> ('w distributor, unit) act" where
  "executeScheduledDeployment env now tenantId deploymentId sensorIds rules =
     act_bind (act_modify (\<lambda>s. s\<lparr>rd_scheduledTimers := jm_delete deploymentId (rd_scheduledTimers s)\<rparr>)) (\<lambda>_.
     act_try
       (act_bind (update_scheduled env deploymentId (\<lambda>r. r\<lparr>sd_status := EXECUTING\<rparr>)) (\<lambda>_.
        act_bind (deployImmediate env now tenantId sensorIds rules) (\<lambda>result.
        update_scheduled env deploymentId (\<lambda>r. r\<lparr>sd_status := COMPLETED, sd_executedAt := Some now,
          sd_result := Some (dr_success result, dr_totalTargets result, dr_successCount result, dr_failureCount result)\<rparr>))))
       (\<lambda>e. update_scheduled env deploymentId (\<lambda>r. r\<lparr>sd_status := FAILED, sd_executedAt := Some now,
          sd_error := Some (error_message e)\<rparr>)))"

text \<open>The timer with the handle \<open>h\<close> fires.\<close>

definition timer_fires :: "'w rules_env \<Rightarrow> int \<Rightarrow> nat \<Rightarrow> ('w distributor, unit) act" where
  "timer_fires env now h s =
     (case jm_get (rd_live s) h of
        None \<Rightarrow> (s, Inr ())
      | Some t \<Rightarrow>
          if tm_at t \<le> now
          then executeScheduledDeployment env now (tm_tenantId t) (tm_deploymentId t) (tm_sensorIds t) (tm_rules t)
                 (s\<lparr>rd_live := jm_delete h (rd_live s)\<rparr>)
          else (s, Inr ()))"

text \<open>Cancellation: the check, then what follows once the row was found to be pending.\<close>

definition cancel_check :: "'w rules_env \<Rightarrow> string \<Rightarrow> string \<Rightarrow> ('w distributor, bool) act" where
  "cancel_check env tenantId deploymentId =
     act_bind (in_fc (in_db (tb_findFirst (re_scheduled env) (\<lambda>r. sd_id r = deploymentId)))) (\<lambda>deployment.
       act_return (case deployment of None \<Rightarrow> False | Some d \<Rightarrow> sd_tenantId d = tenantId \<and> sd_status d = PENDING))"

definition cancel_finish :: "'w rules_env \<Rightarrow> int \<Rightarrow> string \<Rightarrow> ('w distributor, bool) act" where
  "cancel_finish env now deploymentId =
     act_bind (act_modify (\<lambda>s. case jm_get (rd_scheduledTimers s) deploymentId of
         None \<Rightarrow> s
       | Some h \<Rightarrow> s\<lparr>rd_live := jm_delete h (rd_live s), rd_scheduledTimers := jm_delete deploymentId (rd_scheduledTimers s)\<rparr>)) (\<lambda>_.
     act_bind (update_scheduled env deploymentId (\<lambda>r. r\<lparr>sd_status := CANCELLED, sd_cancelledAt := Some now\<rparr>)) (\<lambda>_.
     act_return True))"

definition cancelScheduledDeployment :: "'w rules_env \<Rightarrow> int \<Rightarrow> string \<Rightarrow> string \<Rightarrow> ('w distributor, bool) act" where
  "cancelScheduledDeployment env now tenantId deploymentId =
     act_bind (cancel_check env tenantId deploymentId) (\<lambda>ok. if ok then cancel_finish env now deploymentId else act_return False)"

definition getScheduledDeployments ::
  "'w rules_env \<Rightarrow> string \<Rightarrow> scheduled_status option \<Rightarrow> ('w distributor, scheduled_row list) act" where
  "getScheduledDeployments env tenantId status =
     act_bind (in_fc (in_db (tb_findMany (re_scheduled env)
       (\<lambda>r. sd_tenantId r = tenantId \<and> (case status of None \<Rightarrow> True | Some st \<Rightarrow> sd_status r = st)))))
       (\<lambda>rows. act_return (sort_key sd_scheduledAt rows))"

text \<open>
  Recovery after a restart. A deployment whose time has passed is executed in the background; here its execution
  runs at once, and an error of it does not reach the caller.
\<close>

definition recover_one :: "'w rules_env \<Rightarrow> int \<Rightarrow> scheduled_row \<Rightarrow> ('w distributor, unit) act" where
  "recover_one env now d =
     (if sd_scheduledAt d - now \<le> 0
      then act_try (executeScheduledDeployment env now (sd_tenantId d) (sd_id d) (sd_sensorIds d) (sd_rules d)) (\<lambda>_. act_return ())
      else scheduleDeploymentTimer now (sd_tenantId d) (sd_id d) (sd_sensorIds d) (sd_rules d) (sd_scheduledAt d - now))"

definition recoverScheduledDeployments :: "'w rules_env \<Rightarrow> int \<Rightarrow> ('w distributor, nat) act" where
  "recoverScheduledDeployments env now =
     act_bind (in_fc (in_db (tb_findMany (re_scheduled env) (\<lambda>r. sd_status r = PENDING)))) (\<lambda>pendingDeployments.
     act_bind (act_each (recover_one env now) (sort_key sd_scheduledAt pendingDeployments)) (\<lambda>_.
     act_return (length pendingDeployments)))"

section \<open>Health checks\<close>

datatype health = H_timeout | H_healthy | H_degraded string | H_unhealthy string

text \<open>
  One pass of the polling loop: the clock at the loop test, what the two queries return (the sensors that have a
  synchronisation row, and the sensor rows; \<open>None\<close> when a query fails), and the clock during the checks.
\<close>

record health_poll =
  hp_now :: int
  hp_rows :: "(string list \<times> (string, sensor_entry) jsmap) option"
  hp_checkedAt :: int

definition check_sensor :: "int \<Rightarrow> string list \<Rightarrow> (string, sensor_entry) jsmap \<Rightarrow> string \<Rightarrow> health" where
  "check_sensor now synced sensors i =
     (if i \<notin> set synced then H_unhealthy ''No sync state found''
      else case jm_get sensors i of
             None \<Rightarrow> H_unhealthy ''Sensor not found''
           | Some s \<Rightarrow>
               let heartbeatAge = now - or_default (sn_lastHeartbeat s) 0 in
               if 60000 < heartbeatAge then H_degraded (''Stale heartbeat: '' @ show_int heartbeatAge @ ''ms old'')
               else if sn_connectionState s = ''DISCONNECTED'' then H_unhealthy ''Sensor is disconnected''
               else H_healthy)"

definition remaining :: "(string, health) jsmap \<Rightarrow> string list" where
  "remaining results = map fst (filter (\<lambda>(i, h). h \<noteq> H_healthy) results)"

text \<open>The loop over the polls; \<open>None\<close> when they end while it would go on.\<close>

fun health_loop :: "int \<Rightarrow> int \<Rightarrow> health_poll list \<Rightarrow> (string, health) jsmap \<Rightarrow> (string, health) jsmap option" where
  "health_loop startTime timeout [] results = (if remaining results = [] then Some results else None)"
| "health_loop startTime timeout (p # ps) results =
     (if \<not> hp_now p - startTime < timeout \<or> remaining results = [] then Some results
      else case hp_rows p of
             None \<Rightarrow> health_loop startTime timeout ps results
           | Some (synced, sensors) \<Rightarrow>
               let results' = fold (\<lambda>i. jm_set i (check_sensor (hp_checkedAt p) synced sensors i)) (remaining results) results
               in if list_all (\<lambda>i. check_sensor (hp_checkedAt p) synced sensors i = H_healthy) (remaining results)
                  then Some results' else health_loop startTime timeout ps results')"

definition waitForHealthConfirmation :: "int \<Rightarrow> health_poll list \<Rightarrow> string list \<Rightarrow> int \<Rightarrow> (string, health) jsmap option" where
  "waitForHealthConfirmation startTime polls sensorIds timeout =
     health_loop startTime timeout polls (fold (\<lambda>i. jm_set i H_timeout) sensorIds [])"

section \<open>Rolling deployment and rollback\<close>

definition deploySingleSensor :: "'w rules_env \<Rightarrow> int \<Rightarrow> string \<Rightarrow> string \<Rightarrow> rule list \<Rightarrow> ('w distributor, unit) act" where
  "deploySingleSensor env now tenantId sensorId rules =
     (if \<not> re_commander env then act_throw (Error ''FleetCommander not configured'')
      else act_bind (in_fc (fleet_sendCommand (re_fleet env) (re_config env) now tenantId sensorId
             (rules_command [(''rules'', JArr rules)]))) (\<lambda>_. act_return ()))"

definition getPreviousRuleVersion :: "'w rules_env \<Rightarrow> ('w distributor, rule list) act" where
  "getPreviousRuleVersion env =
     act_bind (in_fc (in_db (tb_findMany (fe_commands (re_fleet env))
       (\<lambda>r. fk_commandType r = ''push_rules'' \<and> fk_status r = Fc_success)))) (\<lambda>found.
       let previousCommands = take 2 (sort_key (\<lambda>r. - or_default (fk_completedAt r) 0) found) in
       act_return
         (if length previousCommands < 2 then []
          else case json_field ''rules'' (fk_payload (previousCommands ! 1)) of Some (JArr rules) \<Rightarrow> rules | _ \<Rightarrow> []))"

definition rollbackDeployment :: "'w rules_env \<Rightarrow> int \<Rightarrow> string \<Rightarrow> string list \<Rightarrow> ('w distributor, unit) act" where
  "rollbackDeployment env now tenantId sensorIds =
     act_bind (getPreviousRuleVersion env) (\<lambda>previousRules.
     act_bind (act_each (\<lambda>i. act_try (deploySingleSensor env now tenantId i previousRules) (\<lambda>_. act_return ())) sensorIds) (\<lambda>_.
     act_return ()))"

text \<open>Deployment to one sensor of a batch: the error it ended with, if any.\<close>

definition deploy_one :: "'w rules_env \<Rightarrow> int \<Rightarrow> string \<Rightarrow> rule list \<Rightarrow> string \<Rightarrow> ('w distributor, string \<times> string option) act" where
  "deploy_one env now tenantId rules sensorId =
     act_try (act_bind (deploySingleSensor env now tenantId sensorId rules) (\<lambda>_. act_return (sensorId, None)))
       (\<lambda>e. act_return (sensorId, Some (error_message e)))"

definition deployed_of :: "(string \<times> string option) list \<Rightarrow> string list" where
  "deployed_of results = map fst (filter (\<lambda>(i, err). err = None) results)"

definition rolling_result :: "bool \<Rightarrow> string list \<Rightarrow> (string \<times> string option) list \<Rightarrow> int \<Rightarrow> int \<Rightarrow> deployment_result" where
  "rolling_result success sensorIds results failureCount pendingCount =
     \<lparr> dr_success = success, dr_totalTargets = int (length sensorIds),
       dr_successCount = int (length (deployed_of results)) - failureCount, dr_failureCount = failureCount,
       dr_pendingCount = pendingCount,
       dr_results = map (\<lambda>(i, err). \<lparr> srs_sensorId = i, srs_success = (err = None), srs_error = err, srs_commandId = None \<rparr>) results,
       dr_scheduledDeploymentId = None \<rparr>"

record rolling_input =
  rin_now :: int
  rin_start :: int
  rin_polls :: "health_poll list"

text \<open>The loop over the batches, each with its start index and input; \<open>None\<close> when a health check does not end on its input.\<close>

fun rolling_loop ::
  "'w rules_env \<Rightarrow> string \<Rightarrow> string list \<Rightarrow> rule list \<Rightarrow> rollout_config \<Rightarrow> int \<Rightarrow> (int \<times> string list \<times> rolling_input) list \<Rightarrow> int
     \<Rightarrow> (string \<times> string option) list \<Rightarrow> ('w distributor, deployment_result option) act" where
  "rolling_loop env tenantId sensorIds rules config batchSize [] failureCount results =
     act_return (Some (rolling_result (failureCount = 0) sensorIds results failureCount 0))"
| "rolling_loop env tenantId sensorIds rules config batchSize ((i, batch, inp) # rest) failureCount results =
     act_bind (act_each (deploy_one env (rin_now inp) tenantId rules) batch) (\<lambda>batchResults.
       let results' = results @ batchResults;
           failed = int (length (filter (\<lambda>(i, err). err \<noteq> None) batchResults))
       in case waitForHealthConfirmation (rin_start inp) (rin_polls inp) batch (or_default (rc_healthCheckTimeout config) 30000) of
            None \<Rightarrow> act_return None
          | Some healthResults \<Rightarrow>
              let unhealthyCount = int (length (filter (\<lambda>(i, h). h \<noteq> H_healthy) healthResults));
                  failureCount' = failureCount + failed + unhealthyCount
              in if 0 < unhealthyCount \<and> or_default (rc_rollbackOnFailure config) True \<and>
                    or_default (rc_maxFailuresBeforeAbort config) 3 \<le> failureCount'
                 then act_bind (rollbackDeployment env (rin_now inp) tenantId (deployed_of results'))
                        (\<lambda>_. act_return (Some (rolling_result False sensorIds results' failureCount'
                           (int (length sensorIds) - i - batchSize))))
                 else rolling_loop env tenantId sensorIds rules config batchSize rest failureCount' results')"

definition deployRolling ::
  "'w rules_env \<Rightarrow> (nat \<Rightarrow> rolling_input) \<Rightarrow> string \<Rightarrow> string list \<Rightarrow> rule list \<Rightarrow> rollout_config
     \<Rightarrow> ('w distributor, deployment_result option) act" where
  "deployRolling env inps tenantId sensorIds rules config =
     (let batchSize = or_default (rc_rollingBatchSize config) 1 in
      case batch_loop sensorIds batchSize 0 [] of
        None \<Rightarrow> act_return None
      | Some batches \<Rightarrow>
          rolling_loop env tenantId sensorIds rules config batchSize
            (map (\<lambda>(k, b). (int k * batchSize, b, inps k)) (enumerate 0 batches)) 0 [])"

section \<open>Synchronisation state\<close>

definition synced_upsert :: "int \<Rightarrow> string \<Rightarrow> string \<Rightarrow> (sync_row \<Rightarrow> bool) \<times> sync_row \<times> (sync_row \<Rightarrow> sync_row)" where
  "synced_upsert now sensorId ruleId =
     ((\<lambda>r. sy_sensorId r = sensorId \<and> sy_ruleId r = ruleId),
      \<lparr> sy_id = [], sy_sensorId = sensorId, sy_ruleId = ruleId, sy_status = Sync_synced, sy_syncedAt = Some now,
        sy_error = None, sy_createdAt = now \<rparr>,
      (\<lambda>r. r\<lparr>sy_status := Sync_synced, sy_syncedAt := Some now, sy_error := None\<rparr>))"

definition markRuleSynced :: "'w rules_env \<Rightarrow> int \<Rightarrow> string \<Rightarrow> string \<Rightarrow> ('w distributor, unit) act" where
  "markRuleSynced env now sensorId ruleId = in_fc (in_db (tb_upsertAll (re_sync env) [synced_upsert now sensorId ruleId]))"

definition markRuleFailed :: "'w rules_env \<Rightarrow> int \<Rightarrow> string \<Rightarrow> string \<Rightarrow> string \<Rightarrow> ('w distributor, unit) act" where
  "markRuleFailed env now sensorId ruleId err = in_fc (in_db (tb_upsertAll (re_sync env)
     [((\<lambda>r. sy_sensorId r = sensorId \<and> sy_ruleId r = ruleId),
       \<lparr> sy_id = [], sy_sensorId = sensorId, sy_ruleId = ruleId, sy_status = Sync_failed, sy_syncedAt = None,
         sy_error = Some err, sy_createdAt = now \<rparr>,
       (\<lambda>r. r\<lparr>sy_status := Sync_failed, sy_error := Some err\<rparr>))]))"

text \<open>\<open>synced\<close> tells whether the status of the update is \<^verbatim>\<open>synced\<close>, or else \<^verbatim>\<open>failed\<close>.\<close>

record sync_update =
  su_ruleId :: string
  su_synced :: bool
  su_error :: "string option"

definition bulk_upsert :: "int \<Rightarrow> string \<Rightarrow> sync_update \<Rightarrow> (sync_row \<Rightarrow> bool) \<times> sync_row \<times> (sync_row \<Rightarrow> sync_row)" where
  "bulk_upsert now sensorId u =
     (let status = (if su_synced u then Sync_synced else Sync_failed);
          syncedAt = (if su_synced u then Some now else None);
          err = (if su_synced u then None else Some (or_default (su_error u) ''Unknown error''))
      in ((\<lambda>r. sy_sensorId r = sensorId \<and> sy_ruleId r = su_ruleId u),
          \<lparr> sy_id = [], sy_sensorId = sensorId, sy_ruleId = su_ruleId u, sy_status = status, sy_syncedAt = syncedAt,
            sy_error = err, sy_createdAt = now \<rparr>,
          (\<lambda>r. r\<lparr>sy_status := status, sy_syncedAt := syncedAt, sy_error := err\<rparr>)))"

definition bulkUpdateRuleSync :: "'w rules_env \<Rightarrow> int \<Rightarrow> string \<Rightarrow> sync_update list \<Rightarrow> ('w distributor, unit) act" where
  "bulkUpdateRuleSync env now sensorId updates =
     (if updates = [] then act_return ()
      else in_fc (in_db (tb_upsertAll (re_sync env) (map (bulk_upsert now sensorId) updates))))"

record rule_sync_status =
  rss_sensorId :: string
  rss_totalRules :: nat
  rss_syncedRules :: nat
  rss_pendingRules :: nat
  rss_failedRules :: nat
  rss_lastSync :: "int option"
  rss_errors :: "string list"

definition sync_summary :: "string \<Rightarrow> sync_row list \<Rightarrow> rule_sync_status" where
  "sync_summary sensorId rows =
     (let with_status = \<lambda>st. length (filter (\<lambda>r. sy_status r = st) rows);
          times = List.map_filter sy_syncedAt rows
      in \<lparr> rss_sensorId = sensorId, rss_totalRules = length rows, rss_syncedRules = with_status Sync_synced,
           rss_pendingRules = with_status Sync_pending, rss_failedRules = with_status Sync_failed,
           rss_lastSync = (if times = [] then None else Some (Max (set times))),
           rss_errors = List.map_filter sy_error rows \<rparr>)"

definition getRuleSyncStatus :: "'w rules_env \<Rightarrow> string \<Rightarrow> ('w distributor, rule_sync_status list) act" where
  "getRuleSyncStatus env tenantId =
     act_bind (in_fc (in_db (tb_findMany (fe_sensors (re_fleet env)) (\<lambda>s. sn_tenantId s = tenantId)))) (\<lambda>sensors.
     act_bind (in_fc (in_db (tb_findMany (re_sync env) (\<lambda>r. sy_sensorId r \<in> sn_id ` set sensors)))) (\<lambda>rows.
     act_return (map (\<lambda>s. sync_summary (sn_id s) (filter (\<lambda>r. sy_sensorId r = sn_id s) rows)) sensors)))"

definition getSensorRuleStatus :: "'w rules_env \<Rightarrow> string \<Rightarrow> string \<Rightarrow> ('w distributor, sync_row list) act" where
  "getSensorRuleStatus env sensorId tenantId =
     act_bind (in_fc (in_db (tb_findFirst (fe_sensors (re_fleet env)) (\<lambda>s. sn_id s = sensorId \<and> sn_tenantId s = tenantId)))) (\<lambda>sensor.
       case sensor of
         None \<Rightarrow> act_throw (Error ''Sensor not found or access denied'')
       | Some _ \<Rightarrow> act_bind (in_fc (in_db (tb_findMany (re_sync env) (\<lambda>r. sy_sensorId r = sensorId))))
           (\<lambda>rows. act_return (sort_key (\<lambda>r. - sy_createdAt r) rows)))"

definition getSensorsWithFailedRules :: "'w rules_env \<Rightarrow> string \<Rightarrow> ('w distributor, (string \<times> string list) list) act" where
  "getSensorsWithFailedRules env tenantId =
     act_bind (in_fc (in_db (tb_findMany (fe_sensors (re_fleet env)) (\<lambda>s. sn_tenantId s = tenantId)))) (\<lambda>sensors.
     act_bind (in_fc (in_db (tb_findMany (re_sync env) (\<lambda>r. sy_sensorId r \<in> sn_id ` set sensors \<and> sy_status r = Sync_failed)))) (\<lambda>rows.
     act_return (filter (\<lambda>(i, failed). failed \<noteq> [])
       (map (\<lambda>s. (sn_id s, map sy_ruleId (filter (\<lambda>r. sy_sensorId r = sn_id s) rows))) sensors))))"

definition retryFailedRules :: "'w rules_env \<Rightarrow> int \<Rightarrow> string \<Rightarrow> string \<Rightarrow> ('w distributor, deployment_result) act" where
  "retryFailedRules env now tenantId sensorId =
     act_bind (validateSensorOwnership env tenantId [sensorId]) (\<lambda>_.
       if \<not> re_commander env then act_throw (Error ''FleetCommander not initialized'')
       else act_bind (in_fc (in_db (tb_findMany (re_sync env) (\<lambda>r. sy_sensorId r = sensorId \<and> sy_status r = Sync_failed)))) (\<lambda>failedStates.
         if failedStates = []
         then act_return \<lparr> dr_success = True, dr_totalTargets = 0, dr_successCount = 0, dr_failureCount = 0, dr_pendingCount = 0,
                dr_results = [], dr_scheduledDeploymentId = None \<rparr>
         else
           act_bind (act_each (\<lambda>st. in_fc (in_db (tb_update (re_sync env) (\<lambda>r. sy_id r = sy_id st)
             (\<lambda>r. r\<lparr>sy_status := Sync_pending, sy_error := None\<rparr>)))) failedStates) (\<lambda>_.
           act_bind (in_fc (fleet_sendCommand (re_fleet env) (re_config env) now tenantId sensorId
             (rules_command [(''ruleIds'', JArr (map (\<lambda>st. JStr (sy_ruleId st)) failedStates)), (''retry'', JBool True)]))) (\<lambda>commandId.
           act_return \<lparr> dr_success = True, dr_totalTargets = 1, dr_successCount = 0, dr_failureCount = 0, dr_pendingCount = 1,
             dr_results = [\<lparr> srs_sensorId = sensorId, srs_success = True, srs_error = None, srs_commandId = Some commandId \<rparr>],
             dr_scheduledDeploymentId = None \<rparr>))))"

section \<open>What a deployment sends\<close>

lemma in_fc_run:
  assumes "in_fc m s = (s', x)"
  shows "m (rd_commander s) = (rd_commander s', x)" "rd_live s' = rd_live s" "rd_scheduledTimers s' = rd_scheduledTimers s"
    "rd_nextHandle s' = rd_nextHandle s"
  using assms by (auto simp: in_fc_def split: prod.splits)

lemma prepare_sends:
  "act_rel same_sends (command_timeout env cfg sensorId cmd)" "act_rel same_sends (create_command env now tenantId sensorId cmd t)"
  unfolding command_timeout_def create_command_def Let_def
  by (auto intro!: sends_rules in_db_sends split: option.split)

text \<open>With a sender wired, a successful command is handed over exactly once.\<close>

lemma sendCommand_sends:
  assumes "fleet_sendCommand env cfg now tenantId sensorId cmd s = (s', Inr k)" and "fe_sender env \<noteq> None"
  shows "fc_sends s' = fc_sends s @ [(sensorId, sc_type cmd, sc_payload cmd, k)]"
proof -
  obtain send where send: "fe_sender env = Some send" using assms(2) by blast
  obtain t s1 s2 created where t: "command_timeout env cfg sensorId cmd s = (s1, Inr t)"
    and c: "create_command env now tenantId sensorId cmd (now + \<lfloor>t\<rfloor>) s1 = (s2, Inr created)" "k = fk_id created"
    and h: "hand_over env cfg now sensorId cmd k (s2\<lparr>fc_events := fc_events s2 @ [Ev_sent k sensorId (sc_type cmd)]\<rparr>) = (s', Inr ())"
    using assms(1) by (auto simp: fleet_sendCommand_def ensureCommandEnabled_def fc_emit_def split: if_splits elim!: act_bind_cases)
  have "fc_sends s1 = fc_sends s" "fc_sends s2 = fc_sends s1"
    using act_relD [OF prepare_sends(1) t] act_relD [OF prepare_sends(2) c(1)] by simp_all
  moreover have "fc_sends s' = fc_sends s2 @ [(sensorId, sc_type cmd, sc_payload cmd, k)]"
  proof (cases "send sensorId (sc_type cmd) (sc_payload cmd) k (fc_db s2)")
    case (Pair w y)
    then show ?thesis
      using h send act_relD [OF handler_sends(10)]
      by (cases y) (force simp: hand_over_def act_try_def in_db_def)+
  qed
  ultimately show ?thesis by simp
qed

lemma sendMultiple_sends:
  assumes "sendCommandToMultiple env cfg now tenantId sensorIds cmd s = (s', Inr ks)" and "fe_sender env \<noteq> None"
  shows "fc_sends s' = fc_sends s @ map (\<lambda>(i, k). (i, sc_type cmd, sc_payload cmd, k)) (zip sensorIds ks) \<and> length ks = length sensorIds"
  using assms(1)
proof (induction sensorIds arbitrary: s ks)
  case (Cons i ids)
  then obtain s1 k ks' where 1: "fleet_sendCommand env cfg now tenantId i cmd s = (s1, Inr k)"
    and 2: "sendCommandToMultiple env cfg now tenantId ids cmd s1 = (s', Inr ks')" "ks = k # ks'"
    by (auto simp: sendCommandToMultiple_def act_bind_Inr)
  with Cons.IH [OF 2(1)] sendCommand_sends [OF 1 assms(2)] show ?case by simp
qed (simp add: sendCommandToMultiple_def)

definition sent_to :: "'w distributor \<Rightarrow> 'w distributor \<Rightarrow> string list" where
  "sent_to s s' = map fst (drop (length (fc_sends (rd_commander s))) (fc_sends (rd_commander s')))"

lemma sent_to_eq:
  "fc_sends (rd_commander s') = fc_sends (rd_commander s) @ new \<Longrightarrow> sent_to s s' = map fst new"
  by (simp add: sent_to_def)

lemma deployImmediate_sends:
  assumes "deployImmediate env now tenantId sensorIds rules s = (s', Inr r)" and "fe_sender (re_fleet env) \<noteq> None"
  shows "(\<exists>new. fc_sends (rd_commander s') = fc_sends (rd_commander s) @ new \<and> map fst new = sensorIds \<and>
      (\<forall>(i, t, p, k) \<in> set new. t = ''push_rules'' \<and> json_field ''rules'' p = Some (JArr rules))) \<and>
    map srs_sensorId (dr_results r) = sensorIds"
proof -
  let ?cmd = "rules_command [(''rules'', JArr rules), (''hash'', JStr (computeRulesHash env rules))]"
  from assms(1) obtain s1 ks where
    1: "in_fc (in_db (tb_upsertAll (re_sync env) (concat (map (\<lambda>i. map (pending_upsert now i) rules) sensorIds)))) s = (s1, Inr ())"
    and 2: "in_fc (sendCommandToMultiple (re_fleet env) (re_config env) now tenantId sensorIds ?cmd) s1 = (s', Inr ks)"
    and r: "map srs_sensorId (dr_results r) = map srs_sensorId (map (\<lambda>(i, k). \<lparr> srs_sensorId = i, srs_success = True, srs_error = None, srs_commandId = Some k \<rparr>)
            (zip sensorIds ks))"
    by (auto simp: deployImmediate_def act_bind_Inr split: if_splits)
  have "fc_sends (rd_commander s1) = fc_sends (rd_commander s)" using in_db_run(2) [OF in_fc_run(1) [OF 1]] .
  with sendMultiple_sends [OF in_fc_run(1) [OF 2] assms(2)] r show ?thesis
    by (auto simp: comp_def case_prod_unfold rules_command_def split_def)
qed

section \<open>Canary deployments reach a prefix of the fleet\<close>

definition canary_reach :: "nat \<Rightarrow> rat list \<Rightarrow> int \<Rightarrow> int" where
  "canary_reach n ps d = fold (\<lambda>p d. max d \<lceil>of_nat n * p / 100\<rceil>) ps d"

lemma canary_reach_ge: "d \<le> canary_reach n ps d"
  unfolding canary_reach_def
proof (induction ps arbitrary: d)
  case (Cons p ps)
  from Cons [of "max d \<lceil>of_nat n * p / 100\<rceil>"] show ?case by simp
qed simp

lemma take_drop_append:
  assumes "a \<le> b" "b \<le> c"
  shows "take (b - a) (drop a xs) @ take (c - b) (drop b xs) = take (c - a) (drop a xs)"
proof -
  have "c - a = (b - a) + (c - b)" "drop b xs = drop (b - a) (drop a xs)" using assms by simp_all
  then show ?thesis by (simp only: take_add)
qed

lemma canary_loop_sends:
  assumes "canary_loop env nows tenantId sensorIds rules k ps d s = (s', Inr res)" and "0 \<le> d"
    and "fe_sender (re_fleet env) \<noteq> None"
  defines "ids \<equiv> take (nat (canary_reach (length sensorIds) ps d) - nat d) (drop (nat d) sensorIds)"
  shows "(\<exists>new. fc_sends (rd_commander s') = fc_sends (rd_commander s) @ new \<and> map fst new = ids) \<and> map srs_sensorId res = ids"
  using assms(1,2) unfolding ids_def
proof (induction ps arbitrary: k d s res)
  case (Cons p ps)
  let ?t = "\<lceil>of_nat (length sensorIds) * p / 100\<rceil>"
  show ?case
  proof (cases "?t \<le> d")
    case True
    then show ?thesis using Cons by (simp add: canary_reach_def max_absorb1)
  next
    case False
    with Cons.prems obtain s1 b rest where
      1: "deployImmediate env (nows k) tenantId (js_slice sensorIds d ?t) rules s = (s1, Inr b)"
      and 2: "canary_loop env nows tenantId sensorIds rules (Suc k) ps ?t s1 = (s', Inr rest)"
      and res: "res = dr_results b @ rest" by (auto simp: Let_def act_bind_Inr)
    have slice: "js_slice sensorIds d ?t = take (nat ?t - nat d) (drop (nat d) sensorIds)"
    proof -
      have "int (nat d) = d" "int (nat d) + int (nat ?t - nat d) = ?t" using False Cons.prems(2) by linarith+
      then show ?thesis using js_slice_nat [of sensorIds "nat d" "nat ?t - nat d"] by (simp only:)
    qed
    have reach: "canary_reach (length sensorIds) (p # ps) d = canary_reach (length sensorIds) ps ?t"
      using False by (simp add: canary_reach_def max_absorb2)
    have t: "0 \<le> ?t" "nat d \<le> nat ?t" "nat ?t \<le> nat (canary_reach (length sensorIds) ps ?t)"
      using False Cons.prems(2) by (linarith, intro nat_mono, linarith, intro nat_mono canary_reach_ge)
    obtain n1 where n1: "fc_sends (rd_commander s1) = fc_sends (rd_commander s) @ n1" "map fst n1 = js_slice sensorIds d ?t"
      "map srs_sensorId (dr_results b) = js_slice sensorIds d ?t"
      using deployImmediate_sends [OF 1 assms(3)] by blast
    obtain n2 where n2: "fc_sends (rd_commander s') = fc_sends (rd_commander s1) @ n2"
      "map fst n2 = take (nat (canary_reach (length sensorIds) ps ?t) - nat ?t) (drop (nat ?t) sensorIds)"
      "map srs_sensorId rest = take (nat (canary_reach (length sensorIds) ps ?t) - nat ?t) (drop (nat ?t) sensorIds)"
      using Cons.IH [OF 2 t(1)] by blast
    from take_drop_append [OF t(2,3), of sensorIds] n1 n2 slice reach res show ?thesis
      by (intro conjI exI [of _ "n1 @ n2"]) simp_all
  qed
qed (simp add: canary_reach_def)

text \<open>
  C29: A canary deployment that returns has sent the rules exactly once to each sensor of a prefix of the list, in
  order, as long as the largest requested percentage (rounded up) of the fleet, and reports exactly these
  sensors; with a percentage of at least 100, as in the default \<open>[10, 50, 100]\<close>, this is the whole fleet.
\<close>

theorem canary_reaches_prefix:
  assumes "deployCanary env nows tenantId sensorIds rules config s = (s', Inr r)" and "fe_sender (re_fleet env) \<noteq> None"
  defines "ps \<equiv> or_default (rc_canaryPercentages config) [10, 50, 100]"
  shows "sent_to s s' = take (nat (canary_reach (length sensorIds) ps 0)) sensorIds \<and>
    map srs_sensorId (dr_results r) = sent_to s s' \<and>
    ((\<exists>p \<in> set ps. 100 \<le> p) \<longrightarrow> sent_to s s' = sensorIds)"
proof -
  from assms obtain res where l: "canary_loop env nows tenantId sensorIds rules 0 ps 0 s = (s', Inr res)" "dr_results r = res"
    by (auto simp: deployCanary_def act_bind_Inr)
  have "int n \<le> canary_reach n qs d" if "\<exists>p \<in> set qs. 100 \<le> p" for n qs d
    using that
  proof (induction qs arbitrary: d)
    case (Cons q qs)
    show ?case
    proof (cases "100 \<le> q")
      case True
      then have "of_nat n * 100 \<le> of_nat n * q" by (intro mult_left_mono) auto
      then have "int n \<le> \<lceil>of_nat n * q / 100\<rceil>" by (simp add: le_ceiling_iff)
      also have "\<dots> \<le> canary_reach n qs (max d \<lceil>of_nat n * q / 100\<rceil>)" by (rule order_trans [OF _ canary_reach_ge]) simp
      finally show ?thesis by (simp add: canary_reach_def)
    qed (use Cons in \<open>auto simp: canary_reach_def\<close>)
  qed simp
  then have "(\<exists>p \<in> set ps. 100 \<le> p) \<longrightarrow> length sensorIds \<le> nat (canary_reach (length sensorIds) ps 0)"
    by (metis nat_int nat_mono)
  then show ?thesis using canary_loop_sends [OF l(1) _ assms(2)] l(2) by (auto simp: sent_to_eq)
qed

section \<open>A database held in memory\<close>

record rules_world = fleet_world +
  rw_sync :: "sync_row stored_table"
  rw_scheduled :: "scheduled_row stored_table"

definition ref_rules :: "rules_world rules_env" where
  "ref_rules =
     \<lparr> re_fleet = ref_fleet, re_config = default_fleet, re_commander = True,
       re_sync = list_table rw_sync (\<lambda>t w. w\<lparr>rw_sync := t\<rparr>) fw_up (\<lambda>i r. r\<lparr>sy_id := i\<rparr>),
       re_scheduled = list_table rw_scheduled (\<lambda>t w. w\<lparr>rw_scheduled := t\<rparr>) fw_up (\<lambda>i r. r\<lparr>sd_id := i\<rparr>),
       re_sha256 = (\<lambda>s. s), re_localeCompare = (\<lambda>a b. 0) \<rparr>"

definition new_distributor :: "'w \<Rightarrow> 'w distributor" where
  "new_distributor w = \<lparr> rd_commander = new_commander w, rd_live = [], rd_nextHandle = 0, rd_scheduledTimers = [] \<rparr>"

definition fleet_of :: "(string \<times> string) list \<Rightarrow> rules_world" where
  "fleet_of owners = \<lparr> fw_up = True,
     fw_sensors = \<lparr> st_rows = map (\<lambda>(i, t). \<lparr> sn_id = i, sn_tenantId = t, sn_connectionState = ''CONNECTED'', sn_lastHeartbeat = None \<rparr>) owners,
                    st_next = 0 \<rparr>,
     fw_commands = \<lparr> st_rows = [], st_next = 0 \<rparr>, rw_sync = \<lparr> st_rows = [], st_next = 0 \<rparr>,
     rw_scheduled = \<lparr> st_rows = [], st_next = 0 \<rparr> \<rparr>"

definition strategy_config :: "strategy \<Rightarrow> rollout_config" where
  "strategy_config st = \<lparr> rc_strategy = st, rc_canaryPercentages = None, rc_scheduledTime = None, rc_rollingBatchSize = None,
     rc_healthCheckTimeout = None, rc_rollbackOnFailure = None, rc_maxFailuresBeforeAbort = None, rc_stagingTimeout = None,
     rc_switchTimeout = None, rc_requireAllSensorsStaged = None, rc_minStagedPercentage = None \<rparr>"

theorem canary_reaches_prefix_witness:
  "\<exists>s' r. deployCanary ref_rules (\<lambda>k. 60000 * int k) ''a'' [''s1'', ''s2'', ''s3''] [JObj [(''id'', JStr ''r1'')]]
       ((strategy_config Canary)\<lparr>rc_canaryPercentages := Some [10, 40]\<rparr>)
       (new_distributor (fleet_of [(''s1'', ''a''), (''s2'', ''a''), (''s3'', ''a'')])) = (s', Inr r) \<and>
     sent_to (new_distributor (fleet_of [(''s1'', ''a''), (''s2'', ''a''), (''s3'', ''a'')])) s' = [''s1'', ''s2'']"
proof -
  let ?c = "(strategy_config Canary)\<lparr>rc_canaryPercentages := Some [10, 40]\<rparr>"
  let ?s = "new_distributor (fleet_of [(''s1'', ''a''), (''s2'', ''a''), (''s3'', ''a'')])"
  let ?m = "deployCanary ref_rules (\<lambda>k. 60000 * int k) ''a'' [''s1'', ''s2'', ''s3''] [JObj [(''id'', JStr ''r1'')]] ?c ?s"
  have "case snd ?m of Inr r \<Rightarrow> True | Inl e \<Rightarrow> False" by code_simp
  then obtain s' r where m: "?m = (s', Inr r)" by (cases ?m) (auto split: sum.splits)
  have "fe_sender (re_fleet ref_rules) \<noteq> None" by (simp add: ref_rules_def ref_fleet_def)
  note p = canary_reaches_prefix [OF m this]
  have "take (nat (canary_reach (length [''s1'', ''s2'', ''s3'']) (or_default (rc_canaryPercentages ?c) [10, 50, 100]) 0))
      [''s1'', ''s2'', ''s3''] = [''s1'', ''s2'']" by code_simp
  with p m show ?thesis by metis
qed

section \<open>Rolling deployments\<close>

lemma remaining_healthy: "remaining results = [] \<Longrightarrow> health_loop st to ps results = Some results"
  by (cases ps) simp_all

lemma health_loop_ends:
  "\<exists>p \<in> set ps. timeout \<le> hp_now p - st \<Longrightarrow> health_loop st timeout ps results \<noteq> None"
proof (induction ps arbitrary: results)
  case (Cons p ps)
  show ?case
  proof (cases "timeout \<le> hp_now p - st")
    case False
    with Cons have "health_loop st timeout ps rs \<noteq> None" for rs by auto
    then show ?thesis by (cases "hp_rows p") (auto simp: Let_def split: prod.split)
  qed simp
qed simp

lemma deploy_batch:
  "\<exists>s' res. act_each (deploy_one env now tenantId rules) batch s = (s', Inr res) \<and> map fst res = batch"
proof (induction batch arbitrary: s)
  case (Cons i is')
  obtain s1 err where "deploy_one env now tenantId rules i s = (s1, Inr (i, err))"
    by (cases "act_bind (deploySingleSensor env now tenantId i rules) (\<lambda>_. act_return (i, None :: string option)) s" rule: prod.exhaust)
      (auto simp: deploy_one_def act_try_def elim!: act_bind_cases split: sum.splits)
  moreover obtain s2 res where "act_each (deploy_one env now tenantId rules) is' s1 = (s2, Inr res)" "map fst res = is'"
    using Cons by blast
  ultimately show ?case by (intro exI [of _ s2] exI [of _ "(i, err) # res"]) simp
qed simp

lemma rolling_loop_prefix:
  assumes "rolling_loop env tenantId sensorIds rules config b bs fc res s = (s', Inr (Some r))"
  shows "\<exists>k \<le> length bs. map srs_sensorId (dr_results r) = map fst res @ concat (map (\<lambda>(i, batch, inp). batch) (take k bs)) \<and>
    (k < length bs \<longrightarrow> \<not> dr_success r \<and> or_default (rc_maxFailuresBeforeAbort config) 3 \<le> dr_failureCount r)"
  using assms
proof (induction bs arbitrary: fc res s)
  case (Cons x bs)
  obtain i batch inp where x: "x = (i, batch, inp)" by (cases x)
  obtain s1 bres where e: "act_each (deploy_one env (rin_now inp) tenantId rules) batch s = (s1, Inr bres)" "map fst bres = batch"
    using deploy_batch by blast
  obtain health where h: "waitForHealthConfirmation (rin_start inp) (rin_polls inp) batch
      (or_default (rc_healthCheckTimeout config) 30000) = Some health"
    using Cons.prems x e by (auto simp: Let_def split: option.splits)
  let ?u = "int (length (filter (\<lambda>(i, h). h \<noteq> H_healthy) health))"
  let ?fc = "fc + int (length (filter (\<lambda>(i, err). err \<noteq> None) bres)) + ?u"
  show ?case
  proof (cases "0 < ?u \<and> or_default (rc_rollbackOnFailure config) True \<and> or_default (rc_maxFailuresBeforeAbort config) 3 \<le> ?fc")
    case True
    then have "r = rolling_result False sensorIds (res @ bres) ?fc (int (length sensorIds) - i - b)"
      using Cons.prems x e h by (auto simp: Let_def act_bind_Inr)
    with True x e(2) show ?thesis
      by (intro exI [of _ 1]) (auto simp: rolling_result_def case_prod_unfold comp_def)
  next
    case False
    then have "rolling_loop env tenantId sensorIds rules config b bs ?fc (res @ bres) s1 = (s', Inr (Some r))"
      using Cons.prems x e h by (auto simp: Let_def)
    from Cons.IH [OF this] obtain k where "k \<le> length bs"
      "map srs_sensorId (dr_results r) = map fst (res @ bres) @ concat (map (\<lambda>(i, batch, inp). batch) (take k bs))"
      "k < length bs \<longrightarrow> \<not> dr_success r \<and> or_default (rc_maxFailuresBeforeAbort config) 3 \<le> dr_failureCount r" by blast
    with x e(2) show ?thesis by (intro exI [of _ "Suc k"]) auto
  qed
qed (auto simp: rolling_result_def case_prod_unfold comp_def)

lemma rolling_loop_ends:
  assumes "\<And>i batch inp. (i, batch, inp) \<in> set bs \<Longrightarrow>
      \<exists>p \<in> set (rin_polls inp). or_default (rc_healthCheckTimeout config) 30000 \<le> hp_now p - rin_start inp"
    and "rolling_loop env tenantId sensorIds rules config b bs fc res s = (s', x)"
  shows "x \<noteq> Inr None"
  using assms
proof (induction bs arbitrary: fc res s)
  case (Cons y bs)
  obtain i batch inp where y: "y = (i, batch, inp)" by (cases y)
  obtain s1 bres where e: "act_each (deploy_one env (rin_now inp) tenantId rules) batch s = (s1, Inr bres)"
    using deploy_batch by blast
  have "\<exists>p \<in> set (rin_polls inp). or_default (rc_healthCheckTimeout config) 30000 \<le> hp_now p - rin_start inp"
    using Cons.prems(1) [of i batch inp] y by simp
  then obtain health where h: "waitForHealthConfirmation (rin_start inp) (rin_polls inp) batch
      (or_default (rc_healthCheckTimeout config) 30000) = Some health"
    using health_loop_ends unfolding waitForHealthConfirmation_def by blast
  have IH: "x \<noteq> Inr None" if "rolling_loop env tenantId sensorIds rules config b bs fc' res' s'' = (s', x)" for fc' res' s''
    using Cons.prems(1) that by (intro Cons.IH) auto
  show ?case
    using Cons.prems(2) y e h IH
    by (auto simp: Let_def split: if_splits elim!: act_bind_cases)
qed auto


definition failing_polls :: "nat \<Rightarrow> rolling_input" where
  "failing_polls k = \<lparr> rin_now = int k, rin_start = 0,
     rin_polls = [\<lparr> hp_now = 0, hp_rows = None, hp_checkedAt = 0 \<rparr>, \<lparr> hp_now = 30000, hp_rows = None, hp_checkedAt = 0 \<rparr>] \<rparr>"


text \<open>
  The counts of a rolling deployment do not add up: a sensor whose command fails and whose health check fails
  too is counted twice as a failure, and failures are subtracted from a number that never included it. For a
  single unreachable sensor the result reports two failures and minus two successes.
\<close>

lemma rolling_counts_negative:
  "case snd (deployRolling ref_rules failing_polls ''a'' [''s9''] [] (strategy_config Rolling) (new_distributor (fleet_of []))) of
     Inr (Some r) \<Rightarrow> dr_totalTargets r = 1 \<and> dr_failureCount r = 2 \<and> dr_successCount r = -2
   | _ \<Rightarrow> False"
  by code_simp

section \<open>Rollback\<close>

definition sends_only :: "(json \<Rightarrow> bool) \<Rightarrow> 'w commander \<Rightarrow> 'w commander \<Rightarrow> bool" where
  "sends_only P s s' \<longleftrightarrow> (\<exists>new. fc_sends s' = fc_sends s @ new \<and> (\<forall>(i, t, p, k) \<in> set new. P p))"

lemma sends_only_trans:
  assumes "sends_only P a b" "sends_only P b c"
  shows "sends_only P a c"
proof -
  obtain m n where "fc_sends b = fc_sends a @ m" "fc_sends c = fc_sends b @ n" "\<forall>(i, t, p, k) \<in> set m. P p" "\<forall>(i, t, p, k) \<in> set n. P p"
    using assms unfolding sends_only_def by blast
  then show ?thesis unfolding sends_only_def by (intro exI [of _ "m @ n"]) auto
qed

lemma sends_only_preorder: "reflp (sends_only P)" "transp (sends_only P)"
  by (auto intro!: reflpI transpI intro: sends_only_trans) (simp add: sends_only_def)

lemma same_sends_only: "act_rel same_sends m \<Longrightarrow> act_rel (sends_only P) m"
  by (auto simp: act_rel_def sends_only_def)

lemma sendCommand_sends_only:
  assumes "P (sc_payload cmd)"
  shows "act_rel (sends_only P) (fleet_sendCommand env cfg now tenantId sensorId cmd)"
proof -
  have "act_rel (sends_only P) (hand_over env cfg now sensorId cmd k)" for k
    unfolding hand_over_def using assms
    by (auto intro!: act_rules sends_only_preorder same_sends_only [OF in_db_sends] same_sends_only [OF handler_sends(10)]
        split: option.split) (auto simp: act_rel_def sends_only_def)
  moreover have "act_rel (sends_only P) (ensureCommandEnabled cfg t)" for t
    unfolding ensureCommandEnabled_def by (auto intro!: act_rules sends_only_preorder)
  ultimately show ?thesis
    unfolding fleet_sendCommand_def
    by (intro act_rules sends_only_preorder same_sends_only [OF prepare_sends(1)] same_sends_only [OF prepare_sends(2)]
        same_sends_only [OF emit_sends])
qed

lemma in_fc_rel: "act_rel R m \<Longrightarrow> act_rel (\<lambda>s s'. R (rd_commander s) (rd_commander s')) (in_fc m)"
  by (auto simp: act_rel_def in_fc_def split: prod.split) (metis fst_conv)

lemma hd_of_sort:
  assumes "c \<in> set xs" and "\<And>d. d \<in> set xs \<Longrightarrow> d \<noteq> c \<Longrightarrow> (f c :: int) < f d"
  shows "\<exists>ys. sort_key f xs = c # ys"
proof (cases "sort_key f xs")
  case Nil
  with assms(1) show ?thesis by (metis empty_iff set_empty set_sort)
next
  case (Cons y ys)
  then have y: "y \<in> set xs" by (metis list.set_intros(1) set_sort)
  have "sorted (map f (y # ys))" using sorted_sort_key [of f xs] Cons by simp
  moreover have "c \<in> set (y # ys)" using assms(1) Cons by (metis set_sort)
  ultimately have "f y \<le> f c" by auto
  with assms(2) [OF y] have "y = c" by (cases "y = c") auto
  with Cons show ?thesis by blast
qed

definition pushed_success :: "fleet_command \<Rightarrow> bool" where
  "pushed_success r \<longleftrightarrow> fk_commandType r = ''push_rules'' \<and> fk_status r = Fc_success"

lemma previous_rules:
  assumes tables: "fleet_tables (re_fleet env) crows cids srows sids" and keys: "distinct (map fk_id (crows (fc_db (rd_commander s))))"
    and c: "c1 \<in> set (crows (fc_db (rd_commander s)))" "c2 \<in> set (crows (fc_db (rd_commander s)))" "c1 \<noteq> c2"
      "pushed_success c1" "pushed_success c2" "fk_completedAt c1 = Some t1" "fk_completedAt c2 = Some t2" "t2 < t1"
    and others: "\<And>d. d \<in> set (crows (fc_db (rd_commander s))) \<Longrightarrow> pushed_success d \<Longrightarrow> d \<noteq> c1 \<Longrightarrow> d \<noteq> c2 \<Longrightarrow> or_default (fk_completedAt d) 0 < t2"
    and rules: "json_field ''rules'' (fk_payload c2) = Some (JArr theirs)"
    and run: "getPreviousRuleVersion env s = (s', Inr rs)"
  shows "rs = theirs"
proof -
  let ?f = "\<lambda>r. - or_default (fk_completedAt r) 0"
  obtain found where found: "in_fc (in_db (tb_findMany (fe_commands (re_fleet env)) pushed_success)) s = (s', Inr found)"
    and rs: "rs = (let previousCommands = take 2 (sort_key ?f found) in if length previousCommands < 2 then []
          else case json_field ''rules'' (fk_payload (previousCommands ! 1)) of Some (JArr rules) \<Rightarrow> rules | _ \<Rightarrow> [])"
    using run unfolding getPreviousRuleVersion_def pushed_success_def [abs_def] by (auto simp: act_bind_Inr Let_def)
  have m: "mset found = mset (filter pushed_success (crows (fc_db (rd_commander s))))"
    using prisma_table.findMany [OF fleet_tables.axioms(1) [OF tables] in_db_run(1) [OF in_fc_run(1) [OF found]]] by simp
  have "distinct (filter pushed_success (crows (fc_db (rd_commander s))))" using keys by (simp add: distinct_map)
  then have "distinct found" using m by (metis mset_eq_imp_distinct_iff)
  then have d: "distinct (sort_key ?f found)" by simp
  have set: "set found = {r \<in> set (crows (fc_db (rd_commander s))). pushed_success r}" using m by (metis mset_eq_setD set_filter)
  obtain ys where ys: "sort_key ?f found = c1 # ys"
    using hd_of_sort [of c1 found ?f] set c others by (fastforce simp: or_default_def)
  have "set ys = set found - {c1}" using d ys by (metis Diff_insert_absorb distinct.simps(2) list.simps(15) set_sort)
  moreover have "sort_key ?f ys = ys"
    using sorted_sort_key [of ?f found] ys by (intro sort_key_id_if_sorted) (metis list.simps(9) sorted_simps(2))
  ultimately obtain zs where "ys = c2 # zs"
    using hd_of_sort [of c2 ys ?f] set c others by (fastforce simp: or_default_def)
  with ys rs rules show ?thesis by simp
qed

text \<open>
  C39: A rollback does not restore the tenant's own rules. The rules it sends to the tenant's sensors are those of the
  second most recent successful push in the whole command table, whatever tenant and sensor that push was for.
\<close>

theorem rollback_sends_latest_rules_of_anyone:
  assumes "fleet_tables (re_fleet env) crows cids srows sids" and "distinct (map fk_id (crows (fc_db (rd_commander s))))"
    and "c1 \<in> set (crows (fc_db (rd_commander s)))" "c2 \<in> set (crows (fc_db (rd_commander s)))" "c1 \<noteq> c2"
      "pushed_success c1" "pushed_success c2" "fk_completedAt c1 = Some t1" "fk_completedAt c2 = Some t2" "t2 < t1"
    and "\<And>d. d \<in> set (crows (fc_db (rd_commander s))) \<Longrightarrow> pushed_success d \<Longrightarrow> d \<noteq> c1 \<Longrightarrow> d \<noteq> c2 \<Longrightarrow> or_default (fk_completedAt d) 0 < t2"
    and "json_field ''rules'' (fk_payload c2) = Some (JArr theirs)"
    and "rollbackDeployment env now tenantId sensorIds s = (s', Inr ())"
  shows "\<exists>new. fc_sends (rd_commander s') = fc_sends (rd_commander s) @ new \<and>
    (\<forall>(i, t, p, k) \<in> set new. json_field ''rules'' p = Some (JArr theirs))"
proof -
  let ?P = "\<lambda>p. json_field ''rules'' p = Some (JArr theirs)"
  let ?R = "\<lambda>s s'. sends_only ?P (rd_commander s) (rd_commander s')"
  from assms(13) obtain s1 rs u where g: "getPreviousRuleVersion env s = (s1, Inr rs)"
    and e: "act_each (\<lambda>i. act_try (deploySingleSensor env now tenantId i rs) (\<lambda>_. act_return ())) sensorIds s1 = (s', Inr u)"
    by (auto simp: rollbackDeployment_def act_bind_Inr)
  have "rs = theirs" by (rule previous_rules [OF assms(1-12) g])
  have pre: "reflp ?R" "transp ?R"
    by (simp add: reflp_def reflpD [OF sends_only_preorder(1)], rule transpI, rule sends_only_trans)
  have send: "act_rel ?R (in_fc (fleet_sendCommand (re_fleet env) (re_config env) now tenantId i (rules_command [(''rules'', JArr theirs)])))" for i
    by (rule in_fc_rel, rule sendCommand_sends_only) (simp add: rules_command_def)
  have "act_rel ?R (deploySingleSensor env now tenantId i theirs)" for i
    unfolding deploySingleSensor_def
    by (cases "re_commander env") (simp_all add: act_rel_bind [OF pre(2) send] act_rel_return [OF pre(1)] act_rel_throw [OF pre(1)])
  then have "act_rel ?R (act_each (\<lambda>i. act_try (deploySingleSensor env now tenantId i theirs) (\<lambda>_. act_return ())) sensorIds)"
    by (intro act_rel_each [OF pre] act_rel_try [OF pre(2)] act_rel_return [OF pre(1)])
  from act_relD [OF this e [unfolded \<open>rs = theirs\<close>]] have "?R s1 s'" .
  moreover have "fc_sends (rd_commander s1) = fc_sends (rd_commander s)"
    using g unfolding getPreviousRuleVersion_def
    by (cases rule: act_bind_cases) (auto simp: Let_def dest!: in_fc_run(1) in_db_run(2))
  ultimately show ?thesis by (simp add: sends_only_def)
qed

text \<open>Two pushes of tenant \<open>b\<close> are the latest; the rollback of tenant \<open>a\<close> sends \<open>b\<close>'s rules to \<open>a\<close>'s sensor.\<close>

definition b_push :: "string \<Rightarrow> int \<Rightarrow> string \<Rightarrow> fleet_command" where
  "b_push i t r = \<lparr> fk_id = i, fk_sensorId = ''sb'', fk_commandType = ''push_rules'', fk_payload = JObj [(''rules'', JArr [JStr r])],
     fk_status = Fc_success, fk_result = None, fk_error = None, fk_queuedAt = t, fk_sentAt = Some t, fk_completedAt = Some t,
     fk_attempts = 1, fk_timeoutAt = t + 30000, fk_createdAt = t \<rparr>"

definition b_world :: rules_world where
  "b_world = (fleet_of [(''sa'', ''a''), (''sb'', ''b'')])\<lparr>fw_commands := \<lparr> st_rows = [b_push ''x'' 1 ''b-old'', b_push ''y'' 2 ''b-new''], st_next = 0 \<rparr>\<rparr>"

theorem rollback_sends_latest_rules_of_anyone_witness:
  "\<exists>s'. rollbackDeployment ref_rules 100 ''a'' [''sa''] (new_distributor b_world) = (s', Inr ()) \<and>
     (\<forall>(i, t, p, k) \<in> set (fc_sends (rd_commander s')). json_field ''rules'' p = Some (JArr [JStr ''b-old''])) \<and>
     map fst (fc_sends (rd_commander s')) = [''sa'']"
proof -
  let ?m = "rollbackDeployment ref_rules 100 ''a'' [''sa''] (new_distributor b_world)"
  have "snd ?m = Inr ()" "map fst (fc_sends (rd_commander (fst ?m))) = [''sa'']" by code_simp+
  then obtain s' where m: "?m = (s', Inr ())" "map fst (fc_sends (rd_commander s')) = [''sa'']" by (cases ?m) auto
  have t: "fleet_tables (re_fleet ref_rules) (\<lambda>w. st_rows (fw_commands w)) (\<lambda>w. list_ids (fw_commands w))
      (\<lambda>w. st_rows (fw_sensors w)) (\<lambda>w. list_ids (fw_sensors w))"
    using reff.fleet_tables_axioms by (simp add: ref_rules_def)
  have "\<exists>new. fc_sends (rd_commander s') = fc_sends (rd_commander (new_distributor b_world)) @ new \<and>
      (\<forall>(i, t, p, k) \<in> set new. json_field ''rules'' p = Some (JArr [JStr ''b-old'']))"
    by (rule rollback_sends_latest_rules_of_anyone [OF t _ _ _ _ _ _ _ _ _ _ _ m(1),
          where ?c1.0 = "b_push ''y'' 2 ''b-new''" and ?c2.0 = "b_push ''x'' 1 ''b-old''" and ?t1.0 = 2 and ?t2.0 = 1])
      (auto simp: new_distributor_def new_commander_def b_world_def b_push_def pushed_success_def)
  with m show ?thesis by (auto simp: new_distributor_def new_commander_def)
qed

section \<open>Scheduling\<close>

text \<open>
  C36: A deployment scheduled for later sends nothing when it is accepted, and the timer it leaves behind is due at
  the scheduled time, provided that is at most 2147483647 milliseconds, not quite 25 days, ahead. A deployment
  scheduled further ahead is due one millisecond after it was accepted.
\<close>

theorem scheduled_deployment_due:
  assumes "deployScheduled env now tenantId sensorIds rules config s = (s', Inr r)"
    and "rc_scheduledTime config = Some t" and "now < t"
  shows "fc_sends (rd_commander s') = fc_sends (rd_commander s) \<and>
    (\<exists>i. dr_scheduledDeploymentId r = Some i \<and> jm_get (rd_scheduledTimers s') i = Some (rd_nextHandle s) \<and>
       jm_get (rd_live s') (rd_nextHandle s) = Some \<lparr> tm_at = (if t - now \<le> 2147483647 then t else now + 1),
         tm_tenantId = tenantId, tm_deploymentId = i, tm_sensorIds = sensorIds, tm_rules = rules \<rparr>)"
  using assms
  by (auto simp: deployScheduled_def act_bind_Inr scheduleDeploymentTimer_def timer_delay_def in_fc_def in_db_def
      split: prod.splits)

theorem scheduled_deployment_due_witness:
  "\<exists>s' r. deployScheduled ref_rules 1000 ''a'' [''s1''] [] ((strategy_config Scheduled)\<lparr>rc_scheduledTime := Some 2592001000\<rparr>)
       (new_distributor (fleet_of [(''s1'', ''a'')])) = (s', Inr r) \<and>
     map_option tm_at (jm_get (rd_live s') 0) = Some 1001"
proof -
  let ?m = "deployScheduled ref_rules 1000 ''a'' [''s1''] [] ((strategy_config Scheduled)\<lparr>rc_scheduledTime := Some 2592001000\<rparr>)
       (new_distributor (fleet_of [(''s1'', ''a'')]))"
  have "case snd ?m of Inr r \<Rightarrow> True | Inl e \<Rightarrow> False" by code_simp
  then obtain s' r where m: "?m = (s', Inr r)" by (cases ?m) (auto split: sum.splits)
  from scheduled_deployment_due [OF m, of 2592001000] m show ?thesis
    by (auto simp: new_distributor_def)
qed

datatype sched_op =
  Sched_deploy int string "string list" "rule list" rollout_config
| Sched_fire int nat
| Sched_cancel int string string
| Sched_recover int

fun sched_step :: "'w rules_env \<Rightarrow> sched_op \<Rightarrow> 'w distributor \<Rightarrow> 'w distributor" where
  "sched_step env (Sched_deploy now tenantId sensorIds rules config) s = fst (deployScheduled env now tenantId sensorIds rules config s)"
| "sched_step env (Sched_fire now h) s = fst (timer_fires env now h s)"
| "sched_step env (Sched_cancel now tenantId i) s = fst (cancelScheduledDeployment env now tenantId i s)"
| "sched_step env (Sched_recover now) s = fst (recoverScheduledDeployments env now s)"

fun is_recover :: "sched_op \<Rightarrow> bool" where
  "is_recover (Sched_recover now) = True"
| "is_recover _ = False"

definition sched_run :: "'w rules_env \<Rightarrow> sched_op list \<Rightarrow> 'w distributor \<Rightarrow> 'w distributor" where
  "sched_run env ops = fold (sched_step env) ops"

locale scheduled_table =
  d: prisma_table "re_scheduled env" drows dids sd_id "\<lambda>i r. r\<lparr>sd_id := i\<rparr>"
  for env :: "'w rules_env" and drows dids +
  assumes sensors_keep: "tb_frames (fe_sensors (re_fleet env)) drows" "tb_frames (fe_sensors (re_fleet env)) dids"
    and commands_keep: "tb_frames (fe_commands (re_fleet env)) drows" "tb_frames (fe_commands (re_fleet env)) dids"
    and sync_keep: "tb_frames (re_sync env) drows" "tb_frames (re_sync env) dids"
    and metrics_keep: "fe_metrics (re_fleet env) = Some g \<Longrightarrow> act_keeps drows (g i) \<and> act_keeps dids (g i)"
    and sender_keep: "fe_sender (re_fleet env) = Some send \<Longrightarrow> act_keeps drows (send i t p k) \<and> act_keeps dids (send i t p k)"
begin

text \<open>Actions that leave the scheduled deployments and the timers alone.\<close>

definition apart :: "'w commander \<Rightarrow> 'w commander \<Rightarrow> bool" where
  "apart s s' \<longleftrightarrow> drows (fc_db s') = drows (fc_db s) \<and> dids (fc_db s') = dids (fc_db s)"

lemma apart_preorder: "reflp apart" "transp apart"
  by (auto intro!: reflpI transpI simp: apart_def)

lemmas apart_rules = act_rel_return [OF apart_preorder(1)] act_rel_throw [OF apart_preorder(1)]
  act_rel_bind [OF apart_preorder(2)] act_rel_try [OF apart_preorder(2)] act_rel_each [OF apart_preorder]

lemma in_db_apart: "act_keeps drows m \<Longrightarrow> act_keeps dids m \<Longrightarrow> act_rel apart (in_db m)"
  by (auto simp: act_rel_def act_keeps_def apart_def in_db_def split: prod.split) (metis fst_conv)+

lemma modify_apart: "act_rel apart (act_modify (\<lambda>s. s\<lparr>fc_sends := f s\<rparr>))" "act_rel apart (fc_emit e)"
  by (simp_all add: act_rel_def apart_def fc_emit_def)

lemma table_apart:
  assumes "tb_frames T drows" "tb_frames T dids"
  shows "act_rel apart (in_db (tb_findMany T p))" "act_rel apart (in_db (tb_updateMany T p f))"
    "act_rel apart (in_db (tb_create T r))" "act_rel apart (in_db (tb_upsertAll T us))" "act_rel apart (in_db (tb_findFirst T p))"
  using assms findFirst_keeps [OF assms(1)] findFirst_keeps [OF assms(2)] unfolding tb_frames_def by (auto intro!: in_db_apart)

lemma sendCommand_apart: "act_rel apart (fleet_sendCommand (re_fleet env) cfg now tenantId sensorId cmd)"
proof -
  note c = table_apart [OF commands_keep]
  have "act_rel apart (markCommandFailed (re_fleet env) cfg now i err)" for i err
    unfolding markCommandFailed_def failed_read_def failed_write_def update_open_def
    by (intro apart_rules c) (auto intro!: apart_rules c modify_apart split: option.split)
  then have "act_rel apart (hand_over (re_fleet env) cfg now sensorId cmd i)" for i
    unfolding hand_over_def
    by (auto intro!: apart_rules in_db_apart modify_apart dest: sender_keep split: option.split)
  moreover have "act_rel apart (command_timeout (re_fleet env) cfg sensorId cmd)"
    unfolding command_timeout_def Let_def by (auto intro!: apart_rules in_db_apart dest: metrics_keep split: option.split)
  moreover have "act_rel apart (create_command (re_fleet env) now tenantId sensorId cmd t)" for t
    unfolding create_command_def
    by (auto intro!: apart_rules table_apart [OF sensors_keep] c split: option.split)
  moreover have "act_rel apart (ensureCommandEnabled cfg t)" for t
    unfolding ensureCommandEnabled_def by (auto intro!: apart_rules)
  ultimately show ?thesis unfolding fleet_sendCommand_def by (intro apart_rules modify_apart)
qed

text \<open>The same for the distributor, with the timers unchanged.\<close>

definition kept :: "'w distributor \<Rightarrow> 'w distributor \<Rightarrow> bool" where
  "kept s s' \<longleftrightarrow> apart (rd_commander s) (rd_commander s') \<and> rd_live s' = rd_live s \<and>
     rd_scheduledTimers s' = rd_scheduledTimers s \<and> rd_nextHandle s' = rd_nextHandle s"

lemma kept_preorder: "reflp kept" "transp kept"
  by (auto intro!: reflpI transpI simp: kept_def apart_def)

lemmas kept_rules = act_rel_return [OF kept_preorder(1)] act_rel_throw [OF kept_preorder(1)]
  act_rel_bind [OF kept_preorder(2)] act_rel_try [OF kept_preorder(2)] act_rel_each [OF kept_preorder]

lemma in_fc_kept: "act_rel apart m \<Longrightarrow> act_rel kept (in_fc m)"
  by (auto simp: act_rel_def kept_def in_fc_def split: prod.split) (metis fst_conv)

lemma deployImmediate_kept: "act_rel kept (deployImmediate env now tenantId sensorIds rules)"
proof -
  have "act_rel apart (sendCommandToMultiple (re_fleet env) (re_config env) now tenantId sensorIds cmd)" for cmd
    unfolding sendCommandToMultiple_def by (intro apart_rules sendCommand_apart)
  then show ?thesis
    unfolding deployImmediate_def
    by (auto intro!: kept_rules in_fc_kept table_apart [OF sync_keep])
qed

lemma update_scheduled_run:
  assumes "update_scheduled env i f s = (s', x)"
  obtains g where "drows (fc_db (rd_commander s')) = map g (drows (fc_db (rd_commander s)))"
    "\<And>r. g r = r \<or> (sd_id r = i \<and> g r = f r)" "x = Inr () \<Longrightarrow> (\<forall>r. sd_id r = i \<longrightarrow> g r = f r)"
    "dids (fc_db (rd_commander s')) = dids (fc_db (rd_commander s))"
    "rd_live s' = rd_live s" "rd_scheduledTimers s' = rd_scheduledTimers s" "rd_nextHandle s' = rd_nextHandle s"
proof -
  note c = in_fc_run [OF assms [unfolded update_scheduled_def]]
  obtain w where u: "tb_update (re_scheduled env) (\<lambda>r. sd_id r = i) f (fc_db (rd_commander s)) = (w, x)"
    "fc_db (rd_commander s') = w" using in_db_run(1) [OF c(1)] by blast
  then obtain y where y: "tb_updateMany (re_scheduled env) (\<lambda>r. sd_id r = i) f (fc_db (rd_commander s)) = (w, y)"
    "x = Inr () \<longrightarrow> (\<exists>n. y = Inr n)"
    unfolding tb_update_def by (auto elim!: act_bind_cases split: if_splits)
  show thesis
  proof (cases y)
    case (Inl e)
    with d.updateMany [OF y(1)] u c y(2) show thesis by (intro that [of "\<lambda>r. r"]) auto
  next
    case (Inr n)
    with d.updateMany [OF y(1)] u c show thesis by (intro that [of "\<lambda>r. if sd_id r = i then f r else r"]) auto
  qed
qed

text \<open>The deployment \<open>k\<close> is cancelled, and no timer of this instance will run it.\<close>

definition dead :: "string \<Rightarrow> 'w distributor \<Rightarrow> bool" where
  "dead k s \<longleftrightarrow> k \<in> dids (fc_db (rd_commander s)) \<and>
     (\<forall>h t. jm_get (rd_live s) h = Some t \<longrightarrow> tm_deploymentId t \<noteq> k) \<and>
     (\<forall>r \<in> set (drows (fc_db (rd_commander s))). sd_id r = k \<longrightarrow> sd_status r = CANCELLED)"

definition spares :: "string \<Rightarrow> 'w distributor \<Rightarrow> 'w distributor \<Rightarrow> bool" where
  "spares k s s' \<longleftrightarrow> (dead k s \<longrightarrow> dead k s')"

lemma spares_preorder: "reflp (spares k)" "transp (spares k)"
  by (auto intro!: reflpI transpI simp: spares_def)

lemmas spares_rules = act_rel_return [OF spares_preorder(1)] act_rel_throw [OF spares_preorder(1)]
  act_rel_bind [OF spares_preorder(2)] act_rel_try [OF spares_preorder(2)] act_rel_each [OF spares_preorder]

lemma kept_spares: "act_rel kept m \<Longrightarrow> act_rel (spares k) m"
  by (auto simp: act_rel_def kept_def apart_def spares_def dead_def)

lemma update_spares:
  assumes "i \<noteq> k" "\<And>r. sd_id (f r) = sd_id r"
  shows "act_rel (spares k) (update_scheduled env i f)"
  unfolding act_rel_def
proof
  fix s :: "'w distributor"
  obtain s' x where u: "update_scheduled env i f s = (s', x)" by fastforce
  then obtain g where g: "drows (fc_db (rd_commander s')) = map g (drows (fc_db (rd_commander s)))"
    "\<And>r. g r = r \<or> (sd_id r = i \<and> g r = f r)" "dids (fc_db (rd_commander s')) = dids (fc_db (rd_commander s))" "rd_live s' = rd_live s"
    by (rule update_scheduled_run) blast
  have "sd_id (g r) = k \<Longrightarrow> g r = r" for r using g(2) [of r] assms by auto
  with u g(1,3,4) show "spares k s (fst (update_scheduled env i f s))" by (auto simp: spares_def dead_def) metis
qed

lemma execute_spares: "i \<noteq> k \<Longrightarrow> act_rel (spares k) (executeScheduledDeployment env now tenantId i sensorIds rules)"
proof -
  assume "i \<noteq> k"
  moreover have "act_rel (spares k) (act_modify (\<lambda>s. s\<lparr>rd_scheduledTimers := f s\<rparr>))" for f
    by (auto simp: act_rel_def spares_def dead_def)
  ultimately show ?thesis
    unfolding executeScheduledDeployment_def
    by (intro spares_rules update_spares kept_spares [OF deployImmediate_kept]) auto
qed

lemma schedule_spares: "i \<noteq> k \<Longrightarrow> act_rel (spares k) (scheduleDeploymentTimer now tenantId i sensorIds rules delay)"
  by (auto simp: act_rel_def spares_def dead_def scheduleDeploymentTimer_def split: if_splits)

lemma recover_spares:
  assumes "dead k s" and "recoverScheduledDeployments env now s = (s', x)"
  shows "dead k s'"
  using assms(2) unfolding recoverScheduledDeployments_def
proof (cases rule: act_bind_cases)
  case (threw e)
  have "act_keeps drows (tb_findMany (re_scheduled env) p)" "act_keeps dids (tb_findMany (re_scheduled env) p)" for p
    using d.findMany [of p] unfolding act_keeps_def by (metis fst_conv surj_pair)+
  from act_relD [OF kept_spares [OF in_fc_kept [OF in_db_apart [OF this]]] threw(1)] assms(1) show ?thesis by (simp add: spares_def)
next
  case (went_on s1 found)
  have "act_keeps drows (tb_findMany (re_scheduled env) p)" "act_keeps dids (tb_findMany (re_scheduled env) p)" for p
    using d.findMany [of p] unfolding act_keeps_def by (metis fst_conv surj_pair)+
  from act_relD [OF kept_spares [OF in_fc_kept [OF in_db_apart [OF this]]] went_on(1)] assms(1)
  have 1: "dead k s1" by (simp add: spares_def)
  have "set found = {r \<in> set (drows (fc_db (rd_commander s))). sd_status r = PENDING}"
    using d.findMany_set [OF in_db_run(1) [OF in_fc_run(1) [OF went_on(1)]]] .
  then have "sd_id r \<noteq> k" if "r \<in> set found" for r using that assms(1) by (auto simp: dead_def)
  then have "act_rel (spares k) (recover_one env now r)" if "r \<in> set found" for r
    using that unfolding recover_one_def by (auto intro!: spares_rules execute_spares schedule_spares)
  then have "act_rel (spares k) (act_bind (act_each (recover_one env now) (sort_key sd_scheduledAt found)) (\<lambda>_. act_return (length found)))"
    by (intro spares_rules) simp
  from act_relD [OF this went_on(2)] 1 show ?thesis by (simp add: spares_def)
qed

lemma fire_spares:
  assumes "dead k s" shows "dead k (fst (timer_fires env now h s))"
proof (cases "jm_get (rd_live s) h")
  case (Some t)
  with assms have "tm_deploymentId t \<noteq> k" by (auto simp: dead_def)
  note e = execute_spares [OF this, of now "tm_tenantId t" "tm_sensorIds t" "tm_rules t"]
  have "dead k (s\<lparr>rd_live := jm_delete h (rd_live s)\<rparr>)" using assms by (auto simp: dead_def split: if_splits)
  with e Some assms show ?thesis by (simp add: timer_fires_def act_rel_def spares_def)
qed (use assms in \<open>simp add: timer_fires_def\<close>)

lemma find_scheduled_kept: "act_rel kept (in_fc (in_db (tb_findFirst (re_scheduled env) p)))"
proof -
  have "act_keeps drows (tb_findFirst (re_scheduled env) p)" "act_keeps dids (tb_findFirst (re_scheduled env) p)"
    using d.findFirst_frame [of p] unfolding act_keeps_def by (metis fst_conv surj_pair)+
  then show ?thesis by (intro in_fc_kept in_db_apart)
qed

lemma cancel_check_run:
  assumes "cancel_check env tenantId i s = (s', x)"
  shows "kept s s'" "x = Inr True \<Longrightarrow> \<exists>r \<in> set (drows (fc_db (rd_commander s))). sd_id r = i \<and> sd_tenantId r = tenantId \<and> sd_status r = PENDING"
proof -
  have "act_rel kept (cancel_check env tenantId i)"
    unfolding cancel_check_def by (intro kept_rules find_scheduled_kept)
  with assms show "kept s s'" by (rule act_relD [rotated])
  assume "x = Inr True"
  with assms obtain r where "in_fc (in_db (tb_findFirst (re_scheduled env) (\<lambda>r. sd_id r = i))) s = (s', Inr (Some r))"
    "sd_tenantId r = tenantId" "sd_status r = PENDING"
    by (auto simp: cancel_check_def act_bind_Inr split: option.splits)
  then show "\<exists>r \<in> set (drows (fc_db (rd_commander s))). sd_id r = i \<and> sd_tenantId r = tenantId \<and> sd_status r = PENDING"
    using d.findFirst_Some in_db_run(1) in_fc_run(1) by blast
qed

lemma cancel_spares:
  assumes "dead k s" shows "dead k (fst (cancelScheduledDeployment env now tenantId i s))"
proof -
  obtain s1 x where c: "cancel_check env tenantId i s = (s1, x)" by fastforce
  have d1: "dead k s1" using cancel_check_run(1) [OF c] assms by (auto simp: kept_def apart_def dead_def)
  show ?thesis
  proof (cases "x = Inr True")
    case True
    then have "i \<noteq> k" using cancel_check_run(2) [OF c] assms by (auto simp: dead_def)
    have "act_rel (spares k) (act_modify (\<lambda>s. case jm_get (rd_scheduledTimers s) i of None \<Rightarrow> s
       | Some h \<Rightarrow> s\<lparr>rd_live := jm_delete h (rd_live s), rd_scheduledTimers := jm_delete i (rd_scheduledTimers s)\<rparr>))"
      by (auto simp: act_rel_def spares_def dead_def split: option.split if_splits)
    then have "act_rel (spares k) (cancel_finish env now i)"
      unfolding cancel_finish_def by (intro spares_rules update_spares \<open>i \<noteq> k\<close>) simp_all
    with d1 c True show ?thesis by (simp add: cancelScheduledDeployment_def act_rel_def spares_def)
  next
    case False
    then show ?thesis using d1 c by (cases x) (auto simp: cancelScheduledDeployment_def)
  qed
qed

lemma create_run:
  assumes "in_fc (in_db (tb_create (re_scheduled env) r)) s = (s', x)"
  shows "rd_live s' = rd_live s" "rd_scheduledTimers s' = rd_scheduledTimers s" "rd_nextHandle s' = rd_nextHandle s"
    "(\<exists>e. x = Inl e \<and> drows (fc_db (rd_commander s')) = drows (fc_db (rd_commander s)) \<and>
        dids (fc_db (rd_commander s')) = dids (fc_db (rd_commander s))) \<or>
     (\<exists>i. x = Inr (r\<lparr>sd_id := i\<rparr>) \<and> i \<notin> dids (fc_db (rd_commander s)) \<and>
        drows (fc_db (rd_commander s')) = drows (fc_db (rd_commander s)) @ [r\<lparr>sd_id := i\<rparr>] \<and>
        dids (fc_db (rd_commander s')) = insert i (dids (fc_db (rd_commander s))))"
  using in_fc_run [OF assms] d.create [OF in_db_run(1) [OF in_fc_run(1) [OF assms]]] by (auto split: sum.splits)

text \<open>A scheduled deployment leaves its timer under a fresh id.\<close>

lemma deployScheduled_run:
  assumes "deployScheduled env now tenantId sensorIds rules config s = (s', x)"
  shows "kept s s' \<or> (\<exists>i r tm. i \<notin> dids (fc_db (rd_commander s)) \<and> sd_id r = i \<and>
     drows (fc_db (rd_commander s')) = drows (fc_db (rd_commander s)) @ [r] \<and>
     dids (fc_db (rd_commander s')) = insert i (dids (fc_db (rd_commander s))) \<and> tm_deploymentId tm = i \<and>
     rd_live s' = jm_set (rd_nextHandle s) tm (rd_live s) \<and>
     rd_scheduledTimers s' = jm_set i (rd_nextHandle s) (rd_scheduledTimers s) \<and> rd_nextHandle s' = Suc (rd_nextHandle s))"
proof (cases "rc_scheduledTime config")
  case None
  with assms show ?thesis by (simp add: deployScheduled_def kept_def apart_def)
next
  case (Some t)
  show ?thesis
  proof (cases "t \<le> now")
    case True
    with assms Some act_relD [OF deployImmediate_kept] show ?thesis by (auto simp: deployScheduled_def)
  next
    case False
    let ?r = "\<lparr> sd_id = [], sd_tenantId = tenantId, sd_sensorIds = sensorIds, sd_rules = rules, sd_scheduledAt = t,
                sd_status = PENDING, sd_executedAt = None, sd_cancelledAt = None, sd_error = None, sd_result = None \<rparr>"
    obtain s1 y where c: "in_fc (in_db (tb_create (re_scheduled env) ?r)) s = (s1, y)" by fastforce
    from create_run(4) [OF c] show ?thesis
    proof (elim disjE exE conjE)
      fix e assume "y = Inl e" "drows (fc_db (rd_commander s1)) = drows (fc_db (rd_commander s))"
        "dids (fc_db (rd_commander s1)) = dids (fc_db (rd_commander s))"
      with assms Some False c create_run(1-3) [OF c] show ?thesis by (simp add: deployScheduled_def kept_def apart_def)
    next
      fix i assume i: "y = Inr (?r\<lparr>sd_id := i\<rparr>)" "i \<notin> dids (fc_db (rd_commander s))"
        "drows (fc_db (rd_commander s1)) = drows (fc_db (rd_commander s)) @ [?r\<lparr>sd_id := i\<rparr>]"
        "dids (fc_db (rd_commander s1)) = insert i (dids (fc_db (rd_commander s)))"
      with assms Some False c create_run(1-3) [OF c] show ?thesis
        by (intro disjI2 exI [of _ i] exI [of _ "?r\<lparr>sd_id := i\<rparr>"] exI [of _ "\<lparr> tm_at = now + timer_delay (t - now), tm_tenantId = tenantId,
              tm_deploymentId = i, tm_sensorIds = sensorIds, tm_rules = rules \<rparr>"])
          (simp add: deployScheduled_def scheduleDeploymentTimer_def, force)
    qed
  qed
qed

lemma deploy_spares:
  assumes "dead k s" shows "dead k (fst (deployScheduled env now tenantId sensorIds rules config s))"
proof -
  obtain s' x where r: "deployScheduled env now tenantId sensorIds rules config s = (s', x)" by fastforce
  from deployScheduled_run [OF r] have "dead k s'"
  proof (elim disjE exE conjE)
    assume "kept s s'"
    with assms show ?thesis by (simp add: kept_def apart_def dead_def)
  next
    fix i tm rr
    assume "i \<notin> dids (fc_db (rd_commander s))" "sd_id rr = i" "tm_deploymentId tm = i"
      "drows (fc_db (rd_commander s')) = drows (fc_db (rd_commander s)) @ [rr]"
      "dids (fc_db (rd_commander s')) = insert i (dids (fc_db (rd_commander s)))"
      "rd_live s' = jm_set (rd_nextHandle s) tm (rd_live s)"
    with assms show ?thesis by (fastforce simp: dead_def)
  qed
  with r show ?thesis by simp
qed

lemma sched_run_spares: "dead k s \<Longrightarrow> dead k (sched_run env ops s)"
proof (induction ops arbitrary: s)
  case (Cons op ops)
  have "dead k (sched_step env op s)"
  proof (cases op)
    case (Sched_recover now)
    obtain s' x where "recoverScheduledDeployments env now s = (s', x)" by fastforce
    with recover_spares [OF Cons.prems this] Sched_recover show ?thesis by simp
  qed (use deploy_spares [OF Cons.prems] fire_spares [OF Cons.prems] cancel_spares [OF Cons.prems] in simp_all)
  from Cons.IH [OF this] show ?case by (simp add: sched_run_def)
qed (simp add: sched_run_def)

text \<open>Each live timer is registered under the deployment it will run.\<close>

definition registered :: "'w distributor \<Rightarrow> bool" where
  "registered s \<longleftrightarrow> set (map sd_id (drows (fc_db (rd_commander s)))) \<subseteq> dids (fc_db (rd_commander s)) \<and> (\<forall>h t. jm_get (rd_live s) h = Some t \<longrightarrow> h < rd_nextHandle s \<and>
     tm_deploymentId t \<in> dids (fc_db (rd_commander s)) \<and> jm_get (rd_scheduledTimers s) (tm_deploymentId t) = Some h)"

definition same_timers :: "'w distributor \<Rightarrow> 'w distributor \<Rightarrow> bool" where
  "same_timers s s' \<longleftrightarrow> map sd_id (drows (fc_db (rd_commander s'))) = map sd_id (drows (fc_db (rd_commander s))) \<and>
     dids (fc_db (rd_commander s')) = dids (fc_db (rd_commander s)) \<and> rd_live s' = rd_live s \<and>
     rd_scheduledTimers s' = rd_scheduledTimers s \<and> rd_nextHandle s' = rd_nextHandle s"

lemma same_timers_preorder: "reflp same_timers" "transp same_timers"
  by (auto intro!: reflpI transpI simp: same_timers_def)

lemma update_timers:
  assumes "\<And>r. sd_id (f r) = sd_id r"
  shows "act_rel same_timers (update_scheduled env i f)"
  unfolding act_rel_def
proof
  fix s :: "'w distributor"
  obtain s' x where u: "update_scheduled env i f s = (s', x)" by fastforce
  then obtain g where g: "drows (fc_db (rd_commander s')) = map g (drows (fc_db (rd_commander s)))"
    "\<And>r. g r = r \<or> (sd_id r = i \<and> g r = f r)" "dids (fc_db (rd_commander s')) = dids (fc_db (rd_commander s))"
    "rd_live s' = rd_live s" "rd_scheduledTimers s' = rd_scheduledTimers s" "rd_nextHandle s' = rd_nextHandle s"
    by (rule update_scheduled_run) blast
  have "sd_id (g r) = sd_id r" for r using g(2) [of r] assms by auto
  with u g show "same_timers s (fst (update_scheduled env i f s))" by (simp add: same_timers_def)
qed

lemma immediate_timers: "act_rel same_timers (deployImmediate env now tenantId sensorIds rules)"
  using deployImmediate_kept by (auto simp: act_rel_def kept_def apart_def same_timers_def)

lemma execute_timers:
  assumes "executeScheduledDeployment env now tenantId i sensorIds rules s = (s', x)"
  shows "same_timers (s\<lparr>rd_scheduledTimers := jm_delete i (rd_scheduledTimers s)\<rparr>) s'"
  using assms unfolding executeScheduledDeployment_def
proof (cases rule: act_bind_cases)
  case (went_on s1 u)
  have "same_timers s1 s'"
    by (rule act_relD [rotated], rule went_on(2))
      (intro act_rel_try [OF same_timers_preorder(2)] act_rel_bind [OF same_timers_preorder(2)] update_timers immediate_timers; simp)
  moreover have "s1 = s\<lparr>rd_scheduledTimers := jm_delete i (rd_scheduledTimers s)\<rparr>" using went_on(1) by simp
  ultimately show ?thesis by simp
qed simp

lemma deploy_registered:
  assumes "registered s" shows "registered (fst (deployScheduled env now tenantId sensorIds rules config s))"
proof -
  obtain s' x where r: "deployScheduled env now tenantId sensorIds rules config s = (s', x)" by fastforce
  from deployScheduled_run [OF r] have "registered s'"
  proof (elim disjE exE conjE)
    assume "kept s s'"
    with assms show ?thesis by (simp add: kept_def apart_def registered_def)
  next
    fix i tm rr
    assume "i \<notin> dids (fc_db (rd_commander s))" "tm_deploymentId tm = i" "sd_id rr = i"
      "drows (fc_db (rd_commander s')) = drows (fc_db (rd_commander s)) @ [rr]" "dids (fc_db (rd_commander s')) = insert i (dids (fc_db (rd_commander s)))"
      "rd_live s' = jm_set (rd_nextHandle s) tm (rd_live s)"
      "rd_scheduledTimers s' = jm_set i (rd_nextHandle s) (rd_scheduledTimers s)" "rd_nextHandle s' = Suc (rd_nextHandle s)"
    with assms show ?thesis unfolding registered_def
      by (intro conjI allI impI) (auto split: if_splits, metis less_SucI, metis)
  qed
  with r show ?thesis by simp
qed

lemma fire_registered:
  assumes "registered s" shows "registered (fst (timer_fires env now h s))"
proof (cases "\<exists>t. jm_get (rd_live s) h = Some t \<and> tm_at t \<le> now")
  case True
  then obtain t where t: "jm_get (rd_live s) h = Some t" "tm_at t \<le> now" by blast
  let ?s = "s\<lparr>rd_live := jm_delete h (rd_live s)\<rparr>"
  obtain s' x where r: "executeScheduledDeployment env now (tm_tenantId t) (tm_deploymentId t) (tm_sensorIds t) (tm_rules t) ?s = (s', x)"
    by fastforce
  have "registered s'" using execute_timers [OF r] assms t(1) unfolding registered_def same_timers_def
    by (auto split: if_splits) (metis option.inject)+
  with r t show ?thesis by (simp add: timer_fires_def)
next
  case False
  with assms show ?thesis by (auto simp: timer_fires_def split: option.split)
qed

lemma cancel_finish_run:
  assumes "registered s" "cancel_finish env now i s = (s', x)"
  shows "registered s'" "\<forall>h t. jm_get (rd_live s') h = Some t \<longrightarrow> tm_deploymentId t \<noteq> i"
    "x = Inr True \<Longrightarrow> \<forall>r \<in> set (drows (fc_db (rd_commander s'))). sd_id r = i \<longrightarrow> sd_status r = CANCELLED"
    "dids (fc_db (rd_commander s')) = dids (fc_db (rd_commander s))"
proof -
  let ?s1 = "case jm_get (rd_scheduledTimers s) i of None \<Rightarrow> s
     | Some h \<Rightarrow> s\<lparr>rd_live := jm_delete h (rd_live s), rd_scheduledTimers := jm_delete i (rd_scheduledTimers s)\<rparr>"
  let ?f = "\<lambda>r. r\<lparr>sd_status := CANCELLED, sd_cancelledAt := Some now\<rparr>"
  obtain s2 y where u: "update_scheduled env i ?f ?s1 = (s2, y)" by fastforce
  with assms(2) have eq: "s2 = s'" "x = Inr True \<Longrightarrow> y = Inr ()"
    by (cases y; simp add: cancel_finish_def)+
  obtain g where g: "drows (fc_db (rd_commander s')) = map g (drows (fc_db (rd_commander ?s1)))"
    "\<And>r. g r = r \<or> (sd_id r = i \<and> g r = ?f r)" "y = Inr () \<Longrightarrow> (\<forall>r. sd_id r = i \<longrightarrow> g r = ?f r)"
    "dids (fc_db (rd_commander s')) = dids (fc_db (rd_commander ?s1))"
    "rd_live s' = rd_live ?s1" "rd_scheduledTimers s' = rd_scheduledTimers ?s1" "rd_nextHandle s' = rd_nextHandle ?s1"
    using u unfolding eq(1) by (rule update_scheduled_run) blast
  have 1: "registered ?s1" "\<forall>h t. jm_get (rd_live ?s1) h = Some t \<longrightarrow> tm_deploymentId t \<noteq> i"
    using assms(1) by (auto simp: registered_def split: option.splits if_splits)
  have id: "sd_id (g r) = sd_id r" for r using g(2) [of r] by auto
  then have "map sd_id (drows (fc_db (rd_commander s'))) = map sd_id (drows (fc_db (rd_commander ?s1)))" by (simp add: g(1))
  then show "registered s'" using 1(1) g(4-7) unfolding registered_def by simp
  show "\<forall>h t. jm_get (rd_live s') h = Some t \<longrightarrow> tm_deploymentId t \<noteq> i" using 1(2) g(5) by simp
  show "dids (fc_db (rd_commander s')) = dids (fc_db (rd_commander s))" using g(4) by (simp split: option.splits)
  show "\<forall>r \<in> set (drows (fc_db (rd_commander s'))). sd_id r = i \<longrightarrow> sd_status r = CANCELLED" if "x = Inr True"
    using g(3) [OF eq(2) [OF that]] id unfolding g(1) by auto
qed

lemma cancel_registered:
  assumes "registered s" shows "registered (fst (cancelScheduledDeployment env now tenantId i s))"
proof -
  obtain s1 x where c: "cancel_check env tenantId i s = (s1, x)" by fastforce
  have r1: "registered s1" using cancel_check_run(1) [OF c] assms by (simp add: kept_def apart_def registered_def)
  obtain s2 y where f: "cancel_finish env now i s1 = (s2, y)" by fastforce
  show ?thesis using r1 c cancel_finish_run(1) [OF r1 f] f
    by (cases x) (auto simp: cancelScheduledDeployment_def)
qed

lemma sched_run_registered:
  "registered s \<Longrightarrow> \<forall>op \<in> set ops. \<not> is_recover op \<Longrightarrow> registered (sched_run env ops s)"
proof (induction ops arbitrary: s)
  case (Cons op ops)
  have "registered (sched_step env op s)"
    using Cons.prems deploy_registered fire_registered cancel_registered by (cases op) auto
  with Cons show ?case by (simp add: sched_run_def)
qed (simp add: sched_run_def)

lemma cancel_kills:
  assumes "registered s" "cancelScheduledDeployment env now tenantId k s = (s', Inr True)"
  shows "dead k s'"
proof -
  obtain s1 where c: "cancel_check env tenantId k s = (s1, Inr True)" and f: "cancel_finish env now k s1 = (s', Inr True)"
    using assms(2) by (auto simp: cancelScheduledDeployment_def act_bind_Inr split: if_splits)
  have kept: "kept s s1" using cancel_check_run(1) [OF c] .
  have r1: "registered s1" using kept assms(1) by (simp add: kept_def apart_def registered_def)
  have "k \<in> dids (fc_db (rd_commander s1))"
    using cancel_check_run(2) [OF c] assms(1) kept by (auto simp: kept_def apart_def registered_def)
  with cancel_finish_run(2-4) [OF r1 f] show ?thesis by (simp add: dead_def)
qed

end

interpretation refs: scheduled_table ref_rules "\<lambda>w. st_rows (rw_scheduled w)" "\<lambda>w. list_ids (rw_scheduled w)"
proof (intro scheduled_table.intro scheduled_table_axioms.intro)
  show "prisma_table (re_scheduled ref_rules) (\<lambda>w. st_rows (rw_scheduled w)) (\<lambda>w. list_ids (rw_scheduled w)) sd_id (\<lambda>i r. r\<lparr>sd_id := i\<rparr>)"
    unfolding ref_rules_def rules_env.simps by (rule list_table_is_table) simp_all
  show "tb_frames (fe_sensors (re_fleet ref_rules)) (\<lambda>w. st_rows (rw_scheduled w))"
    "tb_frames (fe_sensors (re_fleet ref_rules)) (\<lambda>w. list_ids (rw_scheduled w))"
    "tb_frames (fe_commands (re_fleet ref_rules)) (\<lambda>w. st_rows (rw_scheduled w))"
    "tb_frames (fe_commands (re_fleet ref_rules)) (\<lambda>w. list_ids (rw_scheduled w))"
    "tb_frames (re_sync ref_rules) (\<lambda>w. st_rows (rw_scheduled w))"
    "tb_frames (re_sync ref_rules) (\<lambda>w. list_ids (rw_scheduled w))"
    unfolding ref_rules_def ref_fleet_def rules_env.simps fleet_env.simps by (rule list_table_frames, simp)+
qed (auto simp: ref_rules_def ref_fleet_def act_keeps_def)


definition later_config :: rollout_config where
  "later_config = (strategy_config Scheduled)\<lparr>rc_scheduledTime := Some 5000\<rparr>"


text \<open>
  The same does not hold across instances, because a firing timer does not look at the status of its row. A
  deployment accepted by one instance and cancelled, with the answer true, through another one that shares the
  database still runs when the timer of the first instance fires: its sensor gets the rules and the row is
  overwritten as completed.
\<close>

theorem cancel_on_other_instance_is_ignored:
  "let s1 = sched_run ref_rules [Sched_deploy 0 ''a'' [''s1''] [JObj [(''id'', JStr ''r1'')]] later_config] (new_distributor (fleet_of [(''s1'', ''a'')]));
       (s2, answer) = cancelScheduledDeployment ref_rules 100 ''a'' ''c0'' (new_distributor (fc_db (rd_commander s1)));
       s3 = sched_run ref_rules [Sched_fire 5000 0] (s1\<lparr>rd_commander := (rd_commander s1)\<lparr>fc_db := fc_db (rd_commander s2)\<rparr>\<rparr>)
   in answer = Inr True \<and> map sd_status (st_rows (rw_scheduled (fc_db (rd_commander s2)))) = [CANCELLED] \<and>
      map fst (fc_sends (rd_commander s3)) = [''s1''] \<and>
      map sd_status (st_rows (rw_scheduled (fc_db (rd_commander s3)))) = [COMPLETED]"
  by code_simp

end
