(* ===== verification/Blue_Green.thy ===== *)
theory Blue_Green
  imports Rule_Distributor
begin

text \<open>
  Blue/green deployments and the entry points of the rule distributor
  (\<^verbatim>\<open>api/src/services/fleet/rule-distributor.ts\<close>; the store interface and its default implementation are those of
  \<^verbatim>\<open>services/fleet/deployment-state-store.ts\<close>). A deployment object lives in the map of active deployments and
  is identified with its entry. The two waiting loops take a list of polls; each poll carries the
  acknowledgements of sensors that arrived since the one before. The id of a new deployment is an argument.
\<close>

section \<open>Data\<close>

datatype staging_status = Stage_pending | Stage_staged | Stage_failed

datatype active_status = Blue | Green | Unknown

record bg_sensor =
  bs_sensorId :: string
  bs_stagingStatus :: staging_status
  bs_activeStatus :: active_status
  bs_lastUpdated :: int
  bs_error :: "string option"

datatype bg_status = Bg_staging | Bg_staged | Bg_switching | Bg_active | Bg_retired | Bg_failed

record bg_deployment =
  bd_deploymentId :: string
  bd_tenantId :: string
  bd_status :: bg_status
  bd_rules :: "rule list"
  bd_stagedAt :: "int option"
  bd_activatedAt :: "int option"
  bd_retiredAt :: "int option"
  bd_sensorStatus :: "(string, bg_sensor) jsmap"

record 'w deployment_store =
  ds_loadAll :: "('w, bg_deployment list) act"
  ds_getByDeploymentId :: "string \<Rightarrow> ('w, bg_deployment option) act"
  ds_upsert :: "bg_deployment \<Rightarrow> ('w, unit) act"
  ds_delete :: "string \<Rightarrow> string \<Rightarrow> ('w, unit) act"

definition NoopDeploymentStateStore :: "'w deployment_store" where
  "NoopDeploymentStateStore = \<lparr> ds_loadAll = act_return [], ds_getByDeploymentId = (\<lambda>i. act_return None),
     ds_upsert = (\<lambda>d. act_return ()), ds_delete = (\<lambda>t i. act_return ()) \<rparr>"

record 'w bg_env =
  be_rules :: "'w rules_env"
  be_store :: "'w deployment_store"

text \<open>\<open>rs_cleanups\<close>: the pending timers of the two clean-up steps, with the deployment, the time and the step.\<close>

record 'w rules_state =
  rs_dist :: "'w distributor"
  rs_active :: "(string, bg_deployment) jsmap"
  rs_cleanups :: "(string \<times> int \<times> bool) list"

definition in_rd :: "('w distributor, 'a) act \<Rightarrow> ('w rules_state, 'a) act" where
  "in_rd m s = (case m (rs_dist s) of (d, x) \<Rightarrow> (s\<lparr>rs_dist := d\<rparr>, x))"

definition in_store :: "('w, 'a) act \<Rightarrow> ('w rules_state, 'a) act" where
  "in_store m = in_rd (in_fc (in_db m))"

definition act_get :: "('s \<Rightarrow> 'a) \<Rightarrow> ('s, 'a) act" where
  "act_get f s = (s, Inr (f s))"

definition set_deployment :: "bg_deployment \<Rightarrow> ('w rules_state, unit) act" where
  "set_deployment d = act_modify (\<lambda>s. s\<lparr>rs_active := jm_set (bd_deploymentId d) d (rs_active s)\<rparr>)"

section \<open>The state store\<close>

definition safeUpsertDeploymentState :: "'w bg_env \<Rightarrow> bg_deployment \<Rightarrow> ('w rules_state, unit) act" where
  "safeUpsertDeploymentState env d = act_try (in_store (ds_upsert (be_store env) d)) (\<lambda>_. act_return ())"

definition safeDeleteDeploymentState :: "'w bg_env \<Rightarrow> string \<Rightarrow> string \<Rightarrow> ('w rules_state, unit) act" where
  "safeDeleteDeploymentState env tenantId deploymentId =
     act_try (in_store (ds_delete (be_store env) tenantId deploymentId)) (\<lambda>_. act_return ())"

definition hydrateActiveDeployments :: "'w bg_env \<Rightarrow> ('w rules_state, unit) act" where
  "hydrateActiveDeployments env =
     act_try (act_bind (in_store (ds_loadAll (be_store env))) (\<lambda>deployments.
         act_modify (\<lambda>s. s\<lparr>rs_active := fold (\<lambda>d. jm_set (bd_deploymentId d) d) deployments (rs_active s)\<rparr>)))
       (\<lambda>_. act_return ())"

definition maybeHydrateDeployment :: "'w bg_env \<Rightarrow> string \<Rightarrow> ('w rules_state, bg_deployment option) act" where
  "maybeHydrateDeployment env deploymentId =
     act_bind (act_get (\<lambda>s. jm_get (rs_active s) deploymentId)) (\<lambda>existing.
       case existing of
         Some d \<Rightarrow> act_return (Some d)
       | None \<Rightarrow>
           act_try
             (act_bind (in_store (ds_getByDeploymentId (be_store env) deploymentId)) (\<lambda>loaded.
                case loaded of
                  None \<Rightarrow> act_return None
                | Some d \<Rightarrow> act_bind (act_modify (\<lambda>s. s\<lparr>rs_active := jm_set deploymentId d (rs_active s)\<rparr>)) (\<lambda>_. act_return (Some d))))
             (\<lambda>_. act_return None))"

text \<open>A change of an active deployment, which is then persisted.\<close>

definition change_deployment :: "'w bg_env \<Rightarrow> string \<Rightarrow> (bg_deployment \<Rightarrow> bg_deployment) \<Rightarrow> ('w rules_state, unit) act" where
  "change_deployment env deploymentId f =
     act_bind (act_get (\<lambda>s. jm_get (rs_active s) deploymentId)) (\<lambda>existing.
       case existing of
         None \<Rightarrow> act_return ()
       | Some d \<Rightarrow> act_bind (act_modify (\<lambda>s. s\<lparr>rs_active := jm_set deploymentId (f d) (rs_active s)\<rparr>)) (\<lambda>_.
           safeUpsertDeploymentState env (f d)))"

section \<open>Acknowledgements\<close>

definition staging_update :: "int \<Rightarrow> string \<Rightarrow> bool \<Rightarrow> string option \<Rightarrow> bg_deployment \<Rightarrow> bg_deployment" where
  "staging_update now sensorId staged err d =
     (let status = or_default (jm_get (bd_sensorStatus d) sensorId)
            \<lparr> bs_sensorId = sensorId, bs_stagingStatus = Stage_pending, bs_activeStatus = Unknown, bs_lastUpdated = now, bs_error = None \<rparr>
      in d\<lparr>bd_sensorStatus := jm_set sensorId
             (status\<lparr>bs_stagingStatus := (if staged then Stage_staged else Stage_failed), bs_error := err, bs_lastUpdated := now\<rparr>)
             (bd_sensorStatus d)\<rparr>)"

definition activation_update :: "int \<Rightarrow> string \<Rightarrow> bool \<Rightarrow> bg_deployment \<Rightarrow> bg_deployment" where
  "activation_update now sensorId activated d =
     (let status = or_default (jm_get (bd_sensorStatus d) sensorId)
            \<lparr> bs_sensorId = sensorId, bs_stagingStatus = (if activated then Stage_staged else Stage_pending),
              bs_activeStatus = Unknown, bs_lastUpdated = now, bs_error = None \<rparr>
      in d\<lparr>bd_sensorStatus := jm_set sensorId
             (status\<lparr>bs_activeStatus := (if activated then Green else Blue), bs_lastUpdated := now\<rparr>) (bd_sensorStatus d)\<rparr>)"

definition updateSensorStagingStatus ::
  "'w bg_env \<Rightarrow> int \<Rightarrow> string \<Rightarrow> string \<Rightarrow> bool \<Rightarrow> string option \<Rightarrow> ('w rules_state, unit) act" where
  "updateSensorStagingStatus env now deploymentId sensorId staged err =
     act_bind (maybeHydrateDeployment env deploymentId) (\<lambda>_.
       change_deployment env deploymentId (staging_update now sensorId staged err))"

definition updateSensorActivationStatus ::
  "'w bg_env \<Rightarrow> int \<Rightarrow> string \<Rightarrow> string \<Rightarrow> bool \<Rightarrow> ('w rules_state, unit) act" where
  "updateSensorActivationStatus env now deploymentId sensorId activated =
     act_bind (maybeHydrateDeployment env deploymentId) (\<lambda>_.
       change_deployment env deploymentId (activation_update now sensorId activated))"

text \<open>
  The handlers on the commander's events: a success carries the id of a deployment when the result of the
  command has one; a failure is looked up in all active deployments.
\<close>

definition on_command_success :: "'w bg_env \<Rightarrow> int \<Rightarrow> string \<Rightarrow> string option \<Rightarrow> ('w rules_state, unit) act" where
  "on_command_success env now sensorId deploymentId =
     (if \<not> str_truthy deploymentId then act_return ()
      else
        act_bind (maybeHydrateDeployment env (the deploymentId)) (\<lambda>deployment.
          case deployment of
            None \<Rightarrow> act_return ()
          | Some d \<Rightarrow>
              (case jm_get (bd_sensorStatus d) sensorId of
                 None \<Rightarrow> act_return ()
               | Some status \<Rightarrow>
                   if bd_status d = Bg_staging \<and> bs_stagingStatus status = Stage_pending
                   then updateSensorStagingStatus env now (the deploymentId) sensorId True None
                   else if bd_status d = Bg_switching
                   then updateSensorActivationStatus env now (the deploymentId) sensorId True
                   else act_return ())))"

definition on_command_failed :: "'w bg_env \<Rightarrow> int \<Rightarrow> string \<Rightarrow> string option \<Rightarrow> ('w rules_state, unit) act" where
  "on_command_failed env now sensorId err =
     act_bind (act_get (\<lambda>s. jm_values (rs_active s))) (\<lambda>deployments.
       act_bind (act_each (\<lambda>d.
           case jm_get (bd_sensorStatus d) sensorId of
             None \<Rightarrow> act_return ()
           | Some status \<Rightarrow>
               if bd_status d = Bg_staging \<and> bs_stagingStatus status = Stage_pending
               then updateSensorStagingStatus env now (bd_deploymentId d) sensorId False err
               else act_return ()) deployments) (\<lambda>_. act_return ()))"

datatype ack = Ack_success string "string option" | Ack_failed string "string option"

fun apply_ack :: "'w bg_env \<Rightarrow> int \<Rightarrow> ack \<Rightarrow> ('w rules_state, unit) act" where
  "apply_ack env now (Ack_success sensorId deploymentId) = on_command_success env now sensorId deploymentId"
| "apply_ack env now (Ack_failed sensorId err) = on_command_failed env now sensorId err"

record bg_poll =
  bp_now :: int
  bp_acks :: "ack list"

definition apply_acks :: "'w bg_env \<Rightarrow> bg_poll \<Rightarrow> ('w rules_state, unit) act" where
  "apply_acks env p = act_bind (act_each (apply_ack env (bp_now p)) (bp_acks p)) (\<lambda>_. act_return ())"

section \<open>Staging\<close>

definition stage_sensor :: "'w bg_env \<Rightarrow> int \<Rightarrow> string \<Rightarrow> rule list \<Rightarrow> string \<Rightarrow> string \<Rightarrow> ('w rules_state, unit) act" where
  "stage_sensor env now tenantId rules deploymentId sensorId =
     (let set_status = \<lambda>f. act_modify (\<lambda>s. case jm_get (rs_active s) deploymentId of
            None \<Rightarrow> s | Some d \<Rightarrow> s\<lparr>rs_active := jm_set deploymentId (f d) (rs_active s)\<rparr>)
      in act_bind (set_status (\<lambda>d. d\<lparr>bd_sensorStatus := jm_set sensorId \<lparr> bs_sensorId = sensorId, bs_stagingStatus = Stage_pending,
             bs_activeStatus = Blue, bs_lastUpdated = now, bs_error = None \<rparr> (bd_sensorStatus d)\<rparr>)) (\<lambda>_.
         act_try
           (act_bind (in_rd (in_fc (fleet_sendCommand (re_fleet (be_rules env)) (re_config (be_rules env)) now tenantId sensorId
              (rules_command [(''deploymentId'', JStr deploymentId), (''rules'', JArr rules),
                 (''hash'', JStr (computeRulesHash (be_rules env) rules)), (''activate'', JBool False)])))) (\<lambda>_.
            set_status (\<lambda>d. d\<lparr>bd_sensorStatus := AList.map_entry sensorId (\<lambda>st. st\<lparr>bs_lastUpdated := now\<rparr>) (bd_sensorStatus d)\<rparr>)))
           (\<lambda>e. set_status (\<lambda>d. d\<lparr>bd_sensorStatus := AList.map_entry sensorId (\<lambda>st. st\<lparr>bs_stagingStatus := Stage_failed,
              bs_error := Some (error_message e), bs_lastUpdated := now\<rparr>) (bd_sensorStatus d)\<rparr>))))"

definition stageGreenDeployment :: "'w bg_env \<Rightarrow> int \<Rightarrow> string \<Rightarrow> string list \<Rightarrow> rule list \<Rightarrow> string \<Rightarrow> ('w rules_state, unit) act" where
  "stageGreenDeployment env now tenantId sensorIds rules deploymentId =
     (if \<not> re_commander (be_rules env) then act_throw (Error ''FleetCommander not configured'')
      else
        act_bind (act_get (\<lambda>s. jm_get (rs_active s) deploymentId)) (\<lambda>deployment.
          if deployment = None then act_throw (Error ''Deployment state not found'')
          else act_bind (act_each (stage_sensor env now tenantId rules deploymentId) sensorIds) (\<lambda>_.
            change_deployment env deploymentId (\<lambda>d. d))))"

definition staging_completed :: "string list \<Rightarrow> bg_deployment \<Rightarrow> bool" where
  "staging_completed sensorIds d = list_all (\<lambda>i. case jm_get (bd_sensorStatus d) i of
     None \<Rightarrow> False | Some st \<Rightarrow> bs_stagingStatus st \<noteq> Stage_pending) sensorIds"

text \<open>The loop over the polls; \<open>None\<close> when they end while it would go on.\<close>

fun staging_loop :: "'w bg_env \<Rightarrow> int \<Rightarrow> int \<Rightarrow> string list \<Rightarrow> string \<Rightarrow> bg_poll list \<Rightarrow> ('w rules_state, bg_sensor list option) act" where
  "staging_loop env startTime timeout sensorIds deploymentId [] = act_return None"
| "staging_loop env startTime timeout sensorIds deploymentId (p # ps) =
     act_bind (apply_acks env p) (\<lambda>_.
     act_bind (act_get (\<lambda>s. jm_get (rs_active s) deploymentId)) (\<lambda>deployment.
       case deployment of
         None \<Rightarrow> act_throw (Error ''Deployment state not found'')
       | Some d \<Rightarrow>
           if bp_now p - startTime < timeout \<and> \<not> staging_completed sensorIds d
           then staging_loop env startTime timeout sensorIds deploymentId ps
           else act_return (Some (jm_values (bd_sensorStatus d)))))"

section \<open>Switching\<close>

definition all_switched :: "bg_deployment \<Rightarrow> bool" where
  "all_switched d = list_all (\<lambda>st. \<not> (bs_stagingStatus st = Stage_staged \<and> bs_activeStatus st \<noteq> Green)) (jm_values (bd_sensorStatus d))"

fun switch_loop :: "'w bg_env \<Rightarrow> int \<Rightarrow> int \<Rightarrow> string \<Rightarrow> bg_poll list \<Rightarrow> ('w rules_state, unit option) act" where
  "switch_loop env startTime timeout deploymentId [] = act_return None"
| "switch_loop env startTime timeout deploymentId (p # ps) =
     act_bind (apply_acks env p) (\<lambda>_.
       if bp_now p - startTime < timeout
       then act_bind (act_get (\<lambda>s. jm_get (rs_active s) deploymentId)) (\<lambda>deployment.
              case deployment of
                None \<Rightarrow> act_throw (Error ''Deployment state lost during switch'')
              | Some d \<Rightarrow> if all_switched d then act_return (Some ()) else switch_loop env startTime timeout deploymentId ps)
       else act_throw (Error (''Switch timeout: not all sensors confirmed activation within '' @ show_int timeout @ ''ms'')))"

definition executeBlueGreenSwitch ::
  "'w bg_env \<Rightarrow> int \<Rightarrow> string \<Rightarrow> string \<Rightarrow> int \<Rightarrow> bg_poll list \<Rightarrow> ('w rules_state, unit option) act" where
  "executeBlueGreenSwitch env now tenantId deploymentId timeout polls =
     (if \<not> re_commander (be_rules env) then act_throw (Error ''FleetCommander not configured'')
      else
        act_bind (in_rd (in_fc (broadcastCommand (re_fleet (be_rules env)) (re_config (be_rules env)) now tenantId
          (rules_command [(''deploymentId'', JStr deploymentId), (''activate'', JBool True)])))) (\<lambda>_.
        switch_loop env now timeout deploymentId polls))"

definition abortGreenDeployment :: "'w bg_env \<Rightarrow> int \<Rightarrow> string \<Rightarrow> string \<Rightarrow> ('w rules_state, unit) act" where
  "abortGreenDeployment env now tenantId deploymentId =
     (if \<not> re_commander (be_rules env) then act_return ()
      else
        act_bind (act_try
          (act_bind (in_rd (in_fc (broadcastCommand (re_fleet (be_rules env)) (re_config (be_rules env)) now tenantId
             (rules_command [(''deploymentId'', JStr deploymentId), (''abort'', JBool True)])))) (\<lambda>_. act_return ()))
          (\<lambda>_. act_return ())) (\<lambda>_.
        act_bind (act_modify (\<lambda>s. s\<lparr>rs_active := jm_delete deploymentId (rs_active s)\<rparr>)) (\<lambda>_.
        safeDeleteDeploymentState env tenantId deploymentId)))"

section \<open>The deployment\<close>

record bg_input =
  bi_deploymentId :: string
  bi_start :: int
  bi_stagingPolls :: "bg_poll list"
  bi_switchStart :: int
  bi_switchPolls :: "bg_poll list"
  bi_end :: int

text \<open>\<^verbatim>\<open>stagedPercentage < minStagedPercentage\<close>; for an empty list of sensors the percentage is \<^verbatim>\<open>NaN\<close> and the test fails.\<close>

definition below_threshold :: "nat \<Rightarrow> nat \<Rightarrow> rat \<Rightarrow> bool" where
  "below_threshold stagedCount targets minStaged \<longleftrightarrow> targets \<noteq> 0 \<and> of_nat stagedCount / of_nat targets * 100 < minStaged"

text \<open>\<^verbatim>\<open>x.toFixed(1)\<close> for \<open>x \<ge> 0\<close>: of two equally close values the larger one.\<close>

definition toFixed1 :: "rat \<Rightarrow> string" where
  "toFixed1 x = (let n = nat \<lfloor>x * 10 + 1 / 2\<rfloor> in show_nat (n div 10) @ ''.'' @ show_nat (n mod 10))"

definition staged_count :: "bg_sensor list \<Rightarrow> nat" where
  "staged_count statuses = length (filter (\<lambda>st. bs_stagingStatus st = Stage_staged) statuses)"

text \<open>The thresholds, the switch and the activation, given the statuses the wait ended with.\<close>

definition bg_switch_phase ::
  "'w bg_env \<Rightarrow> bg_input \<Rightarrow> string \<Rightarrow> string list \<Rightarrow> rollout_config \<Rightarrow> bg_sensor list \<Rightarrow> ('w rules_state, nat option) act" where
  "bg_switch_phase env inp tenantId sensorIds config statuses =
     (let deploymentId = bi_deploymentId inp;
          stagedCount = staged_count statuses
      in
       if or_default (rc_requireAllSensorsStaged config) True \<and> stagedCount < length sensorIds
       then act_throw (Error (''Staging incomplete: '' @ show_nat stagedCount @ ''/'' @ show_nat (length sensorIds) @ '' sensors staged''))
       else if below_threshold stagedCount (length sensorIds) (or_default (rc_minStagedPercentage config) 100)
       then act_throw (Error (''Staging below threshold: '' @ toFixed1 (of_nat stagedCount / of_nat (length sensorIds) * 100) @
         ''% < '' @ show_num (or_default (rc_minStagedPercentage config) 100) @ ''%''))
       else
         act_bind (change_deployment env deploymentId (\<lambda>d. d\<lparr>bd_status := Bg_staged, bd_stagedAt := Some (bi_switchStart inp)\<rparr>)) (\<lambda>_.
         act_bind (change_deployment env deploymentId (\<lambda>d. d\<lparr>bd_status := Bg_switching\<rparr>)) (\<lambda>_.
         act_bind (executeBlueGreenSwitch env (bi_switchStart inp) tenantId deploymentId (or_default (rc_switchTimeout config) 30000)
             (bi_switchPolls inp)) (\<lambda>switched.
           case switched of
             None \<Rightarrow> act_return None
           | Some _ \<Rightarrow>
               act_bind (change_deployment env deploymentId (\<lambda>d. d\<lparr>bd_status := Bg_active, bd_activatedAt := Some (bi_end inp)\<rparr>)) (\<lambda>_.
               act_return (Some stagedCount))))))"

definition bg_phases ::
  "'w bg_env \<Rightarrow> bg_input \<Rightarrow> string \<Rightarrow> string list \<Rightarrow> rule list \<Rightarrow> rollout_config \<Rightarrow> ('w rules_state, nat option) act" where
  "bg_phases env inp tenantId sensorIds rules config =
     act_bind (stageGreenDeployment env (bi_start inp) tenantId sensorIds rules (bi_deploymentId inp)) (\<lambda>_.
     act_bind (staging_loop env (bi_start inp) (or_default (rc_stagingTimeout config) 60000) sensorIds (bi_deploymentId inp)
         (bi_stagingPolls inp)) (\<lambda>stagingResult.
       case stagingResult of
         None \<Rightarrow> act_return None
       | Some statuses \<Rightarrow> bg_switch_phase env inp tenantId sensorIds config statuses))"

definition scheduleBlueCleanup :: "string \<Rightarrow> int \<Rightarrow> int \<Rightarrow> ('w rules_state, unit) act" where
  "scheduleBlueCleanup deploymentId now delayMs =
     act_modify (\<lambda>s. s\<lparr>rs_cleanups := rs_cleanups s @ [(deploymentId, now + timer_delay delayMs, False)]\<rparr>)"

definition deployBlueGreen ::
  "'w bg_env \<Rightarrow> bg_input \<Rightarrow> int \<Rightarrow> string \<Rightarrow> string list \<Rightarrow> rule list \<Rightarrow> rollout_config \<Rightarrow> ('w rules_state, deployment_result option) act" where
  "deployBlueGreen env inp cleanupDelayMs tenantId sensorIds rules config =
     (let deploymentId = bi_deploymentId inp;
          initial = \<lparr> bd_deploymentId = deploymentId, bd_tenantId = tenantId, bd_status = Bg_staging, bd_rules = rules,
            bd_stagedAt = None, bd_activatedAt = None, bd_retiredAt = None, bd_sensorStatus = [] \<rparr>
      in act_bind (set_deployment initial) (\<lambda>_.
         act_bind (safeUpsertDeploymentState env initial) (\<lambda>_.
         act_try
           (act_bind (bg_phases env inp tenantId sensorIds rules config) (\<lambda>phases.
              case phases of
                None \<Rightarrow> act_return None
              | Some stagedCount \<Rightarrow>
                  act_bind (scheduleBlueCleanup deploymentId (bi_end inp) cleanupDelayMs) (\<lambda>_.
                  act_bind (act_get (\<lambda>s. jm_get (rs_active s) deploymentId)) (\<lambda>deployment.
                  act_return (Some
                    \<lparr> dr_success = True, dr_totalTargets = int (length sensorIds), dr_successCount = int stagedCount,
                      dr_failureCount = int (length sensorIds) - int stagedCount, dr_pendingCount = 0,
                      dr_results = map (\<lambda>i.
                        let status = Option.bind deployment (\<lambda>d. jm_get (bd_sensorStatus d) i) in
                        \<lparr> srs_sensorId = i, srs_success = (map_option bs_stagingStatus status = Some Stage_staged),
                          srs_error = Option.bind status bs_error, srs_commandId = None \<rparr>) sensorIds,
                      dr_scheduledDeploymentId = None \<rparr>)))))
           (\<lambda>e.
              act_bind (change_deployment env deploymentId (\<lambda>d. d\<lparr>bd_status := Bg_failed\<rparr>)) (\<lambda>_.
              act_bind (abortGreenDeployment env (bi_end inp) tenantId deploymentId) (\<lambda>_.
              act_return (Some
                \<lparr> dr_success = False, dr_totalTargets = int (length sensorIds), dr_successCount = 0,
                  dr_failureCount = int (length sensorIds), dr_pendingCount = 0,
                  dr_results = map (\<lambda>i. \<lparr> srs_sensorId = i, srs_success = False, srs_error = Some (error_message e),
                    srs_commandId = None \<rparr>) sensorIds,
                  dr_scheduledDeploymentId = None \<rparr>)))))))"

section \<open>Clean-up and queries\<close>

text \<open>A clean-up timer fires: the first retires the deployment and sets the second, which forgets it.\<close>

definition cleanup_fires :: "'w bg_env \<Rightarrow> int \<Rightarrow> nat \<Rightarrow> ('w rules_state, unit) act" where
  "cleanup_fires env now n s =
     (if length (rs_cleanups s) \<le> n then (s, Inr ())
      else case rs_cleanups s ! n of (deploymentId, due, second) \<Rightarrow>
        if now < due then (s, Inr ())
        else
          let s1 = s\<lparr>rs_cleanups := take n (rs_cleanups s) @ drop (Suc n) (rs_cleanups s)\<rparr> in
          if second
          then act_bind (case jm_get (rs_active s1) deploymentId of None \<Rightarrow> act_return ()
                 | Some d \<Rightarrow> safeDeleteDeploymentState env (bd_tenantId d) deploymentId)
                 (\<lambda>_. act_modify (\<lambda>s. s\<lparr>rs_active := jm_delete deploymentId (rs_active s)\<rparr>)) s1
          else act_bind (change_deployment env deploymentId (\<lambda>d. d\<lparr>bd_status := Bg_retired, bd_retiredAt := Some now\<rparr>))
                 (\<lambda>_. act_modify (\<lambda>s. s\<lparr>rs_cleanups := rs_cleanups s @ [(deploymentId, now + 60000, True)]\<rparr>)) s1)"

definition getDeploymentStatus :: "string \<Rightarrow> string \<Rightarrow> 'w rules_state \<Rightarrow> bg_deployment option" where
  "getDeploymentStatus tenantId deploymentId s =
     (case jm_get (rs_active s) deploymentId of
        None \<Rightarrow> None
      | Some d \<Rightarrow> if bd_tenantId d \<noteq> tenantId then None else Some d)"

definition listActiveDeployments :: "string \<Rightarrow> 'w rules_state \<Rightarrow> bg_deployment list" where
  "listActiveDeployments tenantId s = filter (\<lambda>d. bd_tenantId d = tenantId) (jm_values (rs_active s))"

section \<open>Entry points\<close>

record push_input =
  pi_now :: int
  pi_stages :: "nat \<Rightarrow> int"
  pi_batches :: "nat \<Rightarrow> rolling_input"
  pi_blueGreen :: bg_input
  pi_cleanupDelayMs :: int

definition act_some :: "('s, 'a) act \<Rightarrow> ('s, 'a option) act" where
  "act_some m = act_bind m (\<lambda>x. act_return (Some x))"

definition pushRulesWithStrategyInternal ::
  "'w bg_env \<Rightarrow> push_input \<Rightarrow> string list \<Rightarrow> rule list \<Rightarrow> rollout_config \<Rightarrow> string \<Rightarrow> ('w rules_state, deployment_result option) act" where
  "pushRulesWithStrategyInternal env inp sensorIds rules config tenantId =
     (if \<not> re_commander (be_rules env) then act_throw (Error ''FleetCommander not initialized'')
      else case rc_strategy config of
             Immediate \<Rightarrow> in_rd (act_some (deployImmediate (be_rules env) (pi_now inp) tenantId sensorIds rules))
           | Canary \<Rightarrow> in_rd (act_some (deployCanary (be_rules env) (pi_stages inp) tenantId sensorIds rules config))
           | Scheduled \<Rightarrow> in_rd (act_some (deployScheduled (be_rules env) (pi_now inp) tenantId sensorIds rules config))
           | Rolling \<Rightarrow> in_rd (deployRolling (be_rules env) (pi_batches inp) tenantId sensorIds rules config)
           | Blue_green \<Rightarrow> deployBlueGreen env (pi_blueGreen inp) (pi_cleanupDelayMs inp) tenantId sensorIds rules config)"

definition pushRulesWithStrategy ::
  "'w bg_env \<Rightarrow> push_input \<Rightarrow> string \<Rightarrow> string list \<Rightarrow> rule list \<Rightarrow> rollout_config \<Rightarrow> ('w rules_state, deployment_result option) act" where
  "pushRulesWithStrategy env inp tenantId sensorIds rules config =
     act_bind (in_rd (validateSensorOwnership (be_rules env) tenantId sensorIds)) (\<lambda>_.
       pushRulesWithStrategyInternal env inp sensorIds rules config tenantId)"

definition immediate_config :: rollout_config where
  "immediate_config = \<lparr> rc_strategy = Immediate, rc_canaryPercentages = None, rc_scheduledTime = None, rc_rollingBatchSize = None,
     rc_healthCheckTimeout = None, rc_rollbackOnFailure = None, rc_maxFailuresBeforeAbort = None, rc_stagingTimeout = None,
     rc_switchTimeout = None, rc_requireAllSensorsStaged = None, rc_minStagedPercentage = None \<rparr>"

definition pushRules ::
  "'w bg_env \<Rightarrow> push_input \<Rightarrow> string \<Rightarrow> string list \<Rightarrow> rule list \<Rightarrow> ('w rules_state, deployment_result option) act" where
  "pushRules env inp tenantId sensorIds rules =
     act_bind (in_rd (validateSensorOwnership (be_rules env) tenantId sensorIds)) (\<lambda>_.
       pushRulesWithStrategyInternal env inp sensorIds rules immediate_config tenantId)"

text \<open>\<^verbatim>\<open>distributeRules\<close> builds the rules from their ids and the configuration from options with one canary percentage.\<close>

definition rule_of_id :: "nat \<Rightarrow> string \<Rightarrow> rule" where
  "rule_of_id index i = JObj [(''id'', JStr i), (''name'', JStr (''Rule '' @ i)), (''enabled'', JBool True),
     (''conditions'', JObj []), (''actions'', JObj []), (''priority'', JNum (of_nat index))]"

definition distributeRules ::
  "'w bg_env \<Rightarrow> push_input \<Rightarrow> string \<Rightarrow> string list \<Rightarrow> string list \<Rightarrow> rat option \<Rightarrow> rollout_config
     \<Rightarrow> ('w rules_state, deployment_result option) act" where
  "distributeRules env inp tenantId ruleIds sensorIds canaryPercentage options =
     act_bind (in_rd (validateSensorOwnership (be_rules env) tenantId sensorIds)) (\<lambda>_.
       pushRulesWithStrategyInternal env inp sensorIds (map (\<lambda>(k, i). rule_of_id k i) (enumerate 0 ruleIds))
         (options\<lparr>rc_canaryPercentages := (case canaryPercentage of
            None \<Rightarrow> None | Some p \<Rightarrow> if p = 0 then None else Some [p, 50, 100])\<rparr>) tenantId)"

section \<open>Tenant isolation of every strategy\<close>

definition store_keeps :: "'w deployment_store \<Rightarrow> ('w \<Rightarrow> 'b) \<Rightarrow> bool" where
  "store_keeps st g \<longleftrightarrow> act_keeps g (ds_loadAll st) \<and> (\<forall>i. act_keeps g (ds_getByDeploymentId st i)) \<and>
     (\<forall>d. act_keeps g (ds_upsert st d)) \<and> (\<forall>t i. act_keeps g (ds_delete st t i))"

locale distributor_tables =
  fleet_tables "re_fleet (be_rules env)" crows cids srows sids
  for env :: "'w bg_env" and crows cids srows sids +
  assumes sync_srows: "tb_frames (re_sync (be_rules env)) srows"
    and scheduled_srows: "tb_frames (re_scheduled (be_rules env)) srows"
    and store_srows: "store_keeps (be_store env) srows"
begin

text \<open>As long as the sensors are those of \<open>S\<close>, commands go only to sensors of the tenant.\<close>

definition stays :: "sensor_entry list \<Rightarrow> string \<Rightarrow> 'w commander \<Rightarrow> 'w commander \<Rightarrow> bool" where
  "stays S tenantId s s' \<longleftrightarrow> (srows (fc_db s) = S \<longrightarrow> srows (fc_db s') = S \<and>
     (\<exists>new. fc_sends s' = fc_sends s @ new \<and> fst ` set new \<subseteq> sn_id ` {sn \<in> set S. sn_tenantId sn = tenantId}))"

definition dist_stays :: "sensor_entry list \<Rightarrow> string \<Rightarrow> 'w distributor \<Rightarrow> 'w distributor \<Rightarrow> bool" where
  "dist_stays S t s s' \<longleftrightarrow> stays S t (rd_commander s) (rd_commander s')"

definition rules_stay :: "sensor_entry list \<Rightarrow> string \<Rightarrow> 'w rules_state \<Rightarrow> 'w rules_state \<Rightarrow> bool" where
  "rules_stay S t s s' \<longleftrightarrow> dist_stays S t (rs_dist s) (rs_dist s')"

lemma stays_refl [simp]: "stays S t s s"
  by (simp add: stays_def)

lemma stays_trans: "stays S t a b \<Longrightarrow> stays S t b c \<Longrightarrow> stays S t a c"
  unfolding stays_def by (elim impCE) (auto simp: image_Un)

lemma stays_preorders: "reflp (stays S t)" "transp (stays S t)" "reflp (dist_stays S t)" "transp (dist_stays S t)"
    "reflp (rules_stay S t)" "transp (rules_stay S t)"
  by (auto intro!: reflpI transpI intro: stays_trans simp: dist_stays_def rules_stay_def)

lemmas stays_rules = act_rel_return [OF stays_preorders(3)] act_rel_throw [OF stays_preorders(3)]
  act_rel_bind [OF stays_preorders(4)] act_rel_try [OF stays_preorders(4)] act_rel_each [OF stays_preorders(3,4)]
  act_rel_return [OF stays_preorders(5)] act_rel_throw [OF stays_preorders(5)]
  act_rel_bind [OF stays_preorders(6)] act_rel_try [OF stays_preorders(6)] act_rel_each [OF stays_preorders(5,6)]

lemma sendCommand_stays: "act_rel (stays S t) (fleet_sendCommand (re_fleet (be_rules env)) cfg now t sensorId cmd)"
  unfolding act_rel_def
proof
  fix s :: "'w commander"
  obtain s' x where r: "fleet_sendCommand (re_fleet (be_rules env)) cfg now t sensorId cmd s = (s', x)" by fastforce
  have "confined (sn_id ` {sn \<in> set (srows (fc_db s)). sn_tenantId sn = t}) s s'"
    by (rule sendCommand_confined(1) [OF r]) auto
  with r show "stays S t s (fst (fleet_sendCommand (re_fleet (be_rules env)) cfg now t sensorId cmd s))"
    by (auto simp: stays_def confined_def)
qed

lemma broadcast_stays: "act_rel (stays S t) (broadcastCommand (re_fleet (be_rules env)) cfg now t cmd)"
  unfolding act_rel_def
proof
  fix s :: "'w commander"
  obtain s' x where r: "broadcastCommand (re_fleet (be_rules env)) cfg now t cmd s = (s', x)" by fastforce
  from broadcast_confined [OF r]
  have "srows (fc_db s') = srows (fc_db s) \<and> (\<exists>new. fc_sends s' = fc_sends s @ new \<and>
      fst ` set new \<subseteq> sn_id ` {sn \<in> set (srows (fc_db s)). sn_tenantId sn = t})"
    unfolding confined_def by (elim conjE exE) (intro conjI exI, assumption+, erule order_trans, auto)
  with r show "stays S t s (fst (broadcastCommand (re_fleet (be_rules env)) cfg now t cmd s))"
    by (auto simp: stays_def)
qed

lemma in_db_stays: "act_keeps srows m \<Longrightarrow> act_rel (stays S t) (in_db m)"
  by (auto simp: act_rel_def act_keeps_def stays_def in_db_def split: prod.split) (metis fst_conv)+

lemma in_fc_stays: "act_rel (stays S t) m \<Longrightarrow> act_rel (dist_stays S t) (in_fc m)"
  unfolding dist_stays_def by (rule in_fc_rel)

lemma in_rd_stays: "act_rel (dist_stays S t) m \<Longrightarrow> act_rel (rules_stay S t) (in_rd m)"
  by (auto simp: act_rel_def rules_stay_def in_rd_def split: prod.split) (metis fst_conv)

lemma modify_stays: "(\<And>s. rd_commander (f s) = rd_commander s) \<Longrightarrow> act_rel (dist_stays S t) (act_modify f)"
    "(\<And>s. rs_dist (g s) = rs_dist s) \<Longrightarrow> act_rel (rules_stay S t) (act_modify g)"
    "act_rel (rules_stay S t) (act_get h)"
  by (simp_all add: act_rel_def dist_stays_def rules_stay_def act_get_def)

lemma table_stays:
  assumes "tb_frames T srows"
  shows "act_rel (dist_stays S t) (in_fc (in_db (tb_findMany T p)))" "act_rel (dist_stays S t) (in_fc (in_db (tb_findFirst T p)))"
    "act_rel (dist_stays S t) (in_fc (in_db (tb_create T r)))" "act_rel (dist_stays S t) (in_fc (in_db (tb_upsertAll T us)))"
    "act_rel (dist_stays S t) (in_fc (in_db (tb_update T p f)))"
proof -
  have "act_keeps srows (tb_update T p f)"
    using assms unfolding tb_update_def act_keeps_rel tb_frames_def
    by (intro act_rel_bind [OF keeps_preorder(2)]) (auto intro!: act_rel_return [OF keeps_preorder(1)] act_rel_throw [OF keeps_preorder(1)])
  with assms findFirst_keeps [OF assms]
  show "act_rel (dist_stays S t) (in_fc (in_db (tb_findMany T p)))" "act_rel (dist_stays S t) (in_fc (in_db (tb_findFirst T p)))"
    "act_rel (dist_stays S t) (in_fc (in_db (tb_create T r)))" "act_rel (dist_stays S t) (in_fc (in_db (tb_upsertAll T us)))"
    "act_rel (dist_stays S t) (in_fc (in_db (tb_update T p f)))"
    unfolding tb_frames_def by (auto intro!: in_fc_stays in_db_stays)
qed

lemma deployImmediate_stays: "act_rel (dist_stays S t) (deployImmediate (be_rules env) now t sensorIds rules)"
proof -
  have "act_rel (stays S t) (sendCommandToMultiple (re_fleet (be_rules env)) (re_config (be_rules env)) now t sensorIds cmd)" for cmd
    unfolding sendCommandToMultiple_def by (intro act_rel_each [OF stays_preorders(1,2)] sendCommand_stays)
  then show ?thesis unfolding deployImmediate_def
    by (auto intro!: stays_rules in_fc_stays table_stays [OF sync_srows])
qed

lemma canary_stays: "act_rel (dist_stays S t) (canary_loop (be_rules env) nows t sensorIds rules k ps d)"
  by (induction ps arbitrary: k d) (auto intro!: stays_rules deployImmediate_stays simp: Let_def)

lemma scheduled_stays: "act_rel (dist_stays S t) (deployScheduled (be_rules env) now t sensorIds rules config)"
  unfolding deployScheduled_def scheduleDeploymentTimer_def
  by (auto intro!: stays_rules deployImmediate_stays table_stays [OF scheduled_srows] modify_stays split: option.split)

lemma single_stays: "act_rel (dist_stays S t) (deploySingleSensor (be_rules env) now t i rules)"
  unfolding deploySingleSensor_def by (auto intro!: stays_rules in_fc_stays sendCommand_stays)

lemma rolling_stays: "act_rel (dist_stays S t) (rolling_loop (be_rules env) t sensorIds rules config b bs fc res)"
proof (induction bs arbitrary: fc res)
  case (Cons x bs)
  obtain i batch inp where x: "x = (i, batch, inp)" by (cases x)
  have one: "act_rel (dist_stays S t) (deploy_one (be_rules env) now t rules i)" for now i
    unfolding deploy_one_def by (intro stays_rules single_stays)
  have rollb: "act_rel (dist_stays S t) (rollbackDeployment (be_rules env) now t ids)" for now ids
    unfolding rollbackDeployment_def getPreviousRuleVersion_def Let_def
    by (intro stays_rules single_stays table_stays [OF commands_frame])
  show ?case unfolding x rolling_loop.simps Let_def
    by (intro stays_rules one) (auto intro!: stays_rules rollb Cons split: option.split)
qed (auto intro!: stays_rules)

lemma in_store_stays: "act_keeps srows m \<Longrightarrow> act_rel (rules_stay S t) (in_store m)"
  unfolding in_store_def by (intro in_rd_stays in_fc_stays in_db_stays)

lemma store_stays:
  "act_rel (rules_stay S t) (safeUpsertDeploymentState env d)" "act_rel (rules_stay S t) (safeDeleteDeploymentState env t' i)"
  "act_rel (rules_stay S t) (maybeHydrateDeployment env i)"
  using store_srows unfolding store_keeps_def safeUpsertDeploymentState_def safeDeleteDeploymentState_def maybeHydrateDeployment_def
  by (auto intro!: stays_rules in_store_stays modify_stays split: option.split)

lemma change_stays: "act_rel (rules_stay S t) (change_deployment env i f)"
  unfolding change_deployment_def by (auto intro!: stays_rules modify_stays store_stays split: option.split)

lemma ack_stays: "act_rel (rules_stay S t) (apply_ack env now a)"
proof (cases a)
  case (Ack_success sensorId i)
  then show ?thesis
    by (auto intro!: stays_rules store_stays change_stays split: option.split
        simp: on_command_success_def updateSensorStagingStatus_def updateSensorActivationStatus_def)
next
  case (Ack_failed sensorId err)
  then show ?thesis
    by (auto intro!: stays_rules store_stays change_stays modify_stays split: option.split
        simp: on_command_failed_def updateSensorStagingStatus_def)
qed

lemma apply_acks_stays: "act_rel (rules_stay S t) (apply_acks env p)"
  unfolding apply_acks_def by (intro stays_rules ack_stays)

lemma stage_sensor_stays: "act_rel (rules_stay S t) (stage_sensor env now t rules i sensorId)"
  unfolding stage_sensor_def Let_def
  by (intro stays_rules modify_stays in_rd_stays in_fc_stays sendCommand_stays) (simp_all split: option.split)

lemma stage_stays: "act_rel (rules_stay S t) (stageGreenDeployment env now t sensorIds rules i)"
  unfolding stageGreenDeployment_def by (auto intro!: stays_rules modify_stays change_stays stage_sensor_stays)

lemma staging_loop_stays: "act_rel (rules_stay S t) (staging_loop env start timeout sensorIds i ps)"
proof (induction ps)
  case Nil
  show ?case unfolding staging_loop.simps by (intro stays_rules)
next
  case (Cons p ps)
  then show ?case unfolding staging_loop.simps
    by (auto intro!: stays_rules modify_stays apply_acks_stays split: option.split)
qed

lemma switch_loop_stays: "act_rel (rules_stay S t) (switch_loop env start timeout i ps)"
proof (induction ps)
  case Nil
  show ?case unfolding switch_loop.simps by (intro stays_rules)
next
  case (Cons p ps)
  then show ?case unfolding switch_loop.simps
    by (auto intro!: stays_rules modify_stays apply_acks_stays split: option.split)
qed

lemma switch_stays:
  "act_rel (rules_stay S t) (executeBlueGreenSwitch env now t i timeout ps)" "act_rel (rules_stay S t) (abortGreenDeployment env now t i)"
  unfolding executeBlueGreenSwitch_def abortGreenDeployment_def
  by (auto intro!: stays_rules modify_stays store_stays switch_loop_stays in_rd_stays in_fc_stays broadcast_stays)

lemma bg_phases_stays: "act_rel (rules_stay S t) (bg_phases env inp t sensorIds rules config)"
  unfolding bg_phases_def bg_switch_phase_def Let_def
  by (auto intro!: stays_rules stage_stays staging_loop_stays change_stays switch_stays split: option.split)

lemma blue_green_stays: "act_rel (rules_stay S t) (deployBlueGreen env inp delay t sensorIds rules config)"
  unfolding deployBlueGreen_def Let_def set_deployment_def scheduleBlueCleanup_def
  by (auto intro!: stays_rules modify_stays store_stays bg_phases_stays change_stays switch_stays split: option.split)

lemma internal_stays: "act_rel (rules_stay S t) (pushRulesWithStrategyInternal env inp sensorIds rules config t)"
  unfolding pushRulesWithStrategyInternal_def act_some_def deployCanary_def deployRolling_def Let_def
  by (auto intro!: stays_rules in_rd_stays blue_green_stays deployImmediate_stays canary_stays scheduled_stays rolling_stays
      split: strategy.split option.split)

lemma validate_stays: "act_rel (rules_stay S t) (in_rd (validateSensorOwnership (be_rules env) t sensorIds))"
proof -
  have "act_keeps srows (tb_findMany (fe_sensors (re_fleet (be_rules env))) p)" for p
    using s.findMany by (simp add: act_keeps_def) (metis prod.collapse)
  then show ?thesis unfolding validateSensorOwnership_def
    by (auto intro!: in_rd_stays stays_rules in_fc_stays in_db_stays simp: Let_def)
qed

lemma validate_sends:
  "fc_sends (rd_commander (rs_dist (fst (in_rd (validateSensorOwnership (be_rules env) t sensorIds) s)))) = fc_sends (rd_commander (rs_dist s))"
proof -
  obtain w y where f: "tb_findMany (fe_sensors (re_fleet (be_rules env))) (\<lambda>r. sn_id r \<in> set sensorIds) (fc_db (rd_commander (rs_dist s))) = (w, y)"
    by (rule prod.exhaust)
  show ?thesis
  proof (cases y)
    case (Inl e)
    with f show ?thesis by (simp add: validateSensorOwnership_def in_rd_def in_fc_def in_db_def act_bind_def)
  next
    case (Inr sensors)
    with f show ?thesis by (simp add: validateSensorOwnership_def in_rd_def in_fc_def in_db_def act_bind_def Let_def)
  qed
qed

lemma validate_owned:
  assumes "in_rd (validateSensorOwnership (be_rules env) t sensorIds) s = (s', Inr u)"
  shows "set sensorIds \<subseteq> sn_id ` {sn \<in> set (srows (fc_db (rd_commander (rs_dist s)))). sn_tenantId sn = t}"
proof (cases "sensorIds = []")
  case False
  let ?w = "fc_db (rd_commander (rs_dist s))" and ?p = "\<lambda>r. sn_id r \<in> set sensorIds"
  obtain w y where f: "tb_findMany (fe_sensors (re_fleet (be_rules env))) ?p ?w = (w, y)" by (rule prod.exhaust)
  note run = assms [unfolded validateSensorOwnership_def in_rd_def in_fc_def in_db_def act_bind_def]
  obtain sensors where y: "y = Inr sensors"
  proof (cases y)
    case (Inl e)
    with run f False show ?thesis by simp
  qed
  let ?m = "map_of (rev (map (\<lambda>r. (sn_id r, sn_tenantId r)) sensors))"
  let ?bad = "filter (\<lambda>i. \<not> str_truthy (?m i) \<or> ?m i \<noteq> Some t) sensorIds"
  define bad where "bad = ?bad"
  have "snd (if bad \<noteq> [] then act_throw (TenantIsolationError t bad) s else act_return () s) = Inr u"
    using run f False y unfolding bad_def Let_def by (simp only: if_False if_True split_conv sum.case) (simp split: if_split_asm)
  then have "?bad = []" unfolding bad_def by (simp split: if_split_asm)
  then have "\<forall>i \<in> set sensorIds. ?m i = Some t" unfolding filter_empty_conv by blast
  then have "\<forall>i \<in> set sensorIds. (i, t) \<in> (\<lambda>r. (sn_id r, sn_tenantId r)) ` set sensors"
    by (auto dest!: map_of_SomeD)
  with s.findMany_set [OF f [unfolded y]] show ?thesis by fastforce
qed simp

end


text \<open>The sensors of a tenant, in a state of the distributor.\<close>

definition owned :: "('w \<Rightarrow> sensor_entry list) \<Rightarrow> string \<Rightarrow> 'w rules_state \<Rightarrow> string set" where
  "owned srows tenantId s = sn_id ` {sn \<in> set (srows (fc_db (rd_commander (rs_dist s)))). sn_tenantId sn = tenantId}"

definition rules_sends :: "'w rules_state \<Rightarrow> (string \<times> string \<times> json \<times> string) list" where
  "rules_sends s = fc_sends (rd_commander (rs_dist s))"

text \<open>
  C8: Tenant isolation of rule pushes, whichever strategy is chosen: a push sends commands only to sensors of the
  tenant it is made for, returns normally only if every listed sensor belongs to the tenant, and sends nothing at
  all when one of them does not.
\<close>

theorem pushes_stay_in_tenant:
  assumes "distributor_tables env crows cids srows sids"
    and run: "pushRulesWithStrategy env inp tenantId sensorIds rules config s = (s', x)"
  shows "(\<exists>new. rules_sends s' = rules_sends s @ new \<and> fst ` set new \<subseteq> owned srows tenantId s) \<and>
    (set sensorIds \<subseteq> owned srows tenantId s \<or> (\<exists>e. x = Inl e) \<and> rules_sends s' = rules_sends s)"
proof -
  note d = distributor_tables.validate_stays [OF assms(1)] distributor_tables.internal_stays [OF assms(1)]
  let ?S = "srows (fc_db (rd_commander (rs_dist s)))"
  have "act_rel (distributor_tables.rules_stay srows ?S tenantId) (pushRulesWithStrategy env inp tenantId sensorIds rules config)"
    unfolding pushRulesWithStrategy_def
    by (intro act_rel_bind [OF distributor_tables.stays_preorders(6) [OF assms(1)]] d)
  from act_relD [OF this run] have "distributor_tables.rules_stay srows ?S tenantId s s'" .
  then have 1: "\<exists>new. rules_sends s' = rules_sends s @ new \<and> fst ` set new \<subseteq> owned srows tenantId s"
    by (simp add: distributor_tables.rules_stay_def [OF assms(1)] distributor_tables.dist_stays_def [OF assms(1)]
        distributor_tables.stays_def [OF assms(1)] rules_sends_def owned_def)
  from run have "set sensorIds \<subseteq> owned srows tenantId s \<or> (\<exists>e. x = Inl e) \<and> rules_sends s' = rules_sends s"
    unfolding pushRulesWithStrategy_def
  proof (cases rule: act_bind_cases)
    case (threw e)
    then show ?thesis
      using distributor_tables.validate_sends [OF assms(1), of tenantId sensorIds s] by (simp add: rules_sends_def)
  next
    case (went_on s1 a)
    then show ?thesis using distributor_tables.validate_owned [OF assms(1)] by (simp add: owned_def)
  qed
  with 1 show ?thesis by blast
qed


definition ref_bg :: "rules_world bg_env" where
  "ref_bg = \<lparr> be_rules = ref_rules, be_store = NoopDeploymentStateStore \<rparr>"

interpretation refd: distributor_tables ref_bg "\<lambda>w. st_rows (fw_commands w)" "\<lambda>w. list_ids (fw_commands w)"
  "\<lambda>w. st_rows (fw_sensors w)" "\<lambda>w. list_ids (fw_sensors w)"
proof (intro distributor_tables.intro distributor_tables_axioms.intro)
  show "fleet_tables (re_fleet (be_rules ref_bg)) (\<lambda>w. st_rows (fw_commands w)) (\<lambda>w. list_ids (fw_commands w))
      (\<lambda>w. st_rows (fw_sensors w)) (\<lambda>w. list_ids (fw_sensors w))"
    using reff.fleet_tables_axioms by (simp add: ref_bg_def ref_rules_def)
  show "tb_frames (re_sync (be_rules ref_bg)) (\<lambda>w. st_rows (fw_sensors w))"
    "tb_frames (re_scheduled (be_rules ref_bg)) (\<lambda>w. st_rows (fw_sensors w))"
    unfolding ref_bg_def ref_rules_def bg_env.simps rules_env.simps by (rule list_table_frames, simp)+
  show "store_keeps (be_store ref_bg) (\<lambda>w. st_rows (fw_sensors w))"
    by (simp add: ref_bg_def store_keeps_def NoopDeploymentStateStore_def act_keeps_def)
qed

definition new_rules_state :: "'w \<Rightarrow> 'w rules_state" where
  "new_rules_state w = \<lparr> rs_dist = new_distributor w, rs_active = [], rs_cleanups = [] \<rparr>"

text \<open>A push to two sensors: both acknowledge the staging and then the activation.\<close>

definition acked :: "string \<Rightarrow> int \<Rightarrow> string list \<Rightarrow> bg_poll" where
  "acked deploymentId now sensors = \<lparr> bp_now = now, bp_acks = map (\<lambda>i. Ack_success i (Some deploymentId)) sensors \<rparr>"

definition sample_push :: push_input where
  "sample_push = \<lparr> pi_now = 0, pi_stages = (\<lambda>k. 60000 * int k), pi_batches = failing_polls,
     pi_blueGreen = \<lparr> bi_deploymentId = ''d'', bi_start = 0, bi_stagingPolls = [acked ''d'' 0 [''s1''], acked ''d'' 500 [''s2'']],
       bi_switchStart = 600, bi_switchPolls = [acked ''d'' 600 [''s1''], acked ''d'' 900 [''s2'']], bi_end = 1000 \<rparr>,
     pi_cleanupDelayMs = 300000 \<rparr>"

theorem pushes_stay_in_tenant_witness:
  "\<exists>s' x. pushRulesWithStrategy ref_bg sample_push ''a'' [''s1'', ''s3''] [] (strategy_config Blue_green)
       (new_rules_state (fleet_of [(''s1'', ''a''), (''s2'', ''a''), (''s3'', ''b'')])) = (s', x) \<and>
     (\<exists>e. x = Inl e) \<and> rules_sends s' = []"
proof -
  let ?s = "new_rules_state (fleet_of [(''s1'', ''a''), (''s2'', ''a''), (''s3'', ''b'')])"
  obtain s' x where m: "pushRulesWithStrategy ref_bg sample_push ''a'' [''s1'', ''s3''] [] (strategy_config Blue_green) ?s = (s', x)"
    by (rule prod.exhaust)
  have "\<not> set [''s1'', ''s3''] \<subseteq> owned (\<lambda>w. st_rows (fw_sensors w)) ''a'' ?s" "rules_sends ?s = []"
    by (auto simp: owned_def rules_sends_def new_rules_state_def new_distributor_def new_commander_def fleet_of_def)
  with pushes_stay_in_tenant [OF refd.distributor_tables_axioms m] m show ?thesis by auto
qed

lemma sample_switch: "case snd (pushRulesWithStrategy ref_bg sample_push ''a'' [''s1'', ''s2''] [] (strategy_config Blue_green)
       (new_rules_state (fleet_of [(''s1'', ''a''), (''s2'', ''a''), (''s3'', ''b'')]))) of
     Inr (Some r) \<Rightarrow> dr_success r \<and> dr_successCount r = 2 | _ \<Rightarrow> False"
  by code_simp

end
