(* ===== verification/Blue_Green_Switch.thy ===== *)
theory Blue_Green_Switch
  imports Blue_Green
begin

text \<open>
  What a blue/green deployment that reports success has achieved (\<^verbatim>\<open>deployBlueGreen\<close> of
  \<^verbatim>\<open>api/src/services/fleet/rule-distributor.ts\<close>): how the entry of one deployment evolves while acknowledgements
  for it and for other deployments arrive, and from that the state at the end of the switch.
\<close>

section \<open>The entry of a deployment\<close>

abbreviation entry :: "'w rules_state \<Rightarrow> string \<Rightarrow> bg_deployment option" where
  "entry s i \<equiv> jm_get (rs_active s) i"

text \<open>Every active deployment is stored under its own id.\<close>

definition coherent :: "'w rules_state \<Rightarrow> bool" where
  "coherent s \<longleftrightarrow> jm_wf (rs_active s) \<and> (\<forall>(k, d) \<in> set (rs_active s). bd_deploymentId d = k)"

definition coherent_store :: "'w deployment_store \<Rightarrow> bool" where
  "coherent_store st \<longleftrightarrow> (\<forall>i w w' d. ds_getByDeploymentId st i w = (w', Inr (Some d)) \<longrightarrow> bd_deploymentId d = i)"

text \<open>
  Acknowledgements keep the status of a deployment and its sensors, and once staging is over also which sensors
  are staged.
\<close>

definition advances :: "bg_deployment \<Rightarrow> bg_deployment \<Rightarrow> bool" where
  "advances d d' \<longleftrightarrow> bd_status d' = bd_status d \<and> bd_deploymentId d' = bd_deploymentId d \<and>
     jm_keys (bd_sensorStatus d') = jm_keys (bd_sensorStatus d) \<and>
     (bd_status d \<noteq> Bg_staging \<longrightarrow> (\<forall>i. map_option bs_stagingStatus (jm_get (bd_sensorStatus d') i) =
        map_option bs_stagingStatus (jm_get (bd_sensorStatus d) i)))"

definition entry_advances :: "string \<Rightarrow> 'w rules_state \<Rightarrow> 'w rules_state \<Rightarrow> bool" where
  "entry_advances i s s' \<longleftrightarrow> (coherent s \<longrightarrow> coherent s' \<and>
     (\<forall>d. entry s i = Some d \<longrightarrow> (\<exists>d'. entry s' i = Some d' \<and> advances d d')))"

lemma advances_refl [simp]: "advances d d"
  by (simp add: advances_def)

lemma advances_trans: "advances a b \<Longrightarrow> advances b c \<Longrightarrow> advances a c"
  by (simp add: advances_def)

lemma entry_advances_preorder: "reflp (entry_advances i)" "transp (entry_advances i)"
  by (auto intro!: reflpI transpI simp: entry_advances_def) (metis advances_trans)

lemmas advance_rules = act_rel_return [OF entry_advances_preorder(1)] act_rel_throw [OF entry_advances_preorder(1)]
  act_rel_bind [OF entry_advances_preorder(2)] act_rel_try [OF entry_advances_preorder(2)]
  act_rel_each [OF entry_advances_preorder]

text \<open>Calls to the database, the sensors and the store do not touch the entries.\<close>

lemma in_rd_active [simp]: "rs_active (fst (in_rd m s)) = rs_active s"
  by (simp add: in_rd_def split: prod.split)

lemma in_store_active [simp]: "rs_active (fst (in_store m s)) = rs_active s"
  by (simp add: in_store_def)

lemma same_active: "(\<And>s. rs_active (fst (m s)) = rs_active s) \<Longrightarrow> act_rel (entry_advances i) m"
  by (simp add: act_rel_def entry_advances_def coherent_def)

lemma safe_active [simp]:
  "rs_active (fst (safeUpsertDeploymentState env d s)) = rs_active s"
  "rs_active (fst (safeDeleteDeploymentState env t k s)) = rs_active s"
  using in_store_active [of "ds_upsert (be_store env) d" s] in_store_active [of "ds_delete (be_store env) t k" s]
  by (auto simp: safeUpsertDeploymentState_def safeDeleteDeploymentState_def act_try_def simp del: in_store_active
      split: prod.splits sum.splits)

lemma coherent_set:
  "coherent s \<Longrightarrow> bd_deploymentId d = k \<Longrightarrow> coherent (s\<lparr>rs_active := jm_set k d (rs_active s)\<rparr>)"
  by (auto simp: coherent_def set_jm_set)

lemma coherent_entry: "coherent s \<Longrightarrow> entry s k = Some d \<Longrightarrow> bd_deploymentId d = k"
  by (auto simp: coherent_def dest: jm_get_in_set)

section \<open>Acknowledgements\<close>

lemma hydrate_advances:
  assumes "coherent_store (be_store env)"
  shows "act_rel (entry_advances i) (maybeHydrateDeployment env k)"
  unfolding act_rel_def
proof
  fix s :: "'a rules_state"
  show "entry_advances i s (fst (maybeHydrateDeployment env k s))"
  proof (cases "entry s k")
    case (Some d)
    then show ?thesis using reflpD [OF entry_advances_preorder(1)] by (simp add: maybeHydrateDeployment_def act_get_def act_bind_def)
  next
    case None
    obtain s1 x where g: "in_store (ds_getByDeploymentId (be_store env) k) s = (s1, x)" by (rule prod.exhaust)
    then have same: "rs_active s1 = rs_active s" using in_store_active by (metis fst_conv)
    have id: "bd_deploymentId d = k" if "x = Inr (Some d)" for d
      using g assms that by (auto simp: in_store_def in_rd_def in_fc_def in_db_def coherent_store_def split: prod.splits)
    have "fst (maybeHydrateDeployment env k s) =
        (case x of Inr (Some d) \<Rightarrow> s1\<lparr>rs_active := jm_set k d (rs_active s1)\<rparr> | _ \<Rightarrow> s1)"
      using None g by (auto simp: maybeHydrateDeployment_def act_get_def act_bind_def act_try_def split: sum.splits option.splits)
    moreover have "coherent s1" if "coherent s" using that same by (simp add: coherent_def)
    moreover have "entry_advances i s s1" using same by (simp add: entry_advances_def coherent_def)
    moreover have "entry_advances i s (s1\<lparr>rs_active := jm_set k d (rs_active s1)\<rparr>)" if "x = Inr (Some d)" for d
      using None same id [OF that] calculation(2) coherent_set [of s1 d k] unfolding entry_advances_def by auto
    ultimately show ?thesis by (auto split: sum.splits option.splits)
  qed
qed

lemma change_run:
  "rs_active (fst (change_deployment env k f s)) =
     (case entry s k of None \<Rightarrow> rs_active s | Some d \<Rightarrow> jm_set k (f d) (rs_active s))"
  using safe_active(1) by (auto simp: change_deployment_def act_get_def act_bind_def split: option.split)

lemma change_advances:
  assumes "\<And>d. bd_deploymentId (f d) = bd_deploymentId d"
    and "\<And>d. entry s k = Some d \<Longrightarrow> k = i \<Longrightarrow> advances d (f d)"
  shows "entry_advances i s (fst (change_deployment env k f s))"
proof (cases "entry s k")
  case None
  then show ?thesis by (simp add: entry_advances_def coherent_def change_run)
next
  case (Some d)
  have "coherent (fst (change_deployment env k f s))" if "coherent s"
    using coherent_set [OF that, of "f d" k] coherent_entry [OF that Some] assms(1) Some by (simp add: coherent_def change_run)
  with Some assms(2) [OF Some] show ?thesis by (auto simp: entry_advances_def change_run)
qed

lemma staging_update_advances:
  "bd_status d = Bg_staging \<Longrightarrow> jm_get (bd_sensorStatus d) sn \<noteq> None \<Longrightarrow> advances d (staging_update now sn ok err d)"
  by (auto simp: advances_def staging_update_def Let_def jm_keys_set jm_has_get)

lemma activation_update_advances:
  "jm_get (bd_sensorStatus d) sn \<noteq> None \<Longrightarrow> advances d (activation_update now sn ok d)"
  by (auto simp: advances_def activation_update_def Let_def jm_keys_set jm_has_get or_default_def)

lemma update_ids [simp]:
  "bd_deploymentId (staging_update now sn ok err d) = bd_deploymentId d"
  "bd_deploymentId (activation_update now sn ok d) = bd_deploymentId d"
  by (simp_all add: staging_update_def activation_update_def Let_def)

lemma hydrate_known: "entry s k = Some d \<Longrightarrow> maybeHydrateDeployment env k s = (s, Inr (Some d))"
  by (simp add: maybeHydrateDeployment_def act_get_def act_bind_def)

lemma hydrate_result: "maybeHydrateDeployment env k s = (s', Inr (Some d)) \<Longrightarrow> entry s' k = Some d"
  by (cases "entry s k")
    (auto simp: maybeHydrateDeployment_def act_get_def act_bind_def act_try_def split: prod.splits sum.splits option.splits)

lemma updates_known:
  assumes "entry s k = Some d"
  shows "updateSensorStagingStatus env now k sn ok err s = change_deployment env k (staging_update now sn ok err) s"
    "updateSensorActivationStatus env now k sn ok s = change_deployment env k (activation_update now sn ok) s"
  using hydrate_known [OF assms] by (simp_all add: updateSensorStagingStatus_def updateSensorActivationStatus_def)

lemma success_advances:
  assumes "coherent_store (be_store env)"
  shows "act_rel (entry_advances i) (on_command_success env now sn k)"
  unfolding act_rel_def
proof
  fix s :: "'a rules_state"
  show "entry_advances i s (fst (on_command_success env now sn k s))"
  proof (cases "str_truthy k")
    case False
    then show ?thesis by (simp add: on_command_success_def entry_advances_def)
  next
    case True
    obtain s1 x where h: "maybeHydrateDeployment env (the k) s = (s1, x)" by (rule prod.exhaust)
    from act_relD [OF hydrate_advances [OF assms] h] have r: "entry_advances i s s1" .
    note refl = reflpD [OF entry_advances_preorder(1), of i s1]
    have run: "on_command_success env now sn k s = (case x of
        Inl e \<Rightarrow> (s1, Inl e)
      | Inr None \<Rightarrow> (s1, Inr ())
      | Inr (Some d) \<Rightarrow> (case jm_get (bd_sensorStatus d) sn of
            None \<Rightarrow> (s1, Inr ())
          | Some st \<Rightarrow>
              if bd_status d = Bg_staging \<and> bs_stagingStatus st = Stage_pending
              then updateSensorStagingStatus env now (the k) sn True None s1
              else if bd_status d = Bg_switching then updateSensorActivationStatus env now (the k) sn True s1
              else (s1, Inr ())))"
      using True h by (auto simp: on_command_success_def act_bind_def split: sum.split option.split)
    have "entry_advances i s1 (fst (on_command_success env now sn k s))"
    proof (cases "\<exists>d st. x = Inr (Some d) \<and> jm_get (bd_sensorStatus d) sn = Some st")
      case False
      then show ?thesis using refl unfolding run by (auto split: sum.split option.split)
    next
      case True
      then obtain d st where x: "x = Inr (Some d)" and st: "jm_get (bd_sensorStatus d) sn = Some st" by blast
      from hydrate_result h x have e: "entry s1 (the k) = Some d" by fastforce
      have "entry_advances i s1 (fst (change_deployment env (the k) (staging_update now sn True None) s1))" if "bd_status d = Bg_staging"
        using e st that by (intro change_advances) (auto intro!: staging_update_advances)
      moreover have "entry_advances i s1 (fst (change_deployment env (the k) (activation_update now sn True) s1))"
        using e st by (intro change_advances) (auto intro!: activation_update_advances)
      ultimately show ?thesis unfolding run using x st refl updates_known [OF e] by simp
    qed
    with r show ?thesis using transpD [OF entry_advances_preorder(2)] by blast
  qed
qed

text \<open>A failure updates the deployments that were staging when it arrived; the entry of \<open>i\<close> keeps its status meanwhile.\<close>

definition failed_update :: "'w bg_env \<Rightarrow> int \<Rightarrow> string \<Rightarrow> string option \<Rightarrow> bg_deployment \<Rightarrow> ('w rules_state, unit) act" where
  "failed_update env now sn err d = (case jm_get (bd_sensorStatus d) sn of
     None \<Rightarrow> act_return ()
   | Some status \<Rightarrow>
       if bd_status d = Bg_staging \<and> bs_stagingStatus status = Stage_pending
       then updateSensorStagingStatus env now (bd_deploymentId d) sn False err
       else act_return ())"

definition agrees :: "string \<Rightarrow> 'w rules_state \<Rightarrow> bg_deployment \<Rightarrow> bool" where
  "agrees i s x \<longleftrightarrow> (bd_deploymentId x = i \<longrightarrow> (\<exists>d. entry s i = Some d \<and>
     bd_status d = bd_status x \<and> jm_keys (bd_sensorStatus d) = jm_keys (bd_sensorStatus x)))"

lemma failed_update_advances:
  assumes "coherent_store (be_store env)" and "agrees i s x"
  shows "entry_advances i s (fst (failed_update env now sn err x s))"
proof (cases "\<exists>st. jm_get (bd_sensorStatus x) sn = Some st \<and> bd_status x = Bg_staging \<and> bs_stagingStatus st = Stage_pending")
  case False
  then show ?thesis using reflpD [OF entry_advances_preorder(1)] by (auto simp: failed_update_def split: option.split)
next
  case True
  let ?k = "bd_deploymentId x" and ?f = "staging_update now sn False err"
  from True have run: "failed_update env now sn err x = updateSensorStagingStatus env now ?k sn False err"
    and x: "bd_status x = Bg_staging" "jm_has (bd_sensorStatus x) sn" by (auto simp: failed_update_def jm_has_get)
  show ?thesis
  proof (cases "entry s ?k")
    case (Some d)
    have "advances d (?f d)" if "?k = i"
    proof (rule staging_update_advances)
      from assms(2) that Some have a: "bd_status d = bd_status x" "jm_keys (bd_sensorStatus d) = jm_keys (bd_sensorStatus x)"
        by (simp_all add: agrees_def)
      with x show "bd_status d = Bg_staging" by simp
      have "jm_has (bd_sensorStatus d) sn" using a(2) x(2) by (metis list.set_map)
      then show "jm_get (bd_sensorStatus d) sn \<noteq> None" by (simp add: jm_has_get)
    qed
    then have "entry_advances i s (fst (change_deployment env ?k ?f s))" using Some by (intro change_advances) simp_all
    then show ?thesis unfolding run updates_known [OF Some] .
  next
    case None
    with assms(2) have other: "?k \<noteq> i" by (auto simp: agrees_def)
    obtain s1 y where h: "maybeHydrateDeployment env ?k s = (s1, y)" by (rule prod.exhaust)
    from act_relD [OF hydrate_advances [OF assms(1)] h] have r: "entry_advances i s s1" .
    have "entry_advances i s1 (fst (change_deployment env ?k ?f s1))" using other by (intro change_advances) simp_all
    with r have "entry_advances i s (fst (change_deployment env ?k ?f s1))"
      using transpD [OF entry_advances_preorder(2)] by blast
    moreover have "fst (updateSensorStagingStatus env now ?k sn False err s) =
        (case y of Inl _ \<Rightarrow> s1 | Inr _ \<Rightarrow> fst (change_deployment env ?k ?f s1))"
      using h by (simp add: updateSensorStagingStatus_def act_bind_def split: sum.split)
    ultimately show ?thesis using r unfolding run by (cases y) simp_all
  qed
qed

lemma each_failed_advances:
  assumes "coherent_store (be_store env)"
  shows "\<forall>x \<in> set xs. agrees i s x \<Longrightarrow> coherent s \<Longrightarrow> entry_advances i s (fst (act_each (failed_update env now sn err) xs s))"
proof (induction xs arbitrary: s)
  case Nil
  then show ?case by (simp add: reflpD [OF entry_advances_preorder(1)])
next
  case (Cons x xs)
  obtain s1 y where x: "failed_update env now sn err x s = (s1, y)" by (rule prod.exhaust)
  with failed_update_advances [OF assms, of i s x now sn err] Cons.prems have 1: "entry_advances i s s1" by simp
  show ?case
  proof (cases y)
    case (Inl e)
    with x 1 show ?thesis by simp
  next
    case (Inr u)
    from 1 Cons.prems(2) have c: "coherent s1" by (simp add: entry_advances_def)
    have "agrees i s1 z" if "z \<in> set xs" for z
      using 1 Cons.prems that by (fastforce simp: agrees_def entry_advances_def advances_def)
    then have "entry_advances i s1 (fst (act_each (failed_update env now sn err) xs s1))" by (intro Cons.IH c) blast
    then have "entry_advances i s (fst (act_each (failed_update env now sn err) xs s1))"
      using transpD [OF entry_advances_preorder(2) 1] by blast
    moreover have "fst (act_each (failed_update env now sn err) (x # xs) s) = fst (act_each (failed_update env now sn err) xs s1)"
      using x Inr by (auto simp: act_bind_def split: prod.split sum.split)
    ultimately show ?thesis by simp
  qed
qed

lemma failed_advances:
  assumes "coherent_store (be_store env)"
  shows "act_rel (entry_advances i) (on_command_failed env now sn err)"
  unfolding act_rel_def
proof
  fix s :: "'a rules_state"
  have eq: "fst (on_command_failed env now sn err s) = fst (act_each (failed_update env now sn err) (jm_values (rs_active s)) s)"
    by (auto simp: on_command_failed_def act_get_def act_bind_def failed_update_def [abs_def] split: prod.split sum.split)
  show "entry_advances i s (fst (on_command_failed env now sn err s))"
  proof (cases "coherent s")
    case True
    have "agrees i s x" if "x \<in> set (jm_values (rs_active s))" for x
    proof -
      from that obtain k where "(k, x) \<in> set (rs_active s)" by auto
      with True have "entry s (bd_deploymentId x) = Some x" by (auto simp: coherent_def)
      then show ?thesis by (auto simp: agrees_def)
    qed
    then show ?thesis unfolding eq by (intro each_failed_advances [OF assms] True) blast
  qed (simp add: entry_advances_def)
qed

lemma acks_advance: "coherent_store (be_store env) \<Longrightarrow> act_rel (entry_advances i) (apply_acks env p)"
  unfolding apply_acks_def
proof (intro advance_rules)
  fix a assume "coherent_store (be_store env)"
  then show "act_rel (entry_advances i) (apply_ack env (bp_now p) a)"
    by (cases a) (auto intro: success_advances failed_advances)
qed


section \<open>Staging\<close>

text \<open>The deployment is staging and tracks exactly the sensors of \<open>A\<close>.\<close>

definition tracks :: "string \<Rightarrow> bg_status \<Rightarrow> string set \<Rightarrow> 'w rules_state \<Rightarrow> bool" where
  "tracks i status A s \<longleftrightarrow> coherent s \<and> (\<exists>d. entry s i = Some d \<and> bd_status d = status \<and>
     jm_wf (bd_sensorStatus d) \<and> fst ` set (bd_sensorStatus d) = A)"

lemma tracks_cong: "rs_active s' = rs_active s \<Longrightarrow> tracks i st A s' = tracks i st A s"
  by (simp add: tracks_def coherent_def)

lemma tracks_advances: "entry_advances i s s' \<Longrightarrow> tracks i st A s \<Longrightarrow> tracks i st A s'"
  unfolding tracks_def entry_advances_def advances_def by (metis list.set_map)

lemma tracks_set:
  assumes "tracks i st A s" and "entry s i = Some d" and "bd_deploymentId d' = bd_deploymentId d" "bd_status d' = st'"
    "jm_wf (bd_sensorStatus d) \<Longrightarrow> jm_wf (bd_sensorStatus d')"
    "fst ` set (bd_sensorStatus d) = A \<Longrightarrow> fst ` set (bd_sensorStatus d') = B"
  shows "tracks i st' B (s\<lparr>rs_active := jm_set i d' (rs_active s)\<rparr>)"
proof -
  from assms(1) have "coherent s" by (simp add: tracks_def)
  with assms(2,3) have "coherent (s\<lparr>rs_active := jm_set i d' (rs_active s)\<rparr>)" by (intro coherent_set) (auto dest: coherent_entry)
  with assms show ?thesis by (auto simp: tracks_def)
qed

lemma tracks_change:
  assumes "tracks i st A s" "\<And>d. bd_deploymentId (f d) = bd_deploymentId d" "\<And>d. bd_status d = st \<Longrightarrow> bd_status (f d) = st'"
    "\<And>d. bd_sensorStatus (f d) = bd_sensorStatus d"
  shows "tracks i st' A (fst (change_deployment env i f s))"
proof -
  from assms(1) obtain d where d: "entry s i = Some d" "bd_status d = st" by (auto simp: tracks_def)
  have "tracks i st' A (s\<lparr>rs_active := jm_set i (f d) (rs_active s)\<rparr>)"
    by (rule tracks_set [OF assms(1) d(1)]) (simp_all add: assms d(2))
  then show ?thesis using d by (simp add: tracks_def coherent_def change_run)
qed

definition put_entry :: "string \<Rightarrow> (bg_deployment \<Rightarrow> bg_deployment) \<Rightarrow> 'w rules_state \<Rightarrow> 'w rules_state" where
  "put_entry i f s = (case entry s i of None \<Rightarrow> s | Some d \<Rightarrow> s\<lparr>rs_active := jm_set i (f d) (rs_active s)\<rparr>)"

lemma tracks_put:
  assumes "tracks i st A s" and f: "\<And>d. bd_deploymentId (f d) = bd_deploymentId d" "\<And>d. bd_status (f d) = bd_status d"
    "\<And>d. jm_wf (bd_sensorStatus d) \<Longrightarrow> jm_wf (bd_sensorStatus (f d))"
    "\<And>d. fst ` set (bd_sensorStatus (f d)) = g (fst ` set (bd_sensorStatus d))"
  shows "tracks i st (g A) (put_entry i f s)"
proof -
  from assms(1) obtain d where d: "entry s i = Some d" "bd_status d = st" by (auto simp: tracks_def)
  have "tracks i st (g A) (s\<lparr>rs_active := jm_set i (f d) (rs_active s)\<rparr>)"
    by (rule tracks_set [OF assms(1) d(1)]) (simp_all add: f d(2))
  with d show ?thesis by (simp add: put_entry_def)
qed

lemma stage_sensor_tracks:
  assumes "tracks i Bg_staging A s"
  shows "tracks i Bg_staging (insert sn A) (fst (stage_sensor env now t rules i sn s)) \<and> snd (stage_sensor env now t rules i sn s) = Inr ()"
proof -
  let ?new = "\<lambda>d. d\<lparr>bd_sensorStatus := jm_set sn \<lparr> bs_sensorId = sn, bs_stagingStatus = Stage_pending,
             bs_activeStatus = Blue, bs_lastUpdated = now, bs_error = None \<rparr> (bd_sensorStatus d)\<rparr>"
  let ?upd = "\<lambda>g d. d\<lparr>bd_sensorStatus := AList.map_entry sn g (bd_sensorStatus d)\<rparr>"
  let ?fail = "\<lambda>e. ?upd (\<lambda>st. st\<lparr>bs_stagingStatus := Stage_failed, bs_error := Some (error_message e), bs_lastUpdated := now\<rparr>)"
  have new: "tracks i Bg_staging (insert sn A) (put_entry i ?new s)"
    by (rule tracks_put [OF assms]) (simp_all add: dom_update)
  have upd: "tracks i Bg_staging B (put_entry i (?upd g) s1)" if "tracks i Bg_staging B s1" for g B and s1 :: "'a rules_state"
    using tracks_put [OF that, of "?upd g" "\<lambda>B. B"] by (simp add: dom_map_entry distinct_map_entry)
  obtain s1 x where c: "in_rd (in_fc (fleet_sendCommand (re_fleet (be_rules env)) (re_config (be_rules env)) now t sn
              (rules_command [(''deploymentId'', JStr i), (''rules'', JArr rules),
                 (''hash'', JStr (computeRulesHash (be_rules env) rules)), (''activate'', JBool False)]))) (put_entry i ?new s) = (s1, x)"
    by (rule prod.exhaust)
  have "rs_active s1 = rs_active (put_entry i ?new s)" using arg_cong [OF c, of "\<lambda>p. rs_active (fst p)"] by (simp only: in_rd_active fst_conv)
  from tracks_cong [OF this] new have "tracks i Bg_staging (insert sn A) s1" by blast
  note u = upd [OF this]
  note def = stage_sensor_def [of env now t rules i sn, unfolded Let_def put_entry_def [symmetric]]
  show ?thesis
  proof (cases x)
    case (Inl e)
    have "stage_sensor env now t rules i sn s = (put_entry i (?fail e) s1, Inr ())"
      unfolding def by (simp add: act_bind_def act_try_def c Inl)
    then show ?thesis using u by simp
  next
    case (Inr v)
    have "stage_sensor env now t rules i sn s = (put_entry i (?upd (\<lambda>st. st\<lparr>bs_lastUpdated := now\<rparr>)) s1, Inr ())"
      unfolding def by (simp add: act_bind_def act_try_def c Inr)
    then show ?thesis using u by simp
  qed
qed

lemma stage_each_tracks:
  "tracks i Bg_staging A s \<Longrightarrow> \<exists>s' us. act_each (stage_sensor env now t rules i) sns s = (s', Inr us) \<and> tracks i Bg_staging (A \<union> set sns) s'"
proof (induction sns arbitrary: s A)
  case (Cons sn sns)
  obtain s1 x where x: "stage_sensor env now t rules i sn s = (s1, x)" by (rule prod.exhaust)
  with stage_sensor_tracks [OF Cons.prems, of sn env now t rules] have "tracks i Bg_staging (insert sn A) s1" "x = Inr ()" by simp_all
  with Cons.IH [of "insert sn A" s1] x show ?case by (auto simp: act_bind_def)
qed simp

lemma stageGreen_tracks:
  assumes "tracks i Bg_staging {} s" and "stageGreenDeployment env now t sns rules i s = (s', Inr u)"
  shows "tracks i Bg_staging (set sns) s'"
proof -
  from assms(1) obtain d where d: "entry s i = Some d" by (auto simp: tracks_def)
  obtain s1 us where s1: "act_each (stage_sensor env now t rules i) sns s = (s1, Inr us)" "tracks i Bg_staging (set sns) s1"
    using stage_each_tracks [OF assms(1), of env now t rules sns] by auto
  from assms(2) d s1(1) have "change_deployment env i (\<lambda>d. d) s1 = (s', Inr u)"
    by (auto simp: stageGreenDeployment_def act_get_def act_bind_def split: if_splits)
  moreover have "tracks i Bg_staging (set sns) (fst (change_deployment env i (\<lambda>d. d) s1))"
    by (rule tracks_change [OF s1(2)]) simp_all
  ultimately show ?thesis by simp
qed

lemma staging_loop_result:
  assumes "coherent_store (be_store env)" "tracks i Bg_staging A s"
    and "staging_loop env start timeout sns i ps s = (s', Inr (Some sts))"
  shows "tracks i Bg_staging A s' \<and> (\<exists>d. entry s' i = Some d \<and> sts = jm_values (bd_sensorStatus d))"
  using assms(2,3)
proof (induction ps arbitrary: s)
  case (Cons p ps)
  obtain s1 x where a: "apply_acks env p s = (s1, x)" by (rule prod.exhaust)
  from tracks_advances [OF act_relD [OF acks_advance [OF assms(1)] a] Cons.prems(1)] have t: "tracks i Bg_staging A s1" .
  then obtain d where d: "entry s1 i = Some d" by (auto simp: tracks_def)
  from a d Cons.prems(2) Cons.IH [OF t] t show ?case by (cases x) (auto simp: act_bind_def act_get_def split: if_splits)
qed simp


lemma all_counted:
  assumes "jm_wf m" "fst ` set m = set sns" "length sns \<le> staged_count (jm_values m)"
  shows "distinct sns \<and> staged_count (jm_values m) = length sns \<and> (\<forall>(k, st) \<in> set m. bs_stagingStatus st = Stage_staged)"
proof -
  have "staged_count (jm_values m) \<le> length m" unfolding staged_count_def by (metis length_filter_le length_map)
  moreover have m: "length m = card (set sns)" using assms(1,2) distinct_card [of "map fst m"] by simp
  ultimately have eq: "staged_count (jm_values m) = length sns" "card (set sns) = length sns" "staged_count (jm_values m) = length m"
    using card_length [of sns] assms(3) by linarith+
  from eq(3) have "filter (\<lambda>st. bs_stagingStatus st = Stage_staged) (jm_values m) = jm_values m"
    unfolding staged_count_def by (metis filter_id_conv length_filter_less length_map less_irrefl)
  then have "\<forall>st \<in> set (jm_values m). bs_stagingStatus st = Stage_staged" unfolding filter_id_conv .
  with eq show ?thesis by (auto simp: card_distinct)
qed

section \<open>Switching\<close>

definition all_staged :: "string \<Rightarrow> 'w rules_state \<Rightarrow> bool" where
  "all_staged i s \<longleftrightarrow> (\<exists>d. entry s i = Some d \<and> (\<forall>k st. jm_get (bd_sensorStatus d) k = Some st \<longrightarrow> bs_stagingStatus st = Stage_staged))"

lemma all_staged_advances:
  assumes "entry_advances i s s'" "tracks i st A s" "st \<noteq> Bg_staging" "all_staged i s"
  shows "all_staged i s'"
proof -
  from assms(2,4) obtain d where d: "coherent s" "entry s i = Some d" "bd_status d = st"
      "\<And>k x. jm_get (bd_sensorStatus d) k = Some x \<Longrightarrow> bs_stagingStatus x = Stage_staged" by (auto simp: tracks_def all_staged_def)
  with assms(1) obtain d' where d': "entry s' i = Some d'" "advances d d'" by (auto simp: entry_advances_def)
  have "bs_stagingStatus x = Stage_staged" if "jm_get (bd_sensorStatus d') k = Some x" for k x
  proof -
    have "map_option bs_stagingStatus (jm_get (bd_sensorStatus d') k) = map_option bs_stagingStatus (jm_get (bd_sensorStatus d) k)"
      using d'(2) d(3) assms(3) unfolding advances_def by blast
    with that d(4) [of k] show ?thesis by (cases "jm_get (bd_sensorStatus d) k") simp_all
  qed
  with d' show ?thesis by (auto simp: all_staged_def)
qed

lemma switch_loop_result:
  assumes "coherent_store (be_store env)" "tracks i Bg_switching A s" "all_staged i s"
    and "switch_loop env start timeout i ps s = (s', Inr (Some u))"
  shows "tracks i Bg_switching A s' \<and> all_staged i s' \<and> (\<exists>d. entry s' i = Some d \<and> all_switched d)"
  using assms(2-4)
proof (induction ps arbitrary: s)
  case (Cons p ps)
  obtain s1 x where a: "apply_acks env p s = (s1, x)" by (rule prod.exhaust)
  note r = act_relD [OF acks_advance [OF assms(1)] a]
  from tracks_advances [OF r Cons.prems(1)] have t: "tracks i Bg_switching A s1" .
  from all_staged_advances [OF r Cons.prems(1) _ Cons.prems(2)] have st: "all_staged i s1" by simp
  from t obtain d where d: "entry s1 i = Some d" by (auto simp: tracks_def)
  from a d Cons.prems(3) Cons.IH [OF t st] t st show ?case by (cases x) (auto simp: act_bind_def act_get_def split: if_splits)
qed simp

definition switched :: "string \<Rightarrow> string list \<Rightarrow> 'w rules_state \<Rightarrow> bool" where
  "switched i sns s \<longleftrightarrow> (\<exists>d. entry s i = Some d \<and> bd_status d = Bg_active \<and>
     (\<forall>k \<in> set sns. \<exists>st. jm_get (bd_sensorStatus d) k = Some st \<and> bs_stagingStatus st = Stage_staged \<and> bs_activeStatus st = Green))"

lemma switched_end:
  assumes "tracks i Bg_switching (set sns) s" "all_staged i s" "entry s i = Some d" "all_switched d"
    and "\<And>d. bd_sensorStatus (f d) = bd_sensorStatus d" "\<And>d. bd_status (f d) = Bg_active"
  shows "switched i sns (fst (change_deployment env i f s))"
proof -
  have "\<exists>st. jm_get (bd_sensorStatus d) k = Some st \<and> bs_stagingStatus st = Stage_staged \<and> bs_activeStatus st = Green" if k: "k \<in> set sns" for k
  proof -
    from assms(1,3) k have "jm_has (bd_sensorStatus d) k" by (auto simp: tracks_def)
    then obtain st where st: "jm_get (bd_sensorStatus d) k = Some st" by (auto simp: jm_has_get)
    moreover from assms(2,3) st have "bs_stagingStatus st = Stage_staged" by (auto simp: all_staged_def)
    moreover from assms(4) jm_get_in_set [OF st] have "\<not> (bs_stagingStatus st = Stage_staged \<and> bs_activeStatus st \<noteq> Green)"
      unfolding all_switched_def list_all_iff by force
    ultimately show ?thesis by blast
  qed
  with assms(3,5,6) show ?thesis by (simp add: switched_def change_run)
qed


lemma switch_result:
  assumes "executeBlueGreenSwitch env now t i timeout ps s = (s', Inr (Some u))"
    and "coherent_store (be_store env)" "tracks i Bg_switching A s" "all_staged i s"
  shows "tracks i Bg_switching A s' \<and> all_staged i s' \<and> (\<exists>d. entry s' i = Some d \<and> all_switched d)"
proof -
  let ?b = "in_rd (in_fc (broadcastCommand (re_fleet (be_rules env)) (re_config (be_rules env)) now t
          (rules_command [(''deploymentId'', JStr i), (''activate'', JBool True)])))"
  from assms(1) obtain s1 v where s1: "?b s = (s1, Inr v)" "switch_loop env now timeout i ps s1 = (s', Inr (Some u))"
    by (auto simp: executeBlueGreenSwitch_def act_bind_Inr split: if_splits)
  have same: "rs_active s1 = rs_active s" using arg_cong [OF s1(1), of "\<lambda>p. rs_active (fst p)"] by (simp only: in_rd_active fst_conv)
  from tracks_cong [OF same] assms(3) have "tracks i Bg_switching A s1" by blast
  moreover from same assms(4) have "all_staged i s1" by (simp add: all_staged_def)
  ultimately show ?thesis using switch_loop_result [OF assms(2) _ _ s1(2)] by blast
qed

lemma switch_phase_result:
  assumes run: "bg_switch_phase env inp t sns config sts s = (s', Inr (Some n))" and "rc_requireAllSensorsStaged config \<noteq> Some False"
    and "coherent_store (be_store env)" "tracks (bi_deploymentId inp) Bg_staging (set sns) s"
    and d: "entry s (bi_deploymentId inp) = Some d" "sts = jm_values (bd_sensorStatus d)"
  shows "switched (bi_deploymentId inp) sns s' \<and> distinct sns \<and> n = length sns"
proof -
  let ?i = "bi_deploymentId inp"
  let ?f1 = "\<lambda>d. d\<lparr>bd_status := Bg_staged, bd_stagedAt := Some (bi_switchStart inp)\<rparr>" and ?f2 = "\<lambda>d. d\<lparr>bd_status := Bg_switching\<rparr>"
    and ?f3 = "\<lambda>d. d\<lparr>bd_status := Bg_active, bd_activatedAt := Some (bi_end inp)\<rparr>"
  have "or_default (rc_requireAllSensorsStaged config) True"
    using assms(2) by (cases "rc_requireAllSensorsStaged config") (auto simp: or_default_def)
  with run obtain s3 s4 s5 w where enough: "length sns \<le> staged_count sts" and
      steps: "change_deployment env ?i ?f1 s = (s3, Inr ())" "change_deployment env ?i ?f2 s3 = (s4, Inr ())"
      "executeBlueGreenSwitch env (bi_switchStart inp) t ?i (or_default (rc_switchTimeout config) 30000) (bi_switchPolls inp) s4 = (s5, Inr (Some w))"
      "change_deployment env ?i ?f3 s5 = (s', Inr ())" "n = staged_count sts"
    by (auto simp: bg_switch_phase_def Let_def act_bind_Inr not_less split: if_splits option.splits)
  have cnt: "distinct sns" "staged_count sts = length sns" "\<forall>(k, st) \<in> set (bd_sensorStatus d). bs_stagingStatus st = Stage_staged"
    using all_counted [of "bd_sensorStatus d" sns] assms(4) d enough by (simp_all add: tracks_def)
  have "tracks ?i Bg_staged (set sns) (fst (change_deployment env ?i ?f1 s))" by (rule tracks_change [OF assms(4)]) simp_all
  then have t3: "tracks ?i Bg_staged (set sns) s3" using steps(1) by simp
  have "tracks ?i Bg_switching (set sns) (fst (change_deployment env ?i ?f2 s3))" by (rule tracks_change [OF t3]) simp_all
  then have t4: "tracks ?i Bg_switching (set sns) s4" using steps(2) by simp
  have "rs_active s3 = jm_set ?i (?f1 d) (rs_active s)" using change_run [of env ?i ?f1 s] steps(1) d by simp
  then have "rs_active s4 = jm_set ?i (?f2 (?f1 d)) (rs_active s3)" using change_run [of env ?i ?f2 s3] steps(2) by simp
  then have "all_staged ?i s4" using cnt(3) by (auto simp: all_staged_def dest!: jm_get_in_set)
  from switch_result [OF steps(3) assms(3) t4 this] obtain d5 where s5: "tracks ?i Bg_switching (set sns) s5" "all_staged ?i s5"
      "entry s5 ?i = Some d5" "all_switched d5" by blast
  from switched_end [OF s5, of ?f3 env] steps(4) have "switched ?i sns s'" by simp
  with cnt steps(5) show ?thesis by simp
qed

lemma phases_result:
  assumes "bg_phases env inp t sns rules config s = (s', Inr (Some n))" and "rc_requireAllSensorsStaged config \<noteq> Some False"
    and "coherent_store (be_store env)" "tracks (bi_deploymentId inp) Bg_staging {} s"
  shows "switched (bi_deploymentId inp) sns s' \<and> distinct sns \<and> n = length sns"
proof -
  let ?i = "bi_deploymentId inp"
  from assms(1) obtain s1 u s2 sts where s2: "stageGreenDeployment env (bi_start inp) t sns rules ?i s = (s1, Inr u)"
      "staging_loop env (bi_start inp) (or_default (rc_stagingTimeout config) 60000) sns ?i (bi_stagingPolls inp) s1 = (s2, Inr (Some sts))"
      "bg_switch_phase env inp t sns config sts s2 = (s', Inr (Some n))"
    by (auto simp: bg_phases_def act_bind_Inr split: option.splits)
  from stageGreen_tracks [OF assms(4) s2(1)] have "tracks ?i Bg_staging (set sns) s1" .
  from staging_loop_result [OF assms(3) this s2(2)] show ?thesis using switch_phase_result [OF s2(3) assms(2,3)] by blast
qed

section \<open>The property\<close>

text \<open>
  C9: A blue/green deployment that must stage all sensors (the default) and reports success has switched them all:
  whatever acknowledgements arrive in whatever order, for this deployment or others, in the end it is marked
  active and every listed sensor is recorded as staged and green, the reported number of successes is the number
  of sensors, and no sensor was listed twice.
\<close>

theorem blue_green_success_is_switched:
  assumes "deployBlueGreen env inp delay tenantId sensorIds rules config s = (s', Inr (Some r))" and "dr_success r"
    and "rc_requireAllSensorsStaged config \<noteq> Some False" and "coherent_store (be_store env)" and "coherent s"
  shows "switched (bi_deploymentId inp) sensorIds s' \<and> distinct sensorIds \<and> dr_successCount r = int (length sensorIds) \<and>
    list_all srs_success (dr_results r)"
proof -
  let ?i = "bi_deploymentId inp"
  let ?d = "\<lparr> bd_deploymentId = ?i, bd_tenantId = tenantId, bd_status = Bg_staging, bd_rules = rules,
            bd_stagedAt = None, bd_activatedAt = None, bd_retiredAt = None, bd_sensorStatus = [] \<rparr>"
  let ?s1 = "s\<lparr>rs_active := jm_set ?i ?d (rs_active s)\<rparr>"
  obtain s2 u where s2: "safeUpsertDeploymentState env ?d ?s1 = (s2, u)" by (rule prod.exhaust)
  have "coherent ?s1" by (rule coherent_set [OF assms(5)]) simp
  then have "tracks ?i Bg_staging {} ?s1" by (simp add: tracks_def)
  then have t: "tracks ?i Bg_staging {} s2"
    using tracks_cong [of s2 ?s1] arg_cong [OF s2, of "\<lambda>p. rs_active (fst p)"] by (simp only: safe_active fst_conv)
  from assms(1,2) s2 obtain s3 n where s3: "bg_phases env inp tenantId sensorIds rules config s2 = (s3, Inr (Some n))"
    and r: "rs_active s' = rs_active s3" "dr_successCount r = int n"
      "dr_results r = map (\<lambda>i. let status = Option.bind (entry s3 ?i) (\<lambda>d. jm_get (bd_sensorStatus d) i) in
         \<lparr> srs_sensorId = i, srs_success = (map_option bs_stagingStatus status = Some Stage_staged),
           srs_error = Option.bind status bs_error, srs_commandId = None \<rparr>) sensorIds"
    by (auto simp: deployBlueGreen_def Let_def set_deployment_def act_bind_def act_try_def act_get_def scheduleBlueCleanup_def
        split: prod.splits sum.splits option.splits)
  from phases_result [OF s3 assms(3,4) t] have p: "switched ?i sensorIds s3" "distinct sensorIds" "n = length sensorIds" by simp_all
  from p(1) have "list_all srs_success (dr_results r)" unfolding r(3) by (auto simp: switched_def list_all_iff Let_def)
  with p r(1,2) show ?thesis by (simp add: switched_def)
qed


lemma noop_coherent: "coherent_store NoopDeploymentStateStore"
  by (simp add: coherent_store_def NoopDeploymentStateStore_def)

definition two_sensors :: "rules_world rules_state" where
  "two_sensors = new_rules_state (fleet_of [(''s1'', ''a''), (''s2'', ''a''), (''s3'', ''b'')])"

theorem blue_green_success_is_switched_witness:
  "\<exists>s' r. deployBlueGreen ref_bg (pi_blueGreen sample_push) 300000 ''a'' [''s1'', ''s2''] [] (strategy_config Blue_green) two_sensors =
       (s', Inr (Some r)) \<and> switched ''d'' [''s1'', ''s2''] s' \<and> dr_successCount r = 2"
proof -
  let ?m = "deployBlueGreen ref_bg (pi_blueGreen sample_push) 300000 ''a'' [''s1'', ''s2''] [] (strategy_config Blue_green) two_sensors"
  have "case snd ?m of Inr (Some r) \<Rightarrow> dr_success r | _ \<Rightarrow> False" by code_simp
  then obtain s' r where m: "?m = (s', Inr (Some r))" "dr_success r" by (cases ?m) (auto split: sum.splits option.splits)
  have "coherent two_sensors" by (simp add: coherent_def two_sensors_def new_rules_state_def)
  with blue_green_success_is_switched [OF m] m(1) noop_coherent show ?thesis
    by (auto simp: ref_bg_def strategy_config_def sample_push_def)
qed

text \<open>
  With an empty list of sensors the percentage of staged sensors is \<^verbatim>\<open>NaN\<close>, no threshold stops the deployment, and
  the activation is broadcast to every connected sensor of the tenant.
\<close>

lemma empty_list_activates_all:
  "case pushRulesWithStrategy ref_bg sample_push ''a'' [] [] (strategy_config Blue_green) two_sensors of
     (s', Inr (Some r)) \<Rightarrow> dr_success r \<and> dr_totalTargets r = 0 \<and> map fst (rules_sends s') = [''s1'', ''s2'']
   | _ \<Rightarrow> False"
  by code_simp

end
