(* ===== verification/Tunnel_Broker.thy ===== *)
theory Tunnel_Broker
  imports Json_Text Js_Date
begin

text \<open>
  The channel protocol of the tunnel broker (\<^verbatim>\<open>api/src/websocket/tunnel-broker.ts\<close>): sessions between a client and a
  sensor with their limits, message routing and closing, and the state the broker shares with the legacy protocol.
  Session objects live in a store, because event handlers keep referring to an object after its id is gone from
  the map or given to another session. A socket is a number (\<open>None\<close> is the stub without a connection); which sockets are open and which throw on \<^verbatim>\<open>send\<close> is
  part of the state, and everything the broker sends, closes, emits or settles is appended to a log. Validation of
  messages (Zod schemas) is a parameter; the field \<^verbatim>\<open>cleanupTimeout\<close>, never set by the code, and the two sequence ids, never read, are left out.
\<close>

section \<open>Data\<close>

datatype tunnel_channel = Shell | Logs | Diag | Control | Files | Update

fun channel_name :: "tunnel_channel \<Rightarrow> string" where
  "channel_name Shell = ''shell''"
| "channel_name Logs = ''logs''"
| "channel_name Diag = ''diag''"
| "channel_name Control = ''control''"
| "channel_name Files = ''files''"
| "channel_name Update = ''update''"

datatype session_state = Starting | Active | Closing | Shut | Errored

record channel_limits =
  cl_messagesPerSecond :: nat
  cl_bytesPerSecond :: int
  cl_maxSessionsPerSensor :: nat

record channel_session =
  ch_sessionId :: string
  ch_channel :: tunnel_channel
  ch_clientWs :: "nat option"
  ch_sensorWs :: "nat option"
  ch_sensorId :: string
  ch_tenantId :: string
  ch_userId :: string
  ch_state :: session_state
  ch_createdAt :: int
  ch_lastActivityAt :: int
  ch_messagesSent :: nat
  ch_messagesReceived :: nat
  ch_bytesTransferred :: nat
  ch_messageTimestamps :: "int list"
  ch_bytesInWindow :: int
  ch_windowStart :: int

datatype user_type = Type_shell | Type_dashboard | Type_logs

fun type_name :: "user_type \<Rightarrow> string" where
  "type_name Type_shell = ''shell''"
| "type_name Type_dashboard = ''dashboard''"
| "type_name Type_logs = ''logs''"

record sensor_tunnel =
  tu_sensorId :: string
  tu_tenantId :: string
  tu_socket :: nat
  tu_capabilities :: "string list"
  tu_connectedAt :: int
  tu_lastHeartbeat :: int

text \<open>\<open>us_object\<close> identifies the object, as a session of the same id may be started again.\<close>

record user_session =
  us_sessionId :: string
  us_userId :: string
  us_tenantId :: string
  us_sensorId :: string
  us_type :: user_type
  us_socket :: nat
  us_createdAt :: int
  us_lastActivity :: int
  us_object :: nat

record pending_request =
  pq_sensorId :: string
  pq_claimed :: bool

record user_connection =
  uc_authenticated :: bool
  uc_timer :: bool
  uc_waiting :: bool

datatype tunnel_event =
  Session_created string string tunnel_channel
| Session_state_changed string session_state session_state
| Session_closed string string nat nat nat
| Message_routed string string bool
| Rate_limited string tunnel_channel string
| Validation_error string "string list"
| Tunnel_connected string
| Tunnel_disconnected string string
| Tunnel_message string json
| User_started string
| User_ended string string

text \<open>\<open>Handled\<close> is a call of a registered channel handler; \<open>Resolved\<close> and \<open>Rejected\<close> settle the promise of a request.\<close>

datatype tunnel_out =
  Wrote nat json
| Shut_ws nat int "string option"
| Pinged nat
| Emit tunnel_event
| Handled string nat json
| Resolved string json
| Rejected string string

record broker =
  tb_objects :: "(nat, channel_session) jsmap"
  tb_sessions :: "(string, nat) jsmap"
  tb_sensorSessions :: "(string, string list) jsmap"
  tb_handlers :: "string list"
  tb_tunnels :: "(string, sensor_tunnel) jsmap"
  tb_users :: "(string, user_session) jsmap"
  tb_pending :: "(string, pending_request) jsmap"
  tb_timers :: "string list"
  tb_connections :: "(nat, user_connection) jsmap"
  tb_next :: nat
  tb_nextUser :: nat
  tb_open :: "nat list"
  tb_throwing :: "nat list"
  tb_log :: "tunnel_out list"

record tunnel_env =
  te_sessionTimeoutMs :: int
  te_maxSessionsPerSensor :: nat
  te_rateLimits :: "tunnel_channel \<Rightarrow> channel_limits"
  te_permissionChecker :: bool
  te_validateTunnelMessage :: "json \<Rightarrow> string list + json"
  te_validateSessionMessage :: "json \<Rightarrow> string list + json"

record tunnel_options =
  to_sessionTimeoutMs :: "int option"
  to_maxSessionsPerSensor :: "nat option"
  to_rateLimits :: "tunnel_channel \<Rightarrow> channel_limits option"
  to_permissionChecker :: bool

fun default_limits :: "tunnel_channel \<Rightarrow> channel_limits" where
  "default_limits Shell = \<lparr> cl_messagesPerSecond = 100, cl_bytesPerSecond = 65536 * 10, cl_maxSessionsPerSensor = 3 \<rparr>"
| "default_limits Logs = \<lparr> cl_messagesPerSecond = 500, cl_bytesPerSecond = 1024 * 1024, cl_maxSessionsPerSensor = 5 \<rparr>"
| "default_limits Diag = \<lparr> cl_messagesPerSecond = 10, cl_bytesPerSecond = 512 * 1024, cl_maxSessionsPerSensor = 2 \<rparr>"
| "default_limits Control = \<lparr> cl_messagesPerSecond = 5, cl_bytesPerSecond = 64 * 1024, cl_maxSessionsPerSensor = 1 \<rparr>"
| "default_limits Files = \<lparr> cl_messagesPerSecond = 50, cl_bytesPerSecond = 1024 * 1024 * 5, cl_maxSessionsPerSensor = 2 \<rparr>"
| "default_limits Update = \<lparr> cl_messagesPerSecond = 10, cl_bytesPerSecond = 1024 * 1024 * 10, cl_maxSessionsPerSensor = 1 \<rparr>"

definition newTunnelEnv ::
  "tunnel_options \<Rightarrow> (json \<Rightarrow> string list + json) \<Rightarrow> (json \<Rightarrow> string list + json) \<Rightarrow> tunnel_env" where
  "newTunnelEnv options tunnel session =
     \<lparr> te_sessionTimeoutMs = (case to_sessionTimeoutMs options of None \<Rightarrow> 300000 | Some t \<Rightarrow> t),
       te_maxSessionsPerSensor = (case to_maxSessionsPerSensor options of None \<Rightarrow> 10 | Some n \<Rightarrow> n),
       te_rateLimits = (\<lambda>c. case to_rateLimits options c of None \<Rightarrow> default_limits c | Some l \<Rightarrow> l),
       te_permissionChecker = to_permissionChecker options, te_validateTunnelMessage = tunnel,
       te_validateSessionMessage = session \<rparr>"

definition newBroker :: broker where
  "newBroker = \<lparr> tb_objects = [], tb_sessions = [], tb_sensorSessions = [], tb_handlers = [], tb_tunnels = [], tb_users = [],
     tb_pending = [], tb_timers = [], tb_connections = [], tb_next = 0, tb_nextUser = 0, tb_open = [], tb_throwing = [], tb_log = [] \<rparr>"

section \<open>Sockets and events\<close>

definition tb_out :: "tunnel_out \<Rightarrow> broker \<Rightarrow> broker" where
  "tb_out x b = b\<lparr>tb_log := tb_log b @ [x]\<rparr>"

text \<open>\<^verbatim>\<open>ws.send\<close>; \<open>None\<close> when it throws.\<close>

definition ws_send :: "nat \<Rightarrow> json \<Rightarrow> broker \<Rightarrow> broker option" where
  "ws_send ws msg b = (if ws \<in> set (tb_throwing b) then None else Some (tb_out (Wrote ws msg) b))"

definition ws_close :: "nat \<Rightarrow> int \<Rightarrow> string option \<Rightarrow> broker \<Rightarrow> broker" where
  "ws_close ws code reason b = tb_out (Shut_ws ws code reason) (b\<lparr>tb_open := filter (\<lambda>x. x \<noteq> ws) (tb_open b)\<rparr>)"

definition close_if_open :: "nat \<Rightarrow> string option \<Rightarrow> broker \<Rightarrow> broker" where
  "close_if_open ws reason b = (if ws \<in> set (tb_open b) then ws_close ws 1000 reason b else b)"

definition json_length :: "json \<Rightarrow> nat" where
  "json_length v = utf16_length (JSON_stringify v)"

definition on_object :: "nat \<Rightarrow> (channel_session \<Rightarrow> channel_session) \<Rightarrow> broker \<Rightarrow> broker" where
  "on_object h f b = b\<lparr>tb_objects := AList.map_entry h f (tb_objects b)\<rparr>"

section \<open>Rate limit of a session\<close>

definition RATE_WINDOW_MS :: int where
  "RATE_WINDOW_MS = 1000"

definition checkAndUpdate :: "int \<Rightarrow> channel_limits \<Rightarrow> int \<Rightarrow> channel_session \<Rightarrow> channel_session \<times> string option" where
  "checkAndUpdate now limits messageSize session =
     (let session = (if RATE_WINDOW_MS \<le> now - ch_windowStart session
            then session\<lparr>ch_messageTimestamps := [], ch_bytesInWindow := 0, ch_windowStart := now\<rparr> else session)
      in if cl_messagesPerSecond limits \<le> length (ch_messageTimestamps session)
         then (session, Some (''Rate limit exceeded: '' @ show_nat (cl_messagesPerSecond limits) @ '' messages/second''))
         else if cl_bytesPerSecond limits < ch_bytesInWindow session + messageSize
         then (session, Some (''Bandwidth limit exceeded: '' @ show_int (cl_bytesPerSecond limits) @ '' bytes/second''))
         else (session\<lparr>ch_messageTimestamps := ch_messageTimestamps session @ [now],
                 ch_bytesInWindow := ch_bytesInWindow session + messageSize\<rparr>, None))"

section \<open>Sessions\<close>

definition updateSessionState :: "nat \<Rightarrow> session_state \<Rightarrow> broker \<Rightarrow> broker" where
  "updateSessionState h newState b =
     (case jm_get (tb_objects b) h of
        None \<Rightarrow> b
      | Some session \<Rightarrow> tb_out (Emit (Session_state_changed (ch_sessionId session) (ch_state session) newState))
          (on_object h (\<lambda>s. s\<lparr>ch_state := newState\<rparr>) b))"

definition tunnel_sendToClient :: "nat \<Rightarrow> json \<Rightarrow> broker \<Rightarrow> broker \<times> bool" where
  "tunnel_sendToClient h msg b =
     (case jm_get (tb_objects b) h of
        None \<Rightarrow> (b, False)
      | Some session \<Rightarrow>
          (case ch_clientWs session of
             None \<Rightarrow> (b, False)
           | Some ws \<Rightarrow>
               if ws \<notin> set (tb_open b) then (b, False)
               else case ws_send ws msg b of
                      None \<Rightarrow> (b, False)
                    | Some b' \<Rightarrow> (on_object h (\<lambda>s. s\<lparr>ch_messagesReceived := Suc (ch_messagesReceived s),
                        ch_bytesTransferred := ch_bytesTransferred s + json_length msg\<rparr>) b', True)))"

definition channel_count :: "broker \<Rightarrow> string list \<Rightarrow> tunnel_channel \<Rightarrow> nat" where
  "channel_count b ids channel = length (filter (\<lambda>i. case Option.bind (jm_get (tb_sessions b) i) (jm_get (tb_objects b)) of
     None \<Rightarrow> False | Some session \<Rightarrow> ch_channel session = channel) ids)"

definition createSession ::
  "tunnel_env \<Rightarrow> int \<Rightarrow> string \<Rightarrow> tunnel_channel \<Rightarrow> nat \<Rightarrow> string \<Rightarrow> string \<Rightarrow> string \<Rightarrow> broker \<Rightarrow> broker \<times> string option" where
  "createSession env now sensorId channel clientWs tenantId userId sessionId b =
     (let sensorSessionIds = jm_get (tb_sensorSessions b) sensorId;
          refused = (case sensorSessionIds of
            None \<Rightarrow> False
          | Some ids \<Rightarrow> cl_maxSessionsPerSensor (te_rateLimits env channel) \<le> channel_count b ids channel \<or>
              te_maxSessionsPerSensor env \<le> length ids)
      in if refused then (b, None)
         else
           let session = \<lparr> ch_sessionId = sessionId, ch_channel = channel, ch_clientWs = Some clientWs, ch_sensorWs = None,
                 ch_sensorId = sensorId, ch_tenantId = tenantId, ch_userId = userId, ch_state = Starting, ch_createdAt = now,
                 ch_lastActivityAt = now, ch_messagesSent = 0, ch_messagesReceived = 0, ch_bytesTransferred = 0,
                 ch_messageTimestamps = [], ch_bytesInWindow = 0, ch_windowStart = now \<rparr>;
               h = tb_next b;
               ids = (case sensorSessionIds of None \<Rightarrow> [] | Some ids \<Rightarrow> ids)
           in (tb_out (Emit (Session_created sessionId sensorId channel))
                 (b\<lparr>tb_objects := jm_set h session (tb_objects b), tb_next := Suc h,
                    tb_sessions := jm_set sessionId h (tb_sessions b),
                    tb_sensorSessions := jm_set sensorId (if sessionId \<in> set ids then ids else ids @ [sessionId]) (tb_sensorSessions b)\<rparr>),
               Some sessionId))"


text \<open>The close notification; \<^verbatim>\<open>JSON.stringify\<close> leaves out an undefined reason.\<close>

definition session_closed_message :: "channel_session \<Rightarrow> string option \<Rightarrow> int \<Rightarrow> json" where
  "session_closed_message session reason now = JObj ([(''type'', JStr ''session-closed''), (''channel'', JStr (channel_name (ch_channel session))),
     (''sessionId'', JStr (ch_sessionId session)),
     (''status'', JStr (if (case reason of None \<Rightarrow> False | Some r \<Rightarrow> str_includes r ''error'') then ''error'' else ''normal''))] @
     (case reason of None \<Rightarrow> [] | Some r \<Rightarrow> [(''reason'', JStr r)]) @ [(''timestamp'', JNum (of_int now))])"

definition untrack :: "string \<Rightarrow> string \<Rightarrow> broker \<Rightarrow> broker" where
  "untrack sessionId sensorId b =
     (let b1 = b\<lparr>tb_sessions := jm_delete sessionId (tb_sessions b)\<rparr> in
      case jm_get (tb_sensorSessions b1) sensorId of
        None \<Rightarrow> b1
      | Some ids \<Rightarrow>
          let rest = filter (\<lambda>i. i \<noteq> sessionId) ids in
          b1\<lparr>tb_sensorSessions := (if rest = [] then jm_delete sensorId (tb_sensorSessions b1)
               else jm_set sensorId rest (tb_sensorSessions b1))\<rparr>)"

definition closeSession :: "int \<Rightarrow> string \<Rightarrow> string option \<Rightarrow> broker \<Rightarrow> broker" where
  "closeSession now sessionId reason b =
     (case jm_get (tb_sessions b) sessionId of
        None \<Rightarrow> b
      | Some h \<Rightarrow>
          (case jm_get (tb_objects b) h of
             None \<Rightarrow> b
           | Some session \<Rightarrow>
               if ch_state session \<in> {Closing, Shut} then b
               else
                 let b1 = updateSessionState h Closing b;
                     b2 = fst (tunnel_sendToClient h (session_closed_message session reason now) b1);
                     b3 = (case ch_clientWs session of None \<Rightarrow> b2 | Some ws \<Rightarrow> close_if_open ws reason b2);
                     b4 = (case ch_sensorWs session of None \<Rightarrow> b3 | Some ws \<Rightarrow> close_if_open ws reason b3);
                     b5 = updateSessionState h Shut (untrack sessionId (ch_sensorId session) b4)
                 in (case jm_get (tb_objects b5) h of
                       None \<Rightarrow> b5
                     | Some final \<Rightarrow> tb_out (Emit (Session_closed sessionId (case reason of None \<Rightarrow> ''Unknown'' | Some r \<Rightarrow> r)
                         (ch_messagesSent final) (ch_messagesReceived final) (ch_bytesTransferred final))) b5)))"

definition tunnel_stop :: "int \<Rightarrow> broker \<Rightarrow> broker" where
  "tunnel_stop now b = fold (\<lambda>i. closeSession now i (Some ''Broker shutting down'')) (jm_keys (tb_sessions b)) b"

definition onChannelMessage :: "string \<Rightarrow> broker \<Rightarrow> broker" where
  "onChannelMessage channel b = b\<lparr>tb_handlers := (if channel \<in> set (tb_handlers b) then tb_handlers b else tb_handlers b @ [channel])\<rparr>"

definition stale :: "tunnel_env \<Rightarrow> int \<Rightarrow> channel_session \<Rightarrow> bool" where
  "stale env now session \<longleftrightarrow> ch_lastActivityAt session < now - te_sessionTimeoutMs env \<and> ch_state session = Active"

definition cleanupStaleSessions :: "tunnel_env \<Rightarrow> int \<Rightarrow> broker \<Rightarrow> broker" where
  "cleanupStaleSessions env now b =
     fold (\<lambda>i b. case Option.bind (jm_get (tb_sessions b) i) (jm_get (tb_objects b)) of
         None \<Rightarrow> b
       | Some session \<Rightarrow> if stale env now session then closeSession now i (Some ''Session timeout'') b else b)
       (jm_keys (tb_sessions b)) b"

section \<open>Messages of a channel session\<close>

text \<open>\<^verbatim>\<open>hasValidTunnelStructure\<close> of \<^verbatim>\<open>schemas/tunnel.ts\<close>.\<close>

definition is_string_field :: "string \<Rightarrow> json \<Rightarrow> bool" where
  "is_string_field k v = (case json_field k v of Some (JStr s) \<Rightarrow> True | _ \<Rightarrow> False)"

definition is_number_field :: "string \<Rightarrow> json \<Rightarrow> bool" where
  "is_number_field k v = (case json_field k v of Some (JNum n) \<Rightarrow> True | _ \<Rightarrow> False)"

definition session_types :: "string list" where
  "session_types = [''session-open'', ''session-opened'', ''session-close'', ''session-closed'', ''session-error'']"

definition hasValidTunnelStructure :: "json \<Rightarrow> bool" where
  "hasValidTunnelStructure v =
     (if \<not> is_object v then False
      else if (case json_field ''type'' v of Some (JStr t) \<Rightarrow> t \<in> set session_types | _ \<Rightarrow> False) then True
      else (case json_field ''channel'' v of
              Some (JStr c) \<Rightarrow> c \<in> set [''shell'', ''logs'', ''diag'', ''control'', ''files'']
            | _ \<Rightarrow> False) \<and>
           is_string_field ''type'' v \<and> is_string_field ''sessionId'' v \<and> is_number_field ''sequenceId'' v \<and> is_number_field ''timestamp'' v)"

text \<open>The outcome of the awaited handler is the argument \<open>ok\<close>.\<close>

definition routeMessage :: "int \<Rightarrow> bool \<Rightarrow> string \<Rightarrow> string \<Rightarrow> json \<Rightarrow> broker \<Rightarrow> broker" where
  "routeMessage now ok sessionId channel msg b =
     (case jm_get (tb_sessions b) sessionId of
        None \<Rightarrow> b
      | Some h \<Rightarrow>
          let b1 = on_object h (\<lambda>s. s\<lparr>ch_lastActivityAt := now, ch_messagesSent := Suc (ch_messagesSent s),
                ch_bytesTransferred := ch_bytesTransferred s + json_length msg\<rparr>) b
          in if channel \<notin> set (tb_handlers b1) then b1
             else
               let b2 = tb_out (Handled channel h msg) b1
               in if ok then tb_out (Emit (Message_routed sessionId channel True)) b2 else b2)"

fun getChannelCapabilities :: "tunnel_channel \<Rightarrow> string list" where
  "getChannelCapabilities Shell = [''pty'', ''resize'', ''env'']"
| "getChannelCapabilities Logs = [''subscribe'', ''filter'', ''backfill'']"
| "getChannelCapabilities Diag = [''health'', ''memory'', ''connections'', ''rules'', ''actors'', ''config'', ''metrics'', ''threads'', ''cache'']"
| "getChannelCapabilities Control = [''reload'', ''restart'', ''shutdown'', ''drain'', ''resume'']"
| "getChannelCapabilities Files = [''list'', ''read'', ''write'', ''stat'']"
| "getChannelCapabilities Update = []"

definition session_opened_message :: "channel_session \<Rightarrow> int \<Rightarrow> json" where
  "session_opened_message session now = JObj [(''type'', JStr ''session-opened''), (''channel'', JStr (channel_name (ch_channel session))),
     (''sessionId'', JStr (ch_sessionId session)), (''capabilities'', JArr (map JStr (getChannelCapabilities (ch_channel session)))),
     (''timestamp'', JNum (of_int now))]"

definition json_text :: "json option \<Rightarrow> string option" where
  "json_text v = (case v of Some (JStr s) \<Rightarrow> Some s | _ \<Rightarrow> None)"

definition handleSessionMessage :: "tunnel_env \<Rightarrow> int \<Rightarrow> nat \<Rightarrow> channel_session \<Rightarrow> json \<Rightarrow> broker \<Rightarrow> broker" where
  "handleSessionMessage env now h session data b =
     (case te_validateSessionMessage env data of
        Inl errors \<Rightarrow> tb_out (Emit (Validation_error (ch_sessionId session) errors)) b
      | Inr message \<Rightarrow>
          if json_field ''type'' message = Some (JStr ''session-close'')
          then closeSession now (ch_sessionId session)
                 (Some (case json_text (json_field ''reason'' message) of None \<Rightarrow> ''Client requested close'' | Some r \<Rightarrow> r)) b
          else if json_field ''type'' message = Some (JStr ''session-open'')
          then fst (tunnel_sendToClient h (session_opened_message session now) (updateSessionState h Active b))
          else b)"

definition handleClientMessage :: "tunnel_env \<Rightarrow> int \<Rightarrow> bool \<Rightarrow> nat \<Rightarrow> channel_session \<Rightarrow> json \<Rightarrow> broker \<Rightarrow> broker" where
  "handleClientMessage env now ok h session data b =
     (let b1 = on_object h (\<lambda>s. s\<lparr>ch_lastActivityAt := now\<rparr>) b in
      if json_field ''type'' data \<in> {Some (JStr ''session-close''), Some (JStr ''session-open'')}
      then handleSessionMessage env now h session data b1
      else case te_validateTunnelMessage env data of
             Inl errors \<Rightarrow> tb_out (Emit (Validation_error (ch_sessionId session) errors)) b1
           | Inr message \<Rightarrow>
               if json_field ''channel'' message \<noteq> Some (JStr (channel_name (ch_channel session))) then b1
               else routeMessage now ok (ch_sessionId session) (channel_name (ch_channel session)) message b1)"

text \<open>The client's \<^verbatim>\<open>message\<close> event; what is thrown on the way is logged and dropped.\<close>

definition rate_limited_message :: "channel_session \<Rightarrow> string \<Rightarrow> int \<Rightarrow> json" where
  "rate_limited_message session reason now = JObj [(''type'', JStr ''session-error''), (''sessionId'', JStr (ch_sessionId session)),
     (''channel'', JStr (channel_name (ch_channel session))), (''code'', JStr ''RATE_LIMITED''), (''message'', JStr reason),
     (''timestamp'', JNum (of_int now))]"

definition onClientMessage :: "tunnel_env \<Rightarrow> int \<Rightarrow> bool \<Rightarrow> nat \<Rightarrow> string \<Rightarrow> broker \<Rightarrow> broker" where
  "onClientMessage env now ok h raw b =
     (case jm_get (tb_objects b) h of
        None \<Rightarrow> b
      | Some session \<Rightarrow>
          (case checkAndUpdate now (te_rateLimits env (ch_channel session)) (int (length raw)) session of
             (session', Some reason) \<Rightarrow>
               fst (tunnel_sendToClient h (rate_limited_message session reason now)
                 (tb_out (Emit (Rate_limited (ch_sessionId session) (ch_channel session) reason)) (on_object h (\<lambda>_. session') b)))
           | (session', None) \<Rightarrow>
               let b1 = on_object h (\<lambda>_. session') b in
               (case JSON_parse raw of
                  None \<Rightarrow> b1
                | Some parsed \<Rightarrow>
                    if \<not> hasValidTunnelStructure parsed then b1
                    else handleClientMessage env now ok h session' parsed b1)))"

definition onClientClose :: "int \<Rightarrow> nat \<Rightarrow> bool \<Rightarrow> broker \<Rightarrow> broker" where
  "onClientClose now h failed b =
     (case jm_get (tb_objects b) h of
        None \<Rightarrow> b
      | Some session \<Rightarrow> closeSession now (ch_sessionId session) (Some (if failed then ''Client error'' else ''Client disconnected'')) b)"

section \<open>The sensor side of a channel session\<close>

definition registerSensorConnection :: "string \<Rightarrow> nat \<Rightarrow> broker \<Rightarrow> broker" where
  "registerSensorConnection sessionId sensorWs b =
     (case jm_get (tb_sessions b) sessionId of
        None \<Rightarrow> b
      | Some h \<Rightarrow> updateSessionState h Active (on_object h (\<lambda>s. s\<lparr>ch_sensorWs := Some sensorWs\<rparr>) b))"

definition onSensorSocketMessage :: "tunnel_env \<Rightarrow> int \<Rightarrow> string \<Rightarrow> nat \<Rightarrow> string \<Rightarrow> broker \<Rightarrow> broker" where
  "onSensorSocketMessage env now sessionId h raw b =
     (case JSON_parse raw of
        None \<Rightarrow> b
      | Some parsed \<Rightarrow>
          (case te_validateTunnelMessage env parsed of
             Inl errors \<Rightarrow> b
           | Inr message \<Rightarrow>
               let b1 = on_object h (\<lambda>s. s\<lparr>ch_messagesReceived := Suc (ch_messagesReceived s),
                     ch_bytesTransferred := ch_bytesTransferred s + utf16_length raw, ch_lastActivityAt := now\<rparr>) b;
                   b2 = fst (tunnel_sendToClient h message b1)
               in tb_out (Emit (Message_routed sessionId (case json_text (json_field ''channel'' message) of None \<Rightarrow> [] | Some c \<Rightarrow> c) False)) b2))"

definition onSensorSocketClose :: "int \<Rightarrow> string \<Rightarrow> bool \<Rightarrow> broker \<Rightarrow> broker" where
  "onSensorSocketClose now sessionId failed b =
     closeSession now sessionId (Some (if failed then ''Sensor error'' else ''Sensor disconnected'')) b"

section \<open>Queries\<close>

definition tunnel_getSession :: "string \<Rightarrow> broker \<Rightarrow> channel_session option" where
  "tunnel_getSession sessionId b = Option.bind (jm_get (tb_sessions b) sessionId) (jm_get (tb_objects b))"

definition getSensorSessions :: "string \<Rightarrow> broker \<Rightarrow> channel_session list" where
  "getSensorSessions sensorId b =
     (case jm_get (tb_sensorSessions b) sensorId of
        None \<Rightarrow> []
      | Some ids \<Rightarrow> List.map_filter (\<lambda>i. tunnel_getSession i b) ids)"

definition getSessionCount :: "broker \<Rightarrow> nat" where
  "getSessionCount b = length (tb_sessions b) + length (tb_users b)"

definition getSessionsByChannel :: "broker \<Rightarrow> tunnel_channel \<Rightarrow> nat" where
  "getSessionsByChannel b channel =
     length (filter (\<lambda>(i, h). map_option ch_channel (jm_get (tb_objects b) h) = Some channel) (tb_sessions b)) +
     (if channel = Shell then length (filter (\<lambda>(i, u). us_type u = Type_shell) (tb_users b)) else 0)"

end
