(* ===== verification/Tunnel_Legacy.thy ===== *)
theory Tunnel_Legacy
  imports Tunnel_Broker
begin

text \<open>
  The legacy protocol of the tunnel broker (\<^verbatim>\<open>api/src/websocket/tunnel-broker.ts\<close>): one tunnel per sensor, user
  sessions on top of it, direct requests to sensors, first-message authentication of users, heartbeats and
  shutdown. \<^verbatim>\<open>handleUserMessage\<close> and \<^verbatim>\<open>handleUserConnection\<close> are split at their awaits. Ids of sessions and requests
  are arguments.
\<close>

section \<open>Messages\<close>

text \<open>\<^verbatim>\<open>LegacyTunnelMessageSchema\<close> of \<^verbatim>\<open>schemas/tunnel.ts\<close>: the parsed object has the listed keys only.\<close>

definition short_text :: "json option \<Rightarrow> bool" where
  "short_text v = (case v of Some (JStr s) \<Rightarrow> utf16_length s \<le> 64 | _ \<Rightarrow> False)"

definition LegacyTunnelMessageSchema :: "json \<Rightarrow> json option" where
  "LegacyTunnelMessageSchema v =
     (case v of
        JObj ps \<Rightarrow>
          if short_text (json_field ''type'' v) \<and> short_text (json_field ''timestamp'' v) \<and>
             (json_field ''sessionId'' v = None \<or> short_text (json_field ''sessionId'' v)) \<and>
             (json_field ''requestId'' v = None \<or> short_text (json_field ''requestId'' v))
          then Some (JObj (List.map_filter (\<lambda>k. map_option (Pair k) (json_field k v))
                 [''type'', ''sessionId'', ''requestId'', ''payload'', ''timestamp'']))
          else None
      | _ \<Rightarrow> None)"

definition legacy_message :: "string \<Rightarrow> string \<Rightarrow> (string \<times> json) list \<Rightarrow> int \<Rightarrow> json" where
  "legacy_message type sessionId payload now = JObj [(''type'', JStr type), (''sessionId'', JStr sessionId), (''payload'', JObj payload),
     (''timestamp'', JStr (toISOString now))]"

section \<open>Sending to a sensor\<close>

definition send_if_open :: "nat \<Rightarrow> json \<Rightarrow> broker \<Rightarrow> broker \<times> bool" where
  "send_if_open ws msg b =
     (if ws \<notin> set (tb_open b) then (b, False)
      else case ws_send ws msg b of None \<Rightarrow> (b, False) | Some b' \<Rightarrow> (b', True))"

definition sendToSensor :: "string \<Rightarrow> json \<Rightarrow> broker \<Rightarrow> broker \<times> bool" where
  "sendToSensor sessionId msg b =
     (let channel_ws = Option.bind (jm_get (tb_sessions b) sessionId) (\<lambda>h.
            Option.bind (jm_get (tb_objects b) h) (\<lambda>session. map_option (Pair h) (ch_sensorWs session)))
      in case channel_ws of
           Some (h, ws) \<Rightarrow>
             (case send_if_open ws msg b of
                (b', True) \<Rightarrow> (on_object h (\<lambda>s. s\<lparr>ch_messagesSent := Suc (ch_messagesSent s),
                  ch_bytesTransferred := ch_bytesTransferred s + json_length msg\<rparr>) b', True)
              | (b', False) \<Rightarrow> (b', False))
         | None \<Rightarrow>
             (case jm_get (tb_users b) sessionId of
                Some u \<Rightarrow>
                  (case jm_get (tb_tunnels b) (us_sensorId u) of
                     None \<Rightarrow> (b, False)
                   | Some t \<Rightarrow> send_if_open (tu_socket t) msg b)
              | None \<Rightarrow>
                  (case jm_get (tb_tunnels b) sessionId of
                     None \<Rightarrow> (b, False)
                   | Some t \<Rightarrow> send_if_open (tu_socket t) msg b)))"

section \<open>User sessions\<close>

definition end_message :: "user_type \<Rightarrow> string \<Rightarrow> int \<Rightarrow> json" where
  "end_message type sessionId now =
     (case type of
        Type_shell \<Rightarrow> legacy_message ''shell-data'' sessionId [(''action'', JStr ''end'')] now
      | Type_dashboard \<Rightarrow> legacy_message ''dashboard-request'' sessionId [(''action'', JStr ''end'')] now
      | Type_logs \<Rightarrow> JObj [(''type'', JStr ''unsubscribe''), (''channel'', JStr ''logs''), (''sessionId'', JStr sessionId),
          (''payload'', JObj [(''sources'', JArr [])]), (''timestamp'', JStr (toISOString now))])"

definition endUserSession :: "int \<Rightarrow> string \<Rightarrow> string \<Rightarrow> broker \<Rightarrow> broker" where
  "endUserSession now sessionId reason b =
     (case jm_get (tb_users b) sessionId of
        None \<Rightarrow> b
      | Some u \<Rightarrow>
          let b1 = fst (sendToSensor sessionId (end_message (us_type u) sessionId now) b);
              b2 = close_if_open (us_socket u) (Some reason) b1
          in tb_out (Emit (User_ended sessionId reason)) (b2\<lparr>tb_users := jm_delete sessionId (tb_users b2)\<rparr>))"

text \<open>\<^verbatim>\<open>startShellSessionWithId\<close>, \<^verbatim>\<open>startDashboardProxyWithId\<close> and \<^verbatim>\<open>startLogsSessionWithId\<close> differ in the type; a shell is started on the sensor.\<close>

definition startSessionWithId ::
  "int \<Rightarrow> user_type \<Rightarrow> nat \<Rightarrow> string \<Rightarrow> string \<Rightarrow> string \<Rightarrow> string \<Rightarrow> broker \<Rightarrow> broker \<times> string option" where
  "startSessionWithId now type ws userId tenantId sensorId sessionId b =
     (case jm_get (tb_tunnels b) sensorId of
        None \<Rightarrow> (b, None)
      | Some t \<Rightarrow>
          if type_name type \<notin> set (tu_capabilities t) then (b, None)
          else if tu_tenantId t \<noteq> tenantId then (b, None)
          else if jm_get (tb_users b) sessionId \<noteq> None then (b, None)
          else
            let session = \<lparr> us_sessionId = sessionId, us_userId = userId, us_tenantId = tenantId, us_sensorId = sensorId, us_type = type,
                  us_socket = ws, us_createdAt = now, us_lastActivity = now, us_object = tb_nextUser b \<rparr>;
                b1 = b\<lparr>tb_users := jm_set sessionId session (tb_users b), tb_nextUser := Suc (tb_nextUser b)\<rparr>;
                b2 = (if type = Type_shell
                  then fst (sendToSensor sessionId (legacy_message ''shell-data'' sessionId [(''action'', JStr ''start'')] now) b1) else b1)
            in (tb_out (Emit (User_started sessionId)) b2, Some sessionId))"

text \<open>Until the permission check: the session object, if there is one.\<close>

definition handleUserMessage_begin :: "string \<Rightarrow> broker \<Rightarrow> user_session option" where
  "handleUserMessage_begin sessionId b = jm_get (tb_users b) sessionId"

text \<open>The rest, with the answer of the permission checker: \<open>None\<close> when it failed.\<close>

definition touch_user :: "int \<Rightarrow> user_session \<Rightarrow> broker \<Rightarrow> broker" where
  "touch_user now session b = b\<lparr>tb_users := AList.map_entry (us_sessionId session)
     (\<lambda>u. if us_object u = us_object session then u\<lparr>us_lastActivity := now\<rparr> else u) (tb_users b)\<rparr>"

fun set_session_id :: "string \<Rightarrow> json \<Rightarrow> json" where
  "set_session_id sessionId (JObj ps) = JObj (jm_set ''sessionId'' (JStr sessionId) ps)"
| "set_session_id sessionId v = v"

definition handleUserMessage_end :: "tunnel_env \<Rightarrow> int \<Rightarrow> bool option \<Rightarrow> user_session \<Rightarrow> string \<Rightarrow> broker \<Rightarrow> broker" where
  "handleUserMessage_end env now allowed session raw b =
     (if te_permissionChecker env \<and> allowed = None then endUserSession now (us_sessionId session) ''Authorization error'' b
      else if te_permissionChecker env \<and> allowed = Some False then endUserSession now (us_sessionId session) ''Permission revoked'' b
      else
        let b1 = touch_user now session b in
        case Option.bind (JSON_parse raw) LegacyTunnelMessageSchema of
          None \<Rightarrow> b1
        | Some message \<Rightarrow> fst (sendToSensor (us_sessionId session) (set_session_id (us_sessionId session) message) b1))"

section \<open>Sensor tunnels\<close>

text \<open>The requests pending at a sensor are rejected when it disconnects.\<close>

definition reject_pending :: "string \<Rightarrow> string \<Rightarrow> broker \<Rightarrow> broker" where
  "reject_pending sensorId reason b =
     fold (\<lambda>(requestId, p) b. if pq_sensorId p = sensorId
         then tb_out (Rejected requestId (''Sensor disconnected: '' @ reason))
           (b\<lparr>tb_timers := filter (\<lambda>i. i \<noteq> requestId) (tb_timers b), tb_pending := jm_delete requestId (tb_pending b)\<rparr>)
         else b) (tb_pending b) b"

definition handleSensorDisconnect :: "int \<Rightarrow> string \<Rightarrow> string \<Rightarrow> broker \<Rightarrow> broker" where
  "handleSensorDisconnect now sensorId reason b =
     (case jm_get (tb_tunnels b) sensorId of
        None \<Rightarrow> b
      | Some t \<Rightarrow>
          let b1 = fold (\<lambda>u b. if us_sensorId u = sensorId then endUserSession now (us_sessionId u) (''Sensor disconnected: '' @ reason) b else b)
                (jm_values (tb_users b)) b;
              b2 = reject_pending sensorId reason b1;
              b3 = close_if_open (tu_socket t) (Some reason) b2
          in tb_out (Emit (Tunnel_disconnected sensorId (tu_tenantId t))) (b3\<lparr>tb_tunnels := jm_delete sensorId (tb_tunnels b3)\<rparr>))"

definition handleSensorConnect :: "int \<Rightarrow> nat \<Rightarrow> string \<Rightarrow> string \<Rightarrow> string list \<Rightarrow> broker \<Rightarrow> broker" where
  "handleSensorConnect now ws sensorId tenantId capabilities b =
     (let connect = (\<lambda>b. tb_out (Emit (Tunnel_connected sensorId))
            (b\<lparr>tb_tunnels := jm_set sensorId \<lparr> tu_sensorId = sensorId, tu_tenantId = tenantId, tu_socket = ws,
               tu_capabilities = capabilities, tu_connectedAt = now, tu_lastHeartbeat = now \<rparr> (tb_tunnels b)\<rparr>))
      in case jm_get (tb_tunnels b) sensorId of
           None \<Rightarrow> connect b
         | Some t \<Rightarrow>
             if tu_socket t \<in> set (tb_open b) then ws_close ws 4009 (Some ''Sensor already connected'') b
             else connect (handleSensorDisconnect now sensorId ''reconnection'' b))"

definition onTunnelClose :: "int \<Rightarrow> nat \<Rightarrow> string \<Rightarrow> broker \<Rightarrow> broker" where
  "onTunnelClose now ws sensorId b =
     (case jm_get (tb_tunnels b) sensorId of
        None \<Rightarrow> b
      | Some t \<Rightarrow> if tu_socket t = ws then handleSensorDisconnect now sensorId ''socket closed'' b else b)"

definition cleanupSensor :: "int \<Rightarrow> string \<Rightarrow> broker \<Rightarrow> broker" where
  "cleanupSensor now sensorId b =
     (let b1 = (case jm_get (tb_sensorSessions b) sensorId of
            None \<Rightarrow> b
          | Some ids \<Rightarrow> let b' = fold (\<lambda>i. closeSession now i (Some ''Sensor cleanup'')) ids b
                        in b'\<lparr>tb_sensorSessions := jm_delete sensorId (tb_sensorSessions b')\<rparr>)
      in handleSensorDisconnect now sensorId ''Sensor cleanup'' b1)"

definition handleHeartbeat :: "int \<Rightarrow> string \<Rightarrow> broker \<Rightarrow> broker" where
  "handleHeartbeat now sensorId b = b\<lparr>tb_tunnels := AList.map_entry sensorId (\<lambda>t. t\<lparr>tu_lastHeartbeat := now\<rparr>) (tb_tunnels b)\<rparr>"

section \<open>Requests\<close>

definition request_message :: "string \<Rightarrow> string \<Rightarrow> json \<Rightarrow> int \<Rightarrow> json" where
  "request_message type requestId payload now = JObj [(''type'', JStr type), (''requestId'', JStr requestId), (''payload'', payload),
     (''timestamp'', JStr (toISOString now))]"

text \<open>
  \<open>None\<close>: the promise is rejected at once, before there is a request. The text of an error that \<^verbatim>\<open>send\<close> throws is not
  represented.
\<close>

definition sendRequest :: "int \<Rightarrow> string \<Rightarrow> string \<Rightarrow> string \<Rightarrow> json \<Rightarrow> broker \<Rightarrow> broker option" where
  "sendRequest now requestId sensorId type payload b =
     (case jm_get (tb_tunnels b) sensorId of
        None \<Rightarrow> None
      | Some t \<Rightarrow>
          if tu_socket t \<notin> set (tb_open b) then None
          else
            let b1 = b\<lparr>tb_timers := tb_timers b @ [requestId],
                  tb_pending := jm_set requestId \<lparr> pq_sensorId = sensorId, pq_claimed = False \<rparr> (tb_pending b)\<rparr>
            in case ws_send (tu_socket t) (request_message type requestId payload now) b1 of
                 Some b2 \<Rightarrow> Some b2
               | None \<Rightarrow> Some (tb_out (Rejected requestId ''Failed to send request'')
                   (b1\<lparr>tb_timers := filter (\<lambda>i. i \<noteq> requestId) (tb_timers b1), tb_pending := jm_delete requestId (tb_pending b1)\<rparr>)))"

definition onRequestTimeout :: "string \<Rightarrow> broker \<Rightarrow> broker" where
  "onRequestTimeout requestId b =
     (if requestId \<notin> set (tb_timers b) then b
      else
        let b1 = b\<lparr>tb_timers := remove1 requestId (tb_timers b)\<rparr> in
        case jm_get (tb_pending b1) requestId of
          None \<Rightarrow> b1
        | Some p \<Rightarrow> if pq_claimed p then b1
            else tb_out (Rejected requestId ''Request timeout'') (b1\<lparr>tb_pending := jm_delete requestId (tb_pending b1)\<rparr>))"

definition correlation_id :: "json \<Rightarrow> string option" where
  "correlation_id message = (let r = json_text (json_field ''requestId'' message) in
     if str_truthy r then r else json_text (json_field ''sessionId'' message))"

definition response_value :: "string \<Rightarrow> json \<Rightarrow> json" where
  "response_value i message = JObj (List.map_filter (\<lambda>k. map_option (Pair k) (json_field k message)) [''type'', ''payload''] @
     [(''requestId'', JStr i)])"

definition handleSensorResponse :: "string \<Rightarrow> json \<Rightarrow> broker \<Rightarrow> broker \<times> bool" where
  "handleSensorResponse sensorId message b =
     (if \<not> str_truthy (correlation_id message) then (b, False)
      else
        let i = the (correlation_id message) in
        case jm_get (tb_pending b) i of
          None \<Rightarrow> (b, False)
        | Some p \<Rightarrow>
            if pq_sensorId p \<noteq> sensorId \<or> pq_claimed p then (b, False)
            else (tb_out (Resolved i (response_value i message))
              (b\<lparr>tb_timers := filter (\<lambda>j. j \<noteq> i) (tb_timers b), tb_pending := jm_delete i (tb_pending b)\<rparr>), True))"


section \<open>Messages from sensors\<close>

definition routeToUser :: "int \<Rightarrow> string \<Rightarrow> json \<Rightarrow> broker \<Rightarrow> broker" where
  "routeToUser now sensorId message b =
     (let sessionId = json_text (json_field ''sessionId'' message) in
      if \<not> str_truthy sessionId then b
      else case jm_get (tb_users b) (the sessionId) of
             None \<Rightarrow> b
           | Some u \<Rightarrow>
               if us_sensorId u \<noteq> sensorId then b
               else fst (send_if_open (us_socket u) message (touch_user now u b)))"

definition routed_types :: "string list" where
  "routed_types = [''shell-data'', ''shell-ready'', ''shell-exit'', ''shell-error'', ''entry'', ''log-batch'', ''backfill-complete'', ''dashboard-response'']"

text \<open>
  A channel message on the legacy tunnel is given to the channel's handler with a session object of its own
  (\<open>system_session\<close>), whose client socket is closed.
\<close>

definition system_session :: "int \<Rightarrow> string \<Rightarrow> json \<Rightarrow> broker \<Rightarrow> channel_session option" where
  "system_session now sensorId message b =
     (case find (\<lambda>c. json_field ''channel'' message = Some (JStr (channel_name c))) [Shell, Logs, Diag, Control, Files, Update] of
        None \<Rightarrow> None
      | Some c \<Rightarrow> Some \<lparr> ch_sessionId = (case json_text (json_field ''sessionId'' message) of None \<Rightarrow> [] | Some s \<Rightarrow> s), ch_channel = c,
          ch_clientWs = None, ch_sensorWs = None, ch_sensorId = sensorId,
          ch_tenantId = (case jm_get (tb_tunnels b) sensorId of None \<Rightarrow> ''unknown'' | Some t \<Rightarrow> tu_tenantId t), ch_userId = ''system'',
          ch_state = Active, ch_createdAt = now, ch_lastActivityAt = now, ch_messagesSent = 0, ch_messagesReceived = 0,
          ch_bytesTransferred = 0, ch_messageTimestamps = [], ch_bytesInWindow = 0, ch_windowStart = now \<rparr>)"

definition channel_branch :: "tunnel_env \<Rightarrow> int \<Rightarrow> string \<Rightarrow> string \<Rightarrow> json \<Rightarrow> broker \<Rightarrow> broker" where
  "channel_branch env now sensorId channel message b =
     (case te_validateTunnelMessage env message of
        Inl errors \<Rightarrow> b
      | Inr valid \<Rightarrow>
          let h = tb_next b;
              b1 = (case system_session now sensorId valid b of
                None \<Rightarrow> b | Some s \<Rightarrow> b\<lparr>tb_objects := jm_set h s (tb_objects b), tb_next := Suc h\<rparr>)
          in tb_out (Emit (Message_routed (case json_text (json_field ''sessionId'' valid) of None \<Rightarrow> [] | Some s \<Rightarrow> s)
                (case json_text (json_field ''channel'' valid) of None \<Rightarrow> [] | Some c \<Rightarrow> c) False))
             (tb_out (Handled channel h valid) b1))"

definition sensor_message :: "int \<Rightarrow> string \<Rightarrow> json \<Rightarrow> broker \<Rightarrow> broker" where
  "sensor_message now sensorId message b =
     (case handleSensorResponse sensorId message b of
        (b1, True) \<Rightarrow> b1
      | (b1, False) \<Rightarrow>
          let b2 = tb_out (Emit (Tunnel_message sensorId message)) b1;
              type = (case json_text (json_field ''type'' message) of None \<Rightarrow> [] | Some t \<Rightarrow> t)
          in if type = ''heartbeat'' then handleHeartbeat now sensorId b2
             else if type \<in> set routed_types then routeToUser now sensorId message b2
             else if type = ''error''
             then (if str_truthy (json_text (json_field ''sessionId'' message))
                   then endUserSession now (the (json_text (json_field ''sessionId'' message))) ''Sensor error'' b2 else b2)
             else b2)"

definition handleLegacySensorMessage :: "tunnel_env \<Rightarrow> int \<Rightarrow> string \<Rightarrow> string \<Rightarrow> broker \<Rightarrow> broker" where
  "handleLegacySensorMessage env now sensorId raw b =
     (case Option.bind (JSON_parse raw) LegacyTunnelMessageSchema of
        None \<Rightarrow> b
      | Some message \<Rightarrow>
          (case json_field ''channel'' message of
             Some (JStr channel) \<Rightarrow>
               if channel \<in> set (tb_handlers b) then channel_branch env now sensorId channel message b
               else sensor_message now sensorId message b
           | _ \<Rightarrow> sensor_message now sensorId message b))"

section \<open>Authentication by the first message\<close>

definition handleUserConnection :: "nat \<Rightarrow> broker \<Rightarrow> broker" where
  "handleUserConnection ws b = b\<lparr>tb_connections := jm_set ws \<lparr> uc_authenticated = False, uc_timer = True, uc_waiting = True \<rparr> (tb_connections b)\<rparr>"

definition on_connection :: "nat \<Rightarrow> (user_connection \<Rightarrow> user_connection) \<Rightarrow> broker \<Rightarrow> broker" where
  "on_connection ws f b = b\<lparr>tb_connections := AList.map_entry ws f (tb_connections b)\<rparr>"

definition onAuthTimeout :: "nat \<Rightarrow> broker \<Rightarrow> broker" where
  "onAuthTimeout ws b =
     (case jm_get (tb_connections b) ws of
        None \<Rightarrow> b
      | Some c \<Rightarrow>
          if \<not> uc_timer c then b
          else
            let b1 = on_connection ws (\<lambda>c. c\<lparr>uc_timer := False\<rparr>) b in
            if uc_authenticated c then b1 else ws_close ws 4001 (Some ''Authentication timeout'') b1)"

text \<open>The first message; the result is the session id to look up, if it gets that far.\<close>

fun json_truthy :: "json option \<Rightarrow> bool" where
  "json_truthy None = False"
| "json_truthy (Some JNull) = False"
| "json_truthy (Some (JBool t)) = t"
| "json_truthy (Some (JNum n)) = (n \<noteq> 0)"
| "json_truthy (Some (JStr s)) = (s \<noteq> [])"
| "json_truthy (Some v) = True"

definition onFirstMessage :: "nat \<Rightarrow> string \<Rightarrow> broker \<Rightarrow> broker \<times> json option" where
  "onFirstMessage ws raw b =
     (case jm_get (tb_connections b) ws of
        None \<Rightarrow> (b, None)
      | Some c \<Rightarrow>
          if \<not> uc_waiting c then (b, None)
          else
            let b1 = on_connection ws (\<lambda>c. c\<lparr>uc_waiting := False\<rparr>) b;
                stop = on_connection ws (\<lambda>c. c\<lparr>uc_timer := False\<rparr>)
            in case JSON_parse raw of
                 None \<Rightarrow> (stop (ws_close ws 4002 (Some ''Invalid auth message'') b1), None)
               | Some JNull \<Rightarrow> (stop (ws_close ws 4000 (Some ''Auth error'') b1), None)
               | Some parsed \<Rightarrow>
                   let sessionId = json_field ''sessionId'' parsed in
                   if json_field ''type'' parsed \<noteq> Some (JStr ''auth'') \<or> \<not> json_truthy sessionId
                   then (stop (ws_close ws 4002 (Some ''Expected auth message'') b1), None)
                   else (b1, sessionId))"

record session_grant =
  sg_session :: string
  sg_sensor :: string
  sg_tenant :: string
  sg_user :: string
  sg_type :: user_type

text \<open>
  After the lookup, whose rejection is \<open>Inl ()\<close>. A send that throws ends in the \<^verbatim>\<open>catch\<close> branch.
\<close>

definition auth_error_message :: "string \<Rightarrow> json" where
  "auth_error_message err = JObj [(''type'', JStr ''auth-error''), (''error'', JStr err)]"

definition onSessionLookup :: "int \<Rightarrow> nat \<Rightarrow> unit + session_grant option \<Rightarrow> broker \<Rightarrow> broker" where
  "onSessionLookup now ws found b =
     (let stop = on_connection ws (\<lambda>c. c\<lparr>uc_timer := False\<rparr>);
          failed = (\<lambda>b. stop (ws_close ws 4000 (Some ''Auth error'') b))
      in case found of
           Inl _ \<Rightarrow> failed b
         | Inr None \<Rightarrow>
             (case ws_send ws (auth_error_message ''Session not found or expired'') b of
                None \<Rightarrow> failed b
              | Some b1 \<Rightarrow> stop (ws_close ws 4004 (Some ''Session not found'') b1))
         | Inr (Some g) \<Rightarrow>
             let b1 = on_connection ws (\<lambda>c. c\<lparr>uc_authenticated := True, uc_timer := False\<rparr>) b in
             (case ws_send ws (JObj [(''type'', JStr ''auth-success''), (''sessionId'', JStr (sg_session g))]) b1 of
                None \<Rightarrow> failed b1
              | Some b2 \<Rightarrow>
                  (case startSessionWithId now (sg_type g) ws (sg_user g) (sg_tenant g) (sg_sensor g) (sg_session g) b2 of
                     (b3, Some _) \<Rightarrow> b3
                   | (b3, None) \<Rightarrow>
                       (case ws_send ws (auth_error_message ''Sensor tunnel not connected'') b3 of
                          None \<Rightarrow> failed b3
                        | Some b4 \<Rightarrow> ws_close ws 4007 (Some ''Sensor tunnel not connected'') b4))))"

definition onConnectionClose :: "nat \<Rightarrow> broker \<Rightarrow> broker" where
  "onConnectionClose ws = on_connection ws (\<lambda>c. c\<lparr>uc_timer := False\<rparr>)"

section \<open>Heartbeats and shutdown\<close>

definition HEARTBEAT_TIMEOUT :: int where
  "HEARTBEAT_TIMEOUT = 60000"

definition IDLE_TIMEOUT :: int where
  "IDLE_TIMEOUT = 600000"

definition check_user :: "int \<Rightarrow> string \<Rightarrow> broker \<Rightarrow> broker" where
  "check_user now sessionId b =
     (case jm_get (tb_users b) sessionId of
        None \<Rightarrow> b
      | Some u \<Rightarrow>
          if IDLE_TIMEOUT < now - us_lastActivity u then endUserSession now sessionId ''Idle timeout'' b
          else if us_socket u \<in> set (tb_open b) then tb_out (Pinged (us_socket u)) b else b)"

definition heartbeatMonitor :: "int \<Rightarrow> broker \<Rightarrow> broker" where
  "heartbeatMonitor now b =
     (let b1 = fold (\<lambda>(sensorId, t) b. if HEARTBEAT_TIMEOUT < now - tu_lastHeartbeat t
            then handleSensorDisconnect now sensorId ''heartbeat timeout'' b else b) (tb_tunnels b) b
      in fold (check_user now) (jm_keys (tb_users b1)) b1)"

definition tunnel_shutdown :: "int \<Rightarrow> broker \<Rightarrow> broker" where
  "tunnel_shutdown now b =
     (let b1 = tunnel_stop now b;
          b2 = fold (\<lambda>i. endUserSession now i ''Server shutdown'') (jm_keys (tb_users b1)) b1
      in fold (\<lambda>i. handleSensorDisconnect now i ''Server shutdown'') (jm_keys (tb_tunnels b2)) b2)"

section \<open>Status\<close>

definition getActiveTunnels :: "string \<Rightarrow> broker \<Rightarrow> sensor_tunnel list" where
  "getActiveTunnels tenantId b = filter (\<lambda>t. tu_tenantId t = tenantId) (jm_values (tb_tunnels b))"

definition getActiveSessions :: "string \<Rightarrow> broker \<Rightarrow> user_session list" where
  "getActiveSessions tenantId b = filter (\<lambda>u. us_tenantId u = tenantId) (jm_values (tb_users b))"

definition getSensorTunnelInfo :: "string \<Rightarrow> broker \<Rightarrow> (bool \<times> int \<times> string list) option" where
  "getSensorTunnelInfo sensorId b =
     map_option (\<lambda>t. (tu_socket t \<in> set (tb_open b), tu_connectedAt t, tu_capabilities t)) (jm_get (tb_tunnels b) sensorId)"

text \<open>\<^verbatim>\<open>getStats\<close>: the numbers of tunnels and sessions, and both by tenant in the order the tenants appear.\<close>

definition bump_tunnels :: "string \<Rightarrow> (string, nat \<times> nat) jsmap \<Rightarrow> (string, nat \<times> nat) jsmap" where
  "bump_tunnels tenantId m = (case jm_get m tenantId of
     None \<Rightarrow> jm_set tenantId (1, 0) m | Some (t, s) \<Rightarrow> jm_set tenantId (Suc t, s) m)"

definition bump_sessions :: "bool \<Rightarrow> string \<Rightarrow> (string, nat \<times> nat) jsmap \<Rightarrow> (string, nat \<times> nat) jsmap" where
  "bump_sessions create tenantId m = (case jm_get m tenantId of
     None \<Rightarrow> if create then jm_set tenantId (0, 1) m else m | Some (t, s) \<Rightarrow> jm_set tenantId (t, Suc s) m)"

record tunnel_stats =
  ts_totalTunnels :: nat
  ts_activeSessions :: nat
  ts_byTenant :: "(string, nat \<times> nat) jsmap"
  ts_byType :: "user_type \<Rightarrow> nat"
  ts_byChannel :: "tunnel_channel \<Rightarrow> nat"

definition tunnel_getStats :: "broker \<Rightarrow> tunnel_stats" where
  "tunnel_getStats b =
     (let sessions = List.map_filter (\<lambda>(i, h). jm_get (tb_objects b) h) (tb_sessions b);
          users = jm_values (tb_users b)
      in \<lparr> ts_totalTunnels = length (tb_tunnels b), ts_activeSessions = getSessionCount b,
           ts_byTenant = fold (\<lambda>s. bump_sessions True (ch_tenantId s)) sessions
             (fold (\<lambda>u. bump_sessions False (us_tenantId u)) users (fold (\<lambda>t. bump_tunnels (tu_tenantId t)) (jm_values (tb_tunnels b)) [])),
           ts_byType = (\<lambda>ty. length (filter (\<lambda>u. us_type u = ty) users)),
           ts_byChannel = (\<lambda>c. length (filter (\<lambda>s. ch_channel s = c) sessions)) \<rparr>)"


section \<open>The broker as a state machine\<close>

text \<open>
  Calls and events, in any order. \<open>Op_socket\<close> is a change of the network: a socket opens, closes, or starts or stops
  throwing on \<^verbatim>\<open>send\<close>.
\<close>

datatype tunnel_op =
  Op_create int string tunnel_channel nat string string string
| Op_client_message int bool nat string
| Op_client_close int nat bool
| Op_register string nat
| Op_sensor_socket int string nat string
| Op_sensor_socket_close int string bool
| Op_close int string "string option"
| Op_stop int
| Op_handler string
| Op_stale int
| Op_route int bool string string json
| Op_send_sensor string json
| Op_connect int nat string string "string list"
| Op_tunnel_close int nat string
| Op_disconnect int string string
| Op_cleanup_sensor int string
| Op_sensor_message int string string
| Op_start int user_type nat string string string string
| Op_user_message int "bool option" user_session string
| Op_end_user int string string
| Op_request int string string string json
| Op_request_timeout string
| Op_user_connect nat
| Op_auth_timeout nat
| Op_first_message nat string
| Op_lookup int nat "unit + session_grant option"
| Op_connection_close nat
| Op_heartbeats int
| Op_shutdown int
| Op_socket "nat list" "nat list"

fun tunnel_step :: "tunnel_env \<Rightarrow> tunnel_op \<Rightarrow> broker \<Rightarrow> broker" where
  "tunnel_step env (Op_create now sensorId channel ws tenantId userId sessionId) b =
     fst (createSession env now sensorId channel ws tenantId userId sessionId b)"
| "tunnel_step env (Op_client_message now ok h raw) b = onClientMessage env now ok h raw b"
| "tunnel_step env (Op_client_close now h failed) b = onClientClose now h failed b"
| "tunnel_step env (Op_register sessionId ws) b = registerSensorConnection sessionId ws b"
| "tunnel_step env (Op_sensor_socket now sessionId h raw) b = onSensorSocketMessage env now sessionId h raw b"
| "tunnel_step env (Op_sensor_socket_close now sessionId failed) b = onSensorSocketClose now sessionId failed b"
| "tunnel_step env (Op_close now sessionId reason) b = closeSession now sessionId reason b"
| "tunnel_step env (Op_stop now) b = tunnel_stop now b"
| "tunnel_step env (Op_handler channel) b = onChannelMessage channel b"
| "tunnel_step env (Op_stale now) b = cleanupStaleSessions env now b"
| "tunnel_step env (Op_route now ok sessionId channel msg) b = routeMessage now ok sessionId channel msg b"
| "tunnel_step env (Op_send_sensor sessionId msg) b = fst (sendToSensor sessionId msg b)"
| "tunnel_step env (Op_connect now ws sensorId tenantId capabilities) b = handleSensorConnect now ws sensorId tenantId capabilities b"
| "tunnel_step env (Op_tunnel_close now ws sensorId) b = onTunnelClose now ws sensorId b"
| "tunnel_step env (Op_disconnect now sensorId reason) b = handleSensorDisconnect now sensorId reason b"
| "tunnel_step env (Op_cleanup_sensor now sensorId) b = cleanupSensor now sensorId b"
| "tunnel_step env (Op_sensor_message now sensorId raw) b = handleLegacySensorMessage env now sensorId raw b"
| "tunnel_step env (Op_start now type ws userId tenantId sensorId sessionId) b =
     fst (startSessionWithId now type ws userId tenantId sensorId sessionId b)"
| "tunnel_step env (Op_user_message now allowed session raw) b = handleUserMessage_end env now allowed session raw b"
| "tunnel_step env (Op_end_user now sessionId reason) b = endUserSession now sessionId reason b"
| "tunnel_step env (Op_request now requestId sensorId type payload) b =
     (case sendRequest now requestId sensorId type payload b of None \<Rightarrow> b | Some b' \<Rightarrow> b')"
| "tunnel_step env (Op_request_timeout requestId) b = onRequestTimeout requestId b"
| "tunnel_step env (Op_user_connect ws) b = handleUserConnection ws b"
| "tunnel_step env (Op_auth_timeout ws) b = onAuthTimeout ws b"
| "tunnel_step env (Op_first_message ws raw) b = fst (onFirstMessage ws raw b)"
| "tunnel_step env (Op_lookup now ws found) b = onSessionLookup now ws found b"
| "tunnel_step env (Op_connection_close ws) b = onConnectionClose ws b"
| "tunnel_step env (Op_heartbeats now) b = heartbeatMonitor now b"
| "tunnel_step env (Op_shutdown now) b = tunnel_shutdown now b"
| "tunnel_step env (Op_socket opened throwing) b = b\<lparr>tb_open := opened, tb_throwing := throwing\<rparr>"

definition tunnel_run :: "tunnel_env \<Rightarrow> tunnel_op list \<Rightarrow> broker" where
  "tunnel_run env ops = fold (tunnel_step env) ops newBroker"

end
