(* ===== verification/Tunnel_Properties.thy ===== *)
theory Tunnel_Properties
  imports Tunnel_Legacy
begin

text \<open>
  What the tunnel broker guarantees over every sequence of calls, messages, socket and timer events: user sessions
  stay within their tenant, requests are settled exactly once, and the session limits hold.
\<close>

section \<open>What the operations leave alone\<close>

text \<open>The number of times the promise of a request was settled.\<close>

fun settles :: "string \<Rightarrow> tunnel_out \<Rightarrow> bool" where
  "settles i (Resolved j m) = (j = i)"
| "settles i (Rejected j e) = (j = i)"
| "settles i x = False"

definition settled :: "string \<Rightarrow> broker \<Rightarrow> nat" where
  "settled i b = length (filter (settles i) (tb_log b))"

definition user_view :: "broker \<Rightarrow> (string, user_session) jsmap \<times> (string, sensor_tunnel) jsmap" where
  "user_view b = (tb_users b, tb_tunnels b)"

definition request_view :: "broker \<Rightarrow> (string, pending_request) jsmap \<times> string list \<times> (string \<Rightarrow> nat)" where
  "request_view b = (tb_pending b, tb_timers b, \<lambda>i. settled i b)"

definition session_core :: "channel_session \<Rightarrow> string \<times> string \<times> tunnel_channel \<times> bool" where
  "session_core s = (ch_sessionId s, ch_sensorId s, ch_channel s, ch_state s \<in> {Closing, Shut})"

definition cores :: "broker \<Rightarrow> nat \<Rightarrow> (string \<times> string \<times> tunnel_channel \<times> bool) option" where
  "cores b h = map_option session_core (jm_get (tb_objects b) h)"

definition session_view ::
  "broker \<Rightarrow> (string, nat) jsmap \<times> (string, string list) jsmap \<times> nat \<times> (nat \<Rightarrow> (string \<times> string \<times> tunnel_channel \<times> bool) option)" where
  "session_view b = (tb_sessions b, tb_sensorSessions b, tb_next b, cores b)"

lemmas view_defs = user_view_def request_view_def session_view_def settled_def

fun plain :: "tunnel_out \<Rightarrow> bool" where
  "plain (Resolved j m) = False"
| "plain (Rejected j e) = False"
| "plain x = True"

lemma plain_settles: "plain x \<Longrightarrow> \<not> settles i x"
  by (cases x) simp_all

lemma cores_log [simp]: "cores (b\<lparr>tb_log := l\<rparr>) = cores b" "cores (b\<lparr>tb_open := opn\<rparr>) = cores b"
    "cores (b\<lparr>tb_throwing := w\<rparr>) = cores b" "cores (b\<lparr>tb_users := us\<rparr>) = cores b"
    "cores (b\<lparr>tb_tunnels := ts\<rparr>) = cores b" "cores (b\<lparr>tb_pending := ps\<rparr>) = cores b" "cores (b\<lparr>tb_timers := tms\<rparr>) = cores b"
    "cores (b\<lparr>tb_connections := cs\<rparr>) = cores b" "cores (b\<lparr>tb_handlers := hs\<rparr>) = cores b" "cores (b\<lparr>tb_next := nx\<rparr>) = cores b" "cores (b\<lparr>tb_nextUser := nx\<rparr>) = cores b"
    "cores (b\<lparr>tb_sessions := ss\<rparr>) = cores b" "cores (b\<lparr>tb_sensorSessions := is\<rparr>) = cores b"
  by (simp_all add: cores_def fun_eq_iff)

lemma cores_object:
  assumes "\<And>s. session_core (f s) = session_core s"
  shows "cores (on_object h f b) = cores b"
  using assms by (auto simp: cores_def on_object_def map_of_map_entry fun_eq_iff split: option.split)

lemma fold_same: "(\<And>x b. x \<in> set xs \<Longrightarrow> v (f x b) = v b) \<Longrightarrow> v (fold f xs b) = v b"
  by (induction xs arbitrary: b) auto

text \<open>
  A view of the state that does not see the channel sessions, the sockets or the unauthenticated connections is
  kept by everything that concerns only them.
\<close>

locale channel_blind =
  fixes v :: "broker \<Rightarrow> 'v"
  assumes sees_no_output: "plain x \<Longrightarrow> v (b\<lparr>tb_log := tb_log b @ [x]\<rparr>) = v b"
    and blind [simp]: "v (b\<lparr>tb_objects := objs\<rparr>) = v b" "v (b\<lparr>tb_sessions := ss\<rparr>) = v b" "v (b\<lparr>tb_sensorSessions := ids\<rparr>) = v b"
      "v (b\<lparr>tb_next := n\<rparr>) = v b" "v (b\<lparr>tb_open := opn\<rparr>) = v b" "v (b\<lparr>tb_throwing := thr\<rparr>) = v b" "v (b\<lparr>tb_handlers := hs\<rparr>) = v b"
      "v (b\<lparr>tb_connections := cs\<rparr>) = v b"
begin

lemma v_out [simp]: "plain x \<Longrightarrow> v (tb_out x b) = v b"
  by (simp add: tb_out_def sees_no_output)

lemma v_primitives [simp]:
  "v (on_object h f b) = v b" "v (ws_close ws c r b) = v b" "v (close_if_open ws r b) = v b" "v (on_connection ws g b) = v b"
  by (simp_all add: on_object_def ws_close_def close_if_open_def on_connection_def)

lemma v_send: "ws_send ws m b = Some b' \<Longrightarrow> v b' = v b"
  by (auto simp: ws_send_def split: if_splits)

lemma v_sends [simp]: "v (fst (send_if_open ws m b)) = v b" "v (fst (tunnel_sendToClient h m b)) = v b"
  using v_send [of _ m b] by (auto simp: send_if_open_def tunnel_sendToClient_def split: option.splits)

lemma v_sendToSensor [simp]: "v (fst (sendToSensor i m b)) = v b"
proof -
  have "v b' = v b" if "send_if_open ws m b = (b', ok)" for ws b' ok using v_sends(1) [of ws m b] that by simp
  then show ?thesis unfolding sendToSensor_def Let_def by (auto split: option.split prod.split bool.split)
qed

lemma v_close [simp]: "v (updateSessionState h st b) = v b" "v (untrack i sn b) = v b" "v (closeSession now i r b) = v b"
proof -
  show u: "v (updateSessionState h st b) = v b" for h st b by (auto simp: updateSessionState_def split: option.split)
  show "v (untrack i sn b) = v b" for b sn by (auto simp: untrack_def Let_def split: option.split)
  then show "v (closeSession now i r b) = v b" by (auto simp: closeSession_def Let_def u split: option.split)
qed

lemma v_client [simp]:
  "v (routeMessage now ok i ch m b) = v b" "v (handleSessionMessage env now h s d b) = v b"
  "v (handleClientMessage env now ok h s d b) = v b" "v (onClientMessage env now ok h raw b) = v b" "v (onClientClose now h failed b) = v b"
proof -
  show r: "v (routeMessage now ok i ch m b) = v b" for b i m ch by (auto simp: routeMessage_def Let_def split: option.split)
  show s: "v (handleSessionMessage env now h s d b) = v b" for b s d by (auto simp: handleSessionMessage_def split: sum.split)
  show c: "v (handleClientMessage env now ok h s d b) = v b" for b s d by (auto simp: handleClientMessage_def Let_def r s split: sum.split)
  show "v (onClientMessage env now ok h raw b) = v b" by (auto simp: onClientMessage_def Let_def c split: option.split prod.split)
  show "v (onClientClose now h failed b) = v b" by (auto simp: onClientClose_def split: option.split)
qed

lemma v_sensor [simp]:
  "v (registerSensorConnection i ws b) = v b" "v (onSensorSocketMessage env now i h raw b) = v b"
  "v (fst (createSession env now sn c ws t u i b)) = v b" "v (channel_branch env now sn ch m b) = v b"
  by (auto simp: registerSensorConnection_def onSensorSocketMessage_def createSession_def channel_branch_def Let_def
      split: option.split sum.split)

lemma v_sweeps [simp]: "v (tunnel_stop now b) = v b" "v (cleanupStaleSessions env now b) = v b" "v (onChannelMessage ch b) = v b"
  unfolding tunnel_stop_def cleanupStaleSessions_def onChannelMessage_def by (auto intro!: fold_same split: option.split)

lemma v_auth [simp]:
  "v (handleUserConnection ws b) = v b" "v (onAuthTimeout ws b) = v b" "v (fst (onFirstMessage ws raw b)) = v b" "v (onConnectionClose ws b) = v b"
  by (auto simp: handleUserConnection_def onAuthTimeout_def onFirstMessage_def onConnectionClose_def Let_def split: option.split json.split)

end

interpretation uv: channel_blind user_view
  by unfold_locales (simp_all add: user_view_def)

interpretation rv: channel_blind request_view
  by unfold_locales (auto simp: request_view_def settled_def fun_eq_iff plain_settles)

text \<open>What is sent over a socket does not change which sessions there are.\<close>

lemma object_session_view: "(\<And>s. session_core (f s) = session_core s) \<Longrightarrow> session_view (on_object h f b) = session_view b"
  using cores_object [of f h b] by (simp add: session_view_def on_object_def)

lemma session_out [simp]:
  "session_view (tb_out x b) = session_view b" "session_view (ws_close ws c r b) = session_view b"
  "session_view (close_if_open ws r b) = session_view b" "session_view (on_connection ws g b) = session_view b"
  by (simp_all add: session_view_def tb_out_def ws_close_def close_if_open_def on_connection_def)

lemma session_send: "ws_send ws m b = Some b' \<Longrightarrow> session_view b' = session_view b"
  by (auto simp: ws_send_def split: if_splits)

lemma session_sends [simp]:
  "session_view (fst (send_if_open ws m b)) = session_view b" "session_view (fst (tunnel_sendToClient h m b)) = session_view b"
  using session_send [of _ m b]
  by (auto simp: send_if_open_def tunnel_sendToClient_def object_session_view session_core_def split: option.splits)

lemma session_sendToSensor [simp]: "session_view (fst (sendToSensor i m b)) = session_view b"
proof -
  have "session_view b' = session_view b" if "send_if_open ws m b = (b', ok)" for ws b' ok
    using session_sends(1) [of ws m b] that by simp
  then show ?thesis unfolding sendToSensor_def Let_def
    by (auto simp: object_session_view session_core_def split: option.split prod.split bool.split)
qed

section \<open>User sessions stay within their tenant\<close>

definition users_ok :: "(string, user_session) jsmap \<times> (string, sensor_tunnel) jsmap \<Rightarrow> bool" where
  "users_ok v \<longleftrightarrow> jm_wf (fst v) \<and> (\<forall>i u. jm_get (fst v) i = Some u \<longrightarrow> us_sessionId u = i \<and>
     (\<exists>t. jm_get (snd v) (us_sensorId u) = Some t \<and> tu_tenantId t = us_tenantId u \<and> type_name (us_type u) \<in> set (tu_capabilities t)))"

lemma users_okD:
  assumes "users_ok (user_view b)" "jm_get (tb_users b) i = Some u"
  obtains t where "us_sessionId u = i" "jm_get (tb_tunnels b) (us_sensorId u) = Some t" "tu_tenantId t = us_tenantId u"
    "type_name (us_type u) \<in> set (tu_capabilities t)"
  using assms by (auto simp: users_ok_def user_view_def)

lemma view_fields: "user_view b' = user_view b \<Longrightarrow> tb_users b' = tb_users b" "user_view b' = user_view b \<Longrightarrow> tb_tunnels b' = tb_tunnels b"
  by (simp_all add: user_view_def)

lemma end_user_view: "user_view (endUserSession now i r b) = (jm_delete i (tb_users b), tb_tunnels b)"
proof (cases "jm_get (tb_users b) i")
  case None
  then have "jm_delete i (tb_users b) = tb_users b" by (simp add: jm_has_get delete_id)
  with None show ?thesis by (simp add: endUserSession_def user_view_def)
next
  case (Some u)
  let ?b2 = "close_if_open (us_socket u) (Some r) (fst (sendToSensor i (end_message (us_type u) i now) b))"
  have "user_view ?b2 = user_view b" by simp
  then have "tb_users ?b2 = tb_users b" "tb_tunnels ?b2 = tb_tunnels b" by (rule view_fields)+
  with Some show ?thesis by (simp add: endUserSession_def Let_def user_view_def tb_out_def)
qed

lemma end_user_fields [simp]:
  "tb_users (endUserSession now i r b) = jm_delete i (tb_users b)" "tb_tunnels (endUserSession now i r b) = tb_tunnels b"
  using end_user_view [of now i r b] by (simp_all add: user_view_def)

lemma end_user_ok: "users_ok (user_view b) \<Longrightarrow> users_ok (user_view (endUserSession now i r b))"
  by (auto simp: end_user_view users_ok_def user_view_def split: if_splits)

lemma end_users_fields:
  "tb_tunnels (fold (\<lambda>u b. if P u then endUserSession now (us_sessionId u) r b else b) us b) = tb_tunnels b"
  "jm_get (tb_users (fold (\<lambda>u b. if P u then endUserSession now (us_sessionId u) r b else b) us b)) j =
     (if \<exists>u \<in> set us. P u \<and> us_sessionId u = j then None else jm_get (tb_users b) j)"
  by (induction us arbitrary: b) auto

lemma end_users_ok:
  "users_ok (user_view b) \<Longrightarrow> users_ok (user_view (fold (\<lambda>u b. if P u then endUserSession now (us_sessionId u) r b else b) us b))"
  by (induction us arbitrary: b) (auto intro: end_user_ok)

lemma reject_pending_users [simp]: "user_view (reject_pending sn r b) = user_view b"
proof -
  have "user_view (fold (\<lambda>(i, p) b. if pq_sensorId p = sn
         then tb_out (Rejected i (''Sensor disconnected: '' @ r)) (b\<lparr>tb_timers := filter (\<lambda>j. j \<noteq> i) (tb_timers b), tb_pending := jm_delete i (tb_pending b)\<rparr>)
         else b) ps b) = user_view b" for ps
    by (induction ps arbitrary: b) (auto simp: user_view_def tb_out_def split: prod.split)
  then show ?thesis by (simp add: reject_pending_def)
qed

lemma disconnect_view:
  assumes "users_ok (user_view b)"
  shows "users_ok (user_view (handleSensorDisconnect now sn r b)) \<and>
    (jm_get (tb_tunnels b) sn \<noteq> None \<longrightarrow> (\<forall>u \<in> set (jm_values (tb_users (handleSensorDisconnect now sn r b))). us_sensorId u \<noteq> sn))"
proof (cases "jm_get (tb_tunnels b) sn")
  case None
  then show ?thesis using assms by (simp add: handleSensorDisconnect_def)
next
  case (Some t)
  define b1 where "b1 = fold (\<lambda>u b. if us_sensorId u = sn then endUserSession now (us_sessionId u) (''Sensor disconnected: '' @ r) b else b)
      (jm_values (tb_users b)) b"
  have ok: "users_ok (user_view b1)" unfolding b1_def by (rule end_users_ok [OF assms])
  have gone: "us_sensorId u \<noteq> sn" if "jm_get (tb_users b1) i = Some u" for i u
  proof
    assume "us_sensorId u = sn"
    from that have "jm_get (tb_users b) i = Some u" unfolding b1_def end_users_fields(2) by (simp split: if_splits)
    moreover from calculation have "us_sessionId u = i" by (rule users_okD [OF assms])
    ultimately have "\<exists>u \<in> set (jm_values (tb_users b)). us_sensorId u = sn \<and> us_sessionId u = i"
      using \<open>us_sensorId u = sn\<close> by (auto dest!: jm_get_in_set intro!: rev_bexI)
    with that show False unfolding b1_def end_users_fields(2) by simp
  qed
  let ?b3 = "close_if_open (tu_socket t) (Some r) (reject_pending sn r b1)"
  have v: "user_view ?b3 = user_view b1" by simp
  have "user_view (handleSensorDisconnect now sn r b) = (tb_users b1, jm_delete sn (tb_tunnels b1))"
    using Some view_fields [OF v] by (simp add: handleSensorDisconnect_def Let_def b1_def user_view_def tb_out_def)
  moreover have "us_sensorId u \<noteq> sn" if "u \<in> set (jm_values (tb_users b1))" for u
  proof -
    from that obtain i where "(i, u) \<in> set (tb_users b1)" by auto
    moreover from ok have "jm_wf (tb_users b1)" by (simp add: users_ok_def user_view_def)
    ultimately show ?thesis using gone [of i u] by simp
  qed
  moreover from ok gone have "users_ok (tb_users b1, jm_delete sn (tb_tunnels b1))" unfolding users_ok_def user_view_def by simp
  ultimately show ?thesis by (simp add: user_view_def)
qed


lemma connect_ok:
  assumes "users_ok (user_view b)"
  shows "users_ok (user_view (handleSensorConnect now ws sn t caps b))"
proof -
  have fresh: "users_ok (tb_users b', jm_set sn x (tb_tunnels b'))"
    if "users_ok (user_view b')" "\<forall>u \<in> set (jm_values (tb_users b')). us_sensorId u \<noteq> sn" for b' x
  proof -
    have "us_sensorId u \<noteq> sn" if "jm_get (tb_users b') i = Some u" for i u
      using jm_get_in_set [OF that] \<open>\<forall>u \<in> set (jm_values (tb_users b')). us_sensorId u \<noteq> sn\<close> by force
    with that(1) show ?thesis unfolding users_ok_def user_view_def by simp
  qed
  show ?thesis
  proof (cases "jm_get (tb_tunnels b) sn")
    case None
    then have "us_sensorId u \<noteq> sn" if "u \<in> set (jm_values (tb_users b))" for u
    proof -
      from that obtain i where "(i, u) \<in> set (tb_users b)" by auto
      moreover from assms have "jm_wf (tb_users b)" by (simp add: users_ok_def user_view_def)
      ultimately obtain x where "jm_get (tb_tunnels b) (us_sensorId u) = Some x" using users_okD [OF assms] by (metis in_set_jm_get)
      with None show ?thesis by auto
    qed
    with None fresh [OF assms] show ?thesis by (simp add: handleSensorConnect_def user_view_def tb_out_def)
  next
    case (Some x)
    with disconnect_view [OF assms, of now sn "''reconnection''"] fresh assms show ?thesis
      by (auto simp: handleSensorConnect_def Let_def user_view_def tb_out_def ws_close_def)
  qed
qed

lemma touch_ok: "users_ok (user_view b) \<Longrightarrow> users_ok (user_view (touch_user now u b))"
  by (auto simp: users_ok_def user_view_def touch_user_def distinct_map_entry map_of_map_entry split: if_splits option.splits)

lemma heartbeat_ok: "users_ok (user_view b) \<Longrightarrow> users_ok (user_view (handleHeartbeat now sn b))"
  by (fastforce simp: users_ok_def user_view_def handleHeartbeat_def map_of_map_entry split: if_splits option.splits)

lemma start_ok:
  assumes "users_ok (user_view b)"
  shows "users_ok (user_view (fst (startSessionWithId now ty ws u t sn i b)))"
proof -
  define s where "s = \<lparr> us_sessionId = i, us_userId = u, us_tenantId = t, us_sensorId = sn, us_type = ty,
                  us_socket = ws, us_createdAt = now, us_lastActivity = now, us_object = tb_nextUser b \<rparr>"
  have "user_view (fst (startSessionWithId now ty ws u t sn i b)) = user_view b \<or>
      user_view (fst (startSessionWithId now ty ws u t sn i b)) = (jm_set i s (tb_users b), tb_tunnels b) \<and>
      (\<exists>x. jm_get (tb_tunnels b) sn = Some x \<and> tu_tenantId x = t \<and> type_name ty \<in> set (tu_capabilities x))"
    by (auto simp: startSessionWithId_def Let_def s_def user_view_def tb_out_def view_fields [OF uv.v_sendToSensor] split: option.split)
  with assms show ?thesis by (auto simp: users_ok_def user_view_def s_def split: if_splits)
qed

lemma touch_views [simp]:
  "request_view (touch_user now u b) = request_view b" "session_view (touch_user now u b) = session_view b"
  "request_view (handleHeartbeat now sn b) = request_view b" "session_view (handleHeartbeat now sn b) = session_view b"
  by (simp_all add: touch_user_def handleHeartbeat_def view_defs)

lemma route_views [simp]:
  "request_view (routeToUser now sn m b) = request_view b" "session_view (routeToUser now sn m b) = session_view b"
  by (auto simp: routeToUser_def Let_def split: option.split)


lemma fold_keeps: "P b \<Longrightarrow> (\<And>x b. x \<in> set xs \<Longrightarrow> P b \<Longrightarrow> P (f x b)) \<Longrightarrow> P (fold f xs b)"
  by (induction xs arbitrary: b) auto

lemma response_users [simp]: "user_view (fst (handleSensorResponse sn m b)) = user_view b"
  by (auto simp: handleSensorResponse_def Let_def user_view_def tb_out_def split: option.split)

lemma sensor_message_ok: "users_ok (user_view b) \<Longrightarrow> users_ok (user_view (sensor_message now sn m b))"
proof -
  assume ok: "users_ok (user_view b)"
  obtain b1 r where r: "handleSensorResponse sn m b = (b1, r)" by (rule prod.exhaust)
  with response_users [of sn m b] ok have "users_ok (user_view b1)" by simp
  then have 2: "users_ok (user_view (tb_out (Emit (Tunnel_message sn m)) b1))" by simp
  have "users_ok (user_view (routeToUser now sn m b'))" if "users_ok (user_view b')" for b'
    using that by (auto simp: routeToUser_def Let_def touch_ok split: option.split)
  note ok = this [OF 2] heartbeat_ok [OF 2] end_user_ok [OF 2]
  show ?thesis
  proof (cases r)
    case True
    with r \<open>users_ok (user_view b1)\<close> show ?thesis by (simp add: sensor_message_def)
  next
    case False
    with r have "sensor_message now sn m b = (let b2 = tb_out (Emit (Tunnel_message sn m)) b1;
          ty = (case json_text (json_field ''type'' m) of None \<Rightarrow> [] | Some t \<Rightarrow> t)
      in if ty = ''heartbeat'' then handleHeartbeat now sn b2 else if ty \<in> set routed_types then routeToUser now sn m b2
         else if ty = ''error'' then (if str_truthy (json_text (json_field ''sessionId'' m))
              then endUserSession now (the (json_text (json_field ''sessionId'' m))) ''Sensor error'' b2 else b2)
         else b2)" by (simp only: sensor_message_def prod.case bool.case)
    then show ?thesis using ok 2 by (simp only: Let_def split: if_split) simp
  qed
qed

lemma lookup_ok:
  assumes "users_ok (user_view b)"
  shows "users_ok (user_view (onSessionLookup now ws found b))"
proof (cases found)
  case (Inr g)
  then show ?thesis
  proof (cases g)
    case (Some g')
    let ?b1 = "on_connection ws (\<lambda>c. c\<lparr>uc_authenticated := True, uc_timer := False\<rparr>) b"
    have start: "users_ok (user_view b3)"
      if "startSessionWithId now (sg_type g') ws (sg_user g') (sg_tenant g') (sg_sensor g') (sg_session g') b2 = (b3, x)"
        "ws_send ws m ?b1 = Some b2" for b2 b3 x m
      using start_ok [of b2 now "sg_type g'" ws "sg_user g'" "sg_tenant g'" "sg_sensor g'" "sg_session g'"] that assms uv.v_send [OF that(2)] by simp
    with Some Inr assms show ?thesis
      by (auto simp: onSessionLookup_def Let_def uv.v_send split: option.split prod.split)
  qed (use Inr assms uv.v_send in \<open>auto simp: onSessionLookup_def Let_def split: option.split\<close>)
qed (use assms in \<open>simp add: onSessionLookup_def Let_def\<close>)

lemma heartbeats_ok: "users_ok (user_view b) \<Longrightarrow> users_ok (user_view (heartbeatMonitor now b))"
proof -
  assume ok: "users_ok (user_view b)"
  have "users_ok (user_view (check_user now i b'))" if "users_ok (user_view b')" for i b'
    using that by (auto simp: check_user_def split: option.split intro: end_user_ok)
  note check = this
  have "users_ok (user_view (fold (\<lambda>(sn, t) b. if HEARTBEAT_TIMEOUT < now - tu_lastHeartbeat t
            then handleSensorDisconnect now sn ''heartbeat timeout'' b else b) (tb_tunnels b) b))"
    by (rule fold_keeps [where P = "\<lambda>b. users_ok (user_view b)", OF ok]) (simp add: disconnect_view split: prod.split)
  then show ?thesis unfolding heartbeatMonitor_def Let_def by (rule fold_keeps) (rule check)
qed

lemma shutdown_ok: "users_ok (user_view b) \<Longrightarrow> users_ok (user_view (tunnel_shutdown now b))"
  unfolding tunnel_shutdown_def Let_def
  by (rule fold_keeps, rule fold_keeps) (simp_all add: disconnect_view end_user_ok)

lemma cleanup_sensor_ok: "users_ok (user_view b) \<Longrightarrow> users_ok (user_view (cleanupSensor now sn b))"
proof -
  assume ok: "users_ok (user_view b)"
  have "user_view (fold (\<lambda>i. closeSession now i (Some ''Sensor cleanup'')) ids b) = user_view b" for ids by (rule fold_same) simp
  with ok show ?thesis by (auto simp: cleanupSensor_def Let_def disconnect_view split: option.split)
qed

lemma user_message_ok: "users_ok (user_view b) \<Longrightarrow> users_ok (user_view (handleUserMessage_end env now allowed s raw b))"
  by (auto simp: handleUserMessage_end_def Let_def touch_ok intro: end_user_ok split: option.split)

lemma request_users [simp]: "sendRequest now i sn ty p b = Some b' \<Longrightarrow> user_view b' = user_view b"
  by (auto simp: sendRequest_def Let_def ws_send_def tb_out_def user_view_def split: option.splits if_splits)

lemma timeout_users [simp]: "user_view (onRequestTimeout i b) = user_view b"
  by (auto simp: onRequestTimeout_def Let_def tb_out_def user_view_def split: option.split)

lemma legacy_message_ok: "users_ok (user_view b) \<Longrightarrow> users_ok (user_view (handleLegacySensorMessage env now sn raw b))"
  by (auto simp: handleLegacySensorMessage_def sensor_message_ok split: option.split json.split)

lemma tunnel_close_ok: "users_ok (user_view b) \<Longrightarrow> users_ok (user_view (onTunnelClose now ws sn b))"
  by (auto simp: onTunnelClose_def disconnect_view split: option.split)

lemmas users_ok_intros = connect_ok tunnel_close_ok conjunct1 [OF disconnect_view] cleanup_sensor_ok legacy_message_ok start_ok user_message_ok
  end_user_ok lookup_ok heartbeats_ok shutdown_ok

lemma step_users_ok: "users_ok (user_view b) \<Longrightarrow> users_ok (user_view (tunnel_step env op b))"
  by (cases op) (auto simp: onSensorSocketClose_def intro: users_ok_intros split: option.split)

lemma run_users_ok: "users_ok (user_view (tunnel_run env ops))"
proof -
  have "users_ok (user_view newBroker)" by (simp add: users_ok_def user_view_def newBroker_def)
  then show ?thesis unfolding tunnel_run_def by (rule fold_keeps) (rule step_users_ok)
qed


text \<open>The sockets that something was written to.\<close>

fun written :: "tunnel_out \<Rightarrow> nat set" where
  "written (Wrote ws m) = {ws}"
| "written x = {}"

definition writes_only :: "nat set \<Rightarrow> broker \<Rightarrow> broker \<Rightarrow> bool" where
  "writes_only A b b' \<longleftrightarrow> (\<exists>new. tb_log b' = tb_log b @ new \<and> (\<forall>x \<in> set new. written x \<subseteq> A))"

lemma writes_only_refl [simp]: "writes_only A b b"
  by (simp add: writes_only_def)

lemma writes_only_trans: "writes_only A a b \<Longrightarrow> writes_only A b c \<Longrightarrow> writes_only A a c"
  by (fastforce simp: writes_only_def)

lemma writes_only_out: "writes_only A a b \<Longrightarrow> written x \<subseteq> A \<Longrightarrow> writes_only A a (tb_out x b)"
  by (fastforce simp: writes_only_def tb_out_def)

lemma writes_only_same: "tb_log b' = tb_log b \<Longrightarrow> writes_only A a b \<Longrightarrow> writes_only A a b'"
  by (simp add: writes_only_def)

lemma send_if_open_writes: "ws \<in> A \<Longrightarrow> writes_only A b (fst (send_if_open ws m b))"
  by (auto simp: send_if_open_def ws_send_def intro: writes_only_out split: option.split)

lemma close_writes: "writes_only A a b \<Longrightarrow> writes_only A a (close_if_open ws r b)"
  by (auto simp: close_if_open_def ws_close_def intro!: writes_only_out intro: writes_only_same)

lemma user_send_writes:
  assumes "jm_get (tb_users b) i = Some u" "jm_get (tb_sessions b) i = None"
    and "\<And>t. jm_get (tb_tunnels b) (us_sensorId u) = Some t \<Longrightarrow> tu_socket t \<in> A"
  shows "writes_only A b (fst (sendToSensor i m b))"
  using assms by (auto simp: sendToSensor_def send_if_open_writes split: option.split)

lemma end_user_writes:
  assumes "jm_get (tb_users b) i = Some u" "jm_get (tb_sessions b) i = None"
    and "\<And>t. jm_get (tb_tunnels b) (us_sensorId u) = Some t \<Longrightarrow> tu_socket t \<in> A"
  shows "writes_only A b (endUserSession now i r b)"
proof -
  let ?b2 = "close_if_open (us_socket u) (Some r) (fst (sendToSensor i (end_message (us_type u) i now) b))"
  have "writes_only A b ?b2" by (intro close_writes user_send_writes) (use assms in auto)
  then show ?thesis using assms(1) by (auto simp: endUserSession_def Let_def intro!: writes_only_out intro: writes_only_same)
qed

text \<open>The sockets of the tunnels of a tenant's sensors.\<close>

definition tenant_sockets :: "string \<Rightarrow> broker \<Rightarrow> nat set" where
  "tenant_sockets tenantId b = {tu_socket t | sn t. jm_get (tb_tunnels b) sn = Some t \<and> tu_tenantId t = tenantId}"

lemma user_message_writes:
  assumes "users_ok (user_view b)" "jm_get (tb_users b) (us_sessionId u) = Some u" "jm_get (tb_sessions b) (us_sessionId u) = None"
  shows "writes_only (tenant_sockets (us_tenantId u) b) b (handleUserMessage_end env now allowed u raw b)"
proof -
  let ?i = "us_sessionId u" and ?A = "tenant_sockets (us_tenantId u) b" and ?b1 = "touch_user now u b"
  obtain t where t: "jm_get (tb_tunnels b) (us_sensorId u) = Some t" "tu_tenantId t = us_tenantId u"
    using users_okD [OF assms(1,2)] by blast
  then have sock: "tu_socket t \<in> ?A" by (auto simp: tenant_sockets_def)
  have "\<exists>v. jm_get (tb_users ?b1) ?i = Some v \<and> us_sensorId v = us_sensorId u" "tb_sessions ?b1 = tb_sessions b"
      "tb_tunnels ?b1 = tb_tunnels b" "tb_log ?b1 = tb_log b"
    using assms(2) by (simp_all add: touch_user_def map_of_map_entry)
  then obtain v where v: "jm_get (tb_users ?b1) ?i = Some v" "us_sensorId v = us_sensorId u" and
      same: "jm_get (tb_sessions ?b1) ?i = None" "tb_tunnels ?b1 = tb_tunnels b" "tb_log ?b1 = tb_log b" using assms(3) by auto
  have "writes_only ?A ?b1 (fst (sendToSensor ?i m ?b1))" for m
    by (rule user_send_writes [OF v(1) same(1)]) (use t same(2) v(2) sock in auto)
  then have "writes_only ?A b (fst (sendToSensor ?i m ?b1))" for m using same(3) by (simp add: writes_only_def)
  moreover have "writes_only ?A b (endUserSession now ?i r b)" for r
    by (rule end_user_writes [OF assms(2,3)]) (use t sock in auto)
  moreover have "writes_only ?A b ?b1" using same(3) by (simp add: writes_only_def)
  ultimately show ?thesis by (simp add: handleUserMessage_end_def Let_def split: option.split)
qed

lemma route_writes:
  assumes "users_ok (user_view b)" "jm_get (tb_tunnels b) sn = Some t"
  shows "writes_only {us_socket u | i u. jm_get (tb_users b) i = Some u \<and> us_sensorId u = sn \<and> us_tenantId u = tu_tenantId t} b
    (routeToUser now sn m b)"
proof (cases "\<exists>u. jm_get (tb_users b) (the (json_text (json_field ''sessionId'' m))) = Some u \<and> us_sensorId u = sn")
  case False
  then show ?thesis by (auto simp: routeToUser_def Let_def split: option.split)
next
  case True
  then obtain u where u: "jm_get (tb_users b) (the (json_text (json_field ''sessionId'' m))) = Some u" "us_sensorId u = sn" by blast
  then have ten: "us_tenantId u = tu_tenantId t" using users_okD [OF assms(1) u(1)] assms(2) by (metis option.inject)
  let ?A = "{us_socket u | i u. jm_get (tb_users b) i = Some u \<and> us_sensorId u = sn \<and> us_tenantId u = tu_tenantId t}"
  from u ten have "us_socket u \<in> ?A" by blast
  then have "writes_only ?A (touch_user now u b) (fst (send_if_open (us_socket u) m (touch_user now u b)))" by (rule send_if_open_writes)
  moreover have "tb_log (touch_user now u b) = tb_log b" by (simp add: touch_user_def)
  ultimately have "writes_only ?A b (fst (send_if_open (us_socket u) m (touch_user now u b)))" by (simp add: writes_only_def)
  with u show ?thesis by (simp add: routeToUser_def Let_def)
qed



section \<open>Requests are settled exactly once\<close>

definition pending_at :: "string \<Rightarrow> broker \<Rightarrow> nat" where
  "pending_at i b = (if jm_get (tb_pending b) i = None then 0 else 1)"

definition requests_ok :: "broker \<Rightarrow> bool" where
  "requests_ok b \<longleftrightarrow> jm_wf (tb_pending b) \<and>
     (\<forall>i p. jm_get (tb_pending b) i = Some p \<longrightarrow> \<not> pq_claimed p \<and> i \<in> set (tb_timers b))"

definition conserves :: "string \<Rightarrow> broker \<Rightarrow> broker \<Rightarrow> bool" where
  "conserves i b b' \<longleftrightarrow> (requests_ok b \<longrightarrow> requests_ok b' \<and> settled i b' + pending_at i b' = settled i b + pending_at i b)"

lemma conserves_view: "request_view b' = request_view b \<Longrightarrow> conserves i b b'"
  by (auto simp: conserves_def request_view_def requests_ok_def pending_at_def dest: fun_cong)

lemma conserves_refl [simp]: "conserves i b b"
  by (simp add: conserves_def)

lemma conserves_trans: "conserves i a b \<Longrightarrow> conserves i b c \<Longrightarrow> conserves i a c"
  by (simp add: conserves_def)

lemma conserves_fold: "(\<And>x b. x \<in> set xs \<Longrightarrow> conserves i b (f x b)) \<Longrightarrow> conserves i b (fold f xs b)"
proof (induction xs arbitrary: b)
  case (Cons x xs)
  have "conserves i b (f x b)" "conserves i (f x b) (fold f xs (f x b))" using Cons by simp_all
  then show ?case using conserves_trans by simp
qed simp

text \<open>A pending request leaves the table together with its timer when it is settled.\<close>

lemma settle_conserves:
  assumes "jm_get (tb_pending b) j \<noteq> None" "settles j x" "\<And>i. i \<noteq> j \<Longrightarrow> \<not> settles i x"
    "\<And>i. i \<noteq> j \<Longrightarrow> i \<in> set (tb_timers b) \<Longrightarrow> i \<in> set tms"
  shows "conserves i b (tb_out x (b\<lparr>tb_timers := tms, tb_pending := jm_delete j (tb_pending b)\<rparr>))"
  using assms by (auto simp: conserves_def requests_ok_def settled_def pending_at_def tb_out_def)

lemma end_user_request [simp]: "request_view (endUserSession now i r b) = request_view b"
proof -
  have users: "request_view (b\<lparr>tb_users := us\<rparr>) = request_view b" for us b by (simp add: request_view_def settled_def)
  show ?thesis by (simp add: endUserSession_def Let_def users split: option.split)
qed

lemma start_request [simp]: "request_view (fst (startSessionWithId now ty ws u t sn i b)) = request_view b"
proof -
  have users: "request_view (b\<lparr>tb_users := us, tb_nextUser := n\<rparr>) = request_view b" for us n b by (simp add: request_view_def settled_def)
  show ?thesis by (simp add: startSessionWithId_def Let_def users split: option.split)
qed

lemma tunnels_request: "request_view (b\<lparr>tb_tunnels := ts\<rparr>) = request_view b"
  by (simp add: request_view_def settled_def)

lemma reject_pending_conserves: "conserves i b (reject_pending sn r b)"
proof -
  let ?f = "\<lambda>(k, p) b. if pq_sensorId p = sn
         then tb_out (Rejected k (''Sensor disconnected: '' @ r)) (b\<lparr>tb_timers := filter (\<lambda>j. j \<noteq> k) (tb_timers b), tb_pending := jm_delete k (tb_pending b)\<rparr>)
         else b"
  have "distinct (map fst ps) \<Longrightarrow> \<forall>(k, p) \<in> set ps. jm_get (tb_pending b) k \<noteq> None \<Longrightarrow> conserves i b (fold ?f ps b)" for ps
  proof (induction ps arbitrary: b)
    case (Cons x ps)
    obtain k p where x: "x = (k, p)" by (cases x)
    have 1: "conserves i b (?f x b)"
      using Cons.prems(2) unfolding x by (auto intro!: settle_conserves)
    have "\<forall>(k', p') \<in> set ps. jm_get (tb_pending (?f x b)) k' \<noteq> None"
      using Cons.prems unfolding x by (force simp: tb_out_def)
    then have "conserves i (?f x b) (fold ?f ps (?f x b))" using Cons.prems(1) by (intro Cons.IH) simp_all
    with 1 show ?case using conserves_trans by simp
  qed simp
  then have "requests_ok b \<Longrightarrow> conserves i b (fold ?f (tb_pending b) b)" by (fastforce simp: requests_ok_def)
  then show ?thesis by (simp add: reject_pending_def conserves_def)
qed

lemma disconnect_conserves: "conserves i b (handleSensorDisconnect now sn r b)"
proof (cases "jm_get (tb_tunnels b) sn")
  case (Some t)
  define b1 where "b1 = fold (\<lambda>u b. if us_sensorId u = sn then endUserSession now (us_sessionId u) (''Sensor disconnected: '' @ r) b else b)
      (jm_values (tb_users b)) b"
  have "request_view b1 = request_view b" unfolding b1_def by (rule fold_same) simp
  then have "conserves i b b1" by (rule conserves_view)
  then have "conserves i b (reject_pending sn r b1)" by (rule conserves_trans) (rule reject_pending_conserves)
  moreover have "conserves i (reject_pending sn r b1) (handleSensorDisconnect now sn r b)"
    using Some by (intro conserves_view) (simp add: handleSensorDisconnect_def Let_def b1_def tunnels_request)
  ultimately show ?thesis by (rule conserves_trans)
qed (simp add: handleSensorDisconnect_def)


lemma connect_conserves: "conserves i b (handleSensorConnect now ws sn t caps b)"
proof (cases "jm_get (tb_tunnels b) sn")
  case None
  then show ?thesis by (intro conserves_view) (simp add: handleSensorConnect_def tunnels_request)
next
  case (Some x)
  let ?b1 = "handleSensorDisconnect now sn ''reconnection'' b"
  have "conserves i ?b1 (tb_out (Emit (Tunnel_connected sn)) (?b1\<lparr>tb_tunnels := ts\<rparr>))" for ts
    by (intro conserves_view) (simp add: tunnels_request)
  then have "conserves i b (tb_out (Emit (Tunnel_connected sn)) (?b1\<lparr>tb_tunnels := ts\<rparr>))" for ts
    using conserves_trans [OF disconnect_conserves] by blast
  with Some show ?thesis by (auto simp: handleSensorConnect_def Let_def intro: conserves_view)
qed

lemma response_conserves: "conserves i b (fst (handleSensorResponse sn m b))"
  by (auto simp: handleSensorResponse_def Let_def intro!: settle_conserves split: option.split)

lemma sensor_message_conserves: "conserves i b (sensor_message now sn m b)"
proof -
  obtain b1 r where r: "handleSensorResponse sn m b = (b1, r)" by (rule prod.exhaust)
  with response_conserves [of i b sn m] have 1: "conserves i b b1" by simp
  have "request_view (sensor_message now sn m b) = request_view b1"
    using r by (cases r) (simp_all add: sensor_message_def Let_def)
  then show ?thesis using 1 conserves_trans conserves_view by blast
qed

lemma legacy_message_conserves: "conserves i b (handleLegacySensorMessage env now sn raw b)"
  by (auto simp: handleLegacySensorMessage_def sensor_message_conserves intro: conserves_view split: option.split json.split)

lemma timeout_conserves: "conserves i b (onRequestTimeout j b)"
proof (cases "j \<in> set (tb_timers b)")
  case True
  let ?b1 = "b\<lparr>tb_timers := remove1 j (tb_timers b)\<rparr>"
  show ?thesis
  proof (cases "jm_get (tb_pending b) j")
    case None
    with True have "onRequestTimeout j b = ?b1" by (simp add: onRequestTimeout_def)
    moreover have "requests_ok ?b1" if "requests_ok b"
      using that None unfolding requests_ok_def by (auto simp: in_set_remove1) (metis in_set_remove1 option.distinct(1))
    ultimately show ?thesis by (simp add: conserves_def settled_def pending_at_def)
  next
    case (Some p)
    show ?thesis
    proof (cases "pq_claimed p")
      case False
      with True Some have "onRequestTimeout j b = tb_out (Rejected j ''Request timeout'')
          (b\<lparr>tb_timers := remove1 j (tb_timers b), tb_pending := jm_delete j (tb_pending b)\<rparr>)"
        by (simp add: onRequestTimeout_def)
      then show ?thesis using Some by (auto intro!: settle_conserves simp: in_set_remove1)
    qed (use Some in \<open>auto simp: conserves_def requests_ok_def\<close>)
  qed
qed (simp add: onRequestTimeout_def)

lemma lookup_request [simp]: "request_view (onSessionLookup now ws found b) = request_view b"
proof -
  have start: "request_view b3 = request_view b2" if "startSessionWithId now ty ws u t sn i b2 = (b3, x)" for ty u t sn i b2 b3 x
    using start_request [of now ty ws u t sn i b2] that by simp
  show ?thesis
    by (auto simp: onSessionLookup_def Let_def rv.v_send start split: sum.split option.split prod.split dest!: rv.v_send)
qed

lemma sweeps_conserve:
  "conserves i b (heartbeatMonitor now b)" "conserves i b (tunnel_shutdown now b)" "conserves i b (cleanupSensor now sn b)"
proof -
  have hb: "conserves i b (fold (\<lambda>(sn, t) b. if HEARTBEAT_TIMEOUT < now - tu_lastHeartbeat t
            then handleSensorDisconnect now sn ''heartbeat timeout'' b else b) (tb_tunnels b) b)"
    by (rule conserves_fold) (simp add: disconnect_conserves split: prod.split)
  have "conserves i b' (fold (check_user now) us b')" for us b'
    by (rule conserves_fold) (auto simp: check_user_def intro: conserves_view split: option.split)
  from conserves_trans [OF hb this] show "conserves i b (heartbeatMonitor now b)" by (simp add: heartbeatMonitor_def Let_def)
  have "request_view (fold (\<lambda>i. endUserSession now i ''Server shutdown'') us (tunnel_stop now b)) = request_view b" for us
    using fold_same [of us request_view "\<lambda>i. endUserSession now i ''Server shutdown''" "tunnel_stop now b"] by simp
  from conserves_trans [OF conserves_view [OF this] conserves_fold [OF disconnect_conserves]]
  show "conserves i b (tunnel_shutdown now b)" by (simp add: tunnel_shutdown_def Let_def)
  have "request_view (fold (\<lambda>i. closeSession now i (Some ''Sensor cleanup'')) ids b) = request_view b" for ids by (rule fold_same) simp
  then have "conserves i b (case jm_get (tb_sensorSessions b) sn of
            None \<Rightarrow> b
          | Some ids \<Rightarrow> let b' = fold (\<lambda>i. closeSession now i (Some ''Sensor cleanup'')) ids b
                        in b'\<lparr>tb_sensorSessions := jm_delete sn (tb_sensorSessions b')\<rparr>)"
    by (intro conserves_view) (simp add: Let_def split: option.split)
  then show "conserves i b (cleanupSensor now sn b)" unfolding cleanupSensor_def Let_def
    by (rule conserves_trans) (rule disconnect_conserves)
qed

lemma user_message_request [simp]: "request_view (handleUserMessage_end env now allowed s raw b) = request_view b"
  by (simp add: handleUserMessage_end_def Let_def split: option.split)


text \<open>Sending a request: either it is rejected at once or it becomes pending, when its id is new.\<close>

lemma request_conserves:
  assumes "sendRequest now j sn ty p b = Some b'" "requests_ok b" "jm_get (tb_pending b) j = None"
  shows "requests_ok b' \<and> settled i b' + pending_at i b' = settled i b + pending_at i b + (if i = j then 1 else 0)"
proof -
  let ?b1 = "b\<lparr>tb_timers := tb_timers b @ [j], tb_pending := jm_set j \<lparr> pq_sensorId = sn, pq_claimed = False \<rparr> (tb_pending b)\<rparr>"
  have 1: "requests_ok ?b1" "settled i ?b1 = settled i b" "pending_at i ?b1 = pending_at i b + (if i = j then 1 else 0)"
    using assms(2,3) by (auto simp: requests_ok_def settled_def pending_at_def)
  from assms(1) consider (sent) ws m where "b' = tb_out (Wrote ws m) ?b1"
    | (failed) "b' = tb_out (Rejected j ''Failed to send request'') (?b1\<lparr>tb_timers := filter (\<lambda>k. k \<noteq> j) (tb_timers ?b1),
        tb_pending := jm_delete j (tb_pending ?b1)\<rparr>)"
    by (auto simp: sendRequest_def Let_def ws_send_def split: option.splits if_splits)
  then show ?thesis
  proof cases
    case sent
    then have "conserves i ?b1 b'" by (intro conserves_view) simp
    with 1 show ?thesis by (simp add: conserves_def)
  next
    case failed
    then have "conserves i ?b1 b'" unfolding failed by (intro settle_conserves) auto
    with 1 show ?thesis by (simp add: conserves_def)
  qed
qed

fun requests_of :: "tunnel_op list \<Rightarrow> string list" where
  "requests_of [] = []"
| "requests_of (Op_request now i sn ty p # ops) = i # requests_of ops"
| "requests_of (op # ops) = requests_of ops"

fun issues :: "tunnel_op \<Rightarrow> string \<Rightarrow> broker \<Rightarrow> nat" where
  "issues (Op_request now j sn ty p) i b = (if j = i \<and> sendRequest now j sn ty p b \<noteq> None then 1 else 0)"
| "issues op i b = 0"

text \<open>How many requests with the id were accepted in a run.\<close>

fun accepted :: "tunnel_env \<Rightarrow> tunnel_op list \<Rightarrow> string \<Rightarrow> broker \<Rightarrow> nat" where
  "accepted env [] i b = 0"
| "accepted env (op # ops) i b = issues op i b + accepted env ops i (tunnel_step env op b)"

lemma tunnel_close_conserves: "conserves i b (onTunnelClose now ws sn b)"
  by (simp add: onTunnelClose_def disconnect_conserves split: option.split)

lemmas conserves_steps = connect_conserves legacy_message_conserves timeout_conserves sweeps_conserve disconnect_conserves tunnel_close_conserves

lemma step_conserves:
  assumes "requests_of [op] = []"
  shows "conserves i b (tunnel_step env op b)"
proof (cases "request_view (tunnel_step env op b) = request_view b")
  case True
  then show ?thesis by (rule conserves_view)
next
  case False
  with assms show ?thesis by (cases op) (simp_all add: onSensorSocketClose_def conserves_steps)
qed

lemma requests_tail: "requests_of (op # ops) = requests_of [op] @ requests_of ops"
  by (cases op) simp_all

lemma issues_other: "j \<notin> set (requests_of [op]) \<Longrightarrow> issues op j b = 0"
  by (cases op) simp_all

lemma is_request:
  assumes "requests_of [op] \<noteq> []"
  obtains now j sn ty p where "op = Op_request now j sn ty p"
  using assms by (cases op) simp_all

lemma step_settles:
  assumes "requests_ok b" "\<forall>j \<in> set (requests_of [op]). pending_at j b = 0"
  shows "requests_ok (tunnel_step env op b) \<and>
    settled k (tunnel_step env op b) + pending_at k (tunnel_step env op b) = settled k b + pending_at k b + issues op k b"
proof (cases "requests_of [op] = []")
  case True
  with step_conserves [OF True, of k b env] assms(1) show ?thesis by (simp add: conserves_def issues_other)
next
  case False
  then obtain now j sn ty p where op: "op = Op_request now j sn ty p" by (rule is_request)
  with assms(2) have none: "jm_get (tb_pending b) j = None" by (simp add: pending_at_def split: if_splits)
  show ?thesis
  proof (cases "sendRequest now j sn ty p b")
    case None
    then show ?thesis using assms(1) op by simp
  next
    case (Some b')
    then show ?thesis using request_conserves [OF Some assms(1) none, of k] op by simp
  qed
qed

lemma run_settles:
  assumes "requests_ok b" "distinct (requests_of ops)" "\<forall>j \<in> set (requests_of ops). settled j b + pending_at j b = 0"
  shows "requests_ok (fold (tunnel_step env) ops b) \<and>
    settled i (fold (tunnel_step env) ops b) + pending_at i (fold (tunnel_step env) ops b) = settled i b + pending_at i b + accepted env ops i b"
  using assms
proof (induction ops arbitrary: b)
  case Nil
  then show ?case by simp
next
  case (Cons op ops)
  let ?b1 = "tunnel_step env op b"
  have dist: "distinct (requests_of ops)" and other: "\<And>j. j \<in> set (requests_of ops) \<Longrightarrow> j \<notin> set (requests_of [op])"
    using Cons.prems(2) unfolding requests_tail [of op ops] by auto
  have zero: "settled j b + pending_at j b = 0" if "j \<in> set (requests_of [op]) \<union> set (requests_of ops)" for j
    using Cons.prems(3) that unfolding requests_tail [of op ops] set_append by blast
  have step: "requests_ok ?b1 \<and> settled k ?b1 + pending_at k ?b1 = settled k b + pending_at k b + issues op k b" for k
    by (rule step_settles [OF Cons.prems(1)]) (use zero in simp)
  have "settled j ?b1 + pending_at j ?b1 = 0" if "j \<in> set (requests_of ops)" for j
    using step [of j] zero [of j] issues_other [OF other [OF that]] that by simp
  then have "\<forall>j \<in> set (requests_of ops). settled j ?b1 + pending_at j ?b1 = 0" by blast
  note ih = Cons.IH [OF conjunct1 [OF step] dist this]
  show ?case unfolding fold_simps o_apply accepted.simps using ih step [of i] by linarith
qed


lemma accepted_le: "accepted env ops i b \<le> count_list (requests_of ops) i"
proof (induction ops arbitrary: b)
  case (Cons op ops)
  have "issues op i b \<le> count_list (requests_of [op]) i" by (cases op) simp_all
  then show ?case using Cons.IH [of "tunnel_step env op b"] by (simp add: requests_tail [of op ops] count_list_append)
qed simp

lemma distinct_count: "distinct xs \<Longrightarrow> count_list xs x \<le> 1"
  by (induction xs) (auto simp: count_list_0_iff)

lemma timeout_settles:
  assumes "requests_ok b" "jm_get (tb_pending b) i \<noteq> None"
  shows "settled i (onRequestTimeout i b) = Suc (settled i b) \<and> pending_at i (onRequestTimeout i b) = 0"
  using assms by (auto simp: onRequestTimeout_def requests_ok_def settled_def tb_out_def pending_at_def)

lemma other_sensor_silent:
  assumes "jm_get (tb_pending b) i = Some p" "settled i (fst (handleSensorResponse sn m b)) \<noteq> settled i b"
  shows "sn = pq_sensorId p"
  using assms by (auto simp: handleSensorResponse_def Let_def settled_def tb_out_def split: option.splits if_splits)

text \<open>
  C7: A request to a sensor is settled exactly once. In every run in which request ids are not repeated, the promise of a
  request that was sent is either still pending or was settled once, never twice and never both; a promise that is
  pending has a timer which settles it; and only the sensor the request was sent to can answer it.
\<close>

theorem requests_settled_exactly_once:
  assumes b_def: "b = tunnel_run env ops" and "distinct (requests_of ops)"
  shows "settled i b + pending_at i b = accepted env ops i newBroker \<and> accepted env ops i newBroker \<le> 1 \<and>
    (\<forall>p. jm_get (tb_pending b) i = Some p \<longrightarrow>
      settled i (onRequestTimeout i b) = 1 \<and> pending_at i (onRequestTimeout i b) = 0 \<and>
      (\<forall>sn m. settled i (fst (handleSensorResponse sn m b)) \<noteq> settled i b \<longrightarrow> sn = pq_sensorId p))"
proof -
  have "requests_ok newBroker" "\<forall>j \<in> set (requests_of ops). settled j newBroker + pending_at j newBroker = 0"
    by (simp_all add: requests_ok_def settled_def pending_at_def newBroker_def)
  from run_settles [OF this(1) assms(2) this(2), of env i]
  have ok: "requests_ok b" and eq: "settled i b + pending_at i b = accepted env ops i newBroker"
    by (simp_all add: b_def tunnel_run_def settled_def pending_at_def newBroker_def)
  have le: "accepted env ops i newBroker \<le> 1"
    using accepted_le [of env ops i newBroker] distinct_count [OF assms(2), of i] by linarith
  have "settled i (onRequestTimeout i b) = 1 \<and> pending_at i (onRequestTimeout i b) = 0" if "jm_get (tb_pending b) i = Some p" for p
  proof -
    from that have "settled i b = 0" using eq le by (simp add: pending_at_def)
    then show ?thesis using timeout_settles [OF ok, of i] that by simp
  qed
  with eq le show ?thesis using other_sensor_silent by blast
qed

definition sample_tunnel_env :: tunnel_env where
  "sample_tunnel_env = newTunnelEnv \<lparr> to_sessionTimeoutMs = None, to_maxSessionsPerSensor = None, to_rateLimits = (\<lambda>c. None),
     to_permissionChecker = False \<rparr> Inr Inr"

definition sample_tunnel_ops :: "tunnel_op list" where
  "sample_tunnel_ops = [Op_socket [1, 2] [], Op_connect 0 1 ''s'' ''t'' [''shell''], Op_start 0 Type_shell 2 ''u'' ''t'' ''s'' ''i'',
     Op_request 0 ''r'' ''s'' ''ping'' JNull]"

theorem requests_settled_exactly_once_witness:
  "let b = tunnel_run sample_tunnel_env sample_tunnel_ops in
     pending_at ''r'' b = 1 \<and> settled ''r'' (onRequestTimeout ''r'' b) = 1"
proof -
  have dist: "distinct (requests_of sample_tunnel_ops)" by (simp add: sample_tunnel_ops_def)
  have "jm_get (tb_pending (tunnel_run sample_tunnel_env sample_tunnel_ops)) ''r'' = Some \<lparr> pq_sensorId = ''s'', pq_claimed = False \<rparr>"
    by code_simp
  then show ?thesis
    using requests_settled_exactly_once [OF refl dist, of "''r''" sample_tunnel_env] by (simp add: Let_def pending_at_def)
qed


end
