(* ===== verification/Tunnel_Sessions.thy ===== *)
theory Tunnel_Sessions
  imports Tunnel_Properties
begin

text \<open>
  The session limits of the tunnel broker, over every sequence of calls and events in which session ids are not
  reused, and what an error message of a sensor does to user sessions.
\<close>

section \<open>Steps that keep the set of sessions\<close>

text \<open>Of an object, its id, sensor and channel stay, and it does not become closed.\<close>

definition keeps_core :: "(string \<times> string \<times> tunnel_channel \<times> bool) option \<Rightarrow> (string \<times> string \<times> tunnel_channel \<times> bool) option \<Rightarrow> bool" where
  "keeps_core x y \<longleftrightarrow> (case x of None \<Rightarrow> True | Some (i, sn, c, f) \<Rightarrow> y = Some (i, sn, c, False) \<or> y = x)"

definition calm :: "broker \<Rightarrow> broker \<Rightarrow> bool" where
  "calm b b' \<longleftrightarrow> tb_sessions b' = tb_sessions b \<and> tb_sensorSessions b' = tb_sensorSessions b \<and>
     (\<forall>h. keeps_core (cores b h) (cores b' h)) \<and> ((\<forall>h \<ge> tb_next b. cores b h = None) \<longrightarrow> (\<forall>h \<ge> tb_next b'. cores b' h = None))"

lemma keeps_core_refl [simp]: "keeps_core x x"
  by (simp add: keeps_core_def split: option.split prod.split)

lemma keeps_core_trans: "keeps_core x y \<Longrightarrow> keeps_core y z \<Longrightarrow> keeps_core x z"
  by (auto simp: keeps_core_def split: option.splits)

lemma calm_view: "session_view b' = session_view b \<Longrightarrow> calm b b'"
  by (simp add: calm_def session_view_def)

lemma calm_trans: "calm a b \<Longrightarrow> calm b c \<Longrightarrow> calm a c"
  unfolding calm_def by (auto intro: keeps_core_trans)

lemma calm_then: "calm a b \<Longrightarrow> session_view c = session_view b \<Longrightarrow> calm a c"
  using calm_trans calm_view by blast

lemma calm_object:
  assumes "\<And>s. jm_get (tb_objects b) h = Some s \<Longrightarrow> keeps_core (Some (session_core s)) (Some (session_core (f s)))"
  shows "calm b (on_object h f b)"
  using assms by (auto simp: calm_def cores_def on_object_def map_of_map_entry split: option.split)

lemma calm_update: "st \<notin> {Closing, Shut} \<Longrightarrow> calm b (updateSessionState h st b)"
proof (cases "jm_get (tb_objects b) h")
  case (Some s)
  assume "st \<notin> {Closing, Shut}"
  then have "calm b (on_object h (\<lambda>s. s\<lparr>ch_state := st\<rparr>) b)" by (intro calm_object) (auto simp: keeps_core_def session_core_def)
  then show ?thesis using Some by (simp add: updateSessionState_def calm_then)
qed (simp add: updateSessionState_def calm_view)

lemma checkAndUpdate_core: "checkAndUpdate now l n s = (s', r) \<Longrightarrow> session_core s' = session_core s"
  by (auto simp: checkAndUpdate_def Let_def session_core_def split: if_splits)

lemma route_view [simp]: "session_view (routeMessage now ok i ch m b) = session_view b"
  by (simp add: routeMessage_def Let_def object_session_view session_core_def split: option.split)

lemma sensor_socket_view [simp]: "session_view (onSensorSocketMessage env now i h raw b) = session_view b"
  by (simp add: onSensorSocketMessage_def Let_def object_session_view session_core_def split: option.split sum.split)

lemma register_calm: "calm b (registerSensorConnection i ws b)"
proof (cases "jm_get (tb_sessions b) i")
  case (Some h)
  have "calm b (on_object h (\<lambda>s. s\<lparr>ch_sensorWs := Some ws\<rparr>) b)"
    by (intro calm_view object_session_view) (simp add: session_core_def)
  from calm_trans [OF this calm_update [of Active]] Some show ?thesis by (simp add: registerSensorConnection_def)
qed (simp add: registerSensorConnection_def calm_view)

lemma user_views [simp]:
  "session_view (endUserSession now i r b) = session_view b" "session_view (fst (startSessionWithId now ty ws u t sn i b)) = session_view b"
  "session_view (handleUserMessage_end env now allowed s raw b) = session_view b"
proof -
  have users: "session_view (b\<lparr>tb_users := us\<rparr>) = session_view b" "session_view (b\<lparr>tb_users := us, tb_nextUser := n\<rparr>) = session_view b"
    for us n and b :: broker by (simp_all add: session_view_def)
  show "session_view (endUserSession now i r b) = session_view b" for i r b
    by (simp add: endUserSession_def Let_def users split: option.split)
  then show "session_view (handleUserMessage_end env now allowed s raw b) = session_view b"
    by (simp add: handleUserMessage_end_def Let_def split: option.split)
  show "session_view (fst (startSessionWithId now ty ws u t sn i b)) = session_view b"
    by (simp add: startSessionWithId_def Let_def users split: option.split)
qed

lemma pending_view [simp]: "session_view (b\<lparr>tb_timers := tms, tb_pending := ps\<rparr>) = session_view b"
    "session_view (b\<lparr>tb_timers := tms\<rparr>) = session_view b" "session_view (b\<lparr>tb_pending := ps\<rparr>) = session_view b"
    "session_view (b\<lparr>tb_tunnels := ts\<rparr>) = session_view b" "session_view (b\<lparr>tb_connections := cs\<rparr>) = session_view b"
    "session_view (b\<lparr>tb_handlers := hs\<rparr>) = session_view b" "session_view (b\<lparr>tb_open := opn, tb_throwing := thr\<rparr>) = session_view b"
  by (simp_all add: session_view_def)

lemma disconnect_session [simp]: "session_view (handleSensorDisconnect now sn r b) = session_view b"
proof -
  have "session_view (reject_pending sn r b) = session_view b" for b
    unfolding reject_pending_def by (rule fold_same) (simp split: prod.split)
  moreover have "session_view (fold (\<lambda>u b. if us_sensorId u = sn then endUserSession now (us_sessionId u) (''Sensor disconnected: '' @ r) b else b)
      (jm_values (tb_users b)) b) = session_view b" by (rule fold_same) simp
  ultimately show ?thesis unfolding handleSensorDisconnect_def Let_def by (cases "jm_get (tb_tunnels b) sn") (simp_all only: option.case session_out pending_view)
qed

lemma connect_session [simp]: "session_view (handleSensorConnect now ws sn t caps b) = session_view b"
  by (simp add: handleSensorConnect_def Let_def split: option.split)

lemma tunnel_close_session [simp]: "session_view (onTunnelClose now ws sn b) = session_view b"
  by (simp add: onTunnelClose_def split: option.split)

lemma response_session [simp]: "session_view (fst (handleSensorResponse sn m b)) = session_view b"
  by (simp add: handleSensorResponse_def Let_def split: option.split)

lemma sensor_message_session: "session_view (sensor_message now sn m b) = session_view b"
proof -
  obtain b1 r where r: "handleSensorResponse sn m b = (b1, r)" by (rule prod.exhaust)
  with response_session [of sn m b] have "session_view b1 = session_view b" by simp
  then show ?thesis using r by (cases r) (simp_all add: sensor_message_def Let_def)
qed


lemma calm_objects:
  assumes "\<And>h. keeps_core (cores b h) (map_option session_core (jm_get objs h))"
    "\<And>h. (\<forall>h \<ge> tb_next b. cores b h = None) \<Longrightarrow> n \<le> h \<Longrightarrow> jm_get objs h = None"
  shows "calm b (b\<lparr>tb_objects := objs, tb_next := n\<rparr>)"
  using assms by (simp add: calm_def cores_def)

lemma channel_branch_calm:
  assumes fresh: "\<forall>h \<ge> tb_next b. cores b h = None"
  shows "calm b (channel_branch env now sn ch m b)"
proof -
  have "calm b (b\<lparr>tb_objects := jm_set (tb_next b) s (tb_objects b), tb_next := Suc (tb_next b)\<rparr>)" for s
    using fresh by (intro calm_objects) (auto simp: cores_def keeps_core_def split: option.split prod.split)
  then show ?thesis
    unfolding channel_branch_def Let_def
    by (cases "te_validateTunnelMessage env m"; cases "system_session now sn (projr (te_validateTunnelMessage env m)) b")
      (simp_all add: calm_view calm_then [OF \<open>calm b _\<close>])
qed

lemma legacy_message_calm:
  "\<forall>h \<ge> tb_next b. cores b h = None \<Longrightarrow> calm b (handleLegacySensorMessage env now sn raw b)"
  by (auto simp: handleLegacySensorMessage_def sensor_message_session channel_branch_calm intro: calm_view split: option.split json.split)

lemma request_session: "sendRequest now i sn ty p b = Some b' \<Longrightarrow> session_view b' = session_view b"
  by (auto simp: sendRequest_def Let_def ws_send_def split: option.splits if_splits)

lemma timeout_session [simp]: "session_view (onRequestTimeout i b) = session_view b"
  by (simp add: onRequestTimeout_def Let_def split: option.split)

lemma auth_session [simp]: "session_view (handleUserConnection ws b) = session_view b" "session_view (onAuthTimeout ws b) = session_view b"
    "session_view (fst (onFirstMessage ws raw b)) = session_view b" "session_view (onConnectionClose ws b) = session_view b"
  by (simp_all add: handleUserConnection_def onAuthTimeout_def onFirstMessage_def onConnectionClose_def Let_def split: option.split json.split)

lemma lookup_session [simp]: "session_view (onSessionLookup now ws found b) = session_view b"
proof -
  have start: "session_view b3 = session_view b2" if "startSessionWithId now ty ws u t sn i b2 = (b3, x)" for ty u t sn i b2 b3 x
    using user_views(2) [of now ty ws u t sn i b2] that by simp
  show ?thesis
    by (auto simp: onSessionLookup_def Let_def start split: sum.split option.split prod.split dest!: session_send)
qed

lemma heartbeat_session [simp]: "session_view (heartbeatMonitor now b) = session_view b"
proof -
  have "session_view (fold (check_user now) us b) = session_view b" for us b
    by (rule fold_same) (simp add: check_user_def split: option.split)
  moreover have "session_view (fold (\<lambda>(sn, t) b. if HEARTBEAT_TIMEOUT < now - tu_lastHeartbeat t
            then handleSensorDisconnect now sn e b else b) ts b) = session_view b" for ts b e
    by (rule fold_same) (simp split: prod.split)
  ultimately show ?thesis by (simp add: heartbeatMonitor_def Let_def)
qed


section \<open>The tables of sessions agree and respect the limits\<close>

definition on_channel :: "broker \<Rightarrow> tunnel_channel \<Rightarrow> string \<Rightarrow> bool" where
  "on_channel b c i \<longleftrightarrow> (\<exists>h i' sn f. jm_get (tb_sessions b) i = Some h \<and> cores b h = Some (i', sn, c, f))"

lemma channel_count_cores: "channel_count b ids c = length (filter (on_channel b c) ids)"
proof -
  have "(case Option.bind (jm_get (tb_sessions b) i) (jm_get (tb_objects b)) of None \<Rightarrow> False | Some s \<Rightarrow> ch_channel s = c) = on_channel b c i" for i
    by (auto simp: on_channel_def cores_def session_core_def split: option.split bind_split)
  then show ?thesis by (simp add: channel_count_def)
qed

definition within_limits :: "tunnel_env \<Rightarrow> broker \<Rightarrow> string list \<Rightarrow> bool" where
  "within_limits env b ids \<longleftrightarrow> ids \<noteq> [] \<and> distinct ids \<and> length ids \<le> max 1 (te_maxSessionsPerSensor env) \<and>
     (\<forall>c. length (filter (on_channel b c) ids) \<le> max 1 (cl_maxSessionsPerSensor (te_rateLimits env c)))"

definition lists_session :: "broker \<Rightarrow> string \<Rightarrow> string \<Rightarrow> bool" where
  "lists_session b sn i \<longleftrightarrow> (\<exists>ids. jm_get (tb_sensorSessions b) sn = Some ids \<and> i \<in> set ids)"

definition sessions_ok :: "tunnel_env \<Rightarrow> string set \<Rightarrow> broker \<Rightarrow> bool" where
  "sessions_ok env used b \<longleftrightarrow> (\<forall>h \<ge> tb_next b. cores b h = None) \<and>
     (\<forall>i h. jm_get (tb_sessions b) i = Some h \<longrightarrow> i \<in> used \<and> (\<exists>sn c. cores b h = Some (i, sn, c, False) \<and> lists_session b sn i)) \<and>
     (\<forall>sn i. lists_session b sn i \<longrightarrow> (\<exists>h c. jm_get (tb_sessions b) i = Some h \<and> cores b h = Some (i, sn, c, False))) \<and>
     (\<forall>sn ids. jm_get (tb_sensorSessions b) sn = Some ids \<longrightarrow> within_limits env b ids)"

lemma sessions_okD:
  assumes "sessions_ok env used b"
  shows "h \<ge> tb_next b \<Longrightarrow> cores b h = None"
    "jm_get (tb_sessions b) i = Some h \<Longrightarrow> i \<in> used \<and> (\<exists>sn c. cores b h = Some (i, sn, c, False) \<and> lists_session b sn i)"
    "lists_session b sn i \<Longrightarrow> \<exists>h c. jm_get (tb_sessions b) i = Some h \<and> cores b h = Some (i, sn, c, False)"
    "jm_get (tb_sensorSessions b) sn = Some ids \<Longrightarrow> within_limits env b ids"
  using assms unfolding sessions_ok_def by blast+

lemma sessions_ok_calm:
  assumes ok: "sessions_ok env used b" and "calm b b'"
  shows "sessions_ok env used b'"
proof -
  from assms have same: "tb_sessions b' = tb_sessions b" "tb_sensorSessions b' = tb_sensorSessions b"
    and fresh: "\<forall>h \<ge> tb_next b'. cores b' h = None" and keeps: "\<And>h. keeps_core (cores b h) (cores b' h)"
    unfolding calm_def sessions_ok_def by blast+
  have core: "cores b' h = Some (i, sn, c, False)" if "cores b h = Some (i, sn, c, False)" for h i sn c
    using keeps [of h] that by (simp add: keeps_core_def)
  have lists: "lists_session b' = lists_session b" using same by (simp add: lists_session_def fun_eq_iff)
  have chan: "on_channel b' c i = on_channel b c i" for c i
  proof (cases "jm_get (tb_sessions b) i")
    case (Some h)
    with sessions_okD(2) [OF ok] obtain sn c' where "cores b h = Some (i, sn, c', False)" by blast
    with core [OF this] Some same show ?thesis by (simp add: on_channel_def)
  qed (simp add: on_channel_def same)
  then have "on_channel b' = on_channel b" by (simp add: fun_eq_iff)
  then have lim: "within_limits env b' ids = within_limits env b ids" for ids by (simp add: within_limits_def)
  show ?thesis unfolding sessions_ok_def same lists lim
  proof (intro conjI allI impI)
    fix i h assume "jm_get (tb_sessions b) i = Some h"
    from sessions_okD(2) [OF ok this] core show "i \<in> used" "\<exists>sn c. cores b' h = Some (i, sn, c, False) \<and> lists_session b sn i" by blast+
  next
    fix sn i assume "lists_session b sn i"
    from sessions_okD(3) [OF ok this] core show "\<exists>h c. jm_get (tb_sessions b) i = Some h \<and> cores b' h = Some (i, sn, c, False)" by blast
  qed (use fresh sessions_okD(4) [OF ok] in blast)+
qed

text \<open>Closing a session removes it from both tables.\<close>

definition closed_view :: "string \<Rightarrow> string \<Rightarrow> nat \<Rightarrow> broker \<Rightarrow> broker \<Rightarrow> bool" where
  "closed_view i sn h b b' \<longleftrightarrow> tb_next b' = tb_next b \<and> (\<forall>h'. h' \<noteq> h \<longrightarrow> cores b' h' = cores b h') \<and>
     (cores b h = None \<longrightarrow> cores b' h = None) \<and> (\<forall>j. jm_get (tb_sessions b') j = (if j = i then None else jm_get (tb_sessions b) j)) \<and>
     (\<forall>sn'. jm_get (tb_sensorSessions b') sn' = (if sn' = sn
        then Option.bind (jm_get (tb_sensorSessions b) sn) (\<lambda>ids. let rest = filter (\<lambda>j. j \<noteq> i) ids in if rest = [] then None else Some rest)
        else jm_get (tb_sensorSessions b) sn'))"


lemma update_view:
  "tb_sessions (updateSessionState h st b) = tb_sessions b" "tb_sensorSessions (updateSessionState h st b) = tb_sensorSessions b"
  "tb_next (updateSessionState h st b) = tb_next b" "h' \<noteq> h \<Longrightarrow> cores (updateSessionState h st b) h' = cores b h'"
  "cores b h = None \<Longrightarrow> cores (updateSessionState h st b) h = None"
  by (auto simp: updateSessionState_def tb_out_def on_object_def cores_def map_of_map_entry split: option.split)

lemma view_eqD:
  assumes "session_view b' = session_view b"
  shows "tb_sessions b' = tb_sessions b" "tb_sensorSessions b' = tb_sensorSessions b" "tb_next b' = tb_next b" "cores b' = cores b"
  using assms by (simp_all add: session_view_def)

lemma untrack_view:
  "tb_next (untrack i sn b) = tb_next b" "cores (untrack i sn b) = cores b" "tb_sessions (untrack i sn b) = jm_delete i (tb_sessions b)"
  "jm_get (tb_sensorSessions (untrack i sn b)) sn' = (if sn' = sn
      then Option.bind (jm_get (tb_sensorSessions b) sn) (\<lambda>ids. let rest = filter (\<lambda>j. j \<noteq> i) ids in if rest = [] then None else Some rest)
      else jm_get (tb_sensorSessions b) sn')"
  by (auto simp: untrack_def Let_def split: option.split)

lemma close_view:
  assumes "jm_get (tb_sessions b) i = Some h" "jm_get (tb_objects b) h = Some s" "ch_state s \<notin> {Closing, Shut}"
  shows "closed_view i (ch_sensorId s) h b (closeSession now i r b)"
proof -
  define b1 where "b1 = updateSessionState h Closing b"
  define b2 where "b2 = fst (tunnel_sendToClient h (session_closed_message s r now) b1)"
  define b3 where "b3 = (case ch_clientWs s of None \<Rightarrow> b2 | Some ws \<Rightarrow> close_if_open ws r b2)"
  define b4 where "b4 = (case ch_sensorWs s of None \<Rightarrow> b3 | Some ws \<Rightarrow> close_if_open ws r b3)"
  define b5 where "b5 = updateSessionState h Shut (untrack i (ch_sensorId s) b4)"
  have "session_view b2 = session_view b1" by (simp add: b2_def)
  then have "session_view b3 = session_view b1" by (simp add: b3_def split: option.split)
  then have "session_view b4 = session_view b1" by (simp add: b4_def split: option.split)
  note v4 = view_eqD [OF this]
  have "closed_view i (ch_sensorId s) h b b5"
    unfolding closed_view_def b5_def by (simp add: update_view untrack_view v4 b1_def)
  moreover have v5: "session_view (closeSession now i r b) = session_view b5"
  proof -
    have "closeSession now i r b = (case jm_get (tb_objects b5) h of None \<Rightarrow> b5
        | Some final \<Rightarrow> tb_out (Emit (Session_closed i (case r of None \<Rightarrow> ''Unknown'' | Some r \<Rightarrow> r)
            (ch_messagesSent final) (ch_messagesReceived final) (ch_bytesTransferred final))) b5)"
      unfolding closeSession_def Let_def b5_def b4_def b3_def b2_def b1_def using assms(3) by (simp only: assms(1,2) option.case if_False)
    then show ?thesis by (simp split: option.split)
  qed
  ultimately show ?thesis unfolding closed_view_def view_eqD [OF v5] by blast
qed

lemma closed_entry:
  assumes closed: "closed_view i sn h b b'" and "\<And>sn'. lists_session b sn' i \<Longrightarrow> sn' = sn"
    and "\<And>sn' ids. jm_get (tb_sensorSessions b) sn' = Some ids \<Longrightarrow> ids \<noteq> []"
  shows "jm_get (tb_sensorSessions b') sn' = Some ids' \<longleftrightarrow>
    (\<exists>ids. jm_get (tb_sensorSessions b) sn' = Some ids \<and> ids' = filter (\<lambda>j. j \<noteq> i) ids \<and> ids' \<noteq> [])"
proof (cases "sn' = sn")
  case True
  have "jm_get (tb_sensorSessions b') sn =
      Option.bind (jm_get (tb_sensorSessions b) sn) (\<lambda>ids. let rest = filter (\<lambda>j. j \<noteq> i) ids in if rest = [] then None else Some rest)"
    using closed by (simp add: closed_view_def)
  with True show ?thesis by (cases "jm_get (tb_sensorSessions b) sn") (auto simp: Let_def)
next
  case False
  then have "jm_get (tb_sensorSessions b') sn' = jm_get (tb_sensorSessions b) sn'" using closed by (simp add: closed_view_def)
  moreover have "filter (\<lambda>j. j \<noteq> i) ids = ids" if "jm_get (tb_sensorSessions b) sn' = Some ids" for ids
    using that assms(2) [of sn'] False by (auto simp: lists_session_def filter_id_conv)
  ultimately show ?thesis using assms(3) [of sn'] by (cases "jm_get (tb_sensorSessions b) sn'") auto
qed

lemma filter_twice_le: "length (filter P (filter Q xs)) \<le> length (filter P xs)"
  by (induction xs) auto

lemma sessions_ok_closed:
  assumes ok: "sessions_ok env used b" and i: "jm_get (tb_sessions b) i = Some h" "cores b h = Some (i, sn, c, False)"
    and closed: "closed_view i sn h b b'"
  shows "sessions_ok env used b'"
proof -
  have sess: "jm_get (tb_sessions b') j = (if j = i then None else jm_get (tb_sessions b) j)" for j using closed by (simp add: closed_view_def)
  have core: "cores b' h' = cores b h'" if "jm_get (tb_sessions b) j = Some h'" "j \<noteq> i" for j h'
  proof -
    from sessions_okD(2) [OF ok that(1)] i(2) that(2) have "h' \<noteq> h" by auto
    then show ?thesis using closed by (simp add: closed_view_def)
  qed
  have entry: "jm_get (tb_sensorSessions b') sn' = Some ids' \<longleftrightarrow>
      (\<exists>ids. jm_get (tb_sensorSessions b) sn' = Some ids \<and> ids' = filter (\<lambda>j. j \<noteq> i) ids \<and> ids' \<noteq> [])" for sn' ids'
  proof (rule closed_entry [OF closed])
    show "sn' = sn" if "lists_session b sn' i" for sn' using sessions_okD(3) [OF ok that] i by auto
    show "ids \<noteq> []" if "jm_get (tb_sensorSessions b) sn' = Some ids" for sn' ids
      using sessions_okD(4) [OF ok that] by (simp add: within_limits_def)
  qed
  have lists: "lists_session b' sn' j \<longleftrightarrow> j \<noteq> i \<and> lists_session b sn' j" for sn' j
    unfolding lists_session_def entry by (auto simp: filter_empty_conv)
  have chan: "on_channel b' c j \<Longrightarrow> on_channel b c j" for c j
    using core unfolding on_channel_def sess by (auto split: if_splits)
  show ?thesis unfolding sessions_ok_def
  proof (intro conjI allI impI)
    fix h' assume "tb_next b' \<le> h'"
    then have "cores b h' = None" using closed sessions_okD(1) [OF ok, of h'] by (simp add: closed_view_def)
    then show "cores b' h' = None" using closed by (cases "h' = h") (simp_all add: closed_view_def)
  next
    fix j h' assume "jm_get (tb_sessions b') j = Some h'"
    then have j: "jm_get (tb_sessions b) j = Some h'" "j \<noteq> i" by (simp_all add: sess split: if_splits)
    from sessions_okD(2) [OF ok j(1)] j show "j \<in> used" "\<exists>sn c. cores b' h' = Some (j, sn, c, False) \<and> lists_session b' sn j"
      by (simp_all add: core [OF j] lists)
  next
    fix sn' j assume "lists_session b' sn' j"
    then have j: "j \<noteq> i" "lists_session b sn' j" by (simp_all add: lists)
    from sessions_okD(3) [OF ok j(2)] obtain h' c' where h': "jm_get (tb_sessions b) j = Some h'" "cores b h' = Some (j, sn', c', False)" by blast
    with j core [OF h'(1) j(1)] show "\<exists>h c. jm_get (tb_sessions b') j = Some h \<and> cores b' h = Some (j, sn', c, False)" by (simp add: sess)
  next
    fix sn' ids' assume "jm_get (tb_sensorSessions b') sn' = Some ids'"
    then obtain ids where ids: "jm_get (tb_sensorSessions b) sn' = Some ids" "ids' = filter (\<lambda>j. j \<noteq> i) ids" "ids' \<noteq> []" unfolding entry by blast
    have lim: "within_limits env b ids" by (rule sessions_okD(4) [OF ok ids(1)])
    have "length (filter (on_channel b' c) ids') \<le> length (filter (on_channel b c) ids)" for c
    proof -
      have "length (filter (on_channel b' c) ids') \<le> length (filter (on_channel b c) ids')"
        by (induction ids') (auto dest: chan)
      also have "\<dots> \<le> length (filter (on_channel b c) ids)" unfolding ids(2) by (rule filter_twice_le)
      finally show ?thesis .
    qed
    moreover have "length ids' \<le> length ids" by (simp add: ids(2))
    ultimately show "within_limits env b' ids'" using lim ids(2,3) unfolding within_limits_def by (meson distinct_filter order_trans)
  qed
qed


lemma close_ok:
  assumes ok: "sessions_ok env used b"
  shows "sessions_ok env used (closeSession now i r b)"
proof (cases "jm_get (tb_sessions b) i")
  case (Some h)
  with sessions_okD(2) [OF ok] obtain sn c where core: "cores b h = Some (i, sn, c, False)" by blast
  then obtain s where s: "jm_get (tb_objects b) h = Some s" "ch_sensorId s = sn" "ch_state s \<notin> {Closing, Shut}"
    by (auto simp: cores_def session_core_def)
  show ?thesis using sessions_ok_closed [OF ok Some core] close_view [OF Some s(1,3)] s(2) by blast
qed (use ok in \<open>simp add: closeSession_def\<close>)

lemma created_ok:
  assumes ok: "sessions_ok env used b" and new: "i \<notin> used" and core: "session_core s = (i, sn, c, False)"
    and ids: "ids = (case jm_get (tb_sensorSessions b) sn of None \<Rightarrow> [] | Some ids \<Rightarrow> ids)"
    and room: "ids \<noteq> [] \<Longrightarrow> length ids < te_maxSessionsPerSensor env \<and>
      length (filter (on_channel b c) ids) < cl_maxSessionsPerSensor (te_rateLimits env c)"
    and b': "b' = b\<lparr>tb_objects := jm_set (tb_next b) s (tb_objects b), tb_next := Suc (tb_next b), tb_sessions := jm_set i (tb_next b) (tb_sessions b),
      tb_sensorSessions := jm_set sn (ids @ [i]) (tb_sensorSessions b)\<rparr>"
  shows "sessions_ok env (insert i used) b'"
proof -
  have cores: "cores b' h = (if h = tb_next b then Some (i, sn, c, False) else cores b h)" for h
    using core by (simp add: b' cores_def)
  have fresh: "cores b (tb_next b) = None" using sessions_okD(1) [OF ok] by simp
  have old: "jm_get (tb_sessions b) i = None" using sessions_okD(2) [OF ok] new by (cases "jm_get (tb_sessions b) i") auto
  have unlisted: "\<not> lists_session b sn' i" for sn' using sessions_okD(3) [OF ok, of sn' i] old by auto
  have sess: "jm_get (tb_sessions b') j = (if j = i then Some (tb_next b) else jm_get (tb_sessions b) j)" for j by (simp add: b')
  have lists: "lists_session b' sn' j \<longleftrightarrow> sn' = sn \<and> j = i \<or> lists_session b sn' j" for sn' j
    using ids by (auto simp: b' lists_session_def split: option.splits)
  have at: "h \<noteq> tb_next b" if "jm_get (tb_sessions b) j = Some h" for j h
    using sessions_okD(2) [OF ok that] fresh by auto
  have chan: "on_channel b' c' j \<longleftrightarrow> (if j = i then c' = c else on_channel b c' j)" for c' j
    using at [of j] by (auto simp: on_channel_def sess cores)
  have same: "filter (on_channel b' c') js = filter (on_channel b c') js" if "i \<notin> set js" for js c'
    using that by (intro filter_cong) (auto simp: chan)
  show ?thesis unfolding sessions_ok_def
  proof (intro conjI allI impI)
    fix h assume "tb_next b' \<le> h"
    then show "cores b' h = None" using sessions_okD(1) [OF ok, of h] by (simp add: cores) (simp add: b')
  next
    fix j h assume j: "jm_get (tb_sessions b') j = Some h"
    show "j \<in> insert i used" "\<exists>sn c. cores b' h = Some (j, sn, c, False) \<and> lists_session b' sn j"
      using sessions_okD(2) [OF ok, of j h] j at [of j h] by (auto simp: sess cores lists split: if_splits)
  next
    fix sn' j assume "lists_session b' sn' j"
    then show "\<exists>h c. jm_get (tb_sessions b') j = Some h \<and> cores b' h = Some (j, sn', c, False)"
      using sessions_okD(3) [OF ok, of sn' j] unlisted [of sn'] at [of j] unfolding lists sess cores by auto
  next
    fix sn' js assume js: "jm_get (tb_sensorSessions b') sn' = Some js"
    show "within_limits env b' js"
    proof (cases "sn' = sn")
      case False
      with js have js': "jm_get (tb_sensorSessions b) sn' = Some js" by (simp add: b')
      then have "i \<notin> set js" using unlisted [of sn'] by (simp add: lists_session_def)
      then show ?thesis using sessions_okD(4) [OF ok js'] by (simp add: within_limits_def same)
    next
      case True
      then have js': "js = ids @ [i]" using js by (simp add: b')
      have i: "i \<notin> set ids" using unlisted [of sn] ids by (auto simp: lists_session_def split: option.splits)
      have lim: "ids = [] \<or> within_limits env b ids" using sessions_okD(4) [OF ok] ids by (auto split: option.splits)
      have "length (filter (on_channel b' c') js) \<le> max 1 (cl_maxSessionsPerSensor (te_rateLimits env c'))" for c'
        using lim room by (cases "ids = []") (auto simp: js' same [OF i] chan within_limits_def)
      then show ?thesis using lim room i by (cases "ids = []") (auto simp: js' within_limits_def)
    qed
  qed
qed


lemma create_ok:
  assumes ok: "sessions_ok env used b" and new: "i \<notin> used"
  shows "sessions_ok env (insert i used) (fst (createSession env now sn c ws t u i b))"
proof -
  have more: "sessions_ok env (insert i used) b" using ok unfolding sessions_ok_def by blast
  define ids where "ids = (case jm_get (tb_sensorSessions b) sn of None \<Rightarrow> [] | Some ids \<Rightarrow> ids)"
  define s where "s = \<lparr> ch_sessionId = i, ch_channel = c, ch_clientWs = Some ws, ch_sensorWs = None,
                 ch_sensorId = sn, ch_tenantId = t, ch_userId = u, ch_state = Starting, ch_createdAt = now,
                 ch_lastActivityAt = now, ch_messagesSent = 0, ch_messagesReceived = 0, ch_bytesTransferred = 0,
                 ch_messageTimestamps = [], ch_bytesInWindow = 0, ch_windowStart = now \<rparr>"
  define b' where "b' = b\<lparr>tb_objects := jm_set (tb_next b) s (tb_objects b), tb_next := Suc (tb_next b),
      tb_sessions := jm_set i (tb_next b) (tb_sessions b), tb_sensorSessions := jm_set sn (ids @ [i]) (tb_sensorSessions b)\<rparr>"
  have "i \<notin> set ids"
  proof
    assume "i \<in> set ids"
    then have "lists_session b sn i" by (cases "jm_get (tb_sensorSessions b) sn") (simp_all add: ids_def lists_session_def)
    then show False using sessions_okD(2,3) [OF ok] new by blast
  qed
  then have run: "fst (createSession env now sn c ws t u i b) =
      (if (case jm_get (tb_sensorSessions b) sn of None \<Rightarrow> False
            | Some js \<Rightarrow> cl_maxSessionsPerSensor (te_rateLimits env c) \<le> channel_count b js c \<or> te_maxSessionsPerSensor env \<le> length js)
       then b else tb_out (Emit (Session_created i sn c)) b')"
    by (simp add: createSession_def Let_def b'_def s_def ids_def [symmetric])
  show ?thesis
  proof (cases "fst (createSession env now sn c ws t u i b) = b")
    case False
    then have room: "ids \<noteq> [] \<Longrightarrow> length ids < te_maxSessionsPerSensor env \<and>
        length (filter (on_channel b c) ids) < cl_maxSessionsPerSensor (te_rateLimits env c)"
      unfolding run by (cases "jm_get (tb_sensorSessions b) sn") (auto simp: ids_def channel_count_cores split: if_splits)
    have "sessions_ok env (insert i used) b'"
      by (rule created_ok [OF ok new _ ids_def room b'_def]) (simp_all add: s_def session_core_def)
    then have "sessions_ok env (insert i used) (tb_out (Emit (Session_created i sn c)) b')" by (rule sessions_ok_calm) (simp add: calm_view)
    with False run show ?thesis by (auto split: if_splits)
  qed (use more in simp)
qed

lemma client_message_ok:
  assumes ok: "sessions_ok env used b"
  shows "sessions_ok env used (onClientMessage env' now ok' h raw b)"
proof -
  have session: "sessions_ok env used (handleSessionMessage env' now h s d b)" if "sessions_ok env used b" for s d b
    using that by (auto simp: handleSessionMessage_def close_ok calm_view intro: sessions_ok_calm [OF _ calm_view]
        sessions_ok_calm [OF _ calm_then [OF calm_update [of Active]]] split: sum.split)
  have client: "sessions_ok env used (handleClientMessage env' now ok' h s d b)" if "sessions_ok env used b" for s d b
  proof -
    have "session_view (on_object h (\<lambda>s. s\<lparr>ch_lastActivityAt := now\<rparr>) b) = session_view b"
      by (rule object_session_view) (simp add: session_core_def)
    then have "sessions_ok env used (on_object h (\<lambda>s. s\<lparr>ch_lastActivityAt := now\<rparr>) b)" using that calm_view sessions_ok_calm by blast
    then show ?thesis
      by (auto simp: handleClientMessage_def Let_def session intro: sessions_ok_calm [OF _ calm_view] split: sum.split)
  qed
  show ?thesis
  proof (cases "jm_get (tb_objects b) h")
    case (Some s)
    obtain s' r where s': "checkAndUpdate now (te_rateLimits env' (ch_channel s)) (int (length raw)) s = (s', r)" by (rule prod.exhaust)
    have "calm b (on_object h (\<lambda>_. s') b)"
      by (rule calm_object) (use Some checkAndUpdate_core [OF s'] in simp)
    then have "sessions_ok env used (on_object h (\<lambda>_. s') b)" by (rule sessions_ok_calm [OF ok])
    then show ?thesis using Some s'
      by (cases r) (auto simp: onClientMessage_def Let_def client intro: sessions_ok_calm [OF _ calm_view] split: option.split)
  qed (use ok in \<open>simp add: onClientMessage_def\<close>)
qed


lemma closes_ok:
  assumes "sessions_ok env used b"
  shows "sessions_ok env used (fold (\<lambda>i. closeSession now i r) ids b)"
  by (rule fold_keeps [where P = "sessions_ok env used"]) (auto simp: assms close_ok)

text \<open>Once all the sessions that a sensor lists are closed, the sensor has no entry any more.\<close>

lemma close_lists:
  assumes ok: "sessions_ok env used b"
  shows "lists_session (closeSession now i r b) sn j \<Longrightarrow> j \<noteq> i \<and> lists_session b sn j"
proof (cases "jm_get (tb_sessions b) i")
  case None
  assume "lists_session (closeSession now i r b) sn j"
  with None show ?thesis using sessions_okD(3) [OF ok, of sn j] by (auto simp: closeSession_def)
next
  case (Some h)
  assume j: "lists_session (closeSession now i r b) sn j"
  from Some sessions_okD(2) [OF ok] obtain sn' c where core: "cores b h = Some (i, sn', c, False)" by blast
  then obtain s where s: "jm_get (tb_objects b) h = Some s" "ch_sensorId s = sn'" "ch_state s \<notin> {Closing, Shut}"
    by (auto simp: cores_def session_core_def)
  have "closed_view i sn' h b (closeSession now i r b)" using close_view [OF Some s(1,3)] s(2) by blast
  then have gone: "jm_get (tb_sessions (closeSession now i r b)) i = None"
    and listed: "lists_session (closeSession now i r b) sn j \<Longrightarrow> lists_session b sn j"
    by (auto simp: closed_view_def lists_session_def Let_def split: if_splits bind_splits)
  then show ?thesis using sessions_okD(3) [OF close_ok [OF ok] j] listed [OF j] by auto
qed

lemma closes_lists:
  assumes "sessions_ok env used b" "lists_session (fold (\<lambda>i. closeSession now i r) ids b) sn j"
  shows "j \<notin> set ids \<and> lists_session b sn j"
  using assms
proof (induction ids arbitrary: b)
  case (Cons i ids)
  from Cons.IH [of "closeSession now i r b"] Cons.prems close_ok [OF Cons.prems(1), of now i r]
  have "j \<notin> set ids \<and> lists_session (closeSession now i r b) sn j" by simp
  then show ?case using close_lists [OF Cons.prems(1), of now i r sn j] by simp
qed simp

lemma cleanup_sensor_sessions_ok:
  assumes ok: "sessions_ok env used b"
  shows "sessions_ok env used (cleanupSensor now sn b)"
proof (cases "jm_get (tb_sensorSessions b) sn")
  case None
  then have "session_view (cleanupSensor now sn b) = session_view b" by (simp add: cleanupSensor_def)
  then show ?thesis using ok calm_view sessions_ok_calm by blast
next
  case (Some ids)
  let ?b1 = "fold (\<lambda>i. closeSession now i (Some ''Sensor cleanup'')) ids b"
  note ok1 = closes_ok [OF ok, of now "Some ''Sensor cleanup''" ids]
  have "jm_get (tb_sensorSessions ?b1) sn = None"
  proof (rule ccontr)
    assume "jm_get (tb_sensorSessions ?b1) sn \<noteq> None"
    then obtain js where js: "jm_get (tb_sensorSessions ?b1) sn = Some js" by blast
    from sessions_okD(4) [OF ok1 js] obtain j where "j \<in> set js" by (cases js) (auto simp: within_limits_def)
    with js have "lists_session ?b1 sn j" by (simp add: lists_session_def)
    from closes_lists [OF ok this] Some show False by (simp add: lists_session_def)
  qed
  then have "jm_delete sn (tb_sensorSessions ?b1) = tb_sensorSessions ?b1" by (simp add: jm_has_get delete_id)
  then have "session_view (cleanupSensor now sn b) = session_view ?b1" using Some by (simp add: cleanupSensor_def Let_def)
  then show ?thesis using ok1 calm_view sessions_ok_calm by blast
qed

lemma stale_ok:
  assumes "sessions_ok env used b"
  shows "sessions_ok env used (cleanupStaleSessions env' now b)"
  unfolding cleanupStaleSessions_def
  by (rule fold_keeps [where P = "sessions_ok env used"]) (auto simp: assms close_ok split: option.split)

lemma shutdown_sessions_ok:
  assumes ok: "sessions_ok env used b"
  shows "sessions_ok env used (tunnel_shutdown now b)"
proof -
  have ok1: "sessions_ok env used (tunnel_stop now b)" unfolding tunnel_stop_def by (rule closes_ok [OF ok])
  have "session_view (fold (\<lambda>i. endUserSession now i r) us b) = session_view b" for r us b by (rule fold_same) simp
  moreover have "session_view (fold (\<lambda>i. handleSensorDisconnect now i r) ts b) = session_view b" for r ts b by (rule fold_same) simp
  ultimately have "session_view (tunnel_shutdown now b) = session_view (tunnel_stop now b)" by (simp add: tunnel_shutdown_def Let_def)
  then show ?thesis using ok1 calm_view sessions_ok_calm by blast
qed

lemma client_close_ok: "sessions_ok env used b \<Longrightarrow> sessions_ok env used (onClientClose now h failed b)"
  by (simp add: onClientClose_def close_ok split: option.split)

lemma stop_ok: "sessions_ok env used b \<Longrightarrow> sessions_ok env used (tunnel_stop now b)"
  unfolding tunnel_stop_def by (rule closes_ok)

fun created_by :: "tunnel_op \<Rightarrow> string list" where
  "created_by (Op_create now sn c ws t u i) = [i]"
| "created_by op = []"

lemma request_op_session: "session_view (case sendRequest now i sn ty p b of None \<Rightarrow> b | Some b' \<Rightarrow> b') = session_view b"
  using request_session by (simp split: option.split)

lemma handler_session [simp]: "session_view (onChannelMessage ch b) = session_view b"
  by (simp add: onChannelMessage_def)

lemma step_sessions_ok:
  assumes ok: "sessions_ok env used b" and "created_by op = []"
  shows "sessions_ok env used (tunnel_step env op b)"
proof (cases "session_view (tunnel_step env op b) = session_view b")
  case True
  then show ?thesis using ok calm_view sessions_ok_calm by blast
next
  case False
  have fresh: "\<forall>h \<ge> tb_next b. cores b h = None" using ok by (simp add: sessions_ok_def)
  note steps = close_ok client_message_ok client_close_ok stop_ok stale_ok cleanup_sensor_sessions_ok shutdown_sessions_ok
  from False assms show ?thesis
    by (cases op) (simp_all add: onSensorSocketClose_def request_op_session steps
        sessions_ok_calm [OF ok register_calm] sessions_ok_calm [OF ok legacy_message_calm [OF fresh]])
qed


lemma run_sessions_ok:
  assumes "sessions_ok env used b" "distinct (concat (map created_by ops))" "set (concat (map created_by ops)) \<inter> used = {}"
  shows "sessions_ok env (used \<union> set (concat (map created_by ops))) (fold (tunnel_step env) ops b)"
  using assms
proof (induction ops arbitrary: used b)
  case (Cons op ops)
  have "sessions_ok env (used \<union> set (created_by op)) (tunnel_step env op b)"
  proof (cases "created_by op = []")
    case True
    then show ?thesis using step_sessions_ok [OF Cons.prems(1) True] by simp
  next
    case False
    then obtain now sn c ws t u i where op: "op = Op_create now sn c ws t u i" by (cases op) simp_all
    with Cons.prems(3) have "i \<notin> used" by simp
    then show ?thesis using create_ok [OF Cons.prems(1), of i] op by simp
  qed
  from Cons.IH [OF this] Cons.prems(2,3) show ?case by (simp add: Un_assoc Int_Un_distrib Int_Un_distrib2 Int_commute)
qed simp

lemma map_filter_found: "(\<And>x. x \<in> set xs \<Longrightarrow> f x \<noteq> None) \<Longrightarrow> List.map_filter f xs = map (\<lambda>x. the (f x)) xs"
  by (induction xs) (auto simp: map_filter_simps split: option.splits)

lemma listed_session:
  assumes "sessions_ok env used b" "lists_session b sn i"
  obtains s where "tunnel_getSession i b = Some s" "ch_sessionId s = i" "ch_sensorId s = sn" "ch_state s \<notin> {Closing, Shut}"
    "\<And>c. on_channel b c i \<longleftrightarrow> ch_channel s = c"
  using sessions_okD(3) [OF assms] by (auto simp: tunnel_getSession_def cores_def session_core_def on_channel_def)

lemma sensor_sessions:
  assumes ok: "sessions_ok env used b" and ids: "jm_get (tb_sensorSessions b) sn = Some ids"
  shows "length (getSensorSessions sn b) = length ids"
    "length (filter (\<lambda>s. ch_channel s = c) (getSensorSessions sn b)) = length (filter (on_channel b c) ids)"
    "set (getSensorSessions sn b) = {s. \<exists>i \<in> set ids. tunnel_getSession i b = Some s}"
proof -
  have found: "\<exists>s. tunnel_getSession i b = Some s \<and> (\<forall>c. on_channel b c i \<longleftrightarrow> ch_channel s = c)" if "i \<in> set ids" for i
  proof -
    from ids that have "lists_session b sn i" by (simp add: lists_session_def)
    then show ?thesis by (rule listed_session [OF ok]) blast
  qed
  then have eq: "getSensorSessions sn b = map (\<lambda>i. the (tunnel_getSession i b)) ids"
    using ids by (auto simp: getSensorSessions_def intro!: map_filter_found)
  show "length (getSensorSessions sn b) = length ids" by (simp add: eq)
  show "set (getSensorSessions sn b) = {s. \<exists>i \<in> set ids. tunnel_getSession i b = Some s}" using found by (force simp: eq)
  have "filter ((\<lambda>s. ch_channel s = c) \<circ> (\<lambda>i. the (tunnel_getSession i b))) ids = filter (on_channel b c) ids"
    using found by (intro filter_cong) fastforce+
  then show "length (filter (\<lambda>s. ch_channel s = c) (getSensorSessions sn b)) = length (filter (on_channel b c) ids)"
    by (simp add: eq filter_map)
qed

text \<open>
  C24: The session limits. When session ids are not reused, a sensor never has more open channel sessions than allowed,
  neither in total nor on one channel (a first session is accepted whatever the limit, hence the maximum with 1), and the
  sessions that a sensor lists are exactly the open sessions of that sensor, none of which is closing or closed.
\<close>

theorem tunnel_sessions_bounded:
  assumes b_def: "b = tunnel_run env ops" and "distinct (concat (map created_by ops))"
  shows "length (getSensorSessions sn b) \<le> max 1 (te_maxSessionsPerSensor env) \<and>
    length (filter (\<lambda>s. ch_channel s = c) (getSensorSessions sn b)) \<le> max 1 (cl_maxSessionsPerSensor (te_rateLimits env c)) \<and>
    (\<forall>s. s \<in> set (getSensorSessions sn b) \<longleftrightarrow> (\<exists>i. tunnel_getSession i b = Some s) \<and> ch_sensorId s = sn) \<and>
    (\<forall>i s. tunnel_getSession i b = Some s \<longrightarrow> ch_sessionId s = i \<and> ch_state s \<notin> {Closing, Shut})"
proof -
  have "sessions_ok env {} newBroker" by (simp add: sessions_ok_def cores_def lists_session_def newBroker_def)
  from run_sessions_ok [OF this assms(2)] obtain used where ok: "sessions_ok env used b" by (auto simp: b_def tunnel_run_def)
  have mapped: "ch_sessionId s = i \<and> ch_state s \<notin> {Closing, Shut} \<and> lists_session b (ch_sensorId s) i" if "tunnel_getSession i b = Some s" for i s
  proof -
    from that obtain h where h: "jm_get (tb_sessions b) i = Some h" "jm_get (tb_objects b) h = Some s"
      by (auto simp: tunnel_getSession_def split: bind_splits)
    with sessions_okD(2) [OF ok h(1)] show ?thesis by (auto simp: cores_def session_core_def)
  qed
  have sets: "s \<in> set (getSensorSessions sn b) \<longleftrightarrow> (\<exists>i. tunnel_getSession i b = Some s) \<and> ch_sensorId s = sn" for s
  proof (cases "jm_get (tb_sensorSessions b) sn")
    case None
    then show ?thesis using mapped [of _ s] by (auto simp: getSensorSessions_def lists_session_def)
  next
    case (Some ids)
    have "ch_sensorId s = sn" if "i \<in> set ids" "tunnel_getSession i b = Some s" for i
      using listed_session [OF ok, of sn i] that Some by (auto simp: lists_session_def)
    with mapped [of _ s] Some show ?thesis unfolding sensor_sessions(3) [OF ok Some] by (auto simp: lists_session_def)
  qed
  have "length (getSensorSessions sn b) \<le> max 1 (te_maxSessionsPerSensor env) \<and>
      length (filter (\<lambda>s. ch_channel s = c) (getSensorSessions sn b)) \<le> max 1 (cl_maxSessionsPerSensor (te_rateLimits env c))"
  proof (cases "jm_get (tb_sensorSessions b) sn")
    case (Some ids)
    with sessions_okD(4) [OF ok Some] show ?thesis by (simp add: sensor_sessions [OF ok Some] within_limits_def)
  qed (simp add: getSensorSessions_def)
  with sets mapped show ?thesis by blast
qed


theorem tunnel_sessions_bounded_witness:
  "let ops = map (\<lambda>i. Op_create 0 ''s'' Shell 1 ''t'' ''u'' i) [''a'', ''b'', ''c'', ''d'', ''e''];
       b = tunnel_run sample_tunnel_env ops
   in length (getSensorSessions ''s'' b) = 3 \<and>
      length (filter (\<lambda>s. ch_channel s = Shell) (getSensorSessions ''s'' b)) \<le> max 1 (cl_maxSessionsPerSensor (te_rateLimits sample_tunnel_env Shell))"
proof -
  let ?ops = "map (\<lambda>i. Op_create 0 ''s'' Shell 1 ''t'' ''u'' i) [''a'', ''b'', ''c'', ''d'', ''e'']"
  have "length (getSensorSessions ''s'' (tunnel_run sample_tunnel_env ?ops)) = 3" by code_simp
  moreover have "distinct (concat (map created_by ?ops))" by simp
  from tunnel_sessions_bounded [OF refl this, of "''s''" sample_tunnel_env Shell]
  have "length (filter (\<lambda>s. ch_channel s = Shell) (getSensorSessions ''s'' (tunnel_run sample_tunnel_env ?ops))) \<le>
      max 1 (cl_maxSessionsPerSensor (te_rateLimits sample_tunnel_env Shell))" by blast
  ultimately show ?thesis unfolding Let_def by blast
qed

section \<open>Error messages of sensors\<close>

text \<open>The parsed legacy message has no channel, so the branch for channel messages is never taken.\<close>

lemma map_filter_fields:
  "map_of (List.map_filter (\<lambda>k. map_option (Pair k) (f k)) ks) k = (if k \<in> set ks then f k else None)"
  by (induction ks) (auto simp: map_filter_simps split: option.split)

lemma legacy_fields:
  assumes "LegacyTunnelMessageSchema v = Some m"
  shows "json_field k m = (if k \<in> {''type'', ''sessionId'', ''requestId'', ''payload'', ''timestamp''} then json_field k v else None)"
proof -
  let ?ks = "[''type'', ''sessionId'', ''requestId'', ''payload'', ''timestamp'']"
  from assms obtain ps where v: "v = JObj ps" by (cases v) (simp_all add: LegacyTunnelMessageSchema_def)
  have "m = JObj (List.map_filter (\<lambda>k. map_option (Pair k) (json_field k v)) ?ks)"
    using assms unfolding LegacyTunnelMessageSchema_def v json.case by (simp only: option.inject option.distinct split: if_splits)
  then have "json_field k m = (if k \<in> set ?ks then json_field k v else None)" by (simp only: json_field.simps map_filter_fields)
  then show ?thesis by (simp only: list.set)
qed

lemma legacy_message_cases:
  "handleLegacySensorMessage env now sn raw b =
     (case Option.bind (JSON_parse raw) LegacyTunnelMessageSchema of None \<Rightarrow> b | Some m \<Rightarrow> sensor_message now sn m b)"
proof (cases "Option.bind (JSON_parse raw) LegacyTunnelMessageSchema")
  case (Some m)
  then obtain v where "LegacyTunnelMessageSchema v = Some m" by (auto split: bind_splits)
  from legacy_fields [OF this, of "''channel''"] Some show ?thesis by (simp add: handleLegacySensorMessage_def)
qed (simp add: handleLegacySensorMessage_def)


lemma end_user_closes:
  assumes "jm_get (tb_users b) i = Some u"
  shows "us_socket u \<notin> set (tb_open (endUserSession now i r b)) \<and> last (tb_log (endUserSession now i r b)) = Emit (User_ended i r)"
  using assms by (simp add: endUserSession_def Let_def tb_out_def close_if_open_def ws_close_def)

text \<open>
  C40: An \<^verbatim>\<open>error\<close> message of any sensor ends the user session that it names, whatever sensor and tenant the session
  belongs to: the session is removed and the user's socket closed. (Data messages for a session of another sensor
  are dropped.)
\<close>

theorem sensor_error_ends_any_session:
  assumes "JSON_parse raw = Some v" "v = JObj ps" "json_field ''type'' v = Some (JStr ''error'')" "short_text (json_field ''timestamp'' v)"
    "json_field ''sessionId'' v = Some (JStr i)" "i \<noteq> []" "utf16_length i \<le> 64" "json_field ''requestId'' v = None"
    "jm_get (tb_pending b) i = None" "jm_get (tb_users b) i = Some u"
  shows "jm_get (tb_users (handleLegacySensorMessage env now sn raw b)) i = None \<and>
    us_socket u \<notin> set (tb_open (handleLegacySensorMessage env now sn raw b)) \<and>
    last (tb_log (handleLegacySensorMessage env now sn raw b)) = Emit (User_ended i ''Sensor error'') \<and>
    (\<forall>m. json_text (json_field ''sessionId'' m) = Some i \<and> us_sensorId u \<noteq> sn \<longrightarrow> routeToUser now sn m b = b)"
proof -
  have "short_text (Some (JStr ''error''))" by code_simp
  then obtain m where m: "LegacyTunnelMessageSchema v = Some m"
    using assms by (auto simp: LegacyTunnelMessageSchema_def short_text_def)
  note f = legacy_fields [OF m]
  have fields: "json_text (json_field ''type'' m) = Some ''error''" "json_text (json_field ''sessionId'' m) = Some i"
    "correlation_id m = Some i"
    using assms(3,5,8) by (simp_all add: f json_text_def correlation_id_def str_truthy_def)
  then have "handleSensorResponse sn m b = (b, False)" using assms(9) by (simp add: handleSensorResponse_def Let_def)
  then have "handleLegacySensorMessage env now sn raw b = endUserSession now i ''Sensor error'' (tb_out (Emit (Tunnel_message sn m)) b)"
    using fields assms(1,6) m by (simp add: legacy_message_cases sensor_message_def routed_types_def str_truthy_def Let_def)
  moreover have "jm_get (tb_users (tb_out (Emit (Tunnel_message sn m)) b)) i = Some u" using assms(10) by (simp add: tb_out_def)
  ultimately show ?thesis using end_user_closes [of "tb_out (Emit (Tunnel_message sn m)) b" i u now "''Sensor error''"] assms(10)
    by (auto simp: routeToUser_def Let_def str_truthy_def)
qed

definition error_text :: string where
  "error_text = JSON_stringify (JObj [(''type'', JStr ''error''), (''sessionId'', JStr ''i''), (''timestamp'', JStr ''now'')])"

theorem sensor_error_ends_any_session_witness:
  "let b = tunnel_run sample_tunnel_env sample_tunnel_ops in
     jm_get (tb_users b) ''i'' \<noteq> None \<and> jm_get (tb_users (handleLegacySensorMessage sample_tunnel_env 1 ''other'' error_text b)) ''i'' = None"
proof -
  let ?b = "tunnel_run sample_tunnel_env sample_tunnel_ops"
  let ?v = "JObj [(''type'', JStr ''error''), (''sessionId'', JStr ''i''), (''timestamp'', JStr ''now'')]"
  have parsed: "JSON_parse error_text = Some ?v" by code_simp
  have time: "short_text (json_field ''timestamp'' ?v)" by code_simp
  have len: "utf16_length ''i'' \<le> 64" by code_simp
  have none: "jm_get (tb_pending ?b) ''i'' = None" by code_simp
  have "jm_get (tb_users ?b) ''i'' \<noteq> None" by code_simp
  then obtain u where u: "jm_get (tb_users ?b) ''i'' = Some u" by blast
  from sensor_error_ends_any_session [OF parsed refl _ time _ _ len _ none u, of sample_tunnel_env 1 "''other''"]
  have "jm_get (tb_users (handleLegacySensorMessage sample_tunnel_env 1 ''other'' error_text ?b)) ''i'' = None" by simp
  with u show ?thesis by (simp add: Let_def)
qed

end
