(* ===== verification/Spec2Isabelle.thy ===== *)
theory Spec2Isabelle
  imports Semaphore Ws_Rate_Limiter Fixed_Window Replay_Protection Retry_Buffer Command_Sender Rollout
    Scopes Signal_Storage Auth Broadcaster Blue_Green_Switch Tunnel_Sessions
begin

text \<open>
  Signal Horizon: a verification of the API service of the Horizon security platform
  (\<^verbatim>\<open>src/apps/signal-horizon/api/src\<close>, TypeScript; the paths below are relative to it).

  \<^bold>\<open>The program.\<close> Sensors of many tenants report threat signals to the API. The \<^emph>\<open>ingestion path\<close> queues and
  deduplicates them (\<^verbatim>\<open>services/aggregator\<close>), stores each under the tenant's sharing preference, groups them into
  cross-tenant campaigns (\<^verbatim>\<open>services/correlator\<close>) and announces campaigns and blocks to sensors and dashboards
  (\<^verbatim>\<open>services/broadcaster\<close>); writes to ClickHouse that fail go through a retry buffer (\<^verbatim>\<open>storage/clickhouse\<close>). The
  \<^emph>\<open>fleet path\<close> pushes commands, rules and firmware to sensors: the rule distributor and the rollout orchestrator
  decide which sensors get what and when, the fleet commander records each command in the database, and the
  command sender keeps at most one command per sensor on the wire (\<^verbatim>\<open>services/fleet\<close>,
  \<^verbatim>\<open>protocols/command-sender.ts\<close>). The \<^emph>\<open>tunnel broker\<close> connects users with sensors for shells, dashboards, logs and
  diagnostics (\<^verbatim>\<open>websocket/tunnel-broker.ts\<close>). All are reached through the \<^emph>\<open>front door\<close>: client address and rate limits,
  replay protection, authentication with API keys and web tokens, scopes and tenant checks, body limits
  (\<^verbatim>\<open>middleware\<close>, \<^verbatim>\<open>api/middleware\<close>, \<^verbatim>\<open>lib\<close>), with shared state in Redis (\<^verbatim>\<open>storage/redis\<close>).

  \<^bold>\<open>Theories.\<close>
  \<^item> \<^verbatim>\<open>Prelude\<close>, \<^verbatim>\<open>Js_Text\<close>, \<^verbatim>\<open>Js_Date\<close>, \<^verbatim>\<open>Json_Text\<close>: JavaScript's \<^verbatim>\<open>Map\<close>, string, number and date conversions, JSON printing and parsing,
    and the lemmas the components share.
  \<^item> Front door: \<^verbatim>\<open>Fixed_Window\<close> and \<^verbatim>\<open>Client_Ip\<close> (\<^verbatim>\<open>middleware/rate-limiter.ts\<close>: lockout, window limiter, presets,
    trusted proxies), \<^verbatim>\<open>Replay_Protection\<close> (\<^verbatim>\<open>middleware/replay-protection.ts\<close>), \<^verbatim>\<open>Json_Depth\<close>
    (\<^verbatim>\<open>middleware/json-depth.ts\<close>), \<^verbatim>\<open>Jwt\<close> (\<^verbatim>\<open>lib/jwt.ts\<close>), \<^verbatim>\<open>Auth\<close> (\<^verbatim>\<open>api/middleware/auth.ts\<close>), \<^verbatim>\<open>Scopes\<close>
    (\<^verbatim>\<open>api/middleware/scopes.ts\<close>), \<^verbatim>\<open>Ws_Rate_Limiter\<close> (\<^verbatim>\<open>lib/ws-rate-limiter.ts\<close>).
  \<^item> Shared state: \<^verbatim>\<open>Redis_Keys\<close>, \<^verbatim>\<open>Redis_Kv\<close> (\<^verbatim>\<open>storage/redis\<close>, \<^verbatim>\<open>lib/epoch.ts\<close>), \<^verbatim>\<open>Blocklist_Store\<close>
    (\<^verbatim>\<open>services/broadcaster/blocklist-store.ts\<close>), \<^verbatim>\<open>Semaphore\<close> (\<^verbatim>\<open>lib/async-semaphore.ts\<close>), \<^verbatim>\<open>Prisma_Table\<close> (the
    database interface of the fleet services).
  \<^item> Ingestion: \<^verbatim>\<open>Signals\<close> (\<^verbatim>\<open>types/protocol.ts\<close>), \<^verbatim>\<open>Aggregator\<close> and \<^verbatim>\<open>Signal_Storage\<close> (\<^verbatim>\<open>services/aggregator\<close>),
    \<^verbatim>\<open>Sequence_Matcher\<close> and \<^verbatim>\<open>Correlator\<close> (\<^verbatim>\<open>services/correlator\<close>), \<^verbatim>\<open>Broadcaster\<close> (\<^verbatim>\<open>services/broadcaster\<close>),
    \<^verbatim>\<open>Retry_Buffer\<close> (\<^verbatim>\<open>storage/clickhouse/retry-buffer.ts\<close>).
  \<^item> Fleet: \<^verbatim>\<open>Command_Sender\<close>, \<^verbatim>\<open>Fleet_Commander\<close>, \<^verbatim>\<open>Rule_Distributor\<close>, \<^verbatim>\<open>Blue_Green\<close> and \<^verbatim>\<open>Blue_Green_Switch\<close> (\<^verbatim>\<open>rule-distributor.ts\<close>: the
    immediate, canary, scheduled and rolling strategies, and the blue/green strategy with the entry points),
    \<^verbatim>\<open>Rollout\<close> (\<^verbatim>\<open>rollout-orchestrator.ts\<close>).
  \<^item> Tunnel (\<^verbatim>\<open>websocket/tunnel-broker.ts\<close>): \<^verbatim>\<open>Tunnel_Broker\<close> (channel sessions), \<^verbatim>\<open>Tunnel_Legacy\<close> (sensor tunnels, user
    sessions, requests, authentication, heartbeats), \<^verbatim>\<open>Tunnel_Properties\<close> and \<^verbatim>\<open>Tunnel_Sessions\<close> (what holds in every run).
  \<^item> This theory: the aggregator and the correlator together.

  \<^bold>\<open>Conventions.\<close> Definitions carry the names of the functions they translate; a class is a record of its fields and
  each method a function on it. \<^verbatim>\<open>Date.now()\<close>, drawn random numbers and new ids are arguments. Numbers that the code
  keeps integral are \<open>int\<close> or \<open>nat\<close>, fractions exact rationals. Strings are lists of UTF-8 bytes. A \<^verbatim>\<open>Map\<close> or \<^verbatim>\<open>Set\<close> is an
  association list or list without duplicates in insertion order, because iteration order is observable. A
  thrown error or rejected promise is \<open>Inl\<close> or \<open>None\<close>. Code that awaits is split at its awaits wherever something
  else can run there, and the properties quantify over all interleavings of the parts (event lists, runs); what
  the outside world answers is input. Databases, Redis clients, hash functions and sockets are parameters; what
  the code relies on is stated by locales with the documented behaviour: \<open>redis\<close>, \<open>prisma_table\<close>, \<open>fleet_tables\<close>,
  \<open>scheduled_table\<close>, \<open>distributor_tables\<close>, each interpreted on an executable reference instance (\<open>ref\<close>, \<open>refb\<close>, \<open>refc\<close>,
  \<open>reff\<close>, \<open>refs\<close>, \<open>refd\<close>), so that no property is vacuous; contracts between components of the program are locales
  interpreted on the program's own definitions (\<open>window_counter\<close> by the lockout, the limiter and the trigger store,
  \<open>nonce_store\<close> by the in-memory nonce store, \<open>redis_blocklist_world\<close> by the Redis blocklist, \<open>channel_blind\<close> by the views of user sessions and of requests that the
  channel protocol leaves alone).

  \<^bold>\<open>Loops and fuel.\<close> Loops over data are structural. The JSON parser runs on fuel equal to the length of the text plus
  one, and \<^verbatim>\<open>Json_Text\<close> proves that more fuel never changes its result. Polling loops consume a list of polls and
  return \<open>None\<close> when it is exhausted while the loop would go on; termination properties state which lists are long
  enough. Loops of the code that need not end (batches of size zero) are \<open>partial_function\<close>s whose value is then
  \<open>None\<close>.

  \<^bold>\<open>What is shown.\<close> Front door: only valid credentials pass and revocation is effective; brute force and request
  rates are bounded, whatever headers a client forges; an accepted request does not pass twice; tenants are
  isolated; tokens and JSON texts read back. Ingestion: no event is lost between queue and storage outside the
  counted drops; the sharing preference is respected; exactly the shared fingerprints become campaigns; every
  queued block reaches the fleet; a failed ClickHouse write is retried or recorded. Fleet: at most one command in
  flight per sensor, each command completes at most once, commands and rules stay within their tenant under every
  strategy, rollouts stop at their failure limit, a cancelled deployment does not run. Tunnel: user sessions stay
  within their tenant, each request is settled exactly once, sessions stay within their limits. Several properties state what the
  code does where it does not do what it means to: a future-dated request passes twice, tenant salts hide every
  cross-tenant campaign, a failed command is never resent, a rollback takes the rules of another tenant, a sensor
  ends sessions of other tenants.

  \<^bold>\<open>Not modelled.\<close> The user interface, the route handlers of \<^verbatim>\<open>api/routes\<close> (glue that validates a body with a schema and
  calls a service or a query), the Zod schemas, configuration and process start-up, the SQL and ClickHouse queries
  (their content is in the database, not in the code), metrics and logging, the Redis deployment state store, and
  the services that mainly aggregate query results (hunting, intelligence, API discovery, bandwidth). The sensor
  itself, \<^verbatim>\<open>apps/synapse-pingora\<close>, is a Rust program of its own.
\<close>

section \<open>Aggregator and correlator together\<close>

lemma stored_signal_fingerprint:
  assumes "storeSignal env now x s = (s', Some e)"
    and "\<forall>w t. \<exists>p. se_findTenant env w t = Some (Some \<lparr> tn_sharingPreference = p, tn_anonymizationSalt = salt t \<rparr>)"
    and "es_anonFingerprint e = Some a"
  shows "\<exists>fp. a = se_hmac env (salt (sg_tenantId e)) fp"
proof -
  obtain p where t: "se_findTenant env (st_db s) (sg_tenantId x) =
      Some (Some \<lparr> tn_sharingPreference = p, tn_anonymizationSalt = salt (sg_tenantId x) \<rparr>)"
    using assms(2) by blast
  from storeSignal_anon [OF assms(1) t] assms(3) show ?thesis
    by (auto simp: policy_fingerprint_def split: if_splits)
qed


definition pair_env :: "(signal_row list, unit) storage_env" where
  "pair_env = (list_env None)\<lparr> se_hmac := (\<lambda>salt fp. show_int (int (length salt)) @ '':'' @ salt @ fp) \<rparr>"

lemma pair_hash_inj:
  assumes "show_int (int (length k)) @ CHR '':'' # k @ m = show_int (int (length l)) @ CHR '':'' # l @ n"
  shows "k = l \<and> m = n"
proof -
  from append_sep_inj [OF assms show_int_no_colon show_int_no_colon]
  have "show_int (int (length k)) = show_int (int (length l))" "k @ m = l @ n" by simp_all
  then show ?thesis using show_int_inj by fastforce
qed

lemma stored_example:
  "\<exists>s' e. storeSignal pair_env 0 (raw_signal t ''1.1.1.1'') (empty_store ()) = (s', Some e)"
  by (simp add: pair_env_def list_env_def storeSignal_def storeNewSignal_def empty_store_def calculateThreatScore_def Let_def)


end
